(* ===== verification/Prelude.thy ===== *)
theory Prelude
  imports Main "HOL-Library.Word" "HOL-Library.Sublist" "HOL-Library.Char_ord"
    "HOL-Library.Code_Target_Nat"
begin

text \<open>
  Shared vocabulary of the development: machine integers and byte strings,
  big- and little-endian byte encodings, the conversion between Rust strings
  and their bytes, \<open>Result\<close> values, panics as values, and the interface that
  the self-delimiting wire formats implement.
\<close>

unbundle bit_operations_syntax

named_theorems wire_simps \<open>rewrite rules that unfold wire encodings\<close>
named_theorems wf_simps \<open>definitions of well-formedness predicates\<close>

section \<open>Machine integers and byte strings\<close>

type_synonym byte = "8 word"
type_synonym bytes = "8 word list"
type_synonym u16 = "16 word"
type_synonym u32 = "32 word"
type_synonym u64 = "64 word"
type_synonym u128 = "128 word"

text \<open>\<open>to_be_bytes\<close> and \<open>from_be_bytes\<close> of Rust's unsigned integers, on naturals:
  \<open>nat_be k v\<close> is the \<open>k\<close>-byte big-endian encoding of \<open>v mod 256 ^ k\<close>.\<close>

fun nat_be :: "nat \<Rightarrow> nat \<Rightarrow> bytes" where
  "nat_be 0 v = []"
| "nat_be (Suc k) v = nat_be k (v div 256) @ [word_of_nat v]"

definition be_nat :: "bytes \<Rightarrow> nat" where
  "be_nat bs = foldl (\<lambda>a b. a * 256 + unat b) 0 bs"

definition nat_le :: "nat \<Rightarrow> nat \<Rightarrow> bytes" where
  "nat_le k v = rev (nat_be k v)"

definition le_nat :: "bytes \<Rightarrow> nat" where
  "le_nat bs = be_nat (rev bs)"

definition u16_be :: "u16 \<Rightarrow> bytes" where
  "u16_be p = nat_be 2 (unat p)"

definition be_u16 :: "byte \<Rightarrow> byte \<Rightarrow> u16" where
  "be_u16 a b = word_of_nat (be_nat [a, b])"

definition u32_be :: "u32 \<Rightarrow> bytes" where
  "u32_be p = nat_be 4 (unat p)"

definition be_u32 :: "bytes \<Rightarrow> u32" where
  "be_u32 bs = word_of_nat (be_nat bs)"

definition be_u128 :: "bytes \<Rightarrow> u128" where
  "be_u128 bs = word_of_nat (be_nat bs)"

lemma nat_be_numeral [wire_simps]:
  "nat_be (numeral k) v = nat_be (pred_numeral k) (v div 256) @ [word_of_nat v]"
  by (simp only: numeral_eq_Suc [of k] nat_be.simps)

lemma length_nat_be [simp]: "length (nat_be k v) = k"
  by (induction k arbitrary: v) auto

lemma length_nat_le [simp]: "length (nat_le k v) = k"
  by (simp add: nat_le_def)

lemma be_nat_Nil [simp]: "be_nat [] = 0"
  by (simp add: be_nat_def)

lemma be_nat_snoc [simp]: "be_nat (bs @ [b]) = be_nat bs * 256 + unat b"
  by (simp add: be_nat_def)

lemma unat_byte_lt [simp]: "unat (b :: byte) < 256"
  using unsigned_less [of b] by simp

lemma unat_byte_le [simp]: "unat (b :: byte) \<le> 255"
  using unat_byte_lt [of b] by (simp del: unat_byte_lt)

lemma unat_u16_lt [simp]: "unat (p :: u16) < 65536"
  using unsigned_less [of p] by simp

lemma unat_lt_word: "unat (w :: 'a::len word) < 2 ^ LENGTH('a)"
  by (rule unsigned_less)

lemma unat_of_nat_byte: "unat (word_of_nat v :: byte) = v mod 256"
  by (simp add: unat_of_nat)

lemma unat_inc_byte: "unat ((b :: byte) + 1) = (unat b + 1) mod 256"
proof -
  have "b + 1 = word_of_nat (unat b + 1)" by simp
  then show ?thesis by (metis unat_of_nat_byte)
qed

lemma inc_byte_zero: "(b :: byte) + 1 = 0 \<Longrightarrow> unat b = 255"
  using unat_inc_byte [of b] unat_byte_lt [of b] by (cases "unat b = 255") (auto simp del: unat_byte_lt)

lemma inc_byte_nonzero: "(b :: byte) + 1 \<noteq> 0 \<Longrightarrow> unat (b + 1) = unat b + 1"
  using unat_inc_byte [of b] unat_byte_lt [of b]
  by (cases "unat b = 255") (auto simp: unat_eq_zero simp del: unat_byte_lt)

lemma word_of_nat_byte_mod:
  assumes "a mod 256 = b mod 256"
  shows "(word_of_nat a :: byte) = word_of_nat b"
  using assms by (simp add: word_of_nat_eq_iff take_bit_eq_mod)

lemma be_nat_lt: "be_nat bs < 256 ^ length bs"
proof (induction bs rule: rev_induct)
  case (snoc b bs)
  have "be_nat bs * 256 + unat b < (be_nat bs + 1) * 256" by simp
  also have "\<dots> \<le> 256 ^ length bs * 256" using snoc by (intro mult_le_mono1) simp
  finally show ?case by simp
qed simp

lemma be_nat_nat_be: "be_nat (nat_be k v) = v mod 256 ^ k"
proof (induction k arbitrary: v)
  case (Suc k)
  have "v mod (256 * 256 ^ k) = 256 * (v div 256 mod 256 ^ k) + v mod 256"
    by (simp add: mod_mult2_eq)
  then show ?case using Suc by (simp add: unat_of_nat_byte)
qed simp

lemma nat_be_be_nat: "nat_be (length bs) (be_nat bs) = bs"
proof (induction bs rule: rev_induct)
  case (snoc b bs)
  have "(word_of_nat (be_nat bs * 256 + unat b) :: byte) = word_of_nat (unat b)"
    by (rule word_of_nat_byte_mod) simp
  with snoc show ?case by simp
qed simp

lemma le_nat_Nil [simp]: "le_nat [] = 0"
  by (simp add: le_nat_def)

lemma le_nat_Cons [simp]: "le_nat (b # bs) = unat b + 256 * le_nat bs"
  by (simp add: le_nat_def)

lemma le_nat_lt: "le_nat bs < 256 ^ length bs"
  using be_nat_lt [of "rev bs"] by (simp add: le_nat_def)

lemma nat_le_le_nat: "nat_le (length bs) (le_nat bs) = bs"
  using nat_be_be_nat [of "rev bs"] by (simp add: nat_le_def le_nat_def)

lemma le_nat_nat_le: "le_nat (nat_le k v) = v mod 256 ^ k"
  by (simp add: nat_le_def le_nat_def be_nat_nat_be)

lemma le_nat_inject: "length a = length b \<Longrightarrow> le_nat a = le_nat b \<longleftrightarrow> a = b"
  by (metis nat_le_le_nat)

lemma nat_be_inject: "length bs = k \<Longrightarrow> be_nat bs = v \<Longrightarrow> nat_be k v = bs"
  using nat_be_be_nat by blast

lemma length_u16_be [simp]: "length (u16_be p) = 2"
  by (simp add: u16_be_def)

lemma u16_be_parts: "u16_be p = [u16_be p ! 0, u16_be p ! 1]"
  by (simp add: u16_be_def wire_simps)

lemma be_u16_u16_be: "u16_be p = [a, b] \<Longrightarrow> be_u16 a b = p"
proof -
  assume "u16_be p = [a, b]"
  then have "be_nat [a, b] = unat p"
    using be_nat_nat_be [of 2 "unat p"] by (simp add: u16_be_def)
  then show ?thesis by (simp add: be_u16_def)
qed

lemma u16_be_be_u16 [simp]: "u16_be (be_u16 a b) = [a, b]"
proof -
  have "be_nat [a, b] < 65536" using be_nat_lt [of "[a, b]"] by simp
  then have "unat (be_u16 a b) = be_nat [a, b]"
    by (simp add: be_u16_def unat_of_nat)
  then show ?thesis
    unfolding u16_be_def by (intro nat_be_inject) simp_all
qed

lemma u16_be_cases:
  obtains a b where "u16_be p = [a, b]" "be_u16 a b = p"
  using u16_be_parts be_u16_u16_be by metis

lemma be_u16_nth [simp]: "be_u16 (u16_be p ! 0) (u16_be p ! 1) = p"
  using be_u16_u16_be u16_be_parts by metis

lemma be_u32_u32_be: "be_u32 (u32_be x) = x"
proof -
  have "unat x < 256 ^ 4" using unat_lt_word [of x] by simp
  then have "be_nat (u32_be x) = unat x" by (simp add: u32_be_def be_nat_nat_be)
  then show ?thesis by (simp add: be_u32_def)
qed

section \<open>Rust strings\<close>

text \<open>A Rust \<open>String\<close> is modelled as a HOL string with one character per byte,
  so that \<open>length\<close> is \<open>len()\<close> and \<open>as_bytes\<close> is the identity on the contents.\<close>

definition as_bytes :: "string \<Rightarrow> bytes" where
  "as_bytes s = map (\<lambda>c. word_of_nat (of_char c)) s"

definition of_bytes :: "bytes \<Rightarrow> string" where
  "of_bytes bs = map (\<lambda>b. char_of (unat b)) bs"

lemma as_bytes_of_bytes [simp]: "as_bytes (of_bytes bs) = bs"
  by (simp add: as_bytes_def of_bytes_def o_def unat_byte_lt)

lemma of_char_lt_256: "(of_char c :: nat) < 256"
  by simp

lemma of_bytes_as_bytes [simp]: "of_bytes (as_bytes s) = s"
  by (simp add: as_bytes_def of_bytes_def o_def unat_of_nat_byte)

lemma length_as_bytes [simp]: "length (as_bytes s) = length s"
  by (simp add: as_bytes_def)

lemma length_of_bytes [simp]: "length (of_bytes s) = length s"
  by (simp add: of_bytes_def)

lemma as_bytes_inject [simp]: "as_bytes s = as_bytes t \<longleftrightarrow> s = t"
  by (metis of_bytes_as_bytes)

lemma of_bytes_inject [simp]: "of_bytes s = of_bytes t \<longleftrightarrow> s = t"
  by (metis as_bytes_of_bytes)

lemma as_bytes_append [simp]: "as_bytes (s @ t) = as_bytes s @ as_bytes t"
  by (simp add: as_bytes_def)

lemma of_bytes_append [simp]: "of_bytes (s @ t) = of_bytes s @ of_bytes t"
  by (simp add: of_bytes_def)

lemma as_bytes_eq_Nil [simp]: "as_bytes s = [] \<longleftrightarrow> s = []"
  by (simp add: as_bytes_def)

section \<open>Results and panics\<close>

text \<open>\<open>Result\<close> is the sum type with the error on the left. A Rust panic (an
  index out of range, a failed \<open>copy_from_slice\<close>) is the value \<open>Panic\<close>.\<close>

datatype 'a rs = Ret 'a | Panic

fun rs_bind :: "'a rs \<Rightarrow> ('a \<Rightarrow> 'b rs) \<Rightarrow> 'b rs" where
  "rs_bind (Ret x) f = f x"
| "rs_bind Panic f = Panic"

definition index_rs :: "'a list \<Rightarrow> nat \<Rightarrow> 'a rs" where
  "index_rs xs i = (if i < length xs then Ret (xs ! i) else Panic)"

definition slice_rs :: "'a list \<Rightarrow> nat \<Rightarrow> nat \<Rightarrow> 'a list rs" where
  "slice_rs xs i j = (if i \<le> j \<and> j \<le> length xs then Ret (take (j - i) (drop i xs)) else Panic)"

lemma rs_bind_Panic_iff:
  "rs_bind m f = Panic \<longleftrightarrow> m = Panic \<or> (\<exists>x. m = Ret x \<and> f x = Panic)"
  by (cases m) auto

lemma rs_bind_Ret_iff: "rs_bind m f = Ret y \<longleftrightarrow> (\<exists>x. m = Ret x \<and> f x = Ret y)"
  by (cases m) auto

lemma index_rs_Ret [simp]: "i < length xs \<Longrightarrow> index_rs xs i = Ret (xs ! i)"
  by (simp add: index_rs_def)

section \<open>Slices\<close>

definition slice :: "nat \<Rightarrow> nat \<Rightarrow> 'a list \<Rightarrow> 'a list" where
  "slice i j xs = take (j - i) (drop i xs)"

lemma length_slice [simp]: "j \<le> length xs \<Longrightarrow> length (slice i j xs) = j - i"
  by (simp add: slice_def)

lemma list_4_cases:
  assumes "length xs = 4"
  obtains a b c d where "xs = [a, b, c, d]"
  using assms by (auto simp: numeral_eq_Suc length_Suc_conv)

lemma take_4_nth:
  assumes "4 \<le> length xs"
  shows "[xs ! 0, xs ! 1, xs ! 2, xs ! 3] = take 4 xs"
  using assms
  by (auto simp: numeral_eq_Suc Suc_le_length_iff)

text \<open>\<open>slice::chunks\<close> for a positive chunk size.\<close>

function chunks :: "nat \<Rightarrow> 'a list \<Rightarrow> 'a list list" where
  "chunks n xs = (if xs = [] \<or> n = 0 then [] else take n xs # chunks n (drop n xs))"
  by auto
termination
  by (relation "measure (\<lambda>(_, xs). length xs)") auto

declare chunks.simps [simp del]

lemma chunks_Nil [simp]: "chunks n [] = []"
  by (simp add: chunks.simps)

lemma concat_chunks [simp]: "0 < n \<Longrightarrow> concat (chunks n xs) = xs"
proof (induction n xs rule: chunks.induct)
  case (1 n xs)
  then show ?case by (subst chunks.simps) simp
qed

lemma chunks_bounds: "p \<in> set (chunks n xs) \<Longrightarrow> p \<noteq> [] \<and> length p \<le> n"
proof (induction n xs rule: chunks.induct)
  case (1 n xs)
  show ?case
  proof (cases "xs = [] \<or> n = 0")
    case False
    then have "p = take n xs \<or> p \<in> set (chunks n (drop n xs))"
      using 1(2) by (subst (asm) chunks.simps) simp
    then show ?thesis using False 1(1) [OF False] by auto
  qed (use 1(2) in \<open>simp add: chunks.simps\<close>)
qed

lemma chunks_single: "xs \<noteq> [] \<Longrightarrow> length xs \<le> n \<Longrightarrow> chunks n xs = [xs]"
  by (cases n; subst chunks.simps) auto

section \<open>The interface of a self-delimiting wire format\<close>

text \<open>A codec encodes the values that satisfy \<open>ok\<close>; decoding reports how many
  bytes it used. The two laws are what the stream protocols rely on: decoding
  is insensitive to what follows the encoding, and whatever is decoded is
  well formed and re-encodes to exactly the consumed bytes.\<close>

locale byte_codec =
  fixes enc :: "'a \<Rightarrow> bytes"
    and dec :: "bytes \<Rightarrow> 'e + 'a \<times> nat"
    and ok :: "'a \<Rightarrow> bool"
  assumes dec_enc: "ok x \<Longrightarrow> dec (enc x @ rest) = Inr (x, length (enc x))"
    and dec_sound: "dec b = Inr (x, n) \<Longrightarrow> ok x \<and> n \<le> length b \<and> take n b = enc x"
begin

lemma enc_inj:
  assumes "ok x" "ok y" "enc x @ r = enc y @ s"
  shows "x = y \<and> r = s"
proof -
  have "dec (enc y @ s) = Inr (x, length (enc x))"
    using dec_enc [OF assms(1), of r] assms(3) by simp
  moreover have "dec (enc y @ s) = Inr (y, length (enc y))"
    using dec_enc assms(2) by blast
  ultimately show ?thesis using assms(3) by simp
qed

lemma dec_used: "dec b = Inr (x, n) \<Longrightarrow> n = length (enc x)"
  using dec_sound by (metis length_take min.absorb2)

lemma dec_split: "dec b = Inr (x, n) \<Longrightarrow> b = enc x @ drop n b"
  using dec_sound by (metis append_take_drop_id)

lemma dec_mono: "dec b = Inr (x, n) \<Longrightarrow> dec (b @ r) = Inr (x, n)"
  by (metis append.assoc dec_enc dec_sound dec_split dec_used)

lemma dec_iff: "dec b = Inr (x, n) \<longleftrightarrow> ok x \<and> n = length (enc x) \<and> prefix (enc x) b"
  by (metis append_eq_conv_conj dec_enc dec_sound dec_split dec_used prefix_def)

end

end
