(* ===== verification/Utf8.thy ===== *)
theory Utf8
  imports Prelude
begin

text \<open>
  The parts of Rust's \<open>str\<close> that the wire formats use: UTF-8 validation
  (\<open>std::str::from_utf8\<close>), lossy conversion (\<open>String::from_utf8_lossy\<close>, which
  replaces every maximal ill-formed subsequence by U+FFFD), and ASCII case
  folding.
\<close>

section \<open>One scalar value\<close>

definition is_cont :: "byte \<Rightarrow> bool" where
  "is_cont b \<longleftrightarrow> b AND 0xC0 = 0x80"

definition safe_get :: "bytes \<Rightarrow> nat \<Rightarrow> byte" where
  "safe_get bs i = (if i < length bs then bs ! i else 0)"

text \<open>The second byte that may follow a three- or four-byte lead.\<close>

definition second_ok :: "byte \<Rightarrow> byte \<Rightarrow> bool" where
  "second_ok b c =
    (if b = 0xE0 then 0xA0 \<le> c \<and> c \<le> 0xBF
     else if b = 0xED then 0x80 \<le> c \<and> c \<le> 0x9F
     else if b = 0xF0 then 0x90 \<le> c \<and> c \<le> 0xBF
     else if b = 0xF4 then 0x80 \<le> c \<and> c \<le> 0x8F
     else 0x80 \<le> c \<and> c \<le> 0xBF)"

text \<open>\<open>utf8_next b r\<close>: is there a complete scalar value at the front of \<open>b # r\<close>,
  and how many bytes does it, or the ill-formed subsequence, take.\<close>

definition utf8_next :: "byte \<Rightarrow> bytes \<Rightarrow> bool \<times> nat" where
  "utf8_next b r =
    (if b < 0x80 then (True, 1)
     else if 0xC2 \<le> b \<and> b \<le> 0xDF then
       (if is_cont (safe_get r 0) then (True, 2) else (False, 1))
     else if 0xE0 \<le> b \<and> b \<le> 0xEF then
       (if second_ok b (safe_get r 0)
        then (if is_cont (safe_get r 1) then (True, 3) else (False, 2))
        else (False, 1))
     else if 0xF0 \<le> b \<and> b \<le> 0xF4 then
       (if second_ok b (safe_get r 0)
        then (if is_cont (safe_get r 1)
              then (if is_cont (safe_get r 2) then (True, 4) else (False, 3))
              else (False, 2))
        else (False, 1))
     else (False, 1))"

lemma utf8_next_pos: "0 < snd (utf8_next b r)"
  by (simp add: utf8_next_def)

lemma is_cont_safe_get: "is_cont (safe_get r i) \<Longrightarrow> i < length r"
  by (auto simp: is_cont_def safe_get_def split: if_splits)

lemma second_ok_safe_get: "second_ok b (safe_get r i) \<Longrightarrow> i < length r"
  by (rule ccontr) (simp add: second_ok_def safe_get_def split: if_splits)

lemma safe_get_append: "i < length r \<Longrightarrow> safe_get (r @ s) i = safe_get r i"
  by (simp add: safe_get_def nth_append)

lemma is_cont_append: "is_cont (safe_get r i) \<Longrightarrow> safe_get (r @ s) i = safe_get r i"
  by (simp add: is_cont_safe_get safe_get_append)

lemma second_ok_append: "second_ok b (safe_get r i) \<Longrightarrow> safe_get (r @ s) i = safe_get r i"
  using safe_get_append second_ok_safe_get by blast

lemma utf8_next_append:
  assumes "fst (utf8_next b r)"
  shows "utf8_next b (r @ s) = utf8_next b r"
  using assms unfolding utf8_next_def
  by (simp only: fst_conv is_cont_append second_ok_append if_True if_False simp_thms
      cong: if_cong split: if_split_asm)

lemma utf8_next_complete: "utf8_next b r = (True, n) \<Longrightarrow> n \<le> Suc (length r)"
  by (auto simp: utf8_next_def Suc_le_eq dest: is_cont_safe_get split: if_split_asm)

lemma utf8_next_le: "fst (utf8_next b r) \<Longrightarrow> snd (utf8_next b r) \<le> Suc (length r)"
  by (metis (full_types) prod.collapse utf8_next_complete)

section \<open>Validation and lossy conversion\<close>

function utf8_valid :: "bytes \<Rightarrow> bool" where
  "utf8_valid [] = True"
| "utf8_valid (b # r) =
    (fst (utf8_next b r) \<and> utf8_valid (drop (snd (utf8_next b r) - 1) r))"
  by pat_completeness auto
termination
  by (relation "measure length") (auto simp: less_Suc_eq_le)

definition from_utf8 :: "bytes \<Rightarrow> string option" where
  "from_utf8 bs = (if utf8_valid bs then Some (of_bytes bs) else None)"

function utf8_lossy :: "bytes \<Rightarrow> bytes" where
  "utf8_lossy [] = []"
| "utf8_lossy (b # r) =
    (case utf8_next b r of (ok, n) \<Rightarrow>
      (if ok then take n (b # r) else [0xEF, 0xBF, 0xBD]) @ utf8_lossy (drop (n - 1) r))"
  by pat_completeness auto
termination
  by (relation "measure length") (auto simp: less_Suc_eq_le)

definition from_utf8_lossy :: "bytes \<Rightarrow> string" where
  "from_utf8_lossy bs = of_bytes (utf8_lossy bs)"

lemma utf8_valid_append [intro]: "utf8_valid a \<Longrightarrow> utf8_valid b \<Longrightarrow> utf8_valid (a @ b)"
proof (induction a rule: utf8_valid.induct)
  case (2 c r)
  have le: "snd (utf8_next c r) - 1 \<le> length r"
    using 2(2) utf8_next_le [of c r] by simp
  show ?case using 2 le by (simp add: utf8_next_append)
qed simp

lemma safe_get_take: "i < n \<Longrightarrow> safe_get (take n r) i = safe_get r i"
  by (simp add: safe_get_def)

lemma utf8_next_take:
  assumes "utf8_next b r = (True, n)"
  shows "utf8_next b (take (n - 1) r) = (True, n)"
  using assms unfolding utf8_next_def
  by (simp add: safe_get_take del: take_eq_Nil split: if_split_asm)

lemma utf8_valid_take:
  assumes "fst (utf8_next b r)"
  shows "utf8_valid (take (snd (utf8_next b r)) (b # r))"
proof -
  obtain n where n: "utf8_next b r = (True, n)"
    using assms by (metis (full_types) prod.collapse)
  then have "0 < n" using utf8_next_pos [of b r] by simp
  then have "take n (b # r) = b # take (n - 1) r" by (cases n) auto
  then show ?thesis using n utf8_next_take [OF n] by simp
qed

lemma utf8_lossy_valid: "utf8_valid (utf8_lossy bs)"
proof (induction bs rule: utf8_lossy.induct)
  case (2 b r)
  have repl: "utf8_valid [0xEF, 0xBF, 0xBD]" by code_simp
  obtain ok n where nx: "utf8_next b r = (ok, n)" by fastforce
  have "utf8_valid (if ok then take n (b # r) else [0xEF, 0xBF, 0xBD])"
    using utf8_valid_take [of b r] repl nx by (auto split: if_splits)
  moreover have "utf8_valid (utf8_lossy (drop (n - 1) r))"
    using 2 nx by simp
  ultimately have "utf8_valid ((if ok then take n (b # r) else [0xEF, 0xBF, 0xBD])
      @ utf8_lossy (drop (n - 1) r))"
    by (rule utf8_valid_append)
  then show ?case using nx by simp
qed simp

lemma utf8_lossy_id: "utf8_valid bs \<Longrightarrow> utf8_lossy bs = bs"
proof (induction bs rule: utf8_valid.induct)
  case (2 b r)
  then show ?case
    using utf8_next_pos [of b r]
    by (cases "snd (utf8_next b r)") (auto simp: case_prod_beta)
qed simp

lemma utf8_valid_ascii: "\<forall>b \<in> set bs. b < 0x80 \<Longrightarrow> utf8_valid bs"
proof (induction bs)
  case (Cons b bs)
  then show ?case by (simp add: utf8_next_def)
qed simp

lemma from_utf8_Some_iff: "from_utf8 bs = Some s \<longleftrightarrow> utf8_valid bs \<and> s = of_bytes bs"
  by (auto simp: from_utf8_def)

lemma from_utf8_as_bytes: "utf8_valid (as_bytes s) \<Longrightarrow> from_utf8 (as_bytes s) = Some s"
  by (simp add: from_utf8_def)

section \<open>ASCII case folding\<close>

definition ascii_lower :: "char \<Rightarrow> char" where
  "ascii_lower c =
    (let n = of_char c :: nat in if 65 \<le> n \<and> n \<le> 90 then char_of (n + 32) else c)"

definition to_ascii_lowercase :: "string \<Rightarrow> string" where
  "to_ascii_lowercase s = map ascii_lower s"

definition eq_ignore_ascii_case :: "string \<Rightarrow> string \<Rightarrow> bool" where
  "eq_ignore_ascii_case s t \<longleftrightarrow> to_ascii_lowercase s = to_ascii_lowercase t"

lemma ascii_lower_idem [simp]: "ascii_lower (ascii_lower c) = ascii_lower c"
  by (auto simp: ascii_lower_def Let_def)

lemma to_ascii_lowercase_idem [simp]:
  "to_ascii_lowercase (to_ascii_lowercase s) = to_ascii_lowercase s"
  by (simp add: to_ascii_lowercase_def)

lemma length_to_ascii_lowercase [simp]: "length (to_ascii_lowercase s) = length s"
  by (simp add: to_ascii_lowercase_def)

lemma eq_ignore_ascii_case_refl [simp]: "eq_ignore_ascii_case s s"
  by (simp add: eq_ignore_ascii_case_def)

section \<open>Digits\<close>

text \<open>\<open>char::to_digit\<close>, the two-digit hexadecimal formatting \<open>{:02x}\<close> and
  \<open>u8::from_str_radix\<close> on two digits.\<close>

definition digit_val :: "nat \<Rightarrow> char \<Rightarrow> nat option" where
  "digit_val radix c =
    (let n = of_char c :: nat;
         v = (if 48 \<le> n \<and> n \<le> 57 then n - 48
              else if 97 \<le> n \<and> n \<le> 122 then n - 87
              else if 65 \<le> n \<and> n \<le> 90 then n - 55 else 36)
     in if v < radix then Some v else None)"

definition hex_digit :: "nat \<Rightarrow> char" where
  "hex_digit n = (if n < 10 then char_of (48 + n) else char_of (87 + n))"

definition hex_byte :: "byte \<Rightarrow> string" where
  "hex_byte b = [hex_digit (unat b div 16), hex_digit (unat b mod 16)]"

definition hex_pair :: "char \<Rightarrow> char \<Rightarrow> byte option" where
  "hex_pair c d =
    (case (digit_val 16 c, digit_val 16 d) of
       (Some a, Some b) \<Rightarrow> Some (word_of_nat (a * 16 + b))
     | _ \<Rightarrow> None)"

definition is_hexdigit :: "char \<Rightarrow> bool" where
  "is_hexdigit c \<longleftrightarrow> digit_val 16 c \<noteq> None"

lemma digit_val_hex_digit: "n < 16 \<Longrightarrow> digit_val 16 (hex_digit n) = Some n"
  by (auto simp: digit_val_def hex_digit_def)

lemma hex_pair_hex_byte: "hex_pair (hex_digit (unat b div 16)) (hex_digit (unat b mod 16)) = Some b"
proof -
  have "unat b div 16 < 16" using unat_byte_lt [of b] by (simp add: less_mult_imp_div_less)
  moreover have "unat b div 16 * 16 + unat b mod 16 = unat b" by simp
  ultimately show ?thesis by (simp add: hex_pair_def digit_val_hex_digit del: unat_byte_lt)
qed

lemma is_hexdigit_hex_digit: "n < 16 \<Longrightarrow> is_hexdigit (hex_digit n)"
  by (simp add: is_hexdigit_def digit_val_hex_digit)

lemma ascii_lower_hex_digit: "n < 16 \<Longrightarrow> ascii_lower (hex_digit n) = hex_digit n"
  by (auto simp: hex_digit_def ascii_lower_def Let_def)

end
