(* ===== verification/IoStream.thy ===== *)
theory IoStream
  imports Utf8
begin

text \<open>
  Byte streams and I/O errors. A connection is the bytes the peer will still
  send before it closes its side, and the bytes written to it so far. An async
  function over a stream is a function from the connection to a \<open>Result\<close> and
  the connection after it; \<open>io_bind\<close> is the \<open>?\<close> operator. Writes are taken to
  succeed; \<open>read_exact\<close> on a stream that ends early consumes what is left and
  fails as tokio's does.
\<close>

section \<open>Errors\<close>

datatype error_kind =
    InvalidData | UnexpectedEof | PermissionDenied | NotFound | TimedOut
  | Unsupported | BrokenPipe | ConnectionRefused | Other

datatype io_error = IoError error_kind string

fun error_kind_of :: "io_error \<Rightarrow> error_kind" where
  "error_kind_of (IoError k m) = k"

definition io_err :: "string \<Rightarrow> io_error" where
  "io_err msg = IoError Other msg"

definition invalid_data :: "string \<Rightarrow> io_error" where
  "invalid_data msg = IoError InvalidData msg"

definition early_eof :: io_error where
  "early_eof = IoError UnexpectedEof ''early eof''"

section \<open>Connections\<close>

record conn =
  inp :: bytes
  outp :: bytes

type_synonym 'a io = "conn \<Rightarrow> (io_error + 'a) \<times> conn"

definition io_ret :: "'a \<Rightarrow> 'a io" where
  "io_ret x c = (Inr x, c)"

definition io_throw :: "io_error \<Rightarrow> 'a io" where
  "io_throw e c = (Inl e, c)"

definition io_bind :: "'a io \<Rightarrow> ('a \<Rightarrow> 'b io) \<Rightarrow> 'b io" where
  "io_bind m f c = (case m c of (Inl e, c') \<Rightarrow> (Inl e, c') | (Inr x, c') \<Rightarrow> f x c')"

definition read_exact :: "nat \<Rightarrow> bytes io" where
  "read_exact n c =
    (if n \<le> length (inp c) then (Inr (take n (inp c)), c\<lparr>inp := drop n (inp c)\<rparr>)
     else (Inl early_eof, c\<lparr>inp := []\<rparr>))"

definition write_all :: "bytes \<Rightarrow> unit io" where
  "write_all bs c = (Inr (), c\<lparr>outp := outp c @ bs\<rparr>)"

lemma io_ret_apply [simp]: "io_ret x c = (Inr x, c)"
  by (simp add: io_ret_def)

lemma io_throw_apply [simp]: "io_throw e c = (Inl e, c)"
  by (simp add: io_throw_def)

lemma write_all_apply [simp]: "write_all bs c = (Inr (), c\<lparr>outp := outp c @ bs\<rparr>)"
  by (simp add: write_all_def)

lemma io_bind_write [simp]:
  "io_bind (write_all bs) f c = f () (c\<lparr>outp := outp c @ bs\<rparr>)"
  by (simp add: io_bind_def)

lemma io_bind_ret [simp]: "io_bind (io_ret x) f = f x"
  by (rule ext) (simp add: io_bind_def)

lemma io_bind_throw [simp]: "io_bind (io_throw e) f = io_throw e"
  by (rule ext) (simp add: io_bind_def)

lemma io_bind_assoc: "io_bind (io_bind m f) g = io_bind m (\<lambda>x. io_bind (f x) g)"
  by (rule ext) (auto simp: io_bind_def split: prod.splits sum.splits)

lemma read_exact_ok:
  "n \<le> length (inp c) \<Longrightarrow> read_exact n c = (Inr (take n (inp c)), c\<lparr>inp := drop n (inp c)\<rparr>)"
  by (simp add: read_exact_def)

lemma read_exact_eof:
  "\<not> n \<le> length (inp c) \<Longrightarrow> read_exact n c = (Inl early_eof, c\<lparr>inp := []\<rparr>)"
  by (simp add: read_exact_def)

lemma read_exact_append:
  assumes "length a = n"
  shows "read_exact n \<lparr>inp = a @ r, outp = w\<rparr> = (Inr a, \<lparr>inp = r, outp = w\<rparr>)"
  using assms by (simp add: read_exact_def)

lemma io_bind_read_append:
  assumes "length a = n"
  shows "io_bind (read_exact n) f \<lparr>inp = a @ r, outp = w\<rparr> = f a \<lparr>inp = r, outp = w\<rparr>"
  using assms by (simp add: io_bind_def read_exact_append)

lemma io_bind_Inr_iff:
  "io_bind m f c = (Inr y, c'') \<longleftrightarrow>
    (\<exists>x c'. m c = (Inr x, c') \<and> f x c' = (Inr y, c''))"
  by (auto simp: io_bind_def split: prod.splits sum.splits)

lemma read_exact_Inr_iff:
  "read_exact n c = (Inr x, c') \<longleftrightarrow>
    n \<le> length (inp c) \<and> x = take n (inp c) \<and> c' = c\<lparr>inp := drop n (inp c)\<rparr>"
  by (auto simp: read_exact_def)

lemma read_exact_split:
  "read_exact n c = (Inr x, c') \<Longrightarrow> length x = n \<and> inp c = x @ inp c' \<and> outp c' = outp c"
  by (auto simp: read_exact_Inr_iff)

lemma list_2_nth: "length x = 2 \<Longrightarrow> x = [x ! 0, x ! 1]"
  by (auto simp: numeral_eq_Suc length_Suc_conv)

lemma isl_io_bind_left: "isl (fst (m c)) \<Longrightarrow> isl (fst (io_bind m f c))"
  by (auto simp: io_bind_def split: prod.splits sum.splits)

lemma isl_io_bind_right: "(\<And>x c. isl (fst (f x c))) \<Longrightarrow> isl (fst (io_bind m f c))"
  by (auto simp: io_bind_def split: prod.splits sum.splits)

section \<open>Actions only append to the output\<close>

named_theorems grows_intros \<open>actions that only append to what was written\<close>

definition io_grows :: "'a io \<Rightarrow> bool" where
  "io_grows m \<longleftrightarrow> (\<forall>c. prefix (outp c) (outp (snd (m c))))"

lemma io_grows_ret [grows_intros]: "io_grows (io_ret x)"
  by (simp add: io_grows_def)

lemma io_grows_throw [grows_intros]: "io_grows (io_throw e)"
  by (simp add: io_grows_def)

lemma io_grows_write [grows_intros]: "io_grows (write_all bs)"
  by (simp add: io_grows_def)

lemma io_grows_read [grows_intros]: "io_grows (read_exact n)"
  by (simp add: io_grows_def read_exact_def)

lemma io_grows_bind [grows_intros]:
  assumes "io_grows m" "\<And>x. io_grows (f x)"
  shows "io_grows (io_bind m f)"
  unfolding io_grows_def
proof
  fix c
  obtain r c' where m: "m c = (r, c')" by fastforce
  then have "prefix (outp c) (outp c')" using assms(1) by (metis io_grows_def snd_conv)
  moreover have "prefix (outp c') (outp (snd (f x c')))" for x
    using assms(2) by (simp add: io_grows_def)
  ultimately show "prefix (outp c) (outp (snd (io_bind m f c)))"
    using m by (cases r) (auto simp: io_bind_def intro: prefix_order.trans)
qed

lemma io_grows_if [grows_intros]:
  "io_grows m \<Longrightarrow> io_grows m' \<Longrightarrow> io_grows (if b then m else m')"
  by simp

lemma io_grows_append: "io_grows m \<Longrightarrow> m c = (r, c') \<Longrightarrow> \<exists>out. outp c' = outp c @ out"
  unfolding io_grows_def prefix_def by (metis snd_conv)

end
