(* ===== verification/Socks5.thy ===== *)
theory Socks5
  imports IoStream
begin

text \<open>
  \<open>crates/omni-domain/src/socks5.rs\<close> and the target type of
  \<open>crates/omni-domain/src/stream.rs\<close>: SOCKS5 methods, commands and addresses,
  the address codec that most of the other protocols reuse, and the
  server-side message readers and writers.
\<close>

section \<open>Targets\<close>

datatype ip_addr = IpV4 u32 | IpV6 u128

datatype socket_addr = SocketAddr (sa_ip: ip_addr) (sa_port: u16)

datatype proxy_target = Tcp socket_addr | Domain string u16

fun target_port :: "proxy_target \<Rightarrow> u16" where
  "target_port (Tcp a) = sa_port a"
| "target_port (Domain h p) = p"

fun with_port :: "proxy_target \<Rightarrow> u16 \<Rightarrow> proxy_target" where
  "with_port (Tcp a) p = Tcp (SocketAddr (sa_ip a) p)"
| "with_port (Domain h q) p = Domain h p"

definition octets4 :: "u32 \<Rightarrow> bytes" where
  "octets4 a = nat_be 4 (unat a)"

definition octets6 :: "u128 \<Rightarrow> bytes" where
  "octets6 a = nat_be 16 (unat a)"

section \<open>Methods, commands and addresses\<close>

definition VER :: byte where
  "VER = 0x05"

datatype socks_method = NoAuth | GssApi | UserPass | NoAcceptable

fun method_u8 :: "socks_method \<Rightarrow> byte" where
  "method_u8 NoAuth = 0x00"
| "method_u8 GssApi = 0x01"
| "method_u8 UserPass = 0x02"
| "method_u8 NoAcceptable = 0xFF"

definition method_from_u8 :: "byte \<Rightarrow> socks_method option" where
  "method_from_u8 b =
    (if b = 0x00 then Some NoAuth else if b = 0x01 then Some GssApi
     else if b = 0x02 then Some UserPass else None)"

datatype command = Connect | Bind | UdpAssociate

definition command_from_u8 :: "byte \<Rightarrow> command option" where
  "command_from_u8 b =
    (if b = 0x01 then Some Connect else if b = 0x02 then Some Bind
     else if b = 0x03 then Some UdpAssociate else None)"

fun command_to_u8 :: "command \<Rightarrow> byte" where
  "command_to_u8 Connect = 0x01"
| "command_to_u8 Bind = 0x02"
| "command_to_u8 UdpAssociate = 0x03"

datatype socks5_addr = V4 bytes u16 | V6 bytes u16 | DomainName string u16

definition MAX_DOMAIN_LEN :: nat where
  "MAX_DOMAIN_LEN = 255"

fun encode_addr :: "socks5_addr \<Rightarrow> bytes" where
  "encode_addr (V4 ip p) = 0x01 # ip @ u16_be p"
| "encode_addr (V6 ip p) = 0x04 # ip @ u16_be p"
| "encode_addr (DomainName d p) = 0x03 # word_of_nat (length d) # as_bytes d @ u16_be p"

text \<open>\<open>encode_into\<close> appends to the caller's buffer.\<close>

definition encode_into :: "socks5_addr \<Rightarrow> bytes \<Rightarrow> bytes" where
  "encode_into a buf = buf @ encode_addr a"

definition decode_v4 :: "bytes \<Rightarrow> string + socks5_addr \<times> nat" where
  "decode_v4 rest =
    (if length rest < 4 then Inl ''socks5: IPv4 address too short''
     else if length rest < 6 then Inl ''socks5: IPv4 address too short''
     else Inr (V4 [rest ! 0, rest ! 1, rest ! 2, rest ! 3] (be_u16 (rest ! 4) (rest ! 5)), 7))"

definition decode_domain :: "bytes \<Rightarrow> string + socks5_addr \<times> nat" where
  "decode_domain rest =
    (if rest = [] then Inl ''socks5: domain length missing''
     else let dl = unat (rest ! 0) in
       if dl = 0 \<or> dl > MAX_DOMAIN_LEN then Inl ''socks5: domain too short''
       else if length rest < 1 + dl + 2 then Inl ''socks5: domain too short''
       else (case from_utf8 (slice 1 (1 + dl) rest) of
           None \<Rightarrow> Inl ''socks5: domain not UTF-8''
         | Some d \<Rightarrow>
             Inr (DomainName d (be_u16 (rest ! (1 + dl)) (rest ! (2 + dl))), 1 + 1 + dl + 2)))"

definition decode_v6 :: "bytes \<Rightarrow> string + socks5_addr \<times> nat" where
  "decode_v6 rest =
    (if length rest < 16 + 2 then Inl ''socks5: IPv6 address too short''
     else Inr (V6 (take 16 rest) (be_u16 (rest ! 16) (rest ! 17)), 19))"

definition decode :: "bytes \<Rightarrow> string + socks5_addr \<times> nat" where
  "decode buf =
    (if length buf < 2 then Inl ''socks5: empty address buffer''
     else let atyp = buf ! 0; rest = drop 1 buf in
       if atyp = 0x01 then decode_v4 rest
       else if atyp = 0x03 then decode_domain rest
       else if atyp = 0x04 then decode_v6 rest
       else Inl ''socks5: unknown address type'')"

fun to_proxy_target :: "socks5_addr \<Rightarrow> proxy_target" where
  "to_proxy_target (V4 ip p) = Tcp (SocketAddr (IpV4 (be_u32 ip)) p)"
| "to_proxy_target (V6 ip p) = Tcp (SocketAddr (IpV6 (be_u128 ip)) p)"
| "to_proxy_target (DomainName d p) = Domain d p"

fun from_proxy_target :: "proxy_target \<Rightarrow> socks5_addr" where
  "from_proxy_target (Tcp a) =
    (case sa_ip a of IpV4 i \<Rightarrow> V4 (octets4 i) (sa_port a) | IpV6 i \<Rightarrow> V6 (octets6 i) (sa_port a))"
| "from_proxy_target (Domain h p) = DomainName h p"

section \<open>Server-side messages\<close>

definition read_greeting :: "bytes io" where
  "read_greeting =
    io_bind (read_exact 2) (\<lambda>first.
      if first ! 0 \<noteq> VER then io_throw (invalid_data ''socks5: unsupported version'')
      else let nmethods = unat (first ! 1) in
        if nmethods = 0 then io_throw (invalid_data ''socks5: no methods offered'')
        else read_exact nmethods)"

definition write_method_choice :: "socks_method \<Rightarrow> unit io" where
  "write_method_choice m = write_all [VER, method_u8 m]"

definition read_addr :: "byte \<Rightarrow> socks5_addr io" where
  "read_addr atyp =
    (if atyp = 0x01 then
       io_bind (read_exact 6) (\<lambda>b.
         io_ret (V4 [b ! 0, b ! 1, b ! 2, b ! 3] (be_u16 (b ! 4) (b ! 5))))
     else if atyp = 0x03 then
       io_bind (read_exact 1) (\<lambda>l. let dl = unat (l ! 0) in
         io_bind (read_exact (dl + 2)) (\<lambda>b.
           io_ret (DomainName (from_utf8_lossy (take dl b)) (be_u16 (b ! dl) (b ! (dl + 1))))))
     else if atyp = 0x04 then
       io_bind (read_exact 18) (\<lambda>b.
         io_ret (V6 (take 16 b) (be_u16 (b ! 16) (b ! 17))))
     else io_throw (invalid_data ''socks5: unknown address type''))"

definition read_request :: "(command \<times> socks5_addr) io" where
  "read_request =
    io_bind (read_exact 4) (\<lambda>head.
      if head ! 0 \<noteq> VER then io_throw (invalid_data ''socks5: unsupported version'')
      else (case command_from_u8 (head ! 1) of
          None \<Rightarrow> io_throw (invalid_data ''socks5: unknown command'')
        | Some cmd \<Rightarrow> io_bind (read_addr (head ! 3)) (\<lambda>addr. io_ret (cmd, addr))))"

definition REP_SUCCEEDED :: byte where
  "REP_SUCCEEDED = 0x00"

definition REP_GENERAL_FAILURE :: byte where
  "REP_GENERAL_FAILURE = 0x01"

definition REP_COMMAND_NOT_SUPPORTED :: byte where
  "REP_COMMAND_NOT_SUPPORTED = 0x07"

definition write_reply :: "byte \<Rightarrow> socks5_addr option \<Rightarrow> unit io" where
  "write_reply rep bind =
    (let out = [VER, rep, 0x00] in
     write_all (case bind of
         Some a \<Rightarrow> encode_into a out
       | None \<Rightarrow> out @ [0x01, 0, 0, 0, 0, 0, 0]))"

section \<open>Well-formed addresses\<close>

text \<open>What the Rust types guarantee (array lengths, UTF-8 strings) together with
  the domain length the one-byte length field can carry.\<close>

fun wf_addr :: "socks5_addr \<Rightarrow> bool" where
  "wf_addr (V4 ip p) \<longleftrightarrow> length ip = 4"
| "wf_addr (V6 ip p) \<longleftrightarrow> length ip = 16"
| "wf_addr (DomainName d p) \<longleftrightarrow> utf8_valid (as_bytes d) \<and> 0 < length d \<and> length d \<le> 255"

lemma command_from_to [simp]: "command_from_u8 (command_to_u8 c) = Some c"
  by (cases c) (simp_all add: command_from_u8_def)

lemma command_to_from: "command_from_u8 b = Some c \<Longrightarrow> command_to_u8 c = b"
  by (auto simp: command_from_u8_def split: if_splits)

lemma unat_len_byte: "n \<le> 255 \<Longrightarrow> unat (word_of_nat n :: byte) = n"
  by (simp add: unat_of_nat_byte)

section \<open>The address codec\<close>

lemma decode_encode_v4:
  assumes "length ip = 4"
  shows "decode (encode_addr (V4 ip p) @ rest) = Inr (V4 ip p, 7)"
proof -
  obtain a b c d where "ip = [a, b, c, d]" using assms by (rule list_4_cases)
  then show ?thesis
    by (cases rule: u16_be_cases [of p]) (simp add: decode_def decode_v4_def)
qed

lemma decode_encode_v6:
  assumes "length ip = 16"
  shows "decode (encode_addr (V6 ip p) @ rest) = Inr (V6 ip p, 19)"
  using assms
  by (cases rule: u16_be_cases [of p]) (simp add: decode_def decode_v6_def nth_append)

lemma decode_encode_domain:
  assumes "utf8_valid (as_bytes d)" "0 < length d" "length d \<le> 255"
  shows "decode (encode_addr (DomainName d p) @ rest) = Inr (DomainName d p, length d + 4)"
  using assms
  by (cases rule: u16_be_cases [of p])
    (simp add: decode_def decode_domain_def unat_len_byte MAX_DOMAIN_LEN_def Let_def slice_def
      from_utf8_as_bytes nth_append)

lemma decode_encode_addr:
  "wf_addr a \<Longrightarrow> decode (encode_addr a @ rest) = Inr (a, length (encode_addr a))"
  by (cases a) (simp_all add: decode_encode_v4 decode_encode_v6 decode_encode_domain
      del: encode_addr.simps, simp_all)

lemma length_encode_addr: "wf_addr a \<Longrightarrow> 0 < length (encode_addr a) \<and> length (encode_addr a) \<le> 259"
  by (cases a) auto

lemma take_nth_drop_2:
  assumes "length xs = n + 2"
  shows "xs = take n xs @ [xs ! n, xs ! Suc n]"
proof -
  have "drop n xs = [xs ! n, xs ! Suc n]"
    using assms by (simp add: Cons_nth_drop_Suc [symmetric])
  then show ?thesis by (metis append_take_drop_id)
qed

lemma decode_v4_sound:
  assumes "decode_v4 rest = Inr (a, n)"
  shows "wf_addr a \<and> n \<le> Suc (length rest) \<and> take n (0x01 # rest) = encode_addr a"
proof -
  have len: "6 \<le> length rest" and n: "n = 7"
    and a: "a = V4 [rest ! 0, rest ! 1, rest ! 2, rest ! 3] (be_u16 (rest ! 4) (rest ! 5))"
    using assms by (auto simp: decode_v4_def split: if_splits)
  have "take 6 rest = take 4 rest @ [rest ! 4, rest ! 5]"
    using take_nth_drop_2 [of "take 6 rest" 4] len by (simp add: min_def)
  then show ?thesis using len n a take_4_nth [of rest] by simp
qed

lemma decode_v6_sound:
  assumes "decode_v6 rest = Inr (a, n)"
  shows "wf_addr a \<and> n \<le> Suc (length rest) \<and> take n (0x04 # rest) = encode_addr a"
proof -
  have len: "18 \<le> length rest" and n: "n = 19"
    and a: "a = V6 (take 16 rest) (be_u16 (rest ! 16) (rest ! 17))"
    using assms by (auto simp: decode_v6_def split: if_splits)
  have "take 18 rest = take 16 rest @ [rest ! 16, rest ! 17]"
    using take_nth_drop_2 [of "take 18 rest" 16] len by (simp add: min_def)
  then show ?thesis using len n a by simp
qed

lemma decode_domain_sound:
  assumes "decode_domain rest = Inr (a, n)"
  shows "wf_addr a \<and> n \<le> Suc (length rest) \<and> take n (0x03 # rest) = encode_addr a"
proof -
  define dl where "dl = unat (rest ! 0)"
  define b where "b = drop 1 rest"
  have ne: "rest \<noteq> []" and len: "1 + dl + 2 \<le> length rest" and dl: "0 < dl" "dl \<le> 255"
    and n: "n = dl + 4" and v: "utf8_valid (take dl b)"
    and a: "a = DomainName (of_bytes (take dl b)) (be_u16 (rest ! (1 + dl)) (rest ! (2 + dl)))"
    using assms
    by (auto simp: decode_domain_def Let_def dl_def b_def slice_def from_utf8_Some_iff
        MAX_DOMAIN_LEN_def split: if_splits option.splits)
  have rest: "rest = rest ! 0 # b" using ne by (cases rest) (auto simp: b_def)
  have nth: "rest ! (1 + dl) = b ! dl" "rest ! (2 + dl) = b ! Suc dl"
    by (subst rest, simp)+
  have lb: "dl + 2 \<le> length b" using len by (simp add: b_def)
  have "take (dl + 2) b = take dl b @ [b ! dl, b ! Suc dl]"
    using take_nth_drop_2 [of "take (dl + 2) b" dl] lb by (simp add: min_def)
  moreover have "word_of_nat dl = rest ! 0" by (simp add: dl_def)
  moreover have "take n (0x03 # rest) = 0x03 # rest ! 0 # take (dl + 2) b"
    by (subst rest) (simp add: n numeral_eq_Suc)
  ultimately show ?thesis
    using v a n dl lb len nth by (simp add: min_def)
qed

lemma decode_sound:
  assumes "decode b = Inr (a, n)"
  shows "wf_addr a \<and> n \<le> length b \<and> take n b = encode_addr a"
proof -
  obtain t rest where b: "b = t # rest"
    using assms by (cases b) (auto simp: decode_def)
  show ?thesis
    using assms decode_v4_sound [of rest a n] decode_v6_sound [of rest a n]
      decode_domain_sound [of rest a n]
    by (auto simp: b decode_def Let_def split: if_splits)
qed

interpretation socks5: byte_codec encode_addr decode wf_addr
  by unfold_locales (auto simp: decode_encode_addr dest: decode_sound)

lemma octets4_be_u32 [simp]: "length i = 4 \<Longrightarrow> octets4 (be_u32 i) = i"
proof -
  assume l: "length i = 4"
  then have "be_nat i < 2 ^ 32" using be_nat_lt [of i] by simp
  then show ?thesis
    using l unfolding octets4_def be_u32_def
    by (intro nat_be_inject) (simp_all add: unat_of_nat)
qed

lemma octets6_be_u128 [simp]: "length i = 16 \<Longrightarrow> octets6 (be_u128 i) = i"
proof -
  assume l: "length i = 16"
  then have "be_nat i < 2 ^ 128" using be_nat_lt [of i] by simp
  then show ?thesis
    using l unfolding octets6_def be_u128_def
    by (intro nat_be_inject) (simp_all add: unat_of_nat)
qed

lemma be_u32_octets4 [simp]: "be_u32 (octets4 a) = a"
proof -
  have "unat a < 2 ^ 32" using unsigned_less [of a] by simp
  then have "be_nat (octets4 a) = unat a"
    unfolding octets4_def by (subst be_nat_nat_be) simp
  then show ?thesis by (simp add: be_u32_def)
qed

lemma be_u128_octets6 [simp]: "be_u128 (octets6 a) = a"
proof -
  have "unat a < 2 ^ 128" using unsigned_less [of a] by simp
  then have "be_nat (octets6 a) = unat a"
    unfolding octets6_def by (subst be_nat_nat_be) simp
  then show ?thesis by (simp add: be_u128_def)
qed

lemma length_octets4 [simp]: "length (octets4 a) = 4"
  by (simp add: octets4_def)

lemma length_octets6 [simp]: "length (octets6 a) = 16"
  by (simp add: octets6_def)

lemma from_to_proxy_target: "wf_addr a \<Longrightarrow> from_proxy_target (to_proxy_target a) = a"
  by (cases a) simp_all

lemma to_from_proxy_target: "to_proxy_target (from_proxy_target t) = t"
  by (cases t rule: from_proxy_target.cases)
    (simp_all split: ip_addr.splits, (metis socket_addr.collapse)+)

section \<open>Reading requests from a stream\<close>

lemma read_addr_v4:
  assumes "length ip = 4"
  shows "read_addr 0x01 \<lparr>inp = ip @ u16_be p @ r, outp = w\<rparr> = (Inr (V4 ip p), \<lparr>inp = r, outp = w\<rparr>)"
proof -
  obtain a b c d where "ip = [a, b, c, d]" using assms by (rule list_4_cases)
  then show ?thesis
    by (cases rule: u16_be_cases [of p])
      (simp add: read_addr_def io_bind_def read_exact_def)
qed

lemma read_addr_v6:
  assumes "length ip = 16"
  shows "read_addr 0x04 \<lparr>inp = ip @ u16_be p @ r, outp = w\<rparr> = (Inr (V6 ip p), \<lparr>inp = r, outp = w\<rparr>)"
  using assms
  by (cases rule: u16_be_cases [of p])
    (simp add: read_addr_def io_bind_def read_exact_def nth_append)

lemma read_addr_domain:
  assumes "utf8_valid (as_bytes d)" "length d \<le> 255"
  shows "read_addr 0x03 \<lparr>inp = word_of_nat (length d) # as_bytes d @ u16_be p @ r, outp = w\<rparr> =
    (Inr (DomainName d p), \<lparr>inp = r, outp = w\<rparr>)"
  using assms
  by (cases rule: u16_be_cases [of p])
    (simp add: read_addr_def io_bind_def read_exact_def nth_append Let_def unat_len_byte
      from_utf8_lossy_def utf8_lossy_id)

lemma read_addr_encode:
  assumes "wf_addr a"
  shows "read_addr (hd (encode_addr a)) \<lparr>inp = tl (encode_addr a) @ r, outp = w\<rparr> =
    (Inr a, \<lparr>inp = r, outp = w\<rparr>)"
  using assms by (cases a) (simp_all add: read_addr_v4 read_addr_v6 read_addr_domain)

lemma encode_addr_Cons: "encode_addr a = hd (encode_addr a) # tl (encode_addr a)"
  by (cases a) simp_all

lemma read_request_encode:
  assumes "wf_addr a"
  shows "read_request \<lparr>inp = [VER, command_to_u8 c, rsv] @ encode_addr a @ r, outp = w\<rparr> =
    (Inr (c, a), \<lparr>inp = r, outp = w\<rparr>)"
proof -
  have "[VER, command_to_u8 c, rsv] @ encode_addr a @ r =
    [VER, command_to_u8 c, rsv, hd (encode_addr a)] @ tl (encode_addr a) @ r"
    by (subst encode_addr_Cons) simp
  moreover have "io_bind (read_addr (hd (encode_addr a))) (\<lambda>addr. io_ret (c, addr))
      \<lparr>inp = tl (encode_addr a) @ r, outp = w\<rparr> = (Inr (c, a), \<lparr>inp = r, outp = w\<rparr>)"
    by (simp add: io_bind_def read_addr_encode [OF assms])
  ultimately show ?thesis
    unfolding read_request_def by (simp only:) (subst io_bind_read_append, simp_all)
qed

end
