(* ===== verification/SocksProto.thy ===== *)
theory SocksProto
  imports Socks5
begin

text \<open>
  \<open>crates/omni-proto/src/proto/socks/mod.rs\<close>: the SOCKS5 server handshake
  (method choice, username/password subnegotiation, request and reply), the
  UDP datagram codec, and the client side (negotiation, request and the UDP
  relay task as a step function over its events).
\<close>

section \<open>Server handshake\<close>

record socks_inbound_config =
  username :: "string option"
  password :: "string option"

datatype accepted = AcceptedTcp proxy_target | AcceptedUdpAssociate

definition authenticate :: "socks_inbound_config \<Rightarrow> unit io" where
  "authenticate cfg =
    io_bind (read_exact 2) (\<lambda>hdr.
      if hdr ! 0 \<noteq> 0x01 then io_throw (io_err ''socks5: bad subnegotiation version'')
      else io_bind (read_exact (unat (hdr ! 1))) (\<lambda>ub. let user = from_utf8_lossy ub in
        io_bind (read_exact 1) (\<lambda>l. let plen = unat (l ! 0) in
          io_bind (read_exact plen) (\<lambda>pb. let pass = from_utf8_lossy pb;
              ok = (username cfg = Some user \<and> password cfg = Some pass) in
            io_bind (write_all [0x01, if ok then 0 else 1]) (\<lambda>_.
              if \<not> ok then io_throw (io_err ''socks5: authentication failed'')
              else io_ret ())))))"

definition serve_request :: "accepted io" where
  "serve_request =
    io_bind read_request (\<lambda>(cmd, addr).
      case cmd of
        Connect \<Rightarrow> io_bind (write_reply REP_SUCCEEDED (Some addr)) (\<lambda>_.
          io_ret (AcceptedTcp (to_proxy_target addr)))
      | UdpAssociate \<Rightarrow> io_ret AcceptedUdpAssociate
      | Bind \<Rightarrow> io_bind (write_reply REP_COMMAND_NOT_SUPPORTED None) (\<lambda>_.
          io_throw (io_err ''socks5: BIND not supported'')))"

definition handshake :: "socks_inbound_config \<Rightarrow> accepted io" where
  "handshake cfg =
    io_bind read_greeting (\<lambda>methods.
      let need_auth = (username cfg \<noteq> None);
          chosen = (if need_auth \<and> 0x02 \<in> set methods then Some UserPass
                    else if \<not> need_auth \<and> 0x00 \<in> set methods then Some NoAuth
                    else None) in
      case chosen of
        None \<Rightarrow> io_bind (write_method_choice NoAcceptable) (\<lambda>_.
          io_throw (io_err ''socks5: no acceptable auth method offered''))
      | Some m \<Rightarrow> io_bind (write_method_choice m) (\<lambda>_.
          io_bind (if need_auth then authenticate cfg else io_ret ()) (\<lambda>_. serve_request)))"

section \<open>UDP datagrams\<close>

definition parse_udp_packet :: "bytes \<Rightarrow> io_error + socks5_addr \<times> bytes" where
  "parse_udp_packet buf =
    (if length buf < 4 then Inl (io_err ''socks5: empty address buffer'')
     else if buf ! 0 \<noteq> 0 \<or> buf ! 1 \<noteq> 0 \<or> buf ! 2 \<noteq> 0
       then Inl (io_err ''socks5: bad UDP RSV/FRAG'')
     else (case decode (drop 3 buf) of
         Inl e \<Rightarrow> Inl (invalid_data e)
       | Inr (addr, used) \<Rightarrow>
           if length buf < 3 + used then Inl (io_err ''socks5: UDP packet truncated'')
           else Inr (addr, drop (3 + used) buf)))"

definition encode_udp_packet :: "socks5_addr \<Rightarrow> bytes \<Rightarrow> bytes" where
  "encode_udp_packet addr data = encode_into addr [0, 0, 0] @ data"

section \<open>Client\<close>

record socks_outbound_config =
  server :: string
  server_port :: u16
  cl_username :: "string option"
  cl_password :: "string option"

definition credentials_msg :: "string \<Rightarrow> string \<Rightarrow> bytes" where
  "credentials_msg u p =
    [0x01, word_of_nat (length u)] @ as_bytes u @ [word_of_nat (length p)] @ as_bytes p"

definition unwrap_or :: "string option \<Rightarrow> string \<Rightarrow> string" where
  "unwrap_or x d = (case x of Some y \<Rightarrow> y | None \<Rightarrow> d)"

definition client_methods :: "socks_outbound_config \<Rightarrow> bytes" where
  "client_methods cfg = (if cl_username cfg \<noteq> None then [0x02, 0x00] else [0x00])"

definition negotiate :: "socks_outbound_config \<Rightarrow> unit io" where
  "negotiate cfg =
    (let methods = client_methods cfg in
     io_bind (write_all [VER, word_of_nat (length methods)]) (\<lambda>_.
     io_bind (write_all methods) (\<lambda>_.
     io_bind (read_exact 2) (\<lambda>resp.
       if resp ! 0 \<noteq> VER then io_throw (io_err ''socks5: bad version in method reply'')
       else (case method_from_u8 (resp ! 1) of
           Some NoAuth \<Rightarrow> io_ret ()
         | Some UserPass \<Rightarrow>
             io_bind (write_all (credentials_msg (unwrap_or (cl_username cfg) '''')
                 (unwrap_or (cl_password cfg) ''''))) (\<lambda>_.
             io_bind (read_exact 2) (\<lambda>st.
               if st ! 1 \<noteq> 0x00 then io_throw (io_err ''socks5: authentication failed'')
               else io_ret ()))
         | _ \<Rightarrow> io_throw (io_err ''socks5: no acceptable auth method offered''))))))"

definition request :: "command \<Rightarrow> socks5_addr \<Rightarrow> socks5_addr io" where
  "request cmd addr =
    io_bind (write_all (encode_into addr [VER, command_to_u8 cmd, 0x00])) (\<lambda>_.
    io_bind (read_exact 4) (\<lambda>head.
      if head ! 1 \<noteq> REP_SUCCEEDED
      then io_throw (io_err (''socks5: connect refused rep=0x'' @ hex_byte (head ! 1)))
      else (case decode (drop 3 head) of
          Inl e \<Rightarrow> io_throw (invalid_data e)
        | Inr (bind, used) \<Rightarrow>
            if used > 4 then io_bind (read_exact (used - 4)) (\<lambda>_. io_ret bind)
            else io_ret bind)))"

text \<open>\<open>connect_tcp\<close> from the dialled connection on; the result is the stream
  positioned after the server's reply.\<close>

definition connect_tcp :: "socks_outbound_config \<Rightarrow> proxy_target \<Rightarrow> unit io" where
  "connect_tcp cfg target =
    io_bind (negotiate cfg) (\<lambda>_.
    io_bind (request Connect (from_proxy_target target)) (\<lambda>_. io_ret ()))"

fun udp_relay_port :: "socks5_addr \<Rightarrow> u16" where
  "udp_relay_port (V4 _ p) = p"
| "udp_relay_port (V6 _ p) = p"
| "udp_relay_port (DomainName _ p) = p"

text \<open>\<open>connect_udp\<close> up to the relay task, from the dialled connection on: where the datagrams go. A server that answers with the unspecified address
  means its own.\<close>

fun is_unspecified :: "ip_addr \<Rightarrow> bool" where
  "is_unspecified (IpV4 a) \<longleftrightarrow> a = 0"
| "is_unspecified (IpV6 a) \<longleftrightarrow> a = 0"

fun bind_ip :: "socks5_addr \<Rightarrow> ip_addr option" where
  "bind_ip (V4 ip _) = Some (IpV4 (be_u32 ip))"
| "bind_ip (V6 ip _) = Some (IpV6 (be_u128 ip))"
| "bind_ip (DomainName _ _) = None"

definition socks_connect_udp ::
    "io_error option \<Rightarrow> (string \<Rightarrow> u16 \<Rightarrow> io_error + socket_addr) \<Rightarrow> (socket_addr \<Rightarrow> io_error option)
     \<Rightarrow> socks_outbound_config \<Rightarrow> socket_addr io" where
  "socks_connect_udp bind_error resolve connect_error cfg =
    io_bind (negotiate cfg) (\<lambda>_.
    io_bind (request UdpAssociate (V4 [0, 0, 0, 0] 0)) (\<lambda>bind.
    case bind_ip bind of
      None \<Rightarrow> io_throw (io_err ''socks5: bad UDP relay bind address'')
    | Some ip \<Rightarrow>
    (case bind_error of
      Some e \<Rightarrow> io_throw e
    | None \<Rightarrow>
    (case resolve (server cfg) (server_port cfg) of
      Inl e \<Rightarrow> io_throw e
    | Inr sa \<Rightarrow>
        let relay_to = SocketAddr (if is_unspecified ip then sa_ip sa else ip) (udp_relay_port bind) in
        (case connect_error relay_to of Some e \<Rightarrow> io_throw e | None \<Rightarrow> io_ret relay_to)))))"

text \<open>The relay task of \<open>connect_udp\<close>: each event is one iteration of its
  \<open>select!\<close> loop; the flags say whether the channel or socket send succeeds.\<close>

datatype relay_event =
    SockRecv bytes bool | SockErr | AppSend proxy_target bytes bool | AppClosed

record relay =
  to_app :: "(proxy_target \<times> bytes) list"
  to_sock :: "bytes list"
  stopped :: bool

fun relay_step :: "relay \<Rightarrow> relay_event \<Rightarrow> relay" where
  "relay_step r (SockRecv buf app_open) =
    (if stopped r \<or> length buf < 4 then r
     else (case parse_udp_packet buf of
         Inr (addr, data) \<Rightarrow>
           if app_open then r\<lparr>to_app := to_app r @ [(to_proxy_target addr, data)]\<rparr>
           else r\<lparr>stopped := True\<rparr>
       | Inl _ \<Rightarrow> r))"
| "relay_step r SockErr = r\<lparr>stopped := True\<rparr>"
| "relay_step r (AppSend target data sock_ok) =
    (if stopped r then r
     else if sock_ok
       then r\<lparr>to_sock := to_sock r @ [encode_udp_packet (from_proxy_target target) data]\<rparr>
     else r\<lparr>stopped := True\<rparr>)"
| "relay_step r AppClosed = r\<lparr>stopped := True\<rparr>"

section \<open>The datagram codec\<close>

lemma decode_nonempty: "decode b = Inr (a, n) \<Longrightarrow> 2 \<le> length b"
  by (auto simp: decode_def split: if_splits)

lemma encode_addr_length: "wf_addr a \<Longrightarrow> 2 \<le> length (encode_addr a)"
  using decode_encode_addr [of a "[]"] decode_nonempty by fastforce

lemma parse_encode_udp:
  "wf_addr a \<Longrightarrow> parse_udp_packet (encode_udp_packet a data) = Inr (a, data)"
  using encode_addr_length [of a]
  by (auto simp: parse_udp_packet_def encode_udp_packet_def encode_into_def decode_encode_addr
      numeral_eq_Suc)

lemma parse_udp_sound:
  assumes "parse_udp_packet buf = Inr (a, data)"
  shows "wf_addr a \<and> buf = encode_udp_packet a data"
proof -
  obtain used where d: "decode (drop 3 buf) = Inr (a, used)" and data: "data = drop (3 + used) buf"
    and len: "4 \<le> length buf" and z: "buf ! 0 = 0" "buf ! 1 = 0" "buf ! 2 = 0"
    using assms by (auto simp: parse_udp_packet_def split: if_splits sum.splits)
  have "drop 3 buf = encode_addr a @ data"
    using socks5.dec_split [OF d] data by (simp add: add.commute)
  moreover have "take 3 buf = [0, 0, 0]"
    using len z by (auto simp: numeral_eq_Suc Suc_le_length_iff)
  ultimately have "buf = [0, 0, 0] @ encode_addr a @ data" by (metis append_take_drop_id)
  then show ?thesis
    using decode_sound [OF d] by (simp add: encode_udp_packet_def encode_into_def)
qed

section \<open>Handshake lemmas\<close>

lemma read_greeting_run:
  assumes "0 < length ms" "length ms \<le> 255"
  shows "read_greeting \<lparr>inp = [VER, word_of_nat (length ms)] @ ms @ r, outp = w\<rparr> =
    (Inr ms, \<lparr>inp = r, outp = w\<rparr>)"
  unfolding read_greeting_def
  by (subst io_bind_read_append) (use assms in \<open>simp_all add: unat_len_byte Let_def read_exact_append\<close>)

lemma authenticate_run:
  assumes "length u \<le> 255" "length p \<le> 255"
  shows "authenticate cfg \<lparr>inp = [0x01, word_of_nat (length u)] @ u @ [word_of_nat (length p)] @ p @ r,
      outp = w\<rparr> =
    (if username cfg = Some (from_utf8_lossy u) \<and> password cfg = Some (from_utf8_lossy p)
     then (Inr (), \<lparr>inp = r, outp = w @ [0x01, 0x00]\<rparr>)
     else (Inl (io_err ''socks5: authentication failed''), \<lparr>inp = r, outp = w @ [0x01, 0x01]\<rparr>))"
  using assms
  by (simp add: authenticate_def io_bind_def read_exact_def unat_len_byte Let_def)

lemma read_greeting_Inr:
  assumes "read_greeting c = (Inr ms, c')"
  shows "inp c = [VER, word_of_nat (length ms)] @ ms @ inp c' \<and> outp c' = outp c
    \<and> 0 < length ms \<and> length ms \<le> 255"
proof -
  obtain f c1 where f: "read_exact 2 c = (Inr f, c1)" and v: "f ! 0 = VER" "unat (f ! 1) \<noteq> 0"
    and ms: "read_exact (unat (f ! 1)) c1 = (Inr ms, c')"
    using assms by (auto simp: read_greeting_def io_bind_Inr_iff Let_def split: if_splits)
  have "f = [VER, f ! 1]" using f v read_exact_split list_2_nth by metis
  moreover have "word_of_nat (length ms) = f ! 1"
    using read_exact_split [OF ms] by simp
  moreover have "length ms \<le> 255"
    using read_exact_split [OF ms] unat_byte_lt [of "f ! 1"] by simp
  ultimately show ?thesis
    using read_exact_split [OF f] read_exact_split [OF ms] v by simp
qed

lemma authenticate_Inr:
  assumes "authenticate cfg c = (Inr u, c')"
  shows "\<exists>ub pb. inp c = [0x01, word_of_nat (length ub)] @ ub @ [word_of_nat (length pb)] @ pb @ inp c'
    \<and> username cfg = Some (from_utf8_lossy ub) \<and> password cfg = Some (from_utf8_lossy pb)
    \<and> outp c' = outp c @ [0x01, 0x00]"
proof -
  obtain h c1 ub c2 l c3 pb c4 where h: "read_exact 2 c = (Inr h, c1)" "h ! 0 = 1"
    and ub: "read_exact (unat (h ! 1)) c1 = (Inr ub, c2)"
    and l: "read_exact 1 c2 = (Inr l, c3)"
    and pb: "read_exact (unat (l ! 0)) c3 = (Inr pb, c4)"
    and ok: "username cfg = Some (from_utf8_lossy ub)" "password cfg = Some (from_utf8_lossy pb)"
    and c': "c' = c4\<lparr>outp := outp c4 @ [0x01, 0x00]\<rparr>"
    using assms
    by (auto simp: authenticate_def io_bind_Inr_iff Let_def split: if_splits)
  have "h = [1, h ! 1]" using h read_exact_split list_2_nth by metis
  moreover have "l = [l ! 0]" using read_exact_split [OF l] by (auto simp: length_Suc_conv)
  moreover have "word_of_nat (length ub) = h ! 1" "word_of_nat (length pb) = l ! 0"
    using read_exact_split [OF ub] read_exact_split [OF pb] by simp_all
  ultimately have i: "inp c = [0x01, word_of_nat (length ub)] @ ub @ [word_of_nat (length pb)] @ pb @ inp c4"
    using read_exact_split [OF h(1)] read_exact_split [OF ub] read_exact_split [OF l]
      read_exact_split [OF pb] by (metis append.assoc)
  have "outp c4 = outp c"
    using read_exact_split [OF h(1)] read_exact_split [OF ub] read_exact_split [OF l]
      read_exact_split [OF pb] by simp
  then show ?thesis using ok c' i by (intro exI [of _ ub] exI [of _ pb]) simp
qed

lemma read_addr_grows [grows_intros]: "io_grows (read_addr t)"
  unfolding read_addr_def Let_def by (intro grows_intros)

lemma read_request_grows [grows_intros]: "io_grows read_request"
  unfolding read_request_def by (intro grows_intros) (auto split: option.split intro: grows_intros)

lemma write_reply_grows [grows_intros]: "io_grows (write_reply rep bind)"
  unfolding write_reply_def Let_def by (intro grows_intros)

lemma serve_request_grows [grows_intros]: "io_grows serve_request"
  unfolding serve_request_def
  by (intro grows_intros) (auto split: command.split prod.split intro!: grows_intros)

section \<open>Properties\<close>

text \<open>Property C6: the SOCKS5 server never accepts a client without the configured
  credentials. If a username is configured and the handshake accepts, the
  client offered method 2 and sent exactly the configured username and
  password, and the server answered with method 2 and status 0.\<close>

theorem handshake_requires_credentials:
  assumes "handshake cfg c = (Inr acc, c')" "username cfg = Some user"
  shows "\<exists>ms ub pb rest out. inp c = [VER, word_of_nat (length ms)] @ ms
      @ [0x01, word_of_nat (length ub)] @ ub @ [word_of_nat (length pb)] @ pb @ rest
    \<and> 0x02 \<in> set ms \<and> from_utf8_lossy ub = user \<and> password cfg = Some (from_utf8_lossy pb)
    \<and> outp c' = outp c @ [VER, 0x02, 0x01, 0x00] @ out"
proof -
  obtain ms c1 where g: "read_greeting c = (Inr ms, c1)" and m: "0x02 \<in> set ms"
    and r: "io_bind (authenticate cfg) (\<lambda>_. serve_request) (c1\<lparr>outp := outp c1 @ [VER, 0x02]\<rparr>) = (Inr acc, c')"
    using assms
    by (auto simp: handshake_def io_bind_Inr_iff Let_def write_method_choice_def
        split: if_splits)
  from r obtain u c2 where a: "authenticate cfg (c1\<lparr>outp := outp c1 @ [VER, 0x02]\<rparr>) = (Inr u, c2)"
    and s: "serve_request c2 = (Inr acc, c')"
    by (auto simp: io_bind_Inr_iff)
  have "\<exists>out. outp c' = outp c2 @ out"
    using io_grows_append serve_request_grows s by blast
  then show ?thesis
    using read_greeting_Inr [OF g] authenticate_Inr [OF a] m assms(2) by fastforce
qed

theorem handshake_requires_credentials_witness:
  "\<exists>ms ub pb rest out.
      [0x05, 0x01, 0x02, 0x01, 0x01, 0x75, 0x01, 0x70, 0x05, 0x03, 0x00, 0x01, 1, 2, 3, 4, 0, 80] =
        [VER, word_of_nat (length ms)] @ ms
        @ [0x01, word_of_nat (length ub)] @ ub @ [word_of_nat (length pb)] @ pb @ rest
    \<and> 0x02 \<in> set ms \<and> from_utf8_lossy ub = ''u'' \<and> Some ''p'' = Some (from_utf8_lossy pb)
    \<and> [0x05, 0x02, 0x01, 0x00] = [VER, 0x02, 0x01, 0x00] @ out"
proof -
  let ?cfg = "\<lparr>username = Some ''u'', password = Some ''p''\<rparr>"
  let ?c = "\<lparr>inp = [0x05, 0x01, 0x02, 0x01, 0x01, 0x75, 0x01, 0x70, 0x05, 0x03, 0x00, 0x01, 1, 2, 3, 4, 0, 80],
    outp = []\<rparr>"
  have "handshake ?cfg ?c = (Inr AcceptedUdpAssociate, \<lparr>inp = [], outp = [0x05, 0x02, 0x01, 0x00]\<rparr>)"
    by code_simp
  from handshake_requires_credentials [OF this] show ?thesis by (simp add: VER_def)
qed

lemma serve_request_connect:
  assumes "wf_addr a"
  shows "serve_request \<lparr>inp = [VER, 0x01, rsv] @ encode_addr a @ r, outp = w\<rparr> =
    (Inr (AcceptedTcp (to_proxy_target a)),
     \<lparr>inp = r, outp = w @ [VER, REP_SUCCEEDED, 0x00] @ encode_addr a\<rparr>)"
  using read_request_encode [OF assms, of Connect rsv r w]
  by (simp add: serve_request_def io_bind_def write_reply_def encode_into_def)

text \<open>A client that offers username/password and sends the configured
  credentials followed by a CONNECT request for a well-formed address is
  accepted for exactly that target; the server writes the method choice, the
  status and a success reply echoing the address, and leaves every byte after
  the request unread.\<close>

theorem handshake_accepts_connect:
  assumes "username cfg = Some u" "password cfg = Some p"
    "utf8_valid (as_bytes u)" "utf8_valid (as_bytes p)" "length u \<le> 255" "length p \<le> 255"
    "0x02 \<in> set ms" "length ms \<le> 255" "wf_addr a"
  shows "handshake cfg \<lparr>inp = [VER, word_of_nat (length ms)] @ ms @ credentials_msg u p
      @ [VER, command_to_u8 Connect, rsv] @ encode_addr a @ r, outp = []\<rparr> =
    (Inr (AcceptedTcp (to_proxy_target a)),
     \<lparr>inp = r, outp = [VER, 0x02, 0x01, 0x00, VER, REP_SUCCEEDED, 0x00] @ encode_addr a\<rparr>)"
proof -
  have ms: "0 < length ms" using assms(7) by (cases ms) auto
  let ?req = "[VER, 0x01, rsv] @ encode_addr a @ r"
  have auth: "authenticate cfg \<lparr>inp = credentials_msg u p @ ?req, outp = [VER, 0x02]\<rparr> =
    (Inr (), \<lparr>inp = ?req, outp = [VER, 0x02, 0x01, 0x00]\<rparr>)"
    using authenticate_run [of "as_bytes u" "as_bytes p" cfg ?req "[VER, 0x02]"] assms(1-6)
    by (simp add: credentials_msg_def from_utf8_lossy_def utf8_lossy_id)
  have greet: "read_greeting \<lparr>inp = [VER, word_of_nat (length ms)] @ ms @ credentials_msg u p @ ?req, outp = []\<rparr> =
    (Inr ms, \<lparr>inp = credentials_msg u p @ ?req, outp = []\<rparr>)"
    using read_greeting_run [OF ms assms(8)] by blast
  show ?thesis
    using greet auth assms(1,7) serve_request_connect [OF assms(9), of rsv r]
    by (simp add: handshake_def io_bind_def Let_def write_method_choice_def)
qed

theorem handshake_accepts_connect_witness:
  "handshake \<lparr>username = Some ''u'', password = Some ''p''\<rparr>
     \<lparr>inp = [VER, word_of_nat (length [0x00, 0x02 :: byte])] @ [0x00, 0x02] @ credentials_msg ''u'' ''p''
      @ [VER, command_to_u8 Connect, 0x00] @ encode_addr (DomainName ''a.b'' 443) @ [0x16], outp = []\<rparr> =
    (Inr (AcceptedTcp (to_proxy_target (DomainName ''a.b'' 443))),
     \<lparr>inp = [0x16], outp = [VER, 0x02, 0x01, 0x00, VER, REP_SUCCEEDED, 0x00] @ encode_addr (DomainName ''a.b'' 443)\<rparr>)"
proof -
  have "utf8_valid (as_bytes ''u'')" "utf8_valid (as_bytes ''p'')"
    "wf_addr (DomainName ''a.b'' 443)" by code_simp+
  then show ?thesis
    using handshake_accepts_connect [of "\<lparr>username = Some ''u'', password = Some ''p''\<rparr>" "''u''" "''p''"
        "[0x00, 0x02]" "DomainName ''a.b'' 443" "0x00" "[0x16]"]
    by simp
qed

text \<open>UDP datagrams: parsing succeeds exactly on the encodings of
  well-formed addresses, and returns the address and payload that were
  encoded.\<close>

theorem parse_udp_packet_iff:
  "parse_udp_packet buf = Inr (a, data) \<longleftrightarrow> wf_addr a \<and> buf = encode_udp_packet a data"
  using parse_encode_udp parse_udp_sound by blast

lemma request_fails: "isl (fst (request cmd a c))"
  by (auto simp: request_def io_bind_def read_exact_def decode_def split: sum.splits)

lemma socks_connect_udp_fails: "isl (fst (socks_connect_udp bind_error resolve connect_error cfg c))"
  unfolding socks_connect_udp_def by (intro isl_io_bind_right isl_io_bind_left request_fails)

text \<open>The SOCKS5 outbound never succeeds. \<open>request\<close> decodes the bound
  address from the single byte \<open>head[3..]\<close>, which \<open>decode\<close> always rejects, so
  whatever the server answers \<open>connect_tcp\<close> returns an error.\<close>

theorem connect_tcp_never_succeeds: "isl (fst (connect_tcp cfg target c))"
  unfolding connect_tcp_def by (intro isl_io_bind_right isl_io_bind_left request_fails)

section \<open>The relay task\<close>

text \<open>The events that do not end the loop, and the datagram an event delivers to
  the application or to the socket.\<close>

fun live :: "relay_event \<Rightarrow> bool" where
  "live (SockRecv buf app_open) \<longleftrightarrow> app_open \<or> isl (parse_udp_packet buf)"
| "live (AppSend target data sock_ok) \<longleftrightarrow> sock_ok"
| "live _ \<longleftrightarrow> False"

fun received :: "relay_event \<Rightarrow> (proxy_target \<times> bytes) option" where
  "received (SockRecv buf app_open) =
    (case parse_udp_packet buf of
       Inr (addr, data) \<Rightarrow> Some (to_proxy_target addr, data) | Inl _ \<Rightarrow> None)"
| "received _ = None"

fun sent :: "relay_event \<Rightarrow> bytes option" where
  "sent (AppSend target data sock_ok) = Some (encode_udp_packet (from_proxy_target target) data)"
| "sent _ = None"

lemma relay_stopped: "stopped r \<Longrightarrow> foldl relay_step r es = r"
proof (induction es arbitrary: r)
  case (Cons e es)
  then show ?case by (cases e) auto
qed simp

lemma parse_udp_short: "length buf < 4 \<Longrightarrow> parse_udp_packet buf = Inl (io_err ''socks5: empty address buffer'')"
  by (simp add: parse_udp_packet_def)

lemma relay_step_live:
  assumes "\<not> stopped r"
  shows "relay_step r e =
    (if live e then r\<lparr>to_app := to_app r @ List.map_filter received [e],
                     to_sock := to_sock r @ List.map_filter sent [e]\<rparr>
     else r\<lparr>stopped := True\<rparr>)"
  using assms
  by (cases e) (auto simp: parse_udp_short List.map_filter_simps split: sum.split)

lemma relay_run:
  assumes "\<not> stopped r"
  shows "to_app (foldl relay_step r es) = to_app r @ List.map_filter received (takeWhile live es)
    \<and> to_sock (foldl relay_step r es) = to_sock r @ List.map_filter sent (takeWhile live es)"
  using assms
proof (induction es arbitrary: r)
  case (Cons e es)
  show ?case
  proof (cases "live e")
    case True
    let ?r = "relay_step r e"
    have "\<not> stopped ?r" using True Cons.prems by (simp add: relay_step_live)
    then show ?thesis
      using Cons.IH [of ?r] True Cons.prems
      by (simp add: relay_step_live List.map_filter_simps split: option.split)
  next
    case False
    then show ?thesis
      using Cons.prems by (simp add: relay_step_live relay_stopped List.map_filter_simps)
  qed
qed (simp add: List.map_filter_simps)

text \<open>The UDP relay task neither invents, reorders nor alters
  datagrams. Until the first event that ends it, the application gets exactly
  the well-formed datagrams of the socket, in order, and the socket gets
  exactly the encodings of the packets of the application, in order.\<close>

theorem relay_delivers_exactly:
  "to_app (foldl relay_step \<lparr>to_app = [], to_sock = [], stopped = False\<rparr> es)
      = List.map_filter received (takeWhile live es)
   \<and> to_sock (foldl relay_step \<lparr>to_app = [], to_sock = [], stopped = False\<rparr> es)
      = List.map_filter sent (takeWhile live es)"
  using relay_run by simp

end
