(* ===== verification/IpText.thy ===== *)
theory IpText
  imports Socks5
begin

text \<open>
  The textual syntax of Rust's standard library that configuration and routing
  rely on: \<open>str::trim\<close>, \<open>split_once\<close>, \<open>u8\<close>/\<open>u16\<close> \<open>FromStr\<close>, and the parser of
  \<open>core::net\<close> for \<open>IpAddr\<close>. A parser consumes a prefix and returns the rest;
  \<open>None\<close> means the input is left untouched (\<open>read_atomically\<close>).
\<close>

section \<open>Trimming and splitting\<close>

text \<open>The UTF-8 encodings of the code points with the property White\_Space.\<close>

definition white_space :: "string list" where
  "white_space = map of_bytes
    ([[0x09], [0x0A], [0x0B], [0x0C], [0x0D], [0x20], [0xC2, 0x85], [0xC2, 0xA0],
      [0xE1, 0x9A, 0x80]] @
     map (\<lambda>b. [0xE2, 0x80, b]) [0x80, 0x81, 0x82, 0x83, 0x84, 0x85, 0x86, 0x87, 0x88, 0x89, 0x8A,
       0xA8, 0xA9, 0xAF] @
     [[0xE2, 0x81, 0x9F], [0xE3, 0x80, 0x80]])"

definition strip_one :: "string \<Rightarrow> string option" where
  "strip_one s = map_option (\<lambda>w. drop (length w) s) (List.find (\<lambda>w. prefix w s) white_space)"

lemma white_space_nonempty: "w \<in> set white_space \<Longrightarrow> 0 < length w"
  unfolding white_space_def by (auto simp: of_bytes_def)

lemma strip_one_shorter:
  assumes "strip_one s = Some t" shows "length t < length s"
proof -
  obtain w where "List.find (\<lambda>w. prefix w s) white_space = Some w" "t = drop (length w) s"
    using assms by (auto simp: strip_one_def)
  then have "w \<in> set white_space" "prefix w s" by (auto simp: find_Some_iff)
  then have "0 < length w" "length w \<le> length s"
    using white_space_nonempty prefix_length_le by blast+
  then show ?thesis unfolding \<open>t = _\<close> length_drop by linarith
qed

function trim_start :: "string \<Rightarrow> string" where
  "trim_start s = (case strip_one s of None \<Rightarrow> s | Some t \<Rightarrow> trim_start t)"
  by auto
termination
  by (relation "measure length") (auto simp: strip_one_shorter)

definition strip_one_end :: "string \<Rightarrow> string option" where
  "strip_one_end s =
    map_option (\<lambda>w. take (length s - length w) s) (List.find (\<lambda>w. suffix w s) white_space)"

lemma strip_one_end_shorter:
  assumes "strip_one_end s = Some t" shows "length t < length s"
proof -
  obtain w where "List.find (\<lambda>w. suffix w s) white_space = Some w" "t = take (length s - length w) s"
    using assms by (auto simp: strip_one_end_def)
  then have "w \<in> set white_space" "suffix w s" by (auto simp: find_Some_iff)
  then have "0 < length w" "length w \<le> length s"
    using white_space_nonempty suffix_length_le by blast+
  then show ?thesis unfolding \<open>t = _\<close> length_take by linarith
qed

function trim_end :: "string \<Rightarrow> string" where
  "trim_end s = (case strip_one_end s of None \<Rightarrow> s | Some t \<Rightarrow> trim_end t)"
  by auto
termination
  by (relation "measure length") (auto simp: strip_one_end_shorter)

declare trim_start.simps [simp del] trim_end.simps [simp del]

definition trim :: "string \<Rightarrow> string" where
  "trim s = trim_end (trim_start s)"

definition split_once :: "char \<Rightarrow> string \<Rightarrow> (string \<times> string) option" where
  "split_once c s =
    (if c \<in> set s then Some (takeWhile (\<lambda>x. x \<noteq> c) s, tl (dropWhile (\<lambda>x. x \<noteq> c) s)) else None)"

section \<open>Unsigned integers\<close>

datatype int_error = EmptyInt | InvalidDigit | PosOverflow

fun int_error_msg :: "int_error \<Rightarrow> string" where
  "int_error_msg EmptyInt = ''cannot parse integer from empty string''"
| "int_error_msg InvalidDigit = ''invalid digit found in string''"
| "int_error_msg PosOverflow = ''number too large to fit in target type''"

fun parse_digits :: "nat \<Rightarrow> nat \<Rightarrow> string \<Rightarrow> int_error + nat" where
  "parse_digits bound acc [] = Inr acc"
| "parse_digits bound acc (c # cs) =
    (case digit_val 10 c of
       None \<Rightarrow> Inl InvalidDigit
     | Some d \<Rightarrow>
         if bound < acc * 10 + d then Inl PosOverflow else parse_digits bound (acc * 10 + d) cs)"

definition parse_uint :: "nat \<Rightarrow> string \<Rightarrow> int_error + nat" where
  "parse_uint bound s =
    (if s = [] then Inl EmptyInt
     else if s = ''+'' \<or> s = ''-'' then Inl InvalidDigit
     else parse_digits bound 0 (if hd s = CHR ''+'' then tl s else s))"

section \<open>IP addresses\<close>

text \<open>\<open>read_number\<close>: the maximal run of digits, at most \<open>max_digits\<close> of them, no
  leading zero unless allowed, and a value that fits the target type.\<close>

definition read_number :: "nat \<Rightarrow> nat \<Rightarrow> bool \<Rightarrow> nat \<Rightarrow> string \<Rightarrow> (nat \<times> string) option" where
  "read_number radix max_digits allow_zero bound s =
    (let ds = takeWhile (\<lambda>c. digit_val radix c \<noteq> None) s;
         v = foldl (\<lambda>a c. a * radix + the (digit_val radix c)) 0 ds
     in if ds = [] \<or> max_digits < length ds then None
        else if \<not> allow_zero \<and> hd ds = CHR ''0'' \<and> 1 < length ds then None
        else if bound < v then None
        else Some (v, drop (length ds) s))"

definition read_given_char :: "char \<Rightarrow> string \<Rightarrow> string option" where
  "read_given_char c s = (case s of [] \<Rightarrow> None | x # r \<Rightarrow> if x = c then Some r else None)"

definition read_separator ::
    "char \<Rightarrow> nat \<Rightarrow> (string \<Rightarrow> ('a \<times> string) option) \<Rightarrow> string \<Rightarrow> ('a \<times> string) option" where
  "read_separator sep i p s =
    (if 0 < i then (case read_given_char sep s of None \<Rightarrow> None | Some r \<Rightarrow> p r) else p s)"

definition read_octet :: "string \<Rightarrow> (nat \<times> string) option" where
  "read_octet = read_number 10 3 False 255"

definition ipv4_of_octets :: "nat \<Rightarrow> nat \<Rightarrow> nat \<Rightarrow> nat \<Rightarrow> u32" where
  "ipv4_of_octets a b c d = word_of_nat (((a * 256 + b) * 256 + c) * 256 + d)"

definition read_ipv4 :: "string \<Rightarrow> (u32 \<times> string) option" where
  "read_ipv4 s =
    (case read_separator CHR ''.'' 0 read_octet s of None \<Rightarrow> None | Some (a, s1) \<Rightarrow>
     case read_separator CHR ''.'' 1 read_octet s1 of None \<Rightarrow> None | Some (b, s2) \<Rightarrow>
     case read_separator CHR ''.'' 2 read_octet s2 of None \<Rightarrow> None | Some (c, s3) \<Rightarrow>
     case read_separator CHR ''.'' 3 read_octet s3 of None \<Rightarrow> None | Some (d, s4) \<Rightarrow>
       Some (ipv4_of_octets a b c d, s4))"

definition read_group :: "string \<Rightarrow> (nat \<times> string) option" where
  "read_group = read_number 16 4 True 65535"

text \<open>\<open>read_groups left i\<close>: \<open>left\<close> slots remain, \<open>i\<close> is the index of the next;
  the result is the groups read, whether an embedded IPv4 address ended them,
  and the rest of the input.\<close>

fun read_groups :: "nat \<Rightarrow> nat \<Rightarrow> string \<Rightarrow> nat list \<times> bool \<times> string" where
  "read_groups 0 i s = ([], False, s)"
| "read_groups (Suc left) i s =
    (case (if 0 < left then read_separator CHR '':'' i read_ipv4 s else None) of
       Some (v4, r) \<Rightarrow> ([unat v4 div 65536, unat v4 mod 65536], True, r)
     | None \<Rightarrow>
         (case read_separator CHR '':'' i read_group s of
            Some (g, r) \<Rightarrow> (case read_groups left (Suc i) r of (gs, v4, r') \<Rightarrow> (g # gs, v4, r'))
          | None \<Rightarrow> ([], False, s)))"

definition groups_ipv6 :: "nat list \<Rightarrow> u128" where
  "groups_ipv6 gs = word_of_nat (foldl (\<lambda>a g. a * 65536 + g) 0 gs)"

definition read_ipv6 :: "string \<Rightarrow> (u128 \<times> string) option" where
  "read_ipv6 s =
    (case read_groups 8 0 s of (head, head_ipv4, r) \<Rightarrow>
      if length head = 8 then Some (groups_ipv6 head, r)
      else if head_ipv4 then None
      else (case read_given_char CHR '':'' r of None \<Rightarrow> None | Some r1 \<Rightarrow>
            case read_given_char CHR '':'' r1 of None \<Rightarrow> None | Some r2 \<Rightarrow>
              (case read_groups (8 - (length head + 1)) 0 r2 of (tail, _, r3) \<Rightarrow>
                Some (groups_ipv6 (head @ replicate (8 - length head - length tail) 0 @ tail), r3))))"

definition parse_ip :: "string \<Rightarrow> ip_addr option" where
  "parse_ip s =
    (case (case read_ipv4 s of
             Some (a, r) \<Rightarrow> Some (IpV4 a, r)
           | None \<Rightarrow> (case read_ipv6 s of Some (a, r) \<Rightarrow> Some (IpV6 a, r) | None \<Rightarrow> None)) of
       Some (a, []) \<Rightarrow> Some a
     | _ \<Rightarrow> None)"

section \<open>Printing\<close>

text \<open>\<open>Display\<close> of unsigned integers and of \<open>Ipv4Addr\<close>.\<close>

fun show_nat :: "nat \<Rightarrow> string" where
  "show_nat n =
    (if n < 10 then [char_of (48 + n)] else show_nat (n div 10) @ [char_of (48 + n mod 10)])"

declare show_nat.simps [simp del]

fun show_hex :: "nat \<Rightarrow> string" where
  "show_hex n = (if n < 16 then [hex_digit n] else show_hex (n div 16) @ [hex_digit (n mod 16)])"

declare show_hex.simps [simp del]

definition show_ipv4 :: "u32 \<Rightarrow> string" where
  "show_ipv4 a =
    (let n = unat a in
     show_nat (n div 16777216) @ ''.'' @ show_nat (n div 65536 mod 256) @ ''.''
       @ show_nat (n div 256 mod 256) @ ''.'' @ show_nat (n mod 256))"

text \<open>\<open>Display\<close> of an IPv6 address: an IPv4-mapped address ends in dotted form, and the
  first longest run of at least two zero groups is written as two colons.\<close>

definition ipv6_segments :: "u128 \<Rightarrow> nat list" where
  "ipv6_segments a = map (\<lambda>i. unat a div 65536 ^ (7 - i) mod 65536) [0..<8]"

definition zero_run :: "nat list \<Rightarrow> nat \<times> nat" where
  "zero_run segs =
    fst (foldl (\<lambda>(longest, current) (i, g).
      if g = 0 then
        (let cur = (if snd current = 0 then (i, 1) else (fst current, snd current + 1))
         in (if snd cur > snd longest then cur else longest, cur))
      else (longest, (0, 0))) ((0, 0), (0, 0)) (zip [0..<length segs] segs))"

fun show_groups :: "nat list \<Rightarrow> string" where
  "show_groups [] = []"
| "show_groups [g] = show_hex g"
| "show_groups (g # gs) = show_hex g @ '':'' @ show_groups gs"

definition show_ipv6 :: "u128 \<Rightarrow> string" where
  "show_ipv6 a =
    (if unat a div 2 ^ 32 = 0xFFFF then ''::ffff:'' @ show_ipv4 (ucast a)
     else let segs = ipv6_segments a in
       case zero_run segs of (start, len) \<Rightarrow>
         if len > 1 then show_groups (take start segs) @ ''::'' @ show_groups (drop (start + len) segs)
         else show_groups segs)"

lemma parse_ip_examples:
  "parse_ip ''10.0.0.1'' = Some (IpV4 0x0A000001)"
  "parse_ip ''01.2.3.4'' = None"
  "parse_ip ''fe80::1'' = Some (IpV6 0xFE800000000000000000000000000001)"
  by code_simp+

section \<open>Printed IPv4 addresses parse back\<close>

lemma digit_val_dec: "d < 10 \<Longrightarrow> digit_val 10 (char_of (48 + d :: nat)) = Some d"
  by (simp add: digit_val_def)

lemma show_nat_induct [case_names step]:
  assumes "\<And>n. (10 \<le> n \<Longrightarrow> P (n div 10)) \<Longrightarrow> P n"
  shows "P (n :: nat)"
proof (induction n rule: less_induct)
  case (less n)
  show ?case by (rule assms) (simp add: less)
qed

lemma show_nat_digits: "\<forall>c \<in> set (show_nat n). digit_val 10 c \<noteq> None"
proof (induction n rule: show_nat_induct)
  case (step n)
  then show ?case
    using digit_val_dec [of n] digit_val_dec [of "n mod 10"]
    by (subst show_nat.simps) auto
qed

lemma show_nat_value: "foldl (\<lambda>a c. a * 10 + the (digit_val 10 c)) 0 (show_nat n) = n"
proof (induction n rule: show_nat_induct)
  case (step n)
  then show ?case
    using digit_val_dec [of n] digit_val_dec [of "n mod 10"]
    by (subst show_nat.simps) auto
qed

lemma show_nat_nonempty: "show_nat n \<noteq> []"
  by (subst show_nat.simps) simp

lemma show_nat_hd: "10 \<le> n \<Longrightarrow> hd (show_nat n) \<noteq> CHR ''0''"
proof (induction n rule: show_nat_induct)
  case (step n)
  have small: "hd (show_nat m) \<noteq> CHR ''0''" if "0 < m" "m < 10" for m
  proof -
    have "digit_val 10 (hd (show_nat m)) = Some m"
      using that digit_val_dec by (subst show_nat.simps) simp
    then show ?thesis using that by (auto simp: digit_val_def)
  qed
  have "hd (show_nat n) = hd (show_nat (n div 10))"
    using step.prems show_nat_nonempty by (subst show_nat.simps) simp
  then show ?case
    using step small [of "n div 10"] by (cases "n div 10 < 10") auto
qed

lemma show_nat_length:
  assumes "n < 256" shows "length (show_nat n) \<le> 3"
proof -
  have "length (show_nat m) = 1" if "m < 10" for m
    using that by (subst show_nat.simps) simp
  moreover from this have "length (show_nat m) \<le> 2" if "m < 100" for m
    using that by (subst show_nat.simps) (auto simp: le_SucI)
  ultimately show ?thesis
    using assms by (subst show_nat.simps) (auto simp: less_mult_imp_div_less)
qed

lemma show_nat_length_1: "n < 10 \<Longrightarrow> length (show_nat n) = 1"
  by (subst show_nat.simps) simp

lemma read_octet_show:
  assumes "n < 256" "r = [] \<or> digit_val 10 (hd r) = None"
  shows "read_octet (show_nat n @ r) = Some (n, r)"
proof -
  have tw: "takeWhile (\<lambda>c. digit_val 10 c \<noteq> None) (show_nat n @ r) = show_nat n"
    using show_nat_digits [of n] assms(2)
    by (subst takeWhile_append2) (auto simp: takeWhile_eq_Nil_iff)
  have z: "\<not> (hd (show_nat n) = CHR ''0'' \<and> 1 < length (show_nat n))"
    using show_nat_hd [of n] show_nat_length_1 [of n] by (cases "n < 10") auto
  show ?thesis
    unfolding read_octet_def read_number_def Let_def tw
    using show_nat_nonempty show_nat_length [OF assms(1)] z assms(1) show_nat_value by auto
qed

lemma read_ipv4_show_rest:
  assumes "r = [] \<or> digit_val 10 (hd r) = None"
  shows "read_ipv4 (show_ipv4 a @ r) = Some (a, r)"
proof -
  define n where "n = unat a"
  have n: "n < 4294967296" using unsigned_less [of a] by (simp add: n_def)
  have dot: "digit_val 10 CHR ''.'' = None" by code_simp
  have eq: "((n div 16777216 * 256 + n div 65536 mod 256) * 256 + n div 256 mod 256) * 256 + n mod 256 = n"
  proof -
    have "n div 16777216 = n div 65536 div 256" "n div 65536 = n div 256 div 256"
      by (simp_all add: div_mult2_eq [symmetric])
    then show ?thesis by (metis div_mult_mod_eq)
  qed
  have b: "n div 16777216 < 256" using n by (simp add: less_mult_imp_div_less)
  have a: "ipv4_of_octets (n div 16777216) (n div 65536 mod 256) (n div 256 mod 256) (n mod 256) = a"
    unfolding ipv4_of_octets_def eq by (simp add: n_def)
  show ?thesis
    unfolding show_ipv4_def Let_def n_def [symmetric]
    using b dot read_octet_show [OF b] read_octet_show [of "n mod 256" r] assms
    by (simp add: read_ipv4_def read_separator_def read_given_char_def read_octet_show a)
qed

lemma read_ipv4_show: "read_ipv4 (show_ipv4 a) = Some (a, [])"
  using read_ipv4_show_rest [of "[]" a] by simp

lemma parse_ip_show_ipv4: "parse_ip (show_ipv4 a) = Some (IpV4 a)"
  by (simp add: parse_ip_def read_ipv4_show)

section \<open>Ports and split text\<close>

definition rsplit_once :: "char \<Rightarrow> string \<Rightarrow> (string \<times> string) option" where
  "rsplit_once c s = map_option (\<lambda>(a, b). (rev b, rev a)) (split_once c (rev s))"

definition parse_port :: "string \<Rightarrow> u16 option" where
  "parse_port s = (case parse_uint 65535 s of Inr n \<Rightarrow> Some (word_of_nat n) | Inl _ \<Rightarrow> None)"

lemma parse_digits_foldl:
  assumes "\<forall>c \<in> set ds. digit_val 10 c \<noteq> None"
    and "foldl (\<lambda>a c. a * 10 + the (digit_val 10 c)) acc ds \<le> bound"
  shows "parse_digits bound acc ds = Inr (foldl (\<lambda>a c. a * 10 + the (digit_val 10 c)) acc ds)"
  using assms
proof (induction ds arbitrary: acc)
  case (Cons c ds)
  obtain d where d: "digit_val 10 c = Some d" using Cons.prems(1) by auto
  have "x \<le> foldl (\<lambda>a c. a * 10 + the (digit_val 10 c)) x ds" for x
  proof (induction ds rule: rev_induct)
    case (snoc c ds)
    then show ?case by (simp add: trans_le_add1)
  qed simp
  from this [of "acc * 10 + d"] show ?case using Cons d by simp
qed simp

lemma show_nat_hd_digit: "digit_val 10 (hd (show_nat n)) \<noteq> None"
  using show_nat_digits [of n] show_nat_nonempty [of n] by (meson hd_in_set)

lemma parse_uint_show_nat: "n \<le> bound \<Longrightarrow> parse_uint bound (show_nat n) = Inr n"
proof -
  assume "n \<le> bound"
  then have "parse_digits bound 0 (show_nat n) = Inr n"
    using parse_digits_foldl [OF show_nat_digits, of 0 n bound] show_nat_value [of n] by simp
  moreover have "hd (show_nat n) \<noteq> CHR ''+''" "hd (show_nat n) \<noteq> CHR ''-''"
    using show_nat_hd_digit [of n] by (auto simp: digit_val_def)
  ultimately show ?thesis using show_nat_nonempty [of n] by (auto simp: parse_uint_def)
qed

lemma parse_port_show: "parse_port (show_nat (unat p)) = Some p"
  using parse_uint_show_nat [of "unat p" 65535] unat_u16_lt [of p]
  by (simp add: parse_port_def del: unat_u16_lt)

lemma colon_not_in_show_nat: "CHR '':'' \<notin> set (show_nat n)"
  using show_nat_digits [of n] by (auto simp: digit_val_def)

lemma split_once_first: "c \<notin> set s \<Longrightarrow> split_once c (s @ c # t) = Some (s, t)"
  by (induction s) (auto simp: split_once_def)

lemma rsplit_once_last: "c \<notin> set t \<Longrightarrow> rsplit_once c (s @ c # t) = Some (s, t)"
  using split_once_first [of c "rev t" "rev s"] by (simp add: rsplit_once_def)

definition plain :: "char \<Rightarrow> bool" where
  "plain c \<longleftrightarrow> digit_val 10 c \<noteq> None \<or> c = CHR ''.''"

lemma show_nat_plain: "list_all plain (show_nat n)"
  using show_nat_digits [of n] by (auto simp: list_all_iff plain_def)

lemma show_ipv4_plain: "list_all plain (show_ipv4 a)"
  using show_nat_plain by (simp add: show_ipv4_def Let_def plain_def)

fun split_char :: "char \<Rightarrow> string \<Rightarrow> string list" where
  "split_char c [] = [[]]"
| "split_char c (x # xs) =
    (if x = c then [] # split_char c xs
     else (case split_char c xs of [] \<Rightarrow> [[x]] | y # ys \<Rightarrow> (x # y) # ys))"

lemma split_char_append:
  "c \<notin> set s \<Longrightarrow> split_char c (s @ c # t) = s # split_char c t"
  by (induction s) auto

lemma split_char_last: "c \<notin> set s \<Longrightarrow> split_char c s = [s]"
  by (induction s) auto

end
