(* ===== verification/Matching.thy ===== *)
theory Matching
  imports IpText
begin

text \<open>
  \<open>crates/omni-domain/src/matching\<close>: domain, address and port matchers
  (\<open>ir.rs\<close>), the rule syntax and its compilation (\<open>ast.rs\<close>) and the compiled
  rule (\<open>compiler.rs\<close>). Regular expressions come from the \<open>regex\<close> crate: their
  type is a type variable, \<open>Regex::new\<close> and \<open>is_match\<close> are parameters. The geo
  database is the trait object \<open>GeoLookup\<close>, a record of two functions.
\<close>

section \<open>Domains\<close>

datatype 're domain_pattern = Full string | Suffix string | Keyword string | Regex 're

definition suffix_matches :: "string \<Rightarrow> string \<Rightarrow> bool" where
  "suffix_matches s d \<longleftrightarrow> d = s \<or> suffix (CHR ''.'' # s) d"

fun pattern_matches :: "('re \<Rightarrow> string \<Rightarrow> bool) \<Rightarrow> 're domain_pattern \<Rightarrow> string \<Rightarrow> bool" where
  "pattern_matches is_match (Full f) domain \<longleftrightarrow> to_ascii_lowercase domain = f"
| "pattern_matches is_match (Suffix s) domain \<longleftrightarrow> suffix_matches s (to_ascii_lowercase domain)"
| "pattern_matches is_match (Keyword k) domain \<longleftrightarrow> sublist k (to_ascii_lowercase domain)"
| "pattern_matches is_match (Regex r) domain \<longleftrightarrow> is_match r (to_ascii_lowercase domain)"

record 're domain_matcher =
  full :: "string set"
  dsuffix :: "string list"
  keyword :: "string list"
  regex :: "'re list"

definition domain_new :: "'re domain_matcher" where
  "domain_new = \<lparr>full = {}, dsuffix = [], keyword = [], regex = []\<rparr>"

fun domain_insert :: "'re domain_matcher \<Rightarrow> 're domain_pattern \<Rightarrow> 're domain_matcher" where
  "domain_insert m (Full s) = m\<lparr>full := insert (to_ascii_lowercase s) (full m)\<rparr>"
| "domain_insert m (Suffix s) = m\<lparr>dsuffix := dsuffix m @ [to_ascii_lowercase s]\<rparr>"
| "domain_insert m (Keyword k) = m\<lparr>keyword := keyword m @ [to_ascii_lowercase k]\<rparr>"
| "domain_insert m (Regex r) = m\<lparr>regex := regex m @ [r]\<rparr>"

definition domain_is_empty :: "'re domain_matcher \<Rightarrow> bool" where
  "domain_is_empty m \<longleftrightarrow> full m = {} \<and> dsuffix m = [] \<and> keyword m = [] \<and> regex m = []"

definition domain_matches :: "('re \<Rightarrow> string \<Rightarrow> bool) \<Rightarrow> 're domain_matcher \<Rightarrow> string \<Rightarrow> bool" where
  "domain_matches is_match m domain =
    (let d = to_ascii_lowercase domain in
     if d \<in> full m then True
     else if list_ex (\<lambda>s. suffix_matches s d) (dsuffix m) then True
     else if list_ex (\<lambda>k. sublist k d) (keyword m) then True
     else list_ex (\<lambda>r. is_match r d) (regex m))"

section \<open>Addresses\<close>

record ip_matcher =
  v4 :: "(u32 \<times> byte) list"
  v6 :: "(u128 \<times> byte) list"

definition cidr_parts :: "string \<Rightarrow> string \<times> (int_error + nat)" where
  "cidr_parts c =
    (case split_once CHR ''/'' c of
       Some (a, l) \<Rightarrow> (a, parse_uint 255 l)
     | None \<Rightarrow> (c, Inr 255))"

definition add_cidr :: "ip_matcher \<Rightarrow> string \<Rightarrow> string + ip_matcher" where
  "add_cidr m c =
    (case cidr_parts c of (addr, len) \<Rightarrow>
      case parse_ip addr of
        Some (IpV4 a) \<Rightarrow>
          (case len of
             Inl e \<Rightarrow> Inl (''invalid prefix in '' @ c @ '': '' @ int_error_msg e)
           | Inr l \<Rightarrow>
               if l > 32 then Inl (''invalid ipv4 prefix length in '' @ c)
               else Inr (m\<lparr>v4 := v4 m @ [(a, word_of_nat l)]\<rparr>))
      | Some (IpV6 a) \<Rightarrow>
          (case len of
             Inl e \<Rightarrow> Inl (''invalid prefix in '' @ c @ '': '' @ int_error_msg e)
           | Inr l \<Rightarrow>
               if l > 128 then Inl (''invalid ipv6 prefix length in '' @ c)
               else Inr (m\<lparr>v6 := v6 m @ [(a, word_of_nat l)]\<rparr>))
      | None \<Rightarrow> Inl (''invalid cidr '' @ c @ '': invalid IP address syntax''))"

fun add_cidrs :: "ip_matcher \<Rightarrow> string list \<Rightarrow> string + ip_matcher" where
  "add_cidrs m [] = Inr m"
| "add_cidrs m (c # cs) = (case add_cidr m c of Inl e \<Rightarrow> Inl e | Inr m' \<Rightarrow> add_cidrs m' cs)"

definition from_cidrs :: "string list \<Rightarrow> string + ip_matcher" where
  "from_cidrs cidrs = add_cidrs \<lparr>v4 = [], v6 = []\<rparr> cidrs"

definition mask4 :: "u32 \<Rightarrow> u32 \<Rightarrow> byte \<Rightarrow> bool" where
  "mask4 a n len =
    (if len = 0 then True
     else let m = push_bit (32 - unat len) (- 1) in (a AND m) = (n AND m))"

definition mask6 :: "u128 \<Rightarrow> u128 \<Rightarrow> byte \<Rightarrow> bool" where
  "mask6 a n len =
    (if len = 0 then True
     else let m = push_bit (128 - unat len) (- 1) in (a AND m) = (n AND m))"

fun ip_matches :: "ip_matcher \<Rightarrow> ip_addr \<Rightarrow> bool" where
  "ip_matches m (IpV4 a) = list_ex (\<lambda>(n, l). mask4 a n l) (v4 m)"
| "ip_matches m (IpV6 a) = list_ex (\<lambda>(n, l). mask6 a n l) (v6 m)"

definition ip_is_empty :: "ip_matcher \<Rightarrow> bool" where
  "ip_is_empty m \<longleftrightarrow> v4 m = [] \<and> v6 m = []"

section \<open>Ports\<close>

record port_matcher =
  exact :: "u16 set"
  ranges :: "(u16 \<times> u16) list"

definition port_new :: port_matcher where
  "port_new = \<lparr>exact = {}, ranges = []\<rparr>"

definition insert_port :: "port_matcher \<Rightarrow> u16 \<Rightarrow> port_matcher" where
  "insert_port m p = m\<lparr>exact := insert p (exact m)\<rparr>"

definition insert_range :: "port_matcher \<Rightarrow> u16 \<times> u16 \<Rightarrow> port_matcher" where
  "insert_range m r = m\<lparr>ranges := ranges m @ [r]\<rparr>"

definition port_is_empty :: "port_matcher \<Rightarrow> bool" where
  "port_is_empty m \<longleftrightarrow> exact m = {} \<and> ranges m = []"

definition port_matches :: "port_matcher \<Rightarrow> u16 \<Rightarrow> bool" where
  "port_matches m p =
    (if p \<in> exact m then True else list_ex (\<lambda>(a, b). p \<ge> a \<and> p \<le> b) (ranges m))"

section \<open>Compiled rules\<close>

record geo_lookup =
  geoip_contains :: "string \<Rightarrow> ip_addr \<Rightarrow> bool"
  geosite_matches :: "string \<Rightarrow> string \<Rightarrow> bool"

record 're compiled_rule =
  domains :: "'re domain_matcher"
  ips :: ip_matcher
  geoip :: "string list"
  geosite :: "string list"
  ports :: port_matcher
  inbound_tags :: "string list"
  cr_has_criteria :: bool

definition opt_test :: "('a \<Rightarrow> bool) \<Rightarrow> 'a option \<Rightarrow> bool" where
  "opt_test p x = (case x of Some y \<Rightarrow> p y | None \<Rightarrow> False)"

definition rule_matches ::
    "('re \<Rightarrow> string \<Rightarrow> bool) \<Rightarrow> 're compiled_rule \<Rightarrow> string option \<Rightarrow> ip_addr option \<Rightarrow> u16
     \<Rightarrow> string option \<Rightarrow> geo_lookup \<Rightarrow> bool" where
  "rule_matches is_match r host ip p inbound_tag geo =
    (if \<not> cr_has_criteria r then True
     else if inbound_tags r \<noteq> [] \<and> \<not> opt_test (\<lambda>t. list_ex (\<lambda>x. x = t) (inbound_tags r)) inbound_tag
       then False
     else if \<not> port_is_empty (ports r) \<and> \<not> port_matches (ports r) p then False
     else if \<not> domain_is_empty (domains r) \<and> \<not> opt_test (domain_matches is_match (domains r)) host
       then False
     else if geosite r \<noteq> [] \<and> \<not> opt_test (\<lambda>h. list_ex (\<lambda>c. geosite_matches geo c h) (geosite r)) host
       then False
     else if \<not> ip_is_empty (ips r) \<and> \<not> opt_test (ip_matches (ips r)) ip then False
     else if geoip r \<noteq> [] \<and> \<not> opt_test (\<lambda>i. list_ex (\<lambda>c. geoip_contains geo c i) (geoip r)) ip
       then False
     else True)"

definition needs_ip :: "'re compiled_rule \<Rightarrow> bool" where
  "needs_ip r \<longleftrightarrow> \<not> ip_is_empty (ips r) \<or> geoip r \<noteq> []"

section \<open>Rule syntax and compilation\<close>

record route_rule_ast =
  a_domain_suffix :: "string list"
  a_domain_keyword :: "string list"
  a_domain_regex :: "string list"
  a_ip_cidr :: "string list"
  a_geoip :: "string list"
  a_geosite :: "string list"
  a_ports :: "u16 list"
  a_port_ranges :: "(u16 \<times> u16) list"
  a_inbound_tags :: "string list"

definition has_criteria :: "route_rule_ast \<Rightarrow> bool" where
  "has_criteria a \<longleftrightarrow>
    \<not> (a_domain_suffix a = [] \<and> a_domain_keyword a = [] \<and> a_domain_regex a = []
       \<and> a_ip_cidr a = [] \<and> a_geoip a = [] \<and> a_geosite a = [] \<and> a_ports a = []
       \<and> a_port_ranges a = [] \<and> a_inbound_tags a = [])"

definition validate_domain_item :: "string \<Rightarrow> string + unit" where
  "validate_domain_item d =
    (if trim d = [] then Inl ''route rule domain entry is empty or whitespace-only'' else Inr ())"

fun add_suffixes :: "'re domain_matcher \<Rightarrow> string list \<Rightarrow> string + 're domain_matcher" where
  "add_suffixes m [] = Inr m"
| "add_suffixes m (d # ds) =
    (case validate_domain_item d of
       Inl e \<Rightarrow> Inl e
     | Inr _ \<Rightarrow> add_suffixes (domain_insert m (Suffix (to_ascii_lowercase d))) ds)"

fun add_keywords :: "'re domain_matcher \<Rightarrow> string list \<Rightarrow> string + 're domain_matcher" where
  "add_keywords m [] = Inr m"
| "add_keywords m (d # ds) =
    (if trim d = [] then Inl ''route rule[i].domain_keyword[j] is empty or whitespace-only''
     else add_keywords (domain_insert m (Keyword (to_ascii_lowercase d))) ds)"

fun add_regexes ::
    "(string \<Rightarrow> string + 're) \<Rightarrow> 're domain_matcher \<Rightarrow> string list \<Rightarrow> string + 're domain_matcher" where
  "add_regexes regex_new m [] = Inr m"
| "add_regexes regex_new m (r # rs) =
    (case regex_new r of
       Inl e \<Rightarrow> Inl (''regex.compile: regex pattern compilation failed: '' @ e)
     | Inr re \<Rightarrow> add_regexes regex_new (domain_insert m (Regex re)) rs)"

definition compile :: "(string \<Rightarrow> string + 're) \<Rightarrow> route_rule_ast \<Rightarrow> string + 're compiled_rule" where
  "compile regex_new a =
    (case add_suffixes domain_new (a_domain_suffix a) of Inl e \<Rightarrow> Inl e | Inr d1 \<Rightarrow>
     case add_keywords d1 (a_domain_keyword a) of Inl e \<Rightarrow> Inl e | Inr d2 \<Rightarrow>
     case add_regexes regex_new d2 (a_domain_regex a) of Inl e \<Rightarrow> Inl e | Inr d3 \<Rightarrow>
     case from_cidrs (a_ip_cidr a) of Inl e \<Rightarrow> Inl e | Inr im \<Rightarrow>
       Inr \<lparr>domains = d3, ips = im, geoip = a_geoip a, geosite = a_geosite a,
         ports = foldl insert_range (foldl insert_port port_new (a_ports a)) (a_port_ranges a),
         inbound_tags = a_inbound_tags a, cr_has_criteria = has_criteria a\<rparr>)"

section \<open>What a matcher accepts\<close>

lemma and_high_mask_eq_iff:
  fixes a n :: "'a::len word"
  assumes "k \<le> LENGTH('a)"
  shows "a AND NOT (mask k) = n AND NOT (mask k) \<longleftrightarrow> drop_bit k a = drop_bit k n"
proof
  assume *: "a AND NOT (mask k) = n AND NOT (mask k)"
  show "drop_bit k a = drop_bit k n"
  proof (rule bit_eqI)
    fix i
    have "bit (a AND NOT (mask k)) (k + i) = bit (n AND NOT (mask k)) (k + i)"
      using * by simp
    then show "bit (drop_bit k a) i = bit (drop_bit k n) i"
      by (auto simp: bit_simps dest: bit_imp_le_length)
  qed
next
  assume *: "drop_bit k a = drop_bit k n"
  show "a AND NOT (mask k) = n AND NOT (mask k)"
  proof (rule bit_eqI)
    fix i
    have "bit (drop_bit k a) (i - k) = bit (drop_bit k n) (i - k)" using * by simp
    then show "bit (a AND NOT (mask k)) i = bit (n AND NOT (mask k)) i"
      by (auto simp: bit_simps)
  qed
qed

lemma drop_bit_eq_iff_div:
  fixes a n :: "'a::len word"
  shows "drop_bit k a = drop_bit k n \<longleftrightarrow> unat a div 2 ^ k = unat n div 2 ^ k"
  by (metis drop_bit_eq_div unat_drop_bit_eq word_eq_iff_unsigned)

text \<open>\<open>in_net w a n l\<close>: the addresses agree on their \<open>l\<close> leading bits out of \<open>w\<close>.\<close>

definition in_net :: "nat \<Rightarrow> nat \<Rightarrow> nat \<Rightarrow> nat \<Rightarrow> bool" where
  "in_net w a n l \<longleftrightarrow> a div 2 ^ (w - l) = n div 2 ^ (w - l)"

lemma mask4_in_net: "unat l \<le> 32 \<Longrightarrow> mask4 a n l \<longleftrightarrow> in_net 32 (unat a) (unat n) (unat l)"
  using unat_lt_word [of a] unat_lt_word [of n]
  by (auto simp: mask4_def in_net_def and_high_mask_eq_iff drop_bit_eq_iff_div Let_def)

lemma mask6_in_net: "unat l \<le> 128 \<Longrightarrow> mask6 a n l \<longleftrightarrow> in_net 128 (unat a) (unat n) (unat l)"
  using unat_lt_word [of a] unat_lt_word [of n]
  by (auto simp: mask6_def in_net_def and_high_mask_eq_iff drop_bit_eq_iff_div Let_def)

text \<open>The declarative meaning of one CIDR entry and of a whole rule.\<close>

fun cidr_contains :: "string \<Rightarrow> ip_addr \<Rightarrow> bool" where
  "cidr_contains c (IpV4 a) \<longleftrightarrow>
    (case (parse_ip (fst (cidr_parts c)), snd (cidr_parts c)) of
       (Some (IpV4 n), Inr l) \<Rightarrow> in_net 32 (unat a) (unat n) l
     | _ \<Rightarrow> False)"
| "cidr_contains c (IpV6 a) \<longleftrightarrow>
    (case (parse_ip (fst (cidr_parts c)), snd (cidr_parts c)) of
       (Some (IpV6 n), Inr l) \<Rightarrow> in_net 128 (unat a) (unat n) l
     | _ \<Rightarrow> False)"

lemma unat_of_nat_le_255: "l \<le> 255 \<Longrightarrow> unat (word_of_nat l :: byte) = l"
  by (simp add: unat_of_nat_byte)

lemma add_cidr_matches:
  assumes "add_cidr m c = Inr m'"
  shows "ip_matches m' i \<longleftrightarrow> ip_matches m i \<or> cidr_contains c i"
  using assms
  by (cases i) (auto simp: add_cidr_def mask4_in_net mask6_in_net unat_of_nat_le_255
      split: prod.splits option.splits ip_addr.splits sum.splits if_splits)

lemma add_cidr_nonempty: "add_cidr m c = Inr m' \<Longrightarrow> \<not> ip_is_empty m'"
  by (auto simp: add_cidr_def ip_is_empty_def
      split: prod.splits option.splits ip_addr.splits sum.splits if_splits)

lemma add_cidrs_matches:
  "add_cidrs m cs = Inr m' \<Longrightarrow> ip_matches m' i \<longleftrightarrow> ip_matches m i \<or> (\<exists>c \<in> set cs. cidr_contains c i)"
  by (induction cs arbitrary: m) (auto simp: add_cidr_matches split: sum.splits)

lemma add_cidrs_empty:
  "add_cidrs m cs = Inr m' \<Longrightarrow> ip_is_empty m' \<longleftrightarrow> ip_is_empty m \<and> cs = []"
  by (induction cs arbitrary: m) (auto dest: add_cidr_nonempty split: sum.splits)

lemma from_cidrs_matches:
  assumes "from_cidrs cs = Inr m"
  shows "ip_matches m i \<longleftrightarrow> (\<exists>c \<in> set cs. cidr_contains c i)" "ip_is_empty m \<longleftrightarrow> cs = []"
proof -
  have "\<not> ip_matches \<lparr>v4 = [], v6 = []\<rparr> i" by (cases i) auto
  then show "ip_matches m i \<longleftrightarrow> (\<exists>c \<in> set cs. cidr_contains c i)"
    using assms add_cidrs_matches by (auto simp: from_cidrs_def)
  show "ip_is_empty m \<longleftrightarrow> cs = []"
    using assms add_cidrs_empty by (fastforce simp: from_cidrs_def ip_is_empty_def)
qed

text \<open>Domains: a matcher built by inserting patterns accepts what one of the
  (lower-cased) patterns accepts.\<close>

fun lower_pattern :: "'re domain_pattern \<Rightarrow> 're domain_pattern" where
  "lower_pattern (Full s) = Full (to_ascii_lowercase s)"
| "lower_pattern (Suffix s) = Suffix (to_ascii_lowercase s)"
| "lower_pattern (Keyword s) = Keyword (to_ascii_lowercase s)"
| "lower_pattern (Regex r) = Regex r"

lemma domain_matches_insert:
  "domain_matches im (domain_insert m p) d \<longleftrightarrow>
    domain_matches im m d \<or> pattern_matches im (lower_pattern p) d"
  by (cases p) (auto simp: domain_matches_def Let_def)

lemma domain_insert_nonempty [simp]: "\<not> domain_is_empty (domain_insert m p)"
  by (cases p) (auto simp: domain_is_empty_def)

lemma domain_new_matches [simp]: "\<not> domain_matches im domain_new d"
  by (simp add: domain_matches_def domain_new_def Let_def)

lemma domain_matches_fold:
  "domain_matches im (foldl domain_insert m ps) d \<longleftrightarrow>
    domain_matches im m d \<or> (\<exists>p \<in> set ps. pattern_matches im (lower_pattern p) d)"
  by (induction ps arbitrary: m) (auto simp: domain_matches_insert)

lemma domain_empty_fold:
  "domain_is_empty (foldl domain_insert m ps) \<longleftrightarrow> domain_is_empty m \<and> ps = []"
  by (induction ps rule: rev_induct) simp_all

lemma domain_new_empty [simp]: "domain_is_empty domain_new"
  by (simp add: domain_is_empty_def domain_new_def)

lemma add_suffixes_fold:
  "add_suffixes m ds = Inr m' \<Longrightarrow> m' = foldl domain_insert m (map (Suffix \<circ> to_ascii_lowercase) ds)"
  by (induction ds arbitrary: m) (auto split: sum.splits)

lemma add_keywords_fold:
  "add_keywords m ds = Inr m' \<Longrightarrow> m' = foldl domain_insert m (map (Keyword \<circ> to_ascii_lowercase) ds)"
  by (induction ds arbitrary: m) (auto split: if_splits)

lemma add_regexes_fold:
  "add_regexes new m rs = Inr m' \<Longrightarrow>
    \<exists>res. map new rs = map Inr res \<and> m' = foldl domain_insert m (map Regex res)"
proof (induction rs arbitrary: m)
  case (Cons r rs)
  then obtain re where "new r = Inr re" "add_regexes new (domain_insert m (Regex re)) rs = Inr m'"
    by (auto split: sum.splits)
  moreover from Cons.IH [OF this(2)] obtain res where
    "map new rs = map Inr res" "m' = foldl domain_insert (domain_insert m (Regex re)) (map Regex res)"
    by blast
  ultimately show ?case by (intro exI [of _ "re # res"]) simp
qed simp

lemma ports_fold:
  "port_matches (foldl insert_range (foldl insert_port m ps) rs) p \<longleftrightarrow>
    port_matches m p \<or> p \<in> set ps \<or> (\<exists>(a, b) \<in> set rs. a \<le> p \<and> p \<le> b)"
proof -
  have "port_matches (foldl insert_port m ps) p \<longleftrightarrow> port_matches m p \<or> p \<in> set ps" for m
    by (induction ps arbitrary: m) (auto simp: insert_port_def port_matches_def)
  moreover have "port_matches (foldl insert_range m rs) p \<longleftrightarrow>
      port_matches m p \<or> (\<exists>(a, b) \<in> set rs. a \<le> p \<and> p \<le> b)" for m
    by (induction rs arbitrary: m) (auto simp: insert_range_def port_matches_def)
  ultimately show ?thesis by simp
qed

lemma ports_empty_fold:
  "port_is_empty (foldl insert_range (foldl insert_port port_new ps) rs) \<longleftrightarrow> ps = [] \<and> rs = []"
proof -
  have "port_is_empty (foldl insert_port port_new ps) \<longleftrightarrow> ps = []"
    by (induction ps rule: rev_induct) (auto simp: insert_port_def port_is_empty_def port_new_def)
  then show ?thesis
    by (induction rs rule: rev_induct) (auto simp: insert_range_def port_is_empty_def)
qed

section \<open>Compilation is correct\<close>

definition domain_spec ::
    "(string \<Rightarrow> string + 're) \<Rightarrow> ('re \<Rightarrow> string \<Rightarrow> bool) \<Rightarrow> route_rule_ast \<Rightarrow> string \<Rightarrow> bool" where
  "domain_spec regex_new is_match a h \<longleftrightarrow>
    (let d = to_ascii_lowercase h in
     (\<exists>s \<in> set (a_domain_suffix a). suffix_matches (to_ascii_lowercase s) d)
     \<or> (\<exists>k \<in> set (a_domain_keyword a). sublist (to_ascii_lowercase k) d)
     \<or> (\<exists>r \<in> set (a_domain_regex a). case regex_new r of Inr re \<Rightarrow> is_match re d | Inl _ \<Rightarrow> False))"

definition rule_spec ::
    "(string \<Rightarrow> string + 're) \<Rightarrow> ('re \<Rightarrow> string \<Rightarrow> bool) \<Rightarrow> route_rule_ast \<Rightarrow> string option
     \<Rightarrow> ip_addr option \<Rightarrow> u16 \<Rightarrow> string option \<Rightarrow> geo_lookup \<Rightarrow> bool" where
  "rule_spec regex_new is_match a host ip p tag geo \<longleftrightarrow>
    (a_inbound_tags a = [] \<or> opt_test (\<lambda>t. t \<in> set (a_inbound_tags a)) tag)
  \<and> (a_ports a = [] \<and> a_port_ranges a = [] \<or> p \<in> set (a_ports a)
       \<or> (\<exists>(x, y) \<in> set (a_port_ranges a). x \<le> p \<and> p \<le> y))
  \<and> (a_domain_suffix a = [] \<and> a_domain_keyword a = [] \<and> a_domain_regex a = []
       \<or> opt_test (domain_spec regex_new is_match a) host)
  \<and> (a_geosite a = [] \<or> opt_test (\<lambda>h. \<exists>c \<in> set (a_geosite a). geosite_matches geo c h) host)
  \<and> (a_ip_cidr a = [] \<or> opt_test (\<lambda>i. \<exists>c \<in> set (a_ip_cidr a). cidr_contains c i) ip)
  \<and> (a_geoip a = [] \<or> opt_test (\<lambda>i. \<exists>c \<in> set (a_geoip a). geoip_contains geo c i) ip)"

lemma rule_matches_iff:
  "rule_matches is_match r host ip p tag geo \<longleftrightarrow>
    \<not> cr_has_criteria r \<or>
    (inbound_tags r = [] \<or> opt_test (\<lambda>t. list_ex (\<lambda>x. x = t) (inbound_tags r)) tag)
  \<and> (port_is_empty (ports r) \<or> port_matches (ports r) p)
  \<and> (domain_is_empty (domains r) \<or> opt_test (domain_matches is_match (domains r)) host)
  \<and> (geosite r = [] \<or> opt_test (\<lambda>h. list_ex (\<lambda>c. geosite_matches geo c h) (geosite r)) host)
  \<and> (ip_is_empty (ips r) \<or> opt_test (ip_matches (ips r)) ip)
  \<and> (geoip r = [] \<or> opt_test (\<lambda>i. list_ex (\<lambda>c. geoip_contains geo c i) (geoip r)) ip)"
  by (simp add: rule_matches_def)

lemma compile_domains:
  assumes "add_suffixes domain_new (a_domain_suffix a) = Inr d1"
    "add_keywords d1 (a_domain_keyword a) = Inr d2"
    "add_regexes new d2 (a_domain_regex a) = Inr d3"
  shows "domain_matches im d3 h \<longleftrightarrow> domain_spec new im a h"
    "domain_is_empty d3 \<longleftrightarrow>
      a_domain_suffix a = [] \<and> a_domain_keyword a = [] \<and> a_domain_regex a = []"
proof -
  obtain res where res: "map new (a_domain_regex a) = map Inr res"
    and d3: "d3 = foldl domain_insert d2 (map Regex res)"
    using add_regexes_fold [OF assms(3)] by blast
  note fold = d3 add_suffixes_fold [OF assms(1)] add_keywords_fold [OF assms(2)]
  have len: "length res = length (a_domain_regex a)" using res by (metis length_map)
  have "(\<exists>re \<in> set res. im re d) \<longleftrightarrow>
      (\<exists>x \<in> set (map Inr res :: (string + 'a) list). case x of Inr re \<Rightarrow> im re d | Inl _ \<Rightarrow> False)" for d
    by auto
  also have "\<dots>d \<longleftrightarrow> (\<exists>r \<in> set (a_domain_regex a). case new r of Inr re \<Rightarrow> im re d | Inl _ \<Rightarrow> False)" for d
    unfolding res [symmetric] by auto
  finally have re: "(\<exists>re \<in> set res. im re d) \<longleftrightarrow>
      (\<exists>r \<in> set (a_domain_regex a). case new r of Inr re \<Rightarrow> im re d | Inl _ \<Rightarrow> False)" for d .
  show "domain_matches im d3 h \<longleftrightarrow> domain_spec new im a h"
    unfolding fold domain_spec_def Let_def re [symmetric]
    by (simp add: domain_matches_fold)
  show "domain_is_empty d3 \<longleftrightarrow>
      a_domain_suffix a = [] \<and> a_domain_keyword a = [] \<and> a_domain_regex a = []"
    unfolding fold using len by (auto simp: domain_empty_fold)
qed

lemma compile_correct_lemma:
  assumes "compile regex_new a = Inr r"
  shows "rule_matches is_match r host ip p tag geo \<longleftrightarrow>
    rule_spec regex_new is_match a host ip p tag geo"
proof -
  obtain d1 d2 d3 im where d: "add_suffixes domain_new (a_domain_suffix a) = Inr d1"
      "add_keywords d1 (a_domain_keyword a) = Inr d2"
      "add_regexes regex_new d2 (a_domain_regex a) = Inr d3"
    and im: "from_cidrs (a_ip_cidr a) = Inr im"
    and r: "r = \<lparr>domains = d3, ips = im, geoip = a_geoip a, geosite = a_geosite a,
         ports = foldl insert_range (foldl insert_port port_new (a_ports a)) (a_port_ranges a),
         inbound_tags = a_inbound_tags a, cr_has_criteria = has_criteria a\<rparr>"
    using assms by (auto simp: compile_def split: sum.splits)
  have np: "\<not> port_matches port_new p" by (simp add: port_matches_def port_new_def)
  have dm: "domain_matches is_match d3 = domain_spec regex_new is_match a"
    using compile_domains(1) [OF d] by blast
  have im': "ip_matches im = (\<lambda>i. \<exists>c \<in> set (a_ip_cidr a). cidr_contains c i)"
    using from_cidrs_matches(1) [OF im] by (intro ext)
  have eq: "(\<lambda>t. list_ex (\<lambda>x. x = t) xs) = (\<lambda>t. t \<in> set xs)" for xs :: "string list"
    by (auto simp: list_ex_iff)
  show ?thesis
    unfolding rule_matches_iff rule_spec_def r
    by (simp add: has_criteria_def dm im' eq np from_cidrs_matches(2) [OF im]
        compile_domains(2) [OF d] ports_fold ports_empty_fold list_ex_iff) blast
qed

text \<open>Property C4: a compiled routing rule matches a connection exactly when each
  kind of criterion it has is met: the inbound tag is listed, the port is
  listed or in a range, the host has a listed suffix (at a label boundary),
  keyword or regex, the address lies in a listed network (equality of the
  leading bits), and the geo lists contain the host and the address. A rule
  without criteria matches everything.\<close>

theorem compile_correct:
  assumes "compile regex_new a = Inr r"
  shows "rule_matches is_match r host ip p tag geo \<longleftrightarrow>
    rule_spec regex_new is_match a host ip p tag geo"
  using assms by (rule compile_correct_lemma)

theorem compile_correct_witness:
  "\<exists>r. compile (\<lambda>_. Inl ''unsupported'') \<lparr>a_domain_suffix = [], a_domain_keyword = [],
      a_domain_regex = [], a_ip_cidr = [''10.0.0.0/8''], a_geoip = [], a_geosite = [], a_ports = [443],
      a_port_ranges = [], a_inbound_tags = []\<rparr> = Inr (r :: unit compiled_rule)
    \<and> (rule_matches (\<lambda>_ _. False) r (Some ''www.example.com'') (Some (IpV4 0x0A010203)) 443 None
          \<lparr>geoip_contains = \<lambda>_ _. False, geosite_matches = \<lambda>_ _. False\<rparr> \<longleftrightarrow>
        rule_spec (\<lambda>_. Inl ''unsupported'') (\<lambda>(_ :: unit) _. False)
          \<lparr>a_domain_suffix = [], a_domain_keyword = [],
            a_domain_regex = [], a_ip_cidr = [''10.0.0.0/8''], a_geoip = [], a_geosite = [], a_ports = [443],
            a_port_ranges = [], a_inbound_tags = []\<rparr>
          (Some ''www.example.com'') (Some (IpV4 0x0A010203)) 443 None
          \<lparr>geoip_contains = \<lambda>_ _. False, geosite_matches = \<lambda>_ _. False\<rparr>)"
proof -
  let ?r = "\<lparr>domains = \<lparr>full = {}, dsuffix = [], keyword = [], regex = []\<rparr>,
    ips = \<lparr>v4 = [(0x0A000000, 8)], v6 = []\<rparr>, geoip = [], geosite = [],
    ports = \<lparr>exact = {443}, ranges = []\<rparr>, inbound_tags = [], cr_has_criteria = True\<rparr> :: unit compiled_rule"
  have c: "compile (\<lambda>_. Inl ''unsupported'') \<lparr>a_domain_suffix = [], a_domain_keyword = [],
      a_domain_regex = [], a_ip_cidr = [''10.0.0.0/8''], a_geoip = [], a_geosite = [], a_ports = [443],
      a_port_ranges = [], a_inbound_tags = []\<rparr> = Inr ?r"
    by code_simp
  show ?thesis
    by (rule exI [of _ ?r], rule conjI, rule c, rule compile_correct [OF c])
qed

text \<open>A CIDR entry without a prefix length is always refused, because
  the missing length is taken to be 255; a bare address cannot be used in a
  rule.\<close>

theorem bare_address_rejected:
  assumes "c \<in> set cs" "CHR ''/'' \<notin> set c"
  shows "isl (from_cidrs cs)"
proof -
  have bad: "isl (add_cidr m c)" for m
    using assms(2) by (auto simp: add_cidr_def cidr_parts_def split_once_def split: option.splits ip_addr.splits)
  have "isl (add_cidrs m cs)" for m
    using assms(1)
  proof (induction cs arbitrary: m)
    case (Cons d ds)
    then show ?case using bad [of m] by (auto split: sum.splits)
  qed simp
  then show ?thesis by (simp add: from_cidrs_def)
qed

theorem bare_address_rejected_witness:
  "isl (from_cidrs [''10.0.0.0/8'', ''192.168.1.1''])"
  by (rule bare_address_rejected [of "''192.168.1.1''"]) simp_all

end
