(* ===== verification/Config.thy ===== *)
theory Config
  imports IpText
begin

text \<open>
  The configuration as it arrives on the wire
  (\<open>crates/omni-config/src/wire.rs\<close>, every structure and field), JSON
  values with the \<open>serde_json\<close> accessors the code uses, and the validation
  pass of \<open>crates/omni-core/src/runtime/assembly/validation.rs\<close>. A \<open>BTreeMap\<close>
  of JSON values is an association list with distinct keys, an \<open>f64\<close> its bits. How serde fills the structures is not part of it.
\<close>

section \<open>JSON\<close>

datatype json_num = PosInt nat | NegInt int | Float

datatype json =
    JNull | JBool bool | JNumber json_num | JString string | JArray "json list"
  | JObject "(string \<times> json) list"

type_synonym json_map = "(string \<times> json) list"

fun as_str :: "json \<Rightarrow> string option" where
  "as_str (JString s) = Some s"
| "as_str _ = None"

fun as_bool :: "json \<Rightarrow> bool option" where
  "as_bool (JBool b) = Some b"
| "as_bool _ = None"

fun as_u64 :: "json \<Rightarrow> nat option" where
  "as_u64 (JNumber (PosInt n)) = Some n"
| "as_u64 _ = None"

fun as_object :: "json \<Rightarrow> json_map option" where
  "as_object (JObject m) = Some m"
| "as_object _ = None"

fun as_array :: "json \<Rightarrow> json list option" where
  "as_array (JArray a) = Some a"
| "as_array _ = None"

definition get_key :: "string \<Rightarrow> json_map \<Rightarrow> json option" where
  "get_key k m = map_of m k"

definition str_field :: "json_map \<Rightarrow> string \<Rightarrow> string option" where
  "str_field m k = Option.bind (get_key k m) as_str"

section \<open>Wire structures\<close>

record rate_limit_spec_wire =
  rl_upload :: "u64 option"
  rl_download :: "u64 option"

record policy_spec_wire =
  po_default_throttle_ms :: "u64 option"
  po_default_reject_reason :: "string option"
  po_rate_limit :: "(string \<times> rate_limit_spec_wire) list option"
  po_user_binding :: "(string \<times> string) list option"
  po_rules :: "json option"

record target_spec_wire =
  t_server :: "string option"
  t_server_port :: "u16 option"
  t_ip_hint :: "string option"

record outbound_spec_wire =
  ob_tag :: string
  outbound_type :: string
  ob_target :: "target_spec_wire option"
  ob_rest :: json_map

record port_range_wire =
  pr_from :: u16
  pr_to :: u16

record inbound_reality_spec_wire =
  handshake_addr :: "string option"
  handshake_port :: "u16 option"
  private_key :: "string option"
  short_ids :: "string list"
  fingerprint :: "string option"
  server_names :: "string list"

record tls_inbound_spec_wire =
  tls_enabled :: bool
  cert_mode :: "string option"
  cert_domain :: "string option"
  cert_file :: "string option"
  key_pem :: "string option"
  key_file :: "string option"
  cert_content :: "string option"
  key_content :: "string option"
  tls_skip_verify :: bool
  reject_unknown_sni :: bool
  tls_alpn :: "string list option"
  reality :: "inbound_reality_spec_wire option"

record ws_spec_wire =
  ws_path :: "string option"
  ws_service_name :: "string option"
  ws_host :: "string option"
  ws_max_concurrent_streams :: "u32 option"
  ws_early_data :: bool

record h2_spec_wire =
  h2_path :: "string option"
  h2_host :: "string option"

record grpc_spec_wire =
  grpc_service_name :: "string option"

record httpup_spec_wire =
  httpup_path :: "string option"
  httpup_host :: "string option"

record xhttp_spec_wire =
  xhttp_path :: "string option"
  xhttp_host :: "string option"
  xhttp_mode :: "string option"

record quic_spec_wire =
  quic_alpn :: "string list option"
  quic_congestion :: "string option"

record mux_spec_wire =
  mux_kind_wire :: "string option"
  mux_concurrency :: "u32 option"

record shadowsocks_invalid_access_config_wire =
  ia_enabled :: bool
  ia_forbidden_time :: "u64 option"

record ss_ip_user_cache_config_wire =
  uc_persist_enabled :: bool
  uc_persist_path :: "string option"
  uc_persist_interval_secs :: "u64 option"
  uc_sync_interval_secs :: "u64 option"

record node_config_wire =
  nd_type :: string
  nd_tag :: string
  nd_listen :: "string option"
  nd_port :: "u16 option"
  nd_ports :: "u16 list option"
  nd_port_ranges :: "port_range_wire list option"
  nd_outbound_type :: string
  nd_accept_proxy_protocol :: bool
  nd_enable_proxy_protocol :: bool
  nd_accept_udp_proxy_protocol :: bool
  nd_enable_udp_proxy_protocol :: bool
  nd_mux_enabled :: bool
  nd_mux :: "mux_spec_wire option"
  nd_quic_congestion_control :: "string option"
  nd_tls :: "tls_inbound_spec_wire option"
  nd_ws :: "ws_spec_wire option"
  nd_h2 :: "h2_spec_wire option"
  nd_grpc :: "grpc_spec_wire option"
  nd_httpup :: "httpup_spec_wire option"
  nd_xhttp :: "xhttp_spec_wire option"
  nd_quic :: "quic_spec_wire option"
  nd_ss_invalid_access :: "shadowsocks_invalid_access_config_wire option"
  nd_ss_ip_user_cache :: "ss_ip_user_cache_config_wire option"
  nd_protocol :: json_map

record panel_config_wire =
  pc_url :: "string option"
  pc_token :: "string option"
  pc_node_id :: "u64 option"
  pc_push_interval_secs :: "u64 option"
  pc_pull_interval_secs :: "u64 option"
  pc_report_interval_secs :: "u64 option"
  pc_ws_enabled :: bool
  pc_codec :: "string option"
  pc_timeout_secs :: "u64 option"

record ntp_sync_config_wire =
  nc_enabled :: bool
  nc_server :: "string option"
  nc_sync_interval_secs :: "u64 option"
  nc_timeout_secs :: "u64 option"

record geo_update_config_wire =
  gu_enabled :: bool
  gu_source_url :: "string option"
  gu_interval_secs :: "u64 option"
  gu_geoip_url :: "string option"
  gu_geosite_url :: "string option"

record rule_list_config_wire =
  ru_spans :: "string list option"
  ru_regex_patterns :: "string list option"
  ru_source_url :: "string option"
  ru_last_modified :: "string option"

record access_log_config_wire =
  al_enabled :: bool
  al_path :: "string option"
  al_sample_rate :: "64 word option"

record dns_wire =
  default_dns :: "string list option"
  dns_env :: "(string \<times> string) list option"
  dns_map :: "(string \<times> string) list option"
  trust_negative_responses :: bool

record runtime_config_wire =
  wire_config_path :: "string option"
  wire_config_url :: "string option"
  outbounds :: "outbound_spec_wire list"
  wire_policy :: "policy_spec_wire option"
  wire_backend :: "string option"
  wire_ntp :: "ntp_sync_config_wire option"
  wire_panel :: "panel_config_wire option"
  nodes :: "node_config_wire list"
  extra :: json_map
  wire_dns :: "dns_wire option"
  metrics_port :: "u16 option"
  wire_geo :: "geo_update_config_wire option"
  wire_user_persist_path :: "string option"
  wire_dns_config :: "json option"
  wire_rule_list :: "rule_list_config_wire option"
  wire_access_log :: "access_log_config_wire option"

text \<open>The derived \<open>Default\<close>.\<close>

definition default_wire :: runtime_config_wire where
  "default_wire = \<lparr>wire_config_path = None, wire_config_url = None, outbounds = [], wire_policy = None, wire_backend = None,
    wire_ntp = None, wire_panel = None, nodes = [], extra = [], wire_dns = None, metrics_port = None, wire_geo = None,
    wire_user_persist_path = None, wire_dns_config = None, wire_rule_list = None, wire_access_log = None\<rparr>"

lemma default_wire_simps [simp]:
  "outbounds default_wire = []" "nodes default_wire = []" "extra default_wire = []" "metrics_port default_wire = None"
  "wire_dns default_wire = None" "wire_user_persist_path default_wire = None"
  by (simp_all add: default_wire_def)

section \<open>Validation\<close>

definition require_nonempty :: "string \<Rightarrow> string \<Rightarrow> string option \<Rightarrow> string + unit" where
  "require_nonempty spec field value =
    (let err = Inl (spec @ '' outbound requires a non-empty '' @ [CHR 0x27] @ field @ [CHR 0x27]) in
     case value of Some v \<Rightarrow> if trim v \<noteq> [] then Inr () else err | None \<Rightarrow> err)"

definition validate_target :: "string \<Rightarrow> target_spec_wire option \<Rightarrow> string + unit" where
  "validate_target proto target =
    (let err = Inl (''protocol '' @ proto @ '' requires target.server and target.server_port'') in
     case target of
       None \<Rightarrow> err
     | Some t \<Rightarrow>
         if (case t_server t of Some s \<Rightarrow> s = [] | None \<Rightarrow> True) \<or> t_server_port t = None then err
         else Inr ())"

definition and_then :: "string + unit \<Rightarrow> string + unit \<Rightarrow> string + unit" where
  "and_then a b = (case a of Inl e \<Rightarrow> Inl e | Inr _ \<Rightarrow> b)"

definition validate_outbound :: "outbound_spec_wire \<Rightarrow> string + unit" where
  "validate_outbound ob =
    (let get = str_field (ob_rest ob); ty = outbound_type ob in
     if ty = ''trojan'' then
       and_then (validate_target ''trojan'' (ob_target ob))
         (require_nonempty ''trojan'' ''password'' (get ''password''))
     else if ty = ''vless'' then
       and_then (validate_target ''vless'' (ob_target ob))
         (require_nonempty ''vless'' ''uuid'' (get ''uuid''))
     else if ty = ''vmess'' then
       and_then (validate_target ''vmess'' (ob_target ob))
         (require_nonempty ''vmess'' ''uuid'' (get ''uuid''))
     else if ty = ''shadowsocks'' then
       and_then (validate_target ''shadowsocks'' (ob_target ob))
         (and_then (require_nonempty ''shadowsocks'' ''method'' (get ''method''))
           (require_nonempty ''shadowsocks'' ''password'' (get ''password'')))
     else if ty = ''anytls'' then
       and_then (validate_target ''anytls'' (ob_target ob))
         (require_nonempty ''anytls'' ''password'' (get ''password''))
     else if ty = ''mieru'' then
       and_then (validate_target ''mieru'' (ob_target ob))
         (and_then (require_nonempty ''mieru'' ''username'' (get ''username''))
           (require_nonempty ''mieru'' ''password'' (get ''password'')))
     else if ty = [] then Inl ''outbound protocol cannot be empty''
     else Inr ())"

definition hex_decode_check :: "string \<Rightarrow> bool" where
  "hex_decode_check s \<longleftrightarrow> length s mod 2 = 0 \<and> list_all is_hexdigit s"

definition opt_empty :: "string option \<Rightarrow> bool" where
  "opt_empty x = (case x of Some s \<Rightarrow> s = [] | None \<Rightarrow> True)"

definition validate_cert_mode :: "tls_inbound_spec_wire \<Rightarrow> string + unit" where
  "validate_cert_mode tls =
    (case cert_mode tls of
       None \<Rightarrow> Inr ()
     | Some m \<Rightarrow>
         if m = [] then Inr ()
         else if m = ''file'' then
           (if opt_empty (cert_file tls) \<or> opt_empty (key_file tls)
            then Inl ''cert_mode=file requires cert_file and key_file paths'' else Inr ())
         else if m = ''content'' then
           (if opt_empty (cert_content tls) then Inl ''cert_mode=content requires cert_content''
            else if opt_empty (key_content tls) then Inl ''cert_mode=content requires key_content''
            else Inr ())
         else if m = ''self'' then
           (if opt_empty (cert_domain tls) then Inl ''cert_mode=self requires cert_domain''
            else Inr ())
         else Inl (''cert: unsupported cert_mode: '' @ m))"

fun check_short_ids :: "string list \<Rightarrow> string + unit" where
  "check_short_ids [] = Inr ()"
| "check_short_ids (sid # sids) =
    (if \<not> hex_decode_check sid
     then Inl (''reality.short_ids entry '' @ [CHR 0x27] @ sid @ [CHR 0x27] @ '' is not valid hex'')
     else check_short_ids sids)"

definition validate_tls :: "tls_inbound_spec_wire \<Rightarrow> string + unit" where
  "validate_tls tls =
    and_then (validate_cert_mode tls)
      (case reality tls of Some r \<Rightarrow> check_short_ids (short_ids r) | None \<Rightarrow> Inr ())"

definition validate_node :: "node_config_wire \<Rightarrow> string + unit" where
  "validate_node node =
    (if nd_type node = [] then Inl ''protocol cannot be empty''
     else if \<not> nd_mux_enabled node
         \<and> (case nd_mux node of Some m \<Rightarrow> mux_kind_wire m \<noteq> None | None \<Rightarrow> False)
       then Inl ''mux is disabled but a mux kind is configured''
     else (case nd_tls node of Some tls \<Rightarrow> validate_tls tls | None \<Rightarrow> Inr ()))"

definition label_of :: "string \<Rightarrow> string" where
  "label_of t = (if t = [] then ''<untagged>'' else t)"

definition dup_msg :: "string \<Rightarrow> string \<Rightarrow> string" where
  "dup_msg kind t = ''config validation failed for '' @ kind @ '' '' @ t @
    '': duplicate tag (tags must be unique across inbounds and outbounds)''"

fun validate_outbounds :: "string list \<Rightarrow> outbound_spec_wire list \<Rightarrow> string + string list" where
  "validate_outbounds tags [] = Inr tags"
| "validate_outbounds tags (ob # obs) =
    (case validate_outbound ob of
       Inl e \<Rightarrow> Inl (''config validation failed for outbound '' @ label_of (ob_tag ob) @ '': '' @ e)
     | Inr _ \<Rightarrow>
         if ob_tag ob = []
         then Inl ''config validation failed for outbound <untagged>: outbound tag cannot be empty''
         else if ob_tag ob \<in> set tags then Inl (dup_msg ''outbound'' (ob_tag ob))
         else validate_outbounds (tags @ [ob_tag ob]) obs)"

fun validate_nodes :: "string list \<Rightarrow> node_config_wire list \<Rightarrow> string + unit" where
  "validate_nodes tags [] = Inr ()"
| "validate_nodes tags (n # ns) =
    (case validate_node n of
       Inl e \<Rightarrow> Inl (''config validation failed for inbound '' @ label_of (nd_tag n) @ '': '' @ e)
     | Inr _ \<Rightarrow>
         if nd_tag n \<noteq> [] then
           (if nd_tag n \<in> set tags then Inl (dup_msg ''inbound'' (nd_tag n))
            else validate_nodes (tags @ [nd_tag n]) ns)
         else validate_nodes tags ns)"

definition validate :: "runtime_config_wire \<Rightarrow> string + unit" where
  "validate wire =
    (case validate_outbounds [] (outbounds wire) of
       Inl e \<Rightarrow> Inl e
     | Inr tags \<Rightarrow> validate_nodes tags (nodes wire))"

section \<open>What validation guarantees\<close>

definition config_tags :: "runtime_config_wire \<Rightarrow> string list" where
  "config_tags wire = map ob_tag (outbounds wire) @ filter (\<lambda>t. t \<noteq> []) (map nd_tag (nodes wire))"

lemma validate_outbounds_Inr:
  "distinct tags \<Longrightarrow> validate_outbounds tags obs = Inr tags' \<longleftrightarrow>
    tags' = tags @ map ob_tag obs \<and> distinct tags'
    \<and> list_all (\<lambda>ob. validate_outbound ob = Inr () \<and> ob_tag ob \<noteq> []) obs"
  by (induction obs arbitrary: tags) (auto split: sum.split)

lemma validate_nodes_Inr:
  "distinct tags \<Longrightarrow> validate_nodes tags ns = Inr () \<longleftrightarrow>
    distinct (tags @ filter (\<lambda>t. t \<noteq> []) (map nd_tag ns))
    \<and> list_all (\<lambda>n. validate_node n = Inr ()) ns"
  by (induction ns arbitrary: tags) (auto split: sum.split)

lemma validate_distinct: "validate wire = Inr () \<Longrightarrow> distinct (map ob_tag (outbounds wire))"
  using validate_outbounds_Inr [of "[]" "outbounds wire"]
  by (auto simp: validate_def split: sum.splits)

text \<open>Property C27: a configuration passes validation exactly when every outbound
  and inbound passes its own checks, every outbound has a tag, and no tag is
  used twice among all outbounds and tagged inbounds.\<close>

theorem validate_iff:
  "validate wire = Inr () \<longleftrightarrow>
    list_all (\<lambda>ob. validate_outbound ob = Inr () \<and> ob_tag ob \<noteq> []) (outbounds wire)
    \<and> list_all (\<lambda>n. validate_node n = Inr ()) (nodes wire)
    \<and> distinct (config_tags wire)"
proof (cases "validate_outbounds [] (outbounds wire)")
  case (Inl e)
  then have "\<not> (list_all (\<lambda>ob. validate_outbound ob = Inr () \<and> ob_tag ob \<noteq> []) (outbounds wire)
    \<and> distinct (map ob_tag (outbounds wire)))"
    using validate_outbounds_Inr [of "[]" "outbounds wire" "map ob_tag (outbounds wire)"] by auto
  then show ?thesis using Inl by (auto simp: validate_def config_tags_def)
next
  case (Inr tags)
  then have "tags = map ob_tag (outbounds wire)" "distinct tags"
    "list_all (\<lambda>ob. validate_outbound ob = Inr () \<and> ob_tag ob \<noteq> []) (outbounds wire)"
    using validate_outbounds_Inr [of "[]" "outbounds wire" tags] by auto
  then show ?thesis
    using Inr validate_nodes_Inr [of tags "nodes wire"]
    by (simp only: validate_def config_tags_def sum.case) blast
qed

end
