(* ===== verification/Router.thy ===== *)
theory Router
  imports Matching Config
begin

text \<open>
  Routing: the router and its builder
  (\<open>crates/omni-core/src/runtime/assembly/outbound_artifacts.rs\<close>) and the part
  of \<open>crates/omni-core/src/runtime/core.rs\<close> that turns the outbound entries of
  the configuration into connectors and rules. Base64 decoding and regular
  expressions are parameters; a \<open>HashMap\<close> is a HOL map.
\<close>

section \<open>Reading connector settings from JSON\<close>

definition tls_obj_of :: "outbound_spec_wire \<Rightarrow> json_map option" where
  "tls_obj_of ob = Option.bind (get_key ''tls'' (ob_rest ob)) as_object"

definition tls_obj_and_insecure :: "outbound_spec_wire \<Rightarrow> bool" where
  "tls_obj_and_insecure ob =
    (case Option.bind (Option.bind (tls_obj_of ob) (get_key ''insecure'')) as_bool of
       Some b \<Rightarrow> b | None \<Rightarrow> False)"

definition or_else :: "'a option \<Rightarrow> 'a option \<Rightarrow> 'a option" where
  "or_else a b = (case a of Some x \<Rightarrow> Some x | None \<Rightarrow> b)"

definition tls_obj_sni :: "outbound_spec_wire \<Rightarrow> string option" where
  "tls_obj_sni ob =
    Option.bind (tls_obj_of ob) (\<lambda>m.
      Option.bind (or_else (get_key ''server_name'' m) (get_key ''sni'' m)) as_str)"

fun json_str_arr :: "json option \<Rightarrow> string list" where
  "json_str_arr (Some (JArray a)) = List.map_filter as_str a"
| "json_str_arr (Some (JString s)) = [s]"
| "json_str_arr _ = []"

fun json_u16_arr :: "json option \<Rightarrow> u16 list" where
  "json_u16_arr (Some (JArray a)) = map word_of_nat (List.map_filter as_u64 a)"
| "json_u16_arr (Some (JNumber n)) =
    (case as_u64 (JNumber n) of Some x \<Rightarrow> [word_of_nat x] | None \<Rightarrow> [])"
| "json_u16_arr _ = []"

record tls_client_spec =
  cs_skip_verify :: bool
  cs_alpn :: "string list"
  cs_sni_override :: "string option"

definition get_bool_or :: "bool \<Rightarrow> json option \<Rightarrow> bool" where
  "get_bool_or d v = (case Option.bind v as_bool of Some b \<Rightarrow> b | None \<Rightarrow> d)"

definition parse_tls_client_spec :: "json option \<Rightarrow> tls_client_spec option" where
  "parse_tls_client_spec v =
    (case Option.bind v as_object of
       None \<Rightarrow> None
     | Some obj \<Rightarrow>
         if \<not> get_bool_or True (get_key ''enabled'' obj) \<and> length obj \<le> 1 then None
         else Some \<lparr>
           cs_skip_verify = get_bool_or False
             (or_else (get_key ''insecure'' obj) (get_key ''skip_verify'' obj)),
           cs_alpn = json_str_arr (get_key ''alpn'' obj),
           cs_sni_override =
             Option.bind (or_else (get_key ''server_name'' obj) (get_key ''sni'' obj)) as_str\<rparr>)"

record transport_spec =
  ts_kind :: string
  ts_path :: "string option"
  ts_host :: "string option"
  ts_service_name :: "string option"

definition parse_transport_spec :: "json option \<Rightarrow> transport_spec option" where
  "parse_transport_spec v =
    Option.bind (Option.bind v as_object) (\<lambda>obj.
      let kind = (case Option.bind (get_key ''type'' obj) as_str of Some k \<Rightarrow> k | None \<Rightarrow> ''tcp'') in
      if kind = ''tcp'' \<or> kind = [] then None
      else Some \<lparr>ts_kind = kind,
        ts_path = Option.bind (get_key ''path'' obj) as_str,
        ts_host = Option.bind (or_else (get_key ''host'' obj) (get_key ''host_header'' obj)) as_str,
        ts_service_name = Option.bind (get_key ''service_name'' obj) as_str\<rparr>)"

datatype mux_kind = Smux | Yamux

definition parse_mux_kind :: "string \<Rightarrow> mux_kind option" where
  "parse_mux_kind s =
    (let k = to_ascii_lowercase s in
     if k = ''smux'' then Some Smux else if k = ''yamux'' then Some Yamux else None)"

definition mux_of :: "outbound_spec_wire \<Rightarrow> mux_kind option" where
  "mux_of ob =
    Option.bind (Option.bind (get_key ''mux'' (ob_rest ob)) as_object) (\<lambda>m.
      if \<not> get_bool_or True (get_key ''enabled'' m) then None
      else parse_mux_kind
        (case Option.bind (get_key ''kind'' m) as_str of Some k \<Rightarrow> k | None \<Rightarrow> ''smux''))"

section \<open>Connectors\<close>

text \<open>One constructor per implementation of \<open>OutboundConnector\<close>, with the settings
  its struct holds. The connection and session pools start empty.\<close>

datatype connector =
    DirectOutbound
  | RejectOutbound
  | TrojanConnector string string u16 string "tls_client_spec option" "transport_spec option"
      "mux_kind option"
  | SsConnector string string u16 string string
  | VlessConnector string string u16 string "tls_client_spec option" "transport_spec option"
      "mux_kind option"
  | VmessConnector string string u16 string string "tls_client_spec option" "mux_kind option"
  | Hysteria2Connector string string u16 string bool "string option"
  | NaiveConnector string string u16 bool "string option"
  | AnytlsConnector string string u16 string "tls_client_spec option" bool "string option"
  | MieruConnector string string u16 string string
  | Socks5Connector string string u16 "string option" "string option"
  | HttpConnectConnector string string u16 "string option" "string option"

fun connector_tag :: "connector \<Rightarrow> string" where
  "connector_tag DirectOutbound = ''direct''"
| "connector_tag RejectOutbound = ''reject''"
| "connector_tag (TrojanConnector t _ _ _ _ _ _) = t"
| "connector_tag (SsConnector t _ _ _ _) = t"
| "connector_tag (VlessConnector t _ _ _ _ _ _) = t"
| "connector_tag (VmessConnector t _ _ _ _ _ _) = t"
| "connector_tag (Hysteria2Connector t _ _ _ _ _) = t"
| "connector_tag (NaiveConnector t _ _ _ _) = t"
| "connector_tag (AnytlsConnector t _ _ _ _ _ _) = t"
| "connector_tag (MieruConnector t _ _ _ _) = t"
| "connector_tag (Socks5Connector t _ _ _ _) = t"
| "connector_tag (HttpConnectConnector t _ _ _ _) = t"

fun supports_udp :: "connector \<Rightarrow> bool" where
  "supports_udp DirectOutbound = True"
| "supports_udp (TrojanConnector _ _ _ _ _ _ _) = True"
| "supports_udp (VlessConnector _ _ _ _ _ _ _) = True"
| "supports_udp _ = False"

definition or_default :: "string option \<Rightarrow> string" where
  "or_default x = (case x of Some s \<Rightarrow> s | None \<Rightarrow> [])"

definition build_connector :: "outbound_spec_wire \<Rightarrow> string + connector" where
  "build_connector ob =
    (let server = or_default (Option.bind (ob_target ob) t_server);
         p = (case Option.bind (ob_target ob) t_server_port of Some q \<Rightarrow> q | None \<Rightarrow> 0);
         get = str_field (ob_rest ob);
         tls = parse_tls_client_spec (get_key ''tls'' (ob_rest ob));
         transport = parse_transport_spec (get_key ''transport'' (ob_rest ob));
         mux = mux_of ob;
         t = ob_tag ob; ty = outbound_type ob in
     if ty = ''direct'' then Inr DirectOutbound
     else if ty = ''reject'' \<or> ty = ''block'' then Inr RejectOutbound
     else if ty = ''trojan'' then
       Inr (TrojanConnector t server p (or_default (get ''password'')) tls transport mux)
     else if ty = ''shadowsocks'' \<or> ty = ''ss'' then
       Inr (SsConnector t server p (or_default (get ''method'')) (or_default (get ''password'')))
     else if ty = ''vless'' then
       Inr (VlessConnector t server p (or_default (get ''uuid'')) tls transport mux)
     else if ty = ''vmess'' then
       Inr (VmessConnector t server p (or_default (get ''uuid''))
         (case get ''security'' of Some s \<Rightarrow> s | None \<Rightarrow> ''auto'') tls mux)
     else if ty = ''hysteria2'' \<or> ty = ''hy2'' then
       Inr (Hysteria2Connector t server p (or_default (get ''password''))
         (tls_obj_and_insecure ob) (tls_obj_sni ob))
     else if ty = ''naive'' then
       Inr (NaiveConnector t server p (tls_obj_and_insecure ob) (tls_obj_sni ob))
     else if ty = ''anytls'' then
       Inr (AnytlsConnector t server p (or_default (get ''password'')) tls
         (tls_obj_and_insecure ob) (tls_obj_sni ob))
     else if ty = ''mieru'' then
       Inr (MieruConnector t server p (or_default (get ''username'')) (or_default (get ''password'')))
     else if ty = ''socks'' \<or> ty = ''socks5'' then
       Inr (Socks5Connector t server p (get ''username'') (get ''password''))
     else if ty = ''http'' \<or> ty = ''httpconnect'' \<or> ty = ''httpproxy'' then
       Inr (HttpConnectConnector t server p (get ''username'') (get ''password''))
     else Inl (''config validation failed for outbound '' @ t @ '': protocol '' @ [CHR 0x27] @ ty
       @ [CHR 0x27] @ '' not yet implemented''))"

definition json_range :: "json \<Rightarrow> (u16 \<times> u16) option" where
  "json_range r =
    Option.bind (as_object r) (\<lambda>m.
    Option.bind (Option.bind (get_key ''from'' m) as_u64) (\<lambda>a.
    Option.bind (Option.bind (get_key ''to'' m) as_u64) (\<lambda>b.
      Some (word_of_nat a, word_of_nat b))))"

definition rule_from_entry :: "outbound_spec_wire \<Rightarrow> route_rule_ast" where
  "rule_from_entry ob =
    (let g = (\<lambda>k. get_key k (ob_rest ob)) in
     \<lparr>a_domain_suffix = json_str_arr (g ''domain_suffix''),
      a_domain_keyword = json_str_arr (g ''domain_keyword''),
      a_domain_regex = json_str_arr (g ''domain_regex''),
      a_ip_cidr = json_str_arr (g ''ip_cidr''),
      a_geoip = json_str_arr (g ''geoip''),
      a_geosite = json_str_arr (g ''geosite''),
      a_ports = json_u16_arr (g ''ports''),
      a_port_ranges = (case Option.bind (g ''port_ranges'') as_array of
          Some a \<Rightarrow> List.map_filter json_range a | None \<Rightarrow> []),
      a_inbound_tags = json_str_arr (g ''inbound_tags'')\<rparr>)"

section \<open>The router\<close>

record 're route_entry =
  e_rule :: "'re compiled_rule"
  e_tag :: string
  e_hijack :: "bytes option"

record 're router =
  entries :: "'re route_entry list"
  connectors :: "string \<Rightarrow> connector option"
  default_tag :: "string option"
  geo :: geo_lookup

datatype route_action = Proxy connector | Reject | Hijack bytes

definition entry_action :: "'re router \<Rightarrow> 're route_entry \<Rightarrow> route_action" where
  "entry_action r e =
    (case e_hijack e of
       Some bs \<Rightarrow> Hijack bs
     | None \<Rightarrow> (case connectors r (e_tag e) of Some c \<Rightarrow> Proxy c | None \<Rightarrow> Reject))"

definition route_host :: "proxy_target \<Rightarrow> string option \<Rightarrow> string option" where
  "route_host target sniffed =
    (case sniffed of
       Some h \<Rightarrow> Some h
     | None \<Rightarrow> (case target of Domain h _ \<Rightarrow> Some h | Tcp _ \<Rightarrow> None))"

definition route_ip :: "proxy_target \<Rightarrow> ip_addr option" where
  "route_ip target = (case target of Tcp a \<Rightarrow> Some (sa_ip a) | Domain _ _ \<Rightarrow> None)"

text \<open>The two loops over the entries.\<close>

fun first_criteria :: "('re route_entry \<Rightarrow> bool) \<Rightarrow> 're route_entry list \<Rightarrow> 're route_entry option" where
  "first_criteria matches [] = None"
| "first_criteria matches (e # es) =
    (if \<not> cr_has_criteria (e_rule e) then first_criteria matches es
     else if matches e then Some e
     else first_criteria matches es)"

fun first_unconditional :: "'re route_entry list \<Rightarrow> 're route_entry option" where
  "first_unconditional [] = None"
| "first_unconditional (e # es) =
    (if \<not> cr_has_criteria (e_rule e) then Some e else first_unconditional es)"

definition route ::
    "('re \<Rightarrow> string \<Rightarrow> bool) \<Rightarrow> 're router \<Rightarrow> proxy_target \<Rightarrow> string option \<Rightarrow> string \<Rightarrow> route_action" where
  "route is_match r target sniffed_host inbound_tag =
    (let host = route_host target sniffed_host; p = target_port target; ip = route_ip target in
     case first_criteria
       (\<lambda>e. rule_matches is_match (e_rule e) host ip p (Some inbound_tag) (geo r)) (entries r) of
       Some e \<Rightarrow> entry_action r e
     | None \<Rightarrow>
         (case first_unconditional (entries r) of
            Some e \<Rightarrow> entry_action r e
          | None \<Rightarrow>
              (case Option.bind (default_tag r) (connectors r) of
                 Some c \<Rightarrow> Proxy c
               | None \<Rightarrow> Reject)))"

text \<open>\<open>first_udp_connector\<close> scans the values of a \<open>HashMap\<close>, whose order is not
  specified: \<open>vals\<close> is the order of the iteration.\<close>

definition first_udp_connector :: "'re router \<Rightarrow> connector list \<Rightarrow> io_error + connector" where
  "first_udp_connector r vals =
    (case connectors r ''direct'' of
       Some c \<Rightarrow> Inr c
     | None \<Rightarrow>
         (case List.find supports_udp vals of
            Some c \<Rightarrow> Inr c
          | None \<Rightarrow> Inl (IoError Unsupported ''no udp-capable outbound configured'')))"

section \<open>The builder\<close>

record 're router_builder =
  b_entries :: "'re route_entry list"
  b_connectors :: "string \<Rightarrow> connector option"

definition builder_new :: "'re router_builder" where
  "builder_new = \<lparr>b_entries = [], b_connectors = Map.empty\<rparr>"

definition add_connector :: "'re router_builder \<Rightarrow> connector \<Rightarrow> 're router_builder" where
  "add_connector b c = b\<lparr>b_connectors := (b_connectors b)(connector_tag c \<mapsto> c)\<rparr>"

definition has_connector :: "'re router_builder \<Rightarrow> string \<Rightarrow> bool" where
  "has_connector b t \<longleftrightarrow> b_connectors b t \<noteq> None"

definition decode_hijack :: "(string \<Rightarrow> string + bytes) \<Rightarrow> string option \<Rightarrow> string + bytes option" where
  "decode_hijack b64_decode hijack =
    (case hijack of
       None \<Rightarrow> Inr None
     | Some b64 \<Rightarrow>
         if b64 = [] then Inr None
         else (case b64_decode (trim b64) of
             Inl e \<Rightarrow> Inl (''route hijack response_base64 decode failed: '' @ e)
           | Inr bs \<Rightarrow> Inr (if bs = [] then None else Some bs)))"

definition add_rule_entry ::
    "(string \<Rightarrow> string + 're) \<Rightarrow> (string \<Rightarrow> string + bytes) \<Rightarrow> 're router_builder
     \<Rightarrow> route_rule_ast \<Rightarrow> string \<Rightarrow> string option \<Rightarrow> string + 're router_builder" where
  "add_rule_entry regex_new b64_decode b ast t hijack =
    (case compile regex_new ast of
       Inl e \<Rightarrow> Inl e
     | Inr rule \<Rightarrow>
         (case decode_hijack b64_decode hijack of
            Inl e \<Rightarrow> Inl e
          | Inr h \<Rightarrow>
              Inr (b\<lparr>b_entries := b_entries b @ [\<lparr>e_rule = rule, e_tag = t, e_hijack = h\<rparr>]\<rparr>)))"

definition build :: "'re router_builder \<Rightarrow> geo_lookup \<Rightarrow> 're router" where
  "build b g = \<lparr>entries = b_entries b, connectors = b_connectors b, default_tag = None, geo = g\<rparr>"

section \<open>Assembly\<close>

definition hijack_of :: "outbound_spec_wire \<Rightarrow> string option" where
  "hijack_of ob =
    Option.bind (Option.bind (get_key ''hijack'' (ob_rest ob)) as_object) (\<lambda>m.
      Option.bind (or_else (get_key ''response_b64'' m) (get_key ''response_base64'' m)) as_str)"

fun add_outbounds ::
    "(string \<Rightarrow> string + 're) \<Rightarrow> (string \<Rightarrow> string + bytes) \<Rightarrow> 're router_builder
     \<Rightarrow> outbound_spec_wire list \<Rightarrow> string + 're router_builder" where
  "add_outbounds regex_new b64_decode b [] = Inr b"
| "add_outbounds regex_new b64_decode b (ob # obs) =
    (case build_connector ob of
       Inl e \<Rightarrow> Inl e
     | Inr c \<Rightarrow>
         (case add_rule_entry regex_new b64_decode (add_connector b c) (rule_from_entry ob)
             (ob_tag ob) (hijack_of ob) of
            Inl e \<Rightarrow> Inl e
          | Inr b' \<Rightarrow> add_outbounds regex_new b64_decode b' obs))"

definition ensure_connector :: "'re router_builder \<Rightarrow> string \<Rightarrow> connector \<Rightarrow> 're router_builder" where
  "ensure_connector b t c = (if \<not> has_connector b t then add_connector b c else b)"

text \<open>The routing part of \<open>CoreRuntime::initialize\<close>.\<close>

definition initialize_router ::
    "(string \<Rightarrow> string + 're) \<Rightarrow> (string \<Rightarrow> string + bytes) \<Rightarrow> geo_lookup \<Rightarrow> runtime_config_wire
     \<Rightarrow> string + 're router" where
  "initialize_router regex_new b64_decode g wire =
    (case validate wire of
       Inl e \<Rightarrow> Inl e
     | Inr _ \<Rightarrow>
         (case add_outbounds regex_new b64_decode builder_new (outbounds wire) of
            Inl e \<Rightarrow> Inl e
          | Inr b \<Rightarrow>
              Inr (build (ensure_connector (ensure_connector b ''direct'' DirectOutbound)
                ''reject'' RejectOutbound) g)))"

section \<open>Priorities of the router\<close>

lemma first_criteria_filter:
  "first_criteria m es =
    (case filter (\<lambda>e. cr_has_criteria (e_rule e) \<and> m e) es of [] \<Rightarrow> None | e # _ \<Rightarrow> Some e)"
  by (induction es) auto

lemma first_unconditional_filter:
  "first_unconditional es =
    (case filter (\<lambda>e. \<not> cr_has_criteria (e_rule e)) es of [] \<Rightarrow> None | e # _ \<Rightarrow> Some e)"
  by (induction es) auto

lemma route_filter:
  "route is_match r target sniffed t =
    (case filter (\<lambda>e. cr_has_criteria (e_rule e) \<and>
            rule_matches is_match (e_rule e) (route_host target sniffed) (route_ip target)
              (target_port target) (Some t) (geo r)) (entries r)
        @ filter (\<lambda>e. \<not> cr_has_criteria (e_rule e)) (entries r) of
       e # _ \<Rightarrow> entry_action r e
     | [] \<Rightarrow> (case Option.bind (default_tag r) (connectors r) of Some c \<Rightarrow> Proxy c | None \<Rightarrow> Reject))"
  by (simp add: route_def Let_def first_criteria_filter first_unconditional_filter split: list.split)

section \<open>What assembly puts into the router\<close>

lemma compile_has_criteria: "compile new a = Inr r \<Longrightarrow> cr_has_criteria r = has_criteria a"
  by (auto simp: compile_def split: sum.splits)

definition entry_for ::
    "(string \<Rightarrow> string + 're) \<Rightarrow> (string \<Rightarrow> string + bytes) \<Rightarrow> outbound_spec_wire \<Rightarrow> 're route_entry \<Rightarrow> bool" where
  "entry_for new b64 ob e \<longleftrightarrow> compile new (rule_from_entry ob) = Inr (e_rule e)
    \<and> e_tag e = ob_tag ob \<and> decode_hijack b64 (hijack_of ob) = Inr (e_hijack e)"

definition register :: "(string \<Rightarrow> connector option) \<Rightarrow> outbound_spec_wire \<Rightarrow> string \<Rightarrow> connector option" where
  "register m ob = (case build_connector ob of Inr c \<Rightarrow> m(connector_tag c \<mapsto> c) | Inl _ \<Rightarrow> m)"

lemma add_rule_entry_Inr:
  assumes "add_rule_entry new b64 b (rule_from_entry ob) (ob_tag ob) (hijack_of ob) = Inr b'"
  obtains e where "entry_for new b64 ob e" "b' = b\<lparr>b_entries := b_entries b @ [e]\<rparr>"
proof -
  obtain rule h where r: "compile new (rule_from_entry ob) = Inr rule"
      "decode_hijack b64 (hijack_of ob) = Inr h"
    and b': "b' = b\<lparr>b_entries := b_entries b @ [\<lparr>e_rule = rule, e_tag = ob_tag ob, e_hijack = h\<rparr>]\<rparr>"
    using assms by (auto simp: add_rule_entry_def split: sum.splits)
  show thesis
    by (rule that [of "\<lparr>e_rule = rule, e_tag = ob_tag ob, e_hijack = h\<rparr>"])
      (simp_all add: entry_for_def r b')
qed

lemma add_outbounds_Inr:
  assumes "add_outbounds new b64 b obs = Inr b'"
  shows "\<exists>es. b_entries b' = b_entries b @ es \<and> list_all2 (entry_for new b64) obs es
    \<and> b_connectors b' = foldl register (b_connectors b) obs"
  using assms
proof (induction obs arbitrary: b)
  case (Cons ob obs)
  then obtain c b1 where c: "build_connector ob = Inr c"
    and r: "add_rule_entry new b64 (add_connector b c) (rule_from_entry ob) (ob_tag ob) (hijack_of ob) = Inr b1"
    and rest: "add_outbounds new b64 b1 obs = Inr b'"
    by (auto split: sum.splits)
  from r obtain e where e: "entry_for new b64 ob e"
    and b1: "b1 = (add_connector b c)\<lparr>b_entries := b_entries (add_connector b c) @ [e]\<rparr>"
    by (rule add_rule_entry_Inr)
  from Cons.IH [OF rest] obtain es where es: "b_entries b' = b_entries b1 @ es"
      "list_all2 (entry_for new b64) obs es" "b_connectors b' = foldl register (b_connectors b1) obs"
    by blast
  have "b_entries b1 = b_entries b @ [e]" "b_connectors b1 = register (b_connectors b) ob"
    by (simp_all add: b1 add_connector_def register_def c)
  with e es show ?case by (intro exI [of _ "e # es"]) simp
qed simp

lemma initialize_router_Inr:
  assumes "initialize_router new b64 g wire = Inr r"
  shows "list_all2 (entry_for new b64) (outbounds wire) (entries r)"
    and "default_tag r = None" "geo r = g"
    and "\<And>t. t \<noteq> ''direct'' \<Longrightarrow> t \<noteq> ''reject'' \<Longrightarrow>
      connectors r t = foldl register Map.empty (outbounds wire) t"
    and "validate wire = Inr ()"
proof -
  obtain b where v: "validate wire = Inr ()" and b: "add_outbounds new b64 builder_new (outbounds wire) = Inr b"
    and r: "r = build (ensure_connector (ensure_connector b ''direct'' DirectOutbound) ''reject'' RejectOutbound) g"
    using assms by (auto simp: initialize_router_def split: sum.splits)
  obtain es where "b_entries b = es" "list_all2 (entry_for new b64) (outbounds wire) es"
      "b_connectors b = foldl register Map.empty (outbounds wire)"
    using add_outbounds_Inr [OF b] by (auto simp: builder_new_def)
  then show "list_all2 (entry_for new b64) (outbounds wire) (entries r)"
    and "default_tag r = None" "geo r = g" "validate wire = Inr ()"
    and "\<And>t. t \<noteq> ''direct'' \<Longrightarrow> t \<noteq> ''reject'' \<Longrightarrow>
      connectors r t = foldl register Map.empty (outbounds wire) t"
    using v by (simp_all add: r build_def ensure_connector_def add_connector_def)
qed

lemma build_connector_tag:
  "build_connector ob = Inr c \<Longrightarrow>
    connector_tag c = ob_tag ob \<or> c = DirectOutbound \<or> c = RejectOutbound"
  by (auto simp: build_connector_def Let_def split: if_splits)

lemma register_other:
  assumes "t \<noteq> ''direct''" "t \<noteq> ''reject''" "ob_tag ob \<noteq> t"
  shows "register m ob t = m t"
  using assms build_connector_tag [of ob]
  by (auto simp: register_def split: sum.split)

lemma foldl_register_other:
  assumes "t \<noteq> ''direct''" "t \<noteq> ''reject''" "t \<notin> ob_tag ` set obs"
  shows "foldl register m obs t = m t"
  using assms by (induction obs arbitrary: m) (auto simp: register_other)

lemma foldl_register_at:
  assumes "t \<noteq> ''direct''" "t \<noteq> ''reject''" "distinct (map ob_tag obs)" "ob \<in> set obs" "ob_tag ob = t"
  shows "foldl register Map.empty obs t = register Map.empty ob t"
proof -
  obtain xs ys where obs: "obs = xs @ ob # ys" using assms(4) by (meson split_list)
  have xs: "foldl register Map.empty xs t = None"
    using foldl_register_other [of t xs Map.empty] assms obs by force
  have "foldl register Map.empty obs t = register (foldl register Map.empty xs) ob t"
    using foldl_register_other [of t ys] assms obs by force
  also have "\<dots> = register Map.empty ob t"
    using xs by (simp add: register_def split: sum.split)
  finally show ?thesis .
qed

lemma initialize_connectors:
  assumes "initialize_router new b64 g wire = Inr r" "ob \<in> set (outbounds wire)"
  shows "\<exists>c. build_connector ob = Inr c"
proof -
  obtain b where b: "add_outbounds new b64 builder_new (outbounds wire) = Inr b"
    using assms(1) by (auto simp: initialize_router_def split: sum.splits)
  have "add_outbounds new b64 bb obs = Inr b \<Longrightarrow> ob \<in> set obs \<Longrightarrow> \<exists>c. build_connector ob = Inr c" for bb obs
    by (induction obs arbitrary: bb) (auto split: sum.splits)
  with b assms(2) show ?thesis by blast
qed

lemma list_all2_filter:
  assumes "list_all2 R xs ys" "\<And>x y. R x y \<Longrightarrow> P x = Q y"
  shows "list_all2 R (filter P xs) (filter Q ys)"
  using assms by (induction rule: list_all2_induct) auto

lemma list_all2_case:
  assumes "list_all2 R xs ys" "\<And>x y. R x y \<Longrightarrow> f x = g y"
  shows "(case xs of x # _ \<Rightarrow> f x | [] \<Rightarrow> d) = (case ys of y # _ \<Rightarrow> g y | [] \<Rightarrow> d)"
  using assms by (cases xs; cases ys) auto

section \<open>What a configuration means for a connection\<close>

text \<open>Stated on the configuration alone. A tag names the last outbound whose connector calls itself so, and \<open>direct\<close> and
  \<open>reject\<close> name the built-in ones when no outbound takes the name.\<close>

definition built_connectors :: "outbound_spec_wire list \<Rightarrow> connector list" where
  "built_connectors obs = List.map_filter (\<lambda>ob. case build_connector ob of Inr c \<Rightarrow> Some c | Inl _ \<Rightarrow> None) obs"

definition config_connector :: "runtime_config_wire \<Rightarrow> string \<Rightarrow> connector option" where
  "config_connector wire t =
    List.find (\<lambda>c. connector_tag c = t) (rev (built_connectors (outbounds wire)) @ [DirectOutbound, RejectOutbound])"

definition config_action :: "(string \<Rightarrow> string + bytes) \<Rightarrow> runtime_config_wire \<Rightarrow> outbound_spec_wire \<Rightarrow> route_action" where
  "config_action b64 wire ob =
    (case decode_hijack b64 (hijack_of ob) of
       Inr (Some bs) \<Rightarrow> Hijack bs
     | _ \<Rightarrow> (case config_connector wire (ob_tag ob) of Some c \<Rightarrow> Proxy c | None \<Rightarrow> Reject))"

text \<open>The first outbound whose criteria hold, else the first without criteria.\<close>

definition config_outbound ::
    "(string \<Rightarrow> string + 're) \<Rightarrow> ('re \<Rightarrow> string \<Rightarrow> bool) \<Rightarrow> geo_lookup \<Rightarrow> runtime_config_wire
     \<Rightarrow> proxy_target \<Rightarrow> string option \<Rightarrow> string \<Rightarrow> outbound_spec_wire option" where
  "config_outbound regex_new is_match g wire target sniffed t =
    (case filter (\<lambda>ob. has_criteria (rule_from_entry ob) \<and>
            rule_spec regex_new is_match (rule_from_entry ob) (route_host target sniffed)
              (route_ip target) (target_port target) (Some t) g) (outbounds wire)
        @ filter (\<lambda>ob. \<not> has_criteria (rule_from_entry ob)) (outbounds wire) of
       ob # _ \<Rightarrow> Some ob
     | [] \<Rightarrow> None)"

definition config_route ::
    "(string \<Rightarrow> string + 're) \<Rightarrow> ('re \<Rightarrow> string \<Rightarrow> bool) \<Rightarrow> (string \<Rightarrow> string + bytes) \<Rightarrow> geo_lookup \<Rightarrow> runtime_config_wire
     \<Rightarrow> proxy_target \<Rightarrow> string option \<Rightarrow> string \<Rightarrow> route_action" where
  "config_route regex_new is_match b64 g wire target sniffed t =
    (case config_outbound regex_new is_match g wire target sniffed t of
       Some ob \<Rightarrow> config_action b64 wire ob
     | None \<Rightarrow> Reject)"

text \<open>The types without settings of their own.\<close>

abbreviation builtin_type :: "outbound_spec_wire \<Rightarrow> bool" where
  "builtin_type ob \<equiv> outbound_type ob \<in> {''direct'', ''reject'', ''block''}"

lemma case_head: "(case (case xs of x # _ \<Rightarrow> Some x | [] \<Rightarrow> None) of Some x \<Rightarrow> f x | None \<Rightarrow> d) = (case xs of x # _ \<Rightarrow> f x | [] \<Rightarrow> d)"
  by (cases xs) simp_all

lemma set_built_connectors: "c \<in> set (built_connectors obs) \<longleftrightarrow> (\<exists>ob \<in> set obs. build_connector ob = Inr c)"
  by (induction obs) (auto simp: built_connectors_def List.map_filter_simps split: sum.splits)

lemma built_tag:
  "build_connector ob = Inr c \<Longrightarrow> connector_tag c =
    (if outbound_type ob = ''direct'' then ''direct'' else if outbound_type ob \<in> {''reject'', ''block''} then ''reject'' else ob_tag ob)"
  by (auto simp: build_connector_def Let_def split: if_splits)

lemma built_builtin:
  "build_connector ob = Inr c \<Longrightarrow> builtin_type ob \<Longrightarrow> c = DirectOutbound \<or> c = RejectOutbound"
  by (auto simp: build_connector_def Let_def)

lemma find_append: "List.find P (xs @ ys) = (case List.find P xs of Some x \<Rightarrow> Some x | None \<Rightarrow> List.find P ys)"
  by (induction xs) auto

lemma foldl_register_find:
  "foldl register m obs t = (case List.find (\<lambda>c. connector_tag c = t) (rev (built_connectors obs)) of Some c \<Rightarrow> Some c | None \<Rightarrow> m t)"
proof (induction obs arbitrary: m)
  case (Cons ob obs)
  then show ?case
    by (cases "build_connector ob")
      (auto simp: register_def built_connectors_def List.map_filter_simps find_append split: option.split)
qed (simp add: built_connectors_def List.map_filter_simps)

lemma builtin_tags [simp]: "connector_tag DirectOutbound = ''direct''" "connector_tag RejectOutbound = ''reject''"
  by simp_all

lemma connectors_config:
  assumes "initialize_router new b64 g wire = Inr r"
  shows "connectors r t = config_connector wire t"
proof -
  obtain b where b: "add_outbounds new b64 builder_new (outbounds wire) = Inr b"
    and r: "r = build (ensure_connector (ensure_connector b ''direct'' DirectOutbound) ''reject'' RejectOutbound) g"
    using assms by (auto simp: initialize_router_def split: sum.splits)
  have "b_connectors b = foldl register Map.empty (outbounds wire)"
    using add_outbounds_Inr [OF b] by (auto simp: builder_new_def)
  then have c: "b_connectors b t' = List.find (\<lambda>c. connector_tag c = t') (rev (built_connectors (outbounds wire)))" for t'
    by (simp add: foldl_register_find split: option.split)
  show ?thesis
    by (auto simp: r build_def ensure_connector_def add_connector_def has_connector_def config_connector_def find_append c
        split: option.split)
qed

lemma entry_for_action:
  "initialize_router new b64 g wire = Inr r \<Longrightarrow> entry_for new' b64 ob e \<Longrightarrow> entry_action r e = config_action b64 wire ob"
  by (auto simp: entry_for_def entry_action_def config_action_def connectors_config split: option.split)

text \<open>The entries of the router are those of the configuration, so its two loops find the same outbound.\<close>

lemma route_config:
  assumes "initialize_router regex_new b64 g wire = Inr r"
  shows "route is_match r target sniffed t = config_route regex_new is_match b64 g wire target sniffed t"
proof -
  note init = initialize_router_Inr [OF assms]
  have crit: "has_criteria (rule_from_entry ob) = cr_has_criteria (e_rule e)"
    if "entry_for regex_new b64 ob e" for ob e
    using that compile_has_criteria by (auto simp: entry_for_def)
  have spec: "rule_spec regex_new is_match (rule_from_entry ob) h i p tg gg
      = rule_matches is_match (e_rule e) h i p tg gg"
    if "entry_for regex_new b64 ob e" for ob e h i p tg gg
    using that compile_correct_lemma [of regex_new "rule_from_entry ob" "e_rule e"]
    by (simp add: entry_for_def)
  let ?obs = "filter (\<lambda>ob. has_criteria (rule_from_entry ob) \<and>
            rule_spec regex_new is_match (rule_from_entry ob) (route_host target sniffed)
              (route_ip target) (target_port target) (Some t) g) (outbounds wire)
        @ filter (\<lambda>ob. \<not> has_criteria (rule_from_entry ob)) (outbounds wire)"
  let ?es = "filter (\<lambda>e. cr_has_criteria (e_rule e) \<and>
            rule_matches is_match (e_rule e) (route_host target sniffed) (route_ip target)
              (target_port target) (Some t) (geo r)) (entries r)
        @ filter (\<lambda>e. \<not> cr_has_criteria (e_rule e)) (entries r)"
  have "list_all2 (entry_for regex_new b64) ?obs ?es"
    using init(1,3) crit spec
    by (intro list_all2_appendI list_all2_filter [OF init(1)]) auto
  then have "(case ?obs of ob # _ \<Rightarrow> config_action b64 wire ob | [] \<Rightarrow> Reject)
      = (case ?es of e # _ \<Rightarrow> entry_action r e | [] \<Rightarrow> Reject)"
    by (rule list_all2_case) (metis entry_for_action [OF assms])
  moreover have "(case Option.bind (default_tag r) (connectors r) of Some c \<Rightarrow> Proxy c | None \<Rightarrow> Reject) = Reject"
    by (simp add: init(2))
  ultimately show ?thesis
    by (simp only: route_filter config_route_def config_outbound_def case_head)
qed

lemma connectors_of_config:
  assumes "initialize_router regex_new b64 g wire = Inr r" "ob \<in> set (outbounds wire)"
    "ob_tag ob \<noteq> ''direct''" "ob_tag ob \<noteq> ''reject''"
  shows "connectors r (ob_tag ob) = register Map.empty ob (ob_tag ob)"
proof -
  note init = initialize_router_Inr [OF assms(1)]
  have "distinct (map ob_tag (outbounds wire))"
    using init(5) validate_distinct by blast
  then show ?thesis
    using foldl_register_at [OF assms(3,4) _ assms(2) refl] init(4) [OF assms(3,4)] by simp
qed

text \<open>Which connector the tag of an outbound names.\<close>

lemma own_connector:
  assumes "initialize_router regex_new b64 g wire = Inr r" "ob \<in> set (outbounds wire)" "ob_tag ob \<notin> {''direct'', ''reject''}"
  shows "config_connector wire (ob_tag ob) =
    (if builtin_type ob then None else (case build_connector ob of Inr c \<Rightarrow> Some c | Inl _ \<Rightarrow> None))"
proof -
  obtain c where c: "build_connector ob = Inr c" using assms(1,2) initialize_connectors by blast
  have "config_connector wire (ob_tag ob) = register Map.empty ob (ob_tag ob)"
    using connectors_of_config [OF assms(1,2)] connectors_config [OF assms(1)] assms(3) by simp
  also have "\<dots> = (if connector_tag c = ob_tag ob then Some c else None)" by (simp add: register_def c)
  finally show ?thesis using c assms(3) built_tag [OF c] by (auto split: if_splits)
qed

lemma builtin_connector:
  assumes "\<forall>ob \<in> set (outbounds wire). ob_tag ob \<in> {''direct'', ''reject''} \<longrightarrow> builtin_type ob"
  shows "config_connector wire ''direct'' = Some DirectOutbound" "config_connector wire ''reject'' = Some RejectOutbound"
proof -
  have b: "c = DirectOutbound \<or> c = RejectOutbound"
    if c: "c \<in> set (built_connectors (outbounds wire))" "connector_tag c \<in> {''direct'', ''reject''}" for c
  proof -
    obtain ob where ob: "ob \<in> set (outbounds wire)" "build_connector ob = Inr c"
      using c(1) by (auto simp: set_built_connectors)
    have "builtin_type ob" using assms ob(1) c(2) built_tag [OF ob(2)] by (auto split: if_splits)
    then show ?thesis by (rule built_builtin [OF ob(2)])
  qed
  have f: "(\<exists>c. List.find P xs = Some c \<and> P c \<and> c \<in> set xs) \<or> List.find P xs = None" for P and xs :: "connector list"
    by (induction xs) auto
  show "config_connector wire ''direct'' = Some DirectOutbound" "config_connector wire ''reject'' = Some RejectOutbound"
    using f [of "\<lambda>c. connector_tag c = ''direct''" "rev (built_connectors (outbounds wire))"]
      f [of "\<lambda>c. connector_tag c = ''reject''" "rev (built_connectors (outbounds wire))"] b
    by (fastforce simp: config_connector_def find_append)+
qed

section \<open>Properties\<close>

text \<open>Property C1: routing implements the configuration. A connection is treated as the first outbound (in the order of the
  configuration) says that has criteria and whose criteria hold in the declarative sense, else as the first outbound without
  criteria says; when there is neither it is rejected. What an outbound says is fixed by the configuration too: one with a canned response
  answers with exactly those bytes; any other goes out through the connector that its tag names. For an outbound with settings of its own that
  is the connector built from them; the tags \<open>direct\<close> and \<open>reject\<close> name the built-in connectors, unless an
  outbound with settings takes the name; and a direct, reject or block outbound under any other tag has none, so that
  a connection that selects it is rejected.\<close>

theorem route_implements_config:
  assumes "initialize_router regex_new b64 g wire = Inr r"
  shows "route is_match r target sniffed t = config_route regex_new is_match b64 g wire target sniffed t
    \<and> (\<forall>ob \<in> set (outbounds wire). ob_tag ob \<notin> {''direct'', ''reject''} \<longrightarrow>
        config_connector wire (ob_tag ob) =
          (if builtin_type ob then None else (case build_connector ob of Inr c \<Rightarrow> Some c | Inl _ \<Rightarrow> None)))
    \<and> ((\<forall>ob \<in> set (outbounds wire). ob_tag ob \<in> {''direct'', ''reject''} \<longrightarrow> builtin_type ob) \<longrightarrow>
        config_connector wire ''direct'' = Some DirectOutbound \<and> config_connector wire ''reject'' = Some RejectOutbound)"
  using route_config [OF assms] own_connector [OF assms] builtin_connector by blast

definition sample_wire :: runtime_config_wire where
  "sample_wire = default_wire\<lparr>outbounds :=
      [\<lparr>ob_tag = ''web'', outbound_type = ''http'',
         ob_target = Some \<lparr>t_server = Some ''p'', t_server_port = Some 3128, t_ip_hint = None\<rparr>,
         ob_rest = [(''ports'', JArray [JNumber (PosInt 80)])]\<rparr>,
       \<lparr>ob_tag = ''direct'', outbound_type = ''direct'', ob_target = None, ob_rest = []\<rparr>]\<rparr>"

definition no_geo :: geo_lookup where
  "no_geo = \<lparr>geoip_contains = \<lambda>_ _. False, geosite_matches = \<lambda>_ _. False\<rparr>"

definition no_regex :: "string \<Rightarrow> string + unit" where
  "no_regex s = Inl ''unsupported''"

definition no_b64 :: "string \<Rightarrow> string + bytes" where
  "no_b64 s = Inr []"

lemma sample_wire_initializes: "\<exists>r. initialize_router no_regex no_b64 no_geo sample_wire = Inr r"
proof -
  have "\<not> isl (initialize_router no_regex no_b64 no_geo sample_wire)" by code_simp
  then show ?thesis by (metis isl_def sum.exhaust)
qed

theorem route_implements_config_witness:
  "\<exists>r c. initialize_router no_regex no_b64 no_geo sample_wire = Inr r
    \<and> build_connector (outbounds sample_wire ! 0) = Inr c
    \<and> route (\<lambda>_ _. False) r (Domain ''a'' 80) None ''in'' = Proxy c
    \<and> route (\<lambda>_ _. False) r (Domain ''a'' 81) None ''in'' = Proxy DirectOutbound"
proof -
  obtain r where r: "initialize_router no_regex no_b64 no_geo sample_wire = Inr r"
    using sample_wire_initializes by blast
  obtain c where c: "build_connector (outbounds sample_wire ! 0) = Inr c"
    using initialize_connectors [OF r, of "outbounds sample_wire ! 0"] by (auto simp: sample_wire_def)
  have o: "outbounds sample_wire ! 0 \<in> set (outbounds sample_wire)" "ob_tag (outbounds sample_wire ! 0) \<notin> {''direct'', ''reject''}"
      "\<not> builtin_type (outbounds sample_wire ! 0)"
    by (simp_all add: sample_wire_def)
  have s: "config_outbound no_regex (\<lambda>_ _. False) no_geo sample_wire (Domain ''a'' 80) None ''in'' = Some (outbounds sample_wire ! 0)"
    by code_simp
  have h: "decode_hijack no_b64 (hijack_of (outbounds sample_wire ! 0)) = Inr None" by code_simp
  have d: "config_route no_regex (\<lambda>_ _. False) no_b64 no_geo sample_wire (Domain ''a'' 81) None ''in'' = Proxy DirectOutbound"
    by code_simp
  note R = route_implements_config [OF r]
  have k: "config_connector sample_wire (ob_tag (outbounds sample_wire ! 0)) = Some c" using R o c by auto
  have "route (\<lambda>_ _. False) r (Domain ''a'' 80) None ''in'' = Proxy c"
    using R s h k by (simp add: config_route_def config_action_def)
  moreover have "route (\<lambda>_ _. False) r (Domain ''a'' 81) None ''in'' = Proxy DirectOutbound"
    using R d by simp
  ultimately show ?thesis using r c by blast
qed

text \<open>Every outbound of a proxying type (anything but direct, reject
  and block) is reachable under its own tag: the router holds exactly the
  connector built from its settings.\<close>

theorem proxy_outbound_registered:
  assumes "initialize_router regex_new b64 g wire = Inr r" "ob \<in> set (outbounds wire)"
    "ob_tag ob \<noteq> ''direct''" "ob_tag ob \<noteq> ''reject''"
    "outbound_type ob \<noteq> ''direct''" "outbound_type ob \<noteq> ''reject''" "outbound_type ob \<noteq> ''block''"
  shows "\<exists>c. build_connector ob = Inr c \<and> connectors r (ob_tag ob) = Some c"
proof -
  obtain c where c: "build_connector ob = Inr c"
    using assms(1,2) initialize_connectors by blast
  then have "connector_tag c = ob_tag ob"
    using assms(5-7) by (auto simp: build_connector_def Let_def split: if_splits)
  then show ?thesis
    using c connectors_of_config [OF assms(1-4)] by (simp add: register_def)
qed

text \<open>A direct, reject or block outbound with a tag of its own is never
  registered under that tag (its connector always calls itself direct or
  reject), so a rule that selects it rejects the connection.\<close>

theorem tagged_direct_outbound_rejects:
  assumes "initialize_router regex_new b64 g wire = Inr r" "ob \<in> set (outbounds wire)"
    "ob_tag ob \<noteq> ''direct''" "ob_tag ob \<noteq> ''reject''"
    "outbound_type ob = ''direct'' \<or> outbound_type ob = ''reject'' \<or> outbound_type ob = ''block''"
    "hijack_of ob = None"
  shows "config_action b64 wire ob = Reject"
  using own_connector [OF assms(1,2)] assms(3-6) by (auto simp: config_action_def decode_hijack_def)

theorem proxy_outbound_registered_witness:
  "\<exists>r c. initialize_router no_regex no_b64 no_geo sample_wire = Inr r
    \<and> build_connector (outbounds sample_wire ! 0) = Inr c
    \<and> connectors r (ob_tag (outbounds sample_wire ! 0)) = Some c"
proof -
  obtain r where r: "initialize_router no_regex no_b64 no_geo sample_wire = Inr r"
    using sample_wire_initializes by blast
  then show ?thesis
    using proxy_outbound_registered [OF r, of "outbounds sample_wire ! 0"]
    by (auto simp: sample_wire_def)
qed

definition tagged_wire :: runtime_config_wire where
  "tagged_wire = default_wire\<lparr>outbounds := [\<lparr>ob_tag = ''out'', outbound_type = ''direct'', ob_target = None, ob_rest = []\<rparr>]\<rparr>"

theorem tagged_direct_outbound_rejects_witness: "config_action no_b64 tagged_wire (outbounds tagged_wire ! 0) = Reject"
proof -
  have "\<not> isl (initialize_router no_regex no_b64 no_geo tagged_wire)" by code_simp
  then obtain r where r: "initialize_router no_regex no_b64 no_geo tagged_wire = Inr r" by (metis isl_def sum.exhaust)
  have "hijack_of (outbounds tagged_wire ! 0) = None" by code_simp
  then show ?thesis
    using tagged_direct_outbound_rejects [OF r, of "outbounds tagged_wire ! 0"] by (simp add: tagged_wire_def)
qed

end
