(* ===== verification/BlockHash.thy ===== *)
theory BlockHash
  imports Utf8
begin

text \<open>
  Hash functions that process their input in 64-byte blocks through an
  internal buffer. MD5 (\<open>crypto.rs\<close>) and SHA-1
  (\<open>shadowsocks/mod.rs\<close>) share this loop; only the compression function, the
  byte order of the length and the output differ. The array \<open>buf\<close> keeps stale
  bytes beyond \<open>buflen\<close>, as in the code.
\<close>

section \<open>The buffer loop\<close>

record 's hasher =
  hstate :: 's
  hlen :: u64
  hbuf :: bytes
  hbuflen :: nat

definition absorb :: "('s \<Rightarrow> bytes \<Rightarrow> 's) \<Rightarrow> bytes \<Rightarrow> 's hasher \<Rightarrow> 's hasher" where
  "absorb compress chunk h =
    (let n = length chunk;
         buf = take (hbuflen h) (hbuf h) @ chunk @ drop (hbuflen h + n) (hbuf h);
         h' = h\<lparr>hbuf := buf, hbuflen := hbuflen h + n\<rparr>
     in if hbuflen h' = 64 then h'\<lparr>hstate := compress (hstate h) buf, hbuflen := 0\<rparr> else h')"

text \<open>The \<open>while\<close> loop of \<open>update\<close>. The guard on \<open>hbuflen\<close> always holds in
  reachable states and makes the recursion total.\<close>

function update_loop :: "('s \<Rightarrow> bytes \<Rightarrow> 's) \<Rightarrow> bytes \<Rightarrow> 's hasher \<Rightarrow> 's hasher" where
  "update_loop compress data h =
    (if data = [] \<or> 64 \<le> hbuflen h then h
     else let n = min (64 - hbuflen h) (length data)
          in update_loop compress (drop n data) (absorb compress (take n data) h))"
  by auto
termination
  by (relation "measure (\<lambda>(_, data, _). length data)") auto

declare update_loop.simps [simp del]

definition block_update :: "('s \<Rightarrow> bytes \<Rightarrow> 's) \<Rightarrow> 's hasher \<Rightarrow> bytes \<Rightarrow> 's hasher" where
  "block_update compress h data =
    update_loop compress data (h\<lparr>hlen := hlen h + word_of_nat (length data)\<rparr>)"

definition hasher_new :: "'s \<Rightarrow> 's hasher" where
  "hasher_new iv = \<lparr>hstate = iv, hlen = 0, hbuf = replicate 64 0, hbuflen = 0\<rparr>"

section \<open>Reference semantics\<close>

text \<open>The state after absorbing a message: full blocks are compressed, the
  remaining bytes are in the buffer.\<close>

function blocks :: "bytes \<Rightarrow> bytes list" where
  "blocks m = (if length m < 64 then [] else take 64 m # blocks (drop 64 m))"
  by auto
termination
  by (relation "measure length") auto

declare blocks.simps [simp del]

definition tail_of :: "bytes \<Rightarrow> bytes" where
  "tail_of m = drop (64 * (length m div 64)) m"

definition represents :: "('s \<Rightarrow> bytes \<Rightarrow> 's) \<Rightarrow> 's \<Rightarrow> bytes \<Rightarrow> 's hasher \<Rightarrow> bool" where
  "represents compress iv m h \<longleftrightarrow>
    hstate h = foldl compress iv (blocks m) \<and> hbuflen h = length m mod 64
    \<and> length (hbuf h) = 64 \<and> take (hbuflen h) (hbuf h) = tail_of m"

lemma length_tail_of: "length (tail_of m) = length m mod 64"
  by (simp add: tail_of_def minus_mult_div_eq_mod)

lemma blocks_append_aligned:
  assumes "length a mod 64 = 0"
  shows "blocks (a @ b) = blocks a @ blocks b"
  using assms
proof (induction a rule: blocks.induct)
  case (1 a)
  show ?case
  proof (cases "length a < 64")
    case True
    then have "a = []" using 1(2) by simp
    then show ?thesis by (simp add: blocks.simps)
  next
    case False
    then have "length (drop 64 a) mod 64 = 0" using 1(2) by (simp add: mod_eq_0_iff_dvd)
    then show ?thesis
      using 1(1) [OF False] False by (subst (1 2) blocks.simps) (simp add: not_less)
  qed
qed

lemma blocks_short: "length b < 64 \<Longrightarrow> blocks b = []"
  by (simp add: blocks.simps)

lemma blocks_one: "length b = 64 \<Longrightarrow> blocks b = [b]"
  by (simp add: blocks.simps)

lemma message_split:
  obtains a where "m = a @ tail_of m" "length a mod 64 = 0"
proof
  let ?k = "64 * (length m div 64)"
  show "m = take ?k m @ tail_of m" by (simp add: tail_of_def)
  have "?k \<le> length m" by (rule times_div_less_eq_dividend)
  then have "length (take ?k m) = ?k" by (simp only: length_take min_absorb2)
  then show "length (take ?k m) mod 64 = 0" by simp
qed

lemma tail_of_aligned:
  assumes "length a mod 64 = 0" "length t < 64"
  shows "tail_of (a @ t) = t"
proof -
  obtain k where "length a = 64 * k" using assms(1) by (metis dvdE mod_eq_0_iff_dvd)
  then have "length (a @ t) div 64 = k" using assms(2) by simp
  then show ?thesis using \<open>length a = 64 * k\<close> by (simp add: tail_of_def)
qed

text \<open>Absorbing a piece that fits into the buffer.\<close>

lemma absorb_represents:
  assumes r: "represents compress iv m h" and c: "hbuflen h + length c \<le> 64"
  shows "represents compress iv (m @ c) (absorb compress c h)"
proof -
  obtain a where m: "m = a @ tail_of m" and al: "length a mod 64 = 0" by (rule message_split)
  let ?t = "tail_of m @ c"
  have lt: "length (tail_of m) = hbuflen h" using r by (simp add: represents_def length_tail_of)
  have mc: "m @ c = a @ ?t" using m by simp
  have bm: "blocks m = blocks a"
    using blocks_append_aligned [OF al, of "tail_of m"] m length_tail_of [of m]
    by (metis append_Nil2 blocks_short mod_less_divisor zero_less_numeral)
  have buf: "take (hbuflen h) (hbuf h) = tail_of m" using r unfolding represents_def by blast
  have lm: "length (m @ c) = length a + length ?t" using mc by (metis length_append)
  show ?thesis
  proof (cases "length ?t = 64")
    case True
    have "blocks (m @ c) = blocks a @ [?t]"
      unfolding mc using blocks_append_aligned [OF al, of ?t] blocks_one [OF True] by simp
    moreover have "tail_of (m @ c) = []"
      using tail_of_aligned [of "m @ c" "[]"] al True lm by simp
    ultimately show ?thesis
      using r True lt al lm buf
      by (simp add: represents_def absorb_def Let_def bm)
  next
    case False
    then have l: "length ?t < 64" using c lt by simp
    have "blocks (m @ c) = blocks a"
      unfolding mc using blocks_append_aligned [OF al, of ?t] blocks_short [OF l] by simp
    moreover have "tail_of (m @ c) = ?t" unfolding mc by (rule tail_of_aligned [OF al l])
    moreover have "length (m @ c) mod 64 = length ?t" 
      unfolding lm using al l by (metis add_0 mod_add_left_eq mod_less)
    ultimately show ?thesis
      using r l lt buf
      by (simp add: represents_def absorb_def Let_def bm)
  qed
qed

lemma represents_buflen: "represents compress iv m h \<Longrightarrow> hbuflen h < 64"
  by (simp add: represents_def)

lemma represents_hlen [simp]: "represents compress iv m (h\<lparr>hlen := n\<rparr>) \<longleftrightarrow> represents compress iv m h"
  by (simp add: represents_def)

lemma update_loop_represents:
  "represents compress iv m h \<Longrightarrow> represents compress iv (m @ d) (update_loop compress d h)"
proof (induction compress d h arbitrary: m rule: update_loop.induct)
  case (1 compress d h)
  note bl = represents_buflen [OF 1(2)]
  show ?case
  proof (cases "d = []")
    case True
    then show ?thesis using 1(2) by (simp add: update_loop.simps)
  next
    case False
    let ?n = "min (64 - hbuflen h) (length d)"
    have "represents compress iv (m @ take ?n d) (absorb compress (take ?n d) h)"
      using 1(2) bl by (intro absorb_represents) auto
    from 1(1) [OF _ refl this] False bl
    have "represents compress iv ((m @ take ?n d) @ drop ?n d)
      (update_loop compress (drop ?n d) (absorb compress (take ?n d) h))"
      by simp
    then have "represents compress iv (m @ d)
      (update_loop compress (drop ?n d) (absorb compress (take ?n d) h))"
      by (simp only: append.assoc append_take_drop_id)
    moreover have "update_loop compress d h =
      update_loop compress (drop ?n d) (absorb compress (take ?n d) h)"
      using False bl by (subst update_loop.simps) (simp only: Let_def, simp)
    ultimately show ?thesis by simp
  qed
qed

lemma absorb_hlen [simp]: "hlen (absorb compress c h) = hlen h"
  by (simp add: absorb_def Let_def)

lemma update_loop_hlen [simp]: "hlen (update_loop compress d h) = hlen h"
proof (induction compress d h rule: update_loop.induct)
  case (1 compress d h)
  then show ?case by (subst update_loop.simps) (simp add: Let_def)
qed

lemma block_update_represents:
  "represents compress iv m h \<Longrightarrow> represents compress iv (m @ d) (block_update compress h d)"
  by (simp add: block_update_def update_loop_represents)

lemma block_update_hlen [simp]: "hlen (block_update compress h d) = hlen h + word_of_nat (length d)"
  by (simp add: block_update_def)

lemma hasher_new_represents: "represents compress iv [] (hasher_new iv)"
  by (simp add: represents_def hasher_new_def tail_of_def blocks.simps)

lemma hasher_new_hlen [simp]: "hlen (hasher_new iv) = 0"
  by (simp add: hasher_new_def)

section \<open>Padding and finishing\<close>

text \<open>\<open>while self.buflen != 56 { self.update(&[0]) }\<close>; the second guard never
  holds in reachable states.\<close>

lemma block_update_zero_buflen:
  "hbuflen h < 64 \<Longrightarrow> hbuflen (block_update c h [b]) = (hbuflen h + 1) mod 64"
  by (simp add: block_update_def update_loop.simps absorb_def Let_def)

function pad_zeros :: "('s \<Rightarrow> bytes \<Rightarrow> 's) \<Rightarrow> 's hasher \<Rightarrow> 's hasher" where
  "pad_zeros compress h =
    (if hbuflen h = 56 \<or> 64 \<le> hbuflen h then h else pad_zeros compress (block_update compress h [0]))"
  by auto
termination
proof (relation "measure (\<lambda>(_, h). (120 - hbuflen h) mod 64)")
  fix compress :: "'s \<Rightarrow> bytes \<Rightarrow> 's" and h :: "'s hasher"
  assume "\<not> (hbuflen h = 56 \<or> 64 \<le> hbuflen h)"
  then have b: "hbuflen h < 64" "hbuflen h \<noteq> 56" by auto
  have "(120 - (n + 1) mod 64) mod 64 < (120 - n) mod 64" if "n < 64" "n \<noteq> 56" for n :: nat
    using that by (cases "n < 56") (auto simp: mod_if)
  then show "((compress, block_update compress h [0]), compress, h) \<in> measure (\<lambda>(_, h). (120 - hbuflen h) mod 64)"
    using b by (simp add: block_update_zero_buflen)
qed simp

declare pad_zeros.simps [simp del]

definition block_finish :: "('s \<Rightarrow> bytes \<Rightarrow> 's) \<Rightarrow> (u64 \<Rightarrow> bytes) \<Rightarrow> 's hasher \<Rightarrow> 's" where
  "block_finish compress len_bytes h =
    (let bitlen = hlen h * 8;
         h1 = block_update compress h [0x80];
         h2 = pad_zeros compress h1
     in hstate (block_update compress h2 (len_bytes bitlen)))"

definition pad_message :: "(u64 \<Rightarrow> bytes) \<Rightarrow> bytes \<Rightarrow> bytes" where
  "pad_message len_bytes m =
    m @ [0x80] @ replicate ((120 - (length m + 1) mod 64) mod 64) 0
      @ len_bytes (word_of_nat (length m) * 8)"

definition hash_ref :: "('s \<Rightarrow> bytes \<Rightarrow> 's) \<Rightarrow> 's \<Rightarrow> (u64 \<Rightarrow> bytes) \<Rightarrow> bytes \<Rightarrow> 's" where
  "hash_ref compress iv len_bytes m = foldl compress iv (blocks (pad_message len_bytes m))"

lemma pad_zeros_represents:
  "represents compress iv m h \<Longrightarrow>
    represents compress iv (m @ replicate ((120 - hbuflen h) mod 64) 0) (pad_zeros compress h)"
proof (induction compress h arbitrary: m rule: pad_zeros.induct)
  case (1 compress h)
  note bl = represents_buflen [OF 1(2)]
  show ?case
  proof (cases "hbuflen h = 56")
    case True
    then show ?thesis using 1(2) by (simp add: pad_zeros.simps)
  next
    case False
    let ?h = "block_update compress h [0]"
    have "represents compress iv (m @ [0]) ?h" using 1(2) by (rule block_update_represents)
    from 1(1) [OF _ this] False bl
    have "represents compress iv ((m @ [0]) @ replicate ((120 - hbuflen ?h) mod 64) 0) (pad_zeros compress ?h)"
      by simp
    moreover have "(120 - hbuflen h) mod 64 = Suc ((120 - hbuflen ?h) mod 64)"
      using bl False by (cases "hbuflen h < 56") (auto simp: block_update_zero_buflen mod_if)
    moreover have "pad_zeros compress h = pad_zeros compress ?h"
      using False bl by (subst pad_zeros.simps) simp
    ultimately show ?thesis by simp
  qed
qed

text \<open>What the two hash functions have in common: the length field is eight bytes
  long. The streaming computation then equals the one-shot reference.\<close>

locale block_hash =
  fixes compress :: "'s \<Rightarrow> bytes \<Rightarrow> 's"
    and iv :: 's
    and len_bytes :: "u64 \<Rightarrow> bytes"
  assumes len_bytes_8: "length (len_bytes w) = 8"
begin

lemma finish_ref:
  assumes "represents compress iv m h" "hlen h = word_of_nat (length m)"
  shows "block_finish compress len_bytes h = hash_ref compress iv len_bytes m"
proof -
  let ?h1 = "block_update compress h [0x80]"
  let ?h2 = "pad_zeros compress ?h1"
  have r1: "represents compress iv (m @ [0x80]) ?h1"
    using assms(1) by (rule block_update_represents)
  then have "hbuflen ?h1 = (length m + 1) mod 64" by (simp add: represents_def)
  then have "represents compress iv ((m @ [0x80]) @ replicate ((120 - (length m + 1) mod 64) mod 64) 0) ?h2"
    using pad_zeros_represents [OF r1] by simp
  then have "represents compress iv (pad_message len_bytes m)
      (block_update compress ?h2 (len_bytes (hlen h * 8)))"
    using block_update_represents assms(2) by (fastforce simp: pad_message_def)
  then show ?thesis
    by (simp add: block_finish_def hash_ref_def represents_def Let_def)
qed

lemma fold_represents:
  "represents compress iv m h \<Longrightarrow> hlen h = word_of_nat (length m) \<Longrightarrow>
    represents compress iv (m @ concat parts) (foldl (block_update compress) h parts)
    \<and> hlen (foldl (block_update compress) h parts) = word_of_nat (length (m @ concat parts))"
proof (induction parts arbitrary: m h)
  case (Cons p ps)
  show ?case
    using Cons.IH [of "m @ p" "block_update compress h p"] Cons.prems block_update_represents
    by fastforce
qed simp

lemma digest_ref:
  "block_finish compress len_bytes (foldl (block_update compress) (hasher_new iv) parts) =
    hash_ref compress iv len_bytes (concat parts)"
  using fold_represents [OF hasher_new_represents, of parts] finish_ref by simp

lemma padded_aligned: "length (pad_message len_bytes m) mod 64 = 0"
proof -
  have "(n + 1 + (120 - (n + 1) mod 64) mod 64 + 8) mod 64 = 0" for n :: nat
  proof -
    define k where "k = (n + 1) mod 64"
    have "k < 64" by (simp add: k_def)
    have "(k + (120 - k) mod 64 + 8) mod 64 = 0"
      using \<open>k < 64\<close> by (cases "k \<le> 56") (auto simp: mod_if)
    then show ?thesis unfolding k_def [symmetric] using k_def by (metis mod_add_left_eq)
  qed
  then show ?thesis
    by (simp add: pad_message_def len_bytes_8 add.left_commute add.commute)
qed

end

end
