(* ===== verification/Crypto.thy ===== *)
theory Crypto
  imports BlockHash
begin

text \<open>
  \<open>crates/omni-proto/src/crypto.rs\<close>: MD5, FNV-1a, hexadecimal text and UUIDs,
  AES-128 in CFB and CTR mode. The AES block function is the \<open>aes\<close> crate's: it
  is the parameter \<open>block\<close>, a function on 16-byte blocks (with the key already
  applied). SHA-224 and SHA-256 are the \<open>sha2\<close> crate's and parameters of their
  callers.
\<close>

section \<open>MD5\<close>

definition md5_S :: "nat list" where
  "md5_S =
    [7, 12, 17, 22, 7, 12, 17, 22, 7, 12, 17, 22, 7, 12, 17, 22,
     5, 9, 14, 20, 5, 9, 14, 20, 5, 9, 14, 20, 5, 9, 14, 20,
     4, 11, 16, 23, 4, 11, 16, 23, 4, 11, 16, 23, 4, 11, 16, 23,
     6, 10, 15, 21, 6, 10, 15, 21, 6, 10, 15, 21, 6, 10, 15, 21]"

definition md5_K :: "u32 list" where
  "md5_K =
    [0xd76aa478, 0xe8c7b756, 0x242070db, 0xc1bdceee, 0xf57c0faf, 0x4787c62a, 0xa8304613,
     0xfd469501, 0x698098d8, 0x8b44f7af, 0xffff5bb1, 0x895cd7be, 0x6b901122, 0xfd987193,
     0xa679438e, 0x49b40821, 0xf61e2562, 0xc040b340, 0x265e5a51, 0xe9b6c7aa, 0xd62f105d,
     0x02441453, 0xd8a1e681, 0xe7d3fbc8, 0x21e1cde6, 0xc33707d6, 0xf4d50d87, 0x455a14ed,
     0xa9e3e905, 0xfcefa3f8, 0x676f02d9, 0x8d2a4c8a, 0xfffa3942, 0x8771f681, 0x6d9d6122,
     0xfde5380c, 0xa4beea44, 0x4bdecfa9, 0xf6bb4b60, 0xbebfbc70, 0x289b7ec6, 0xeaa127fa,
     0xd4ef3085, 0x04881d05, 0xd9d4d039, 0xe6db99e5, 0x1fa27cf8, 0xc4ac5665, 0xf4292244,
     0x432aff97, 0xab9423a7, 0xfc93a039, 0x655b59c3, 0x8f0ccc92, 0xffeff47d, 0x85845dd1,
     0x6fa87e4f, 0xfe2ce6e0, 0xa3014314, 0x4e0811a1, 0xf7537e82, 0xbd3af235, 0x2ad7d2bb,
     0xeb86d391]"

type_synonym md5_state = "u32 \<times> u32 \<times> u32 \<times> u32"

definition md5_iv :: md5_state where
  "md5_iv = (0x67452301, 0xefcdab89, 0x98badcfe, 0x10325476)"

definition le_words :: "bytes \<Rightarrow> u32 list" where
  "le_words block =
    map (\<lambda>i. word_of_nat (le_nat [block ! (i * 4), block ! (i * 4 + 1), block ! (i * 4 + 2),
      block ! (i * 4 + 3)])) [0..<16]"

definition md5_round :: "u32 list \<Rightarrow> md5_state \<Rightarrow> nat \<Rightarrow> md5_state" where
  "md5_round m st i =
    (case st of (a, b, c, d) \<Rightarrow>
      let (f, g) =
            (if i div 16 = 0 then ((b AND c) OR (NOT b AND d), i)
             else if i div 16 = 1 then ((d AND b) OR (NOT d AND c), (5 * i + 1) mod 16)
             else if i div 16 = 2 then (b XOR c XOR d, (3 * i + 5) mod 16)
             else (c XOR (b OR NOT d), (7 * i) mod 16));
          x = a + f + md5_K ! i + m ! g
      in (d, b + word_rotl (md5_S ! i) x, b, c))"

definition md5_compress :: "md5_state \<Rightarrow> bytes \<Rightarrow> md5_state" where
  "md5_compress st block =
    (case foldl (md5_round (le_words block)) st [0..<64] of (a, b, c, d) \<Rightarrow>
      case st of (a0, b0, c0, d0) \<Rightarrow> (a0 + a, b0 + b, c0 + c, d0 + d))"

definition md5_new :: "md5_state hasher" where
  "md5_new = hasher_new md5_iv"

definition md5_update :: "md5_state hasher \<Rightarrow> bytes \<Rightarrow> md5_state hasher" where
  "md5_update = block_update md5_compress"

definition u64_le :: "u64 \<Rightarrow> bytes" where
  "u64_le w = nat_le 8 (unat w)"

definition u32_le :: "u32 \<Rightarrow> bytes" where
  "u32_le w = nat_le 4 (unat w)"

definition md5_output :: "md5_state \<Rightarrow> bytes" where
  "md5_output st = (case st of (a, b, c, d) \<Rightarrow> u32_le a @ u32_le b @ u32_le c @ u32_le d)"

definition md5_finalize :: "md5_state hasher \<Rightarrow> bytes" where
  "md5_finalize h = md5_output (block_finish md5_compress u64_le h)"

definition md5_digest :: "bytes list \<Rightarrow> bytes" where
  "md5_digest parts = md5_finalize (foldl md5_update md5_new parts)"

section \<open>FNV-1a\<close>

definition fnv1a32 :: "bytes \<Rightarrow> u32" where
  "fnv1a32 data = foldl (\<lambda>hash b. (hash XOR ucast b) * 16777619) 2166136261 data"

section \<open>Hexadecimal text and UUIDs\<close>

definition hex_encode :: "bytes \<Rightarrow> string" where
  "hex_encode data = concat (map hex_byte data)"

fun hex_pairs :: "string \<Rightarrow> bytes option" where
  "hex_pairs (c # d # s) =
    (case hex_pair c d of
       None \<Rightarrow> None
     | Some b \<Rightarrow> (case hex_pairs s of None \<Rightarrow> None | Some bs \<Rightarrow> Some (b # bs)))"
| "hex_pairs _ = Some []"

definition hex_decode :: "string \<Rightarrow> bytes option" where
  "hex_decode s =
    (if length s mod 2 \<noteq> 0 \<or> \<not> list_all is_hexdigit s then None else hex_pairs s)"

definition parse_uuid :: "string \<Rightarrow> bytes option" where
  "parse_uuid s =
    (let cleaned = filter is_hexdigit s in
     if length cleaned \<noteq> 32 then None else hex_pairs cleaned)"

definition uuid_to_string :: "bytes \<Rightarrow> string" where
  "uuid_to_string u =
    hex_encode (take 4 u) @ ''-'' @ hex_encode (slice 4 6 u) @ ''-'' @ hex_encode (slice 6 8 u)
      @ ''-'' @ hex_encode (slice 8 10 u) @ ''-'' @ hex_encode (drop 10 u)"

section \<open>AES-128 in CFB mode\<close>

definition xor_bytes :: "bytes \<Rightarrow> bytes \<Rightarrow> bytes" where
  "xor_bytes a b = map2 (XOR) a b"

definition shift_feedback :: "bytes \<Rightarrow> nat \<Rightarrow> bytes \<Rightarrow> bytes" where
  "shift_feedback fb used ct =
    (if 16 \<le> used then take 16 ct else drop used fb @ take used ct)"

text \<open>One pass over the 16-byte chunks; the result is the output and the feedback
  register, which becomes the new \<open>iv\<close>.\<close>

function cfb_encrypt :: "(bytes \<Rightarrow> bytes) \<Rightarrow> bytes \<Rightarrow> bytes \<Rightarrow> bytes \<times> bytes" where
  "cfb_encrypt block fb data =
    (if data = [] then ([], fb)
     else let ct = xor_bytes (take 16 data) (block fb);
              (rest, fb') = cfb_encrypt block (shift_feedback fb (length (take 16 data)) ct) (drop 16 data)
          in (ct @ rest, fb'))"
  by auto
termination
  by (relation "measure (\<lambda>(_, _, data). length data)") auto

function cfb_decrypt :: "(bytes \<Rightarrow> bytes) \<Rightarrow> bytes \<Rightarrow> bytes \<Rightarrow> bytes \<times> bytes" where
  "cfb_decrypt block fb data =
    (if data = [] then ([], fb)
     else let chunk = take 16 data;
              (rest, fb') = cfb_decrypt block (shift_feedback fb (length chunk) chunk) (drop 16 data)
          in (xor_bytes chunk (block fb) @ rest, fb'))"
  by auto
termination
  by (relation "measure (\<lambda>(_, _, data). length data)") auto

declare cfb_encrypt.simps [simp del] cfb_decrypt.simps [simp del]

section \<open>AES-128 in CTR mode\<close>

record aes_ctr =
  counter :: bytes
  keystream :: bytes
  pos :: nat

definition ctr_new :: "bytes \<Rightarrow> aes_ctr" where
  "ctr_new nonce_counter = \<lparr>counter = nonce_counter, keystream = replicate 16 0, pos = 16\<rparr>"

text \<open>The big-endian increment of \<open>refill\<close>, from the last byte on.\<close>

fun inc_rev :: "bytes \<Rightarrow> bytes" where
  "inc_rev [] = []"
| "inc_rev (b # bs) = (let b' = b + 1 in if b' \<noteq> 0 then b' # bs else b' # inc_rev bs)"

definition ctr_refill :: "(bytes \<Rightarrow> bytes) \<Rightarrow> aes_ctr \<Rightarrow> aes_ctr" where
  "ctr_refill block c =
    c\<lparr>keystream := block (counter c), counter := rev (inc_rev (rev (counter c))), pos := 0\<rparr>"

fun apply_keystream :: "(bytes \<Rightarrow> bytes) \<Rightarrow> aes_ctr \<Rightarrow> bytes \<Rightarrow> bytes \<times> aes_ctr" where
  "apply_keystream block c [] = ([], c)"
| "apply_keystream block c (b # bs) =
    (let c1 = (if pos c = 16 then ctr_refill block c else c);
         (out, c2) = apply_keystream block (c1\<lparr>pos := pos c1 + 1\<rparr>) bs
     in ((b XOR keystream c1 ! pos c1) # out, c2))"

section \<open>Counters\<close>

lemma inc_rev_value: "le_nat (inc_rev bs) = (le_nat bs + 1) mod 256 ^ length bs"
proof (induction bs)
  case (Cons b bs)
  show ?case
  proof (cases "b + 1 = 0")
    case True
    then have b: "unat b = 255" by (rule inc_byte_zero)
    have "Suc (255 + 256 * le_nat bs) = 256 * (le_nat bs + 1)" by simp
    then show ?thesis using Cons b True by (simp add: Let_def mult_mod_right)
  next
    case False
    then have "unat (b + 1) = unat b + 1" by (rule inc_byte_nonzero)
    moreover have "unat b + 1 + 256 * le_nat bs < 256 * 256 ^ length bs"
      using le_nat_lt [of bs] \<open>unat (b + 1) = unat b + 1\<close> unat_byte_lt [of "b + 1"] by linarith
    ultimately show ?thesis using False by (simp add: Let_def)
  qed
qed simp

lemma length_inc_rev [simp]: "length (inc_rev bs) = length bs"
  by (induction bs) (simp_all add: Let_def)

lemma ctr_refill_counter:
  "be_nat (counter (ctr_refill block c)) = (be_nat (counter c) + 1) mod 256 ^ length (counter c)"
  using inc_rev_value [of "rev (counter c)"] by (simp add: ctr_refill_def le_nat_def)

section \<open>Hexadecimal round trips\<close>

lemma length_hex_encode [simp]: "length (hex_encode d) = 2 * length d"
  by (induction d) (simp_all add: hex_encode_def hex_byte_def)

lemma hex_encode_append: "hex_encode (a @ b) = hex_encode a @ hex_encode b"
  by (simp add: hex_encode_def)

lemma byte_div_16: "unat (b :: byte) div 16 < 16"
  using unat_byte_lt [of b] by (simp add: less_mult_imp_div_less)

lemma hex_encode_digits: "\<forall>c \<in> set (hex_encode d). is_hexdigit c"
  by (auto simp: hex_encode_def hex_byte_def byte_div_16 intro!: is_hexdigit_hex_digit)

lemma hex_digit_ascii: "n < 16 \<Longrightarrow> (word_of_nat (of_char (hex_digit n)) :: byte) < 0x80"
  by (auto simp: hex_digit_def word_less_nat_alt unat_of_nat)

lemma hex_encode_utf8: "utf8_valid (as_bytes (hex_encode d))"
  by (rule utf8_valid_ascii)
    (auto simp: as_bytes_def hex_encode_def hex_byte_def byte_div_16 intro!: hex_digit_ascii)

lemma hex_encode_lower: "to_ascii_lowercase (hex_encode d) = hex_encode d"
  by (induction d)
    (simp_all add: hex_encode_def hex_byte_def to_ascii_lowercase_def ascii_lower_hex_digit byte_div_16)

lemma hex_pairs_encode: "hex_pairs (hex_encode d) = Some d"
proof (induction d)
  case (Cons b d)
  have "hex_encode (b # d) = hex_digit (unat b div 16) # hex_digit (unat b mod 16) # hex_encode d"
    by (simp add: hex_encode_def hex_byte_def)
  then show ?case using Cons by (simp add: hex_pair_hex_byte)
qed (simp add: hex_encode_def)

lemma hex_decode_encode: "hex_decode (hex_encode d) = Some d"
  using hex_encode_digits [of d] by (simp add: hex_decode_def hex_pairs_encode list_all_iff)

lemma filter_hex_encode [simp]: "filter is_hexdigit (hex_encode d) = hex_encode d"
  using hex_encode_digits [of d] by simp

lemma dash_not_hex [simp]: "\<not> is_hexdigit CHR ''-''"
  by code_simp

lemma uuid_concat:
  assumes "length u = 16"
  shows "take 4 u @ slice 4 6 u @ slice 6 8 u @ slice 8 10 u @ drop 10 u = u"
proof -
  have "slice i j u @ drop j u = drop i u" if "i \<le> j" for i j
    using that by (simp add: slice_def) (metis append_take_drop_id drop_drop le_add_diff_inverse2)
  then show ?thesis by simp
qed

lemma parse_uuid_to_string:
  assumes "length u = 16"
  shows "parse_uuid (uuid_to_string u) = Some u"
proof -
  have "filter is_hexdigit (uuid_to_string u) =
      hex_encode (take 4 u @ slice 4 6 u @ slice 6 8 u @ slice 8 10 u @ drop 10 u)"
    by (simp add: uuid_to_string_def hex_encode_append)
  then have "filter is_hexdigit (uuid_to_string u) = hex_encode u"
    using uuid_concat [OF assms] by simp
  then show ?thesis using assms by (simp add: parse_uuid_def Let_def hex_pairs_encode)
qed

lemma hex_pairs_length: "hex_pairs s = Some bs \<Longrightarrow> length bs = length s div 2"
  by (induction s arbitrary: bs rule: hex_pairs.induct) (auto split: option.splits)

lemma parse_uuid_length: "parse_uuid s = Some u \<Longrightarrow> length u = 16"
  using hex_pairs_length by (fastforce simp: parse_uuid_def Let_def split: if_splits)

section \<open>Stream ciphers\<close>

lemma xor_bytes_cancel:
  "length a \<le> length k \<Longrightarrow> xor_bytes (xor_bytes a k) k = a"
proof (induction a arbitrary: k)
  case (Cons x a)
  then show ?case by (cases k) (auto simp: xor_bytes_def xor.assoc)
qed (simp add: xor_bytes_def)

lemma length_xor_bytes [simp]: "length (xor_bytes a b) = min (length a) (length b)"
  by (simp add: xor_bytes_def)

lemma cfb_decrypt_encrypt:
  assumes "\<And>x. 16 \<le> length (block x)"
  shows "cfb_decrypt block fb (fst (cfb_encrypt block fb data)) = (data, snd (cfb_encrypt block fb data))"
proof (induction data arbitrary: fb rule: length_induct)
  case (1 data)
  show ?case
  proof (cases "data = []")
    case True
    then show ?thesis by (simp add: cfb_encrypt.simps cfb_decrypt.simps)
  next
    case False
    let ?c = "take 16 data"
    let ?ct = "xor_bytes ?c (block fb)"
    let ?fb = "shift_feedback fb (length ?c) ?ct"
    obtain rest fb' where r: "cfb_encrypt block ?fb (drop 16 data) = (rest, fb')" by fastforce
    have enc: "cfb_encrypt block fb data = (?ct @ rest, fb')"
      using False r by (subst cfb_encrypt.simps) (simp add: Let_def)
    have lct: "length ?ct = length ?c" using assms [of fb] by simp
    have cut: "take 16 (?ct @ rest) = ?ct \<and> drop 16 (?ct @ rest) = rest"
    proof (cases "16 \<le> length data")
      case True
      then show ?thesis using lct by simp
    next
      case False
      then have "rest = []" using r by (simp add: cfb_encrypt.simps)
      then show ?thesis using False lct by simp
    qed
    have "cfb_decrypt block ?fb rest = (drop 16 data, fb')"
      using 1 [rule_format, of "drop 16 data" ?fb] False r by simp
    moreover have "xor_bytes ?ct (block fb) = ?c"
      using assms [of fb] by (intro xor_bytes_cancel) simp
    moreover have "?ct @ rest \<noteq> []" using False lct by (metis append_is_Nil_conv length_0_conv take_eq_Nil zero_neq_numeral)
    ultimately have "cfb_decrypt block fb (?ct @ rest) = (?c @ drop 16 data, fb')"
      by (subst cfb_decrypt.simps) (simp only: cut Let_def lct if_False prod.case)
    then show ?thesis using enc by simp
  qed
qed

lemma apply_keystream_state:
  "length a = length b \<Longrightarrow> snd (apply_keystream block c a) = snd (apply_keystream block c b)"
proof (induction a arbitrary: b c)
  case (Cons x a)
  then obtain y b' where "b = y # b'" "length a = length b'" by (cases b) auto
  then show ?case using Cons.IH by (simp add: Let_def case_prod_beta)
qed simp

lemma apply_keystream_append:
  "apply_keystream block c (a @ b) =
    (let (x, c1) = apply_keystream block c a; (y, c2) = apply_keystream block c1 b in (x @ y, c2))"
  by (induction a arbitrary: c) (simp_all add: Let_def case_prod_beta)

lemma apply_keystream_involution:
  "fst (apply_keystream block c (fst (apply_keystream block c data))) = data"
  by (induction data arbitrary: c) (simp_all add: Let_def case_prod_beta xor.assoc)

section \<open>Properties\<close>

interpretation md5: block_hash md5_compress md5_iv u64_le
  by unfold_locales (simp add: u64_le_def)

lemma length_md5_output: "length (md5_output st) = 16"
  by (cases st) (simp add: md5_output_def u32_le_def)

lemma length_md5_digest: "length (md5_digest parts) = 16"
  by (simp add: md5_digest_def md5_finalize_def length_md5_output)

text \<open>Property C34: the streaming MD5 of the code, fed any split of a message,
  equals the one-shot reference: the message padded with 0x80, zeros and its
  64-bit little-endian bit length, cut into 64-byte blocks and compressed in
  order.\<close>

theorem md5_digest_reference:
  "md5_digest parts = md5_output (hash_ref md5_compress md5_iv u64_le (concat parts))"
  by (simp add: md5_digest_def md5_finalize_def md5_update_def md5_new_def md5.digest_ref)

text \<open>AES-CFB decryption inverts encryption for data of any length,
  and leaves the decryptor with the same feedback register as the encryptor,
  so that a sequence of messages stays in step. The only assumption on AES is
  that it returns 16-byte blocks.\<close>

theorem cfb_roundtrip:
  assumes "\<And>x. length (block x) = 16"
  shows "cfb_decrypt block iv (fst (cfb_encrypt block iv data)) = (data, snd (cfb_encrypt block iv data))"
  using cfb_decrypt_encrypt [of block] assms by simp

theorem cfb_roundtrip_witness:
  "cfb_decrypt (\<lambda>_. replicate 16 7) (replicate 16 9) (fst (cfb_encrypt (\<lambda>_. replicate 16 7) (replicate 16 9) [1, 2, 3]))
    = ([1, 2, 3], snd (cfb_encrypt (\<lambda>_. replicate 16 7) (replicate 16 9) [1, 2, 3]))"
  by (rule cfb_roundtrip) simp

text \<open>Applying the CTR keystream twice from the same state gives the
  data back, whatever the block function; and each refill advances the
  counter by one, as a 128-bit big-endian number with wrap-around.\<close>

theorem ctr_involution:
  "fst (apply_keystream block c (fst (apply_keystream block c data))) = data
   \<and> be_nat (counter (ctr_refill block c)) = (be_nat (counter c) + 1) mod 256 ^ length (counter c)"
  by (simp add: apply_keystream_involution ctr_refill_counter)

text \<open>Printing and parsing UUIDs round trips on all 16-byte values.\<close>

theorem uuid_roundtrip:
  assumes "length u = 16"
  shows "parse_uuid (uuid_to_string u) = Some u"
  using assms by (rule parse_uuid_to_string)

theorem uuid_roundtrip_witness:
  "parse_uuid (uuid_to_string (replicate 16 0xAB)) = Some (replicate 16 0xAB)"
  by (rule uuid_roundtrip) simp

end
