(* ===== verification/Framing.thy ===== *)
theory Framing
  imports Prelude
begin

text \<open>
  Incremental frame decoders. A decoder looks at the buffered bytes and answers
  that it needs more, that the frame is bad, or with a frame and the number of
  bytes it used. The decoders of the UDP-over-stream protocols and the session
  protocols are driven by the same two loops: drain the buffer until more
  bytes are needed, and feed the chunks that arrive from the network.
\<close>

section \<open>Draining a buffer\<close>

datatype ('f, 'e) parse = Need | Bad 'e | Frame 'f nat

text \<open>The frames in the buffer, what is left of it, and the error that stopped the
  loop, if any. A decoder that would use no bytes would loop for ever in the
  code; the guard excludes it.\<close>

function drain :: "(bytes \<Rightarrow> ('f, 'e) parse) \<Rightarrow> bytes \<Rightarrow> 'f list \<times> bytes \<times> 'e option" where
  "drain p buf =
    (case p buf of
       Need \<Rightarrow> ([], buf, None)
     | Bad e \<Rightarrow> ([], buf, Some e)
     | Frame f n \<Rightarrow>
         if 0 < n \<and> buf \<noteq> []
         then (case drain p (drop n buf) of (fs, r, e) \<Rightarrow> (f # fs, r, e))
         else ([], buf, None))"
  by auto
termination
  by (relation "measure (\<lambda>(_, buf). length buf)") auto

declare drain.simps [simp del]

section \<open>Feeding chunks\<close>

fun pump :: "(bytes \<Rightarrow> ('f, 'e) parse) \<Rightarrow> bytes \<Rightarrow> bytes list \<Rightarrow> 'f list \<times> bytes \<times> 'e option" where
  "pump p buf [] = ([], buf, None)"
| "pump p buf (c # cs) =
    (case drain p (buf @ c) of
       (fs, r, Some e) \<Rightarrow> (fs, r, Some e)
     | (fs, r, None) \<Rightarrow> (case pump p r cs of (gs, r', e) \<Rightarrow> (fs @ gs, r', e)))"

text \<open>The contract of an incremental decoder: a frame uses between one byte and
  the whole buffer, and bytes that arrive later change neither a frame nor an
  error.\<close>

locale frame_decoder =
  fixes p :: "bytes \<Rightarrow> ('f, 'e) parse"
  assumes frame_bounds: "p b = Frame f n \<Longrightarrow> 0 < n \<and> n \<le> length b"
    and frame_stable: "p b = Frame f n \<Longrightarrow> p (b @ r) = Frame f n"
    and bad_stable: "p b = Bad e \<Longrightarrow> p (b @ r) = Bad e"
begin

lemma drop_shorter: "p b = Frame f n \<Longrightarrow> length (drop n b) < length b"
  using frame_bounds [of b f n] by (cases b) auto

lemma drain_Need: "p b = Need \<Longrightarrow> drain p b = ([], b, None)"
  by (simp add: drain.simps)

lemma drain_Frame:
  assumes "p b = Frame f n"
  shows "drain p b = (case drain p (drop n b) of (fs, r, e) \<Rightarrow> (f # fs, r, e))"
  using assms frame_bounds [OF assms] by (subst drain.simps) auto

lemma drain_append:
  "drain p a = (fs, r, e) \<Longrightarrow>
    drain p (a @ b) =
      (case e of
         Some x \<Rightarrow> (fs, r @ b, Some x)
       | None \<Rightarrow> (case drain p (r @ b) of (gs, r', e') \<Rightarrow> (fs @ gs, r', e')))"
proof (induction a arbitrary: fs r e rule: length_induct)
  case (1 a)
  show ?case
  proof (cases "p a")
    case Need
    then have "fs = [] \<and> r = a \<and> e = None" using 1(2) by (simp add: drain_Need)
    then show ?thesis by simp
  next
    case (Bad x)
    then have "fs = [] \<and> r = a \<and> e = Some x" using 1(2) by (simp add: drain.simps)
    moreover have "drain p (a @ b) = ([], a @ b, Some x)"
      using bad_stable [OF Bad] by (simp add: drain.simps)
    ultimately show ?thesis by simp
  next
    case (Frame f n)
    note n = frame_bounds [OF Frame]
    obtain gs where gs: "drain p (drop n a) = (gs, r, e)" "fs = f # gs"
      using 1(2) drain_Frame [OF Frame] by (auto split: prod.splits)
    from 1(1) [rule_format, OF drop_shorter [OF Frame] gs(1)]
    have "drain p (drop n a @ b) =
      (case e of Some x \<Rightarrow> (gs, r @ b, Some x)
       | None \<Rightarrow> (case drain p (r @ b) of (hs, r', e') \<Rightarrow> (gs @ hs, r', e')))" .
    moreover have "drain p (a @ b) = (case drain p (drop n a @ b) of (hs, r', e') \<Rightarrow> (f # hs, r', e'))"
      using drain_Frame [OF frame_stable [OF Frame]] n by simp
    ultimately show ?thesis by (auto simp: gs(2) split: option.splits prod.splits)
  qed
qed

lemma drain_rest: "drain p b = (fs, r, None) \<Longrightarrow> p r = Need"
proof (induction b arbitrary: fs rule: length_induct)
  case (1 b)
  show ?case
  proof (cases "p b")
    case Need
    then show ?thesis using 1(2) by (simp add: drain_Need)
  next
    case (Bad x)
    then show ?thesis using 1(2) by (simp add: drain.simps)
  next
    case (Frame f n)
    obtain gs where "drain p (drop n b) = (gs, r, None)"
      using 1(2) drain_Frame [OF Frame] by (auto split: prod.splits)
    then show ?thesis using 1(1) drop_shorter [OF Frame] by blast
  qed
qed

text \<open>What a receiver gets does not depend on how the network cuts the bytes.\<close>

lemma pump_concat:
  assumes "p buf = Need"
  shows "fst (pump p buf cs) = fst (drain p (buf @ concat cs))
    \<and> snd (snd (pump p buf cs)) = snd (snd (drain p (buf @ concat cs)))"
  using assms
proof (induction cs arbitrary: buf)
  case Nil
  then show ?case by (simp add: drain_Need)
next
  case (Cons c cs)
  obtain fs r e where d: "drain p (buf @ c) = (fs, r, e)" by (metis surj_pair)
  show ?case
  proof (cases e)
    case (Some x)
    then show ?thesis using d drain_append [OF d, of "concat cs"] by simp
  next
    case None
    have "p r = Need" using drain_rest [of "buf @ c"] d None by simp
    from Cons.IH [OF this] show ?thesis
      using d None drain_append [OF d, of "concat cs"] by (auto split: prod.splits)
  qed
qed

end

text \<open>A decoder together with the encoder of its frames.\<close>

locale frame_codec = frame_decoder +
  fixes enc :: "'f \<Rightarrow> bytes"
    and ok :: "'f \<Rightarrow> bool"
  assumes parse_enc: "ok f \<Longrightarrow> p (enc f @ r) = Frame f (length (enc f))"
    and parse_empty: "p [] = Need"
begin

lemma drain_encoded:
  "list_all ok fs \<Longrightarrow>
    drain p (concat (map enc fs) @ r) = (case drain p r of (gs, r', e) \<Rightarrow> (fs @ gs, r', e))"
proof (induction fs)
  case (Cons f fs)
  then have "drain p (enc f @ concat (map enc fs) @ r) =
      (case drain p (concat (map enc fs) @ r) of (gs, r', e) \<Rightarrow> (f # gs, r', e))"
    using drain_Frame [OF parse_enc, of f "concat (map enc fs) @ r"] by simp
  with Cons show ?case by (simp split: prod.splits)
qed (simp split: prod.splits)

lemma pump_encoded:
  assumes "list_all ok fs" "concat cs = concat (map enc fs)"
  shows "fst (pump p [] cs) = fs \<and> snd (snd (pump p [] cs)) = None"
  using pump_concat [OF parse_empty, of cs] drain_encoded [OF assms(1), of "[]"] drain_Need [OF parse_empty]
    assms(2) by simp

end

end
