(* ===== verification/Trojan.thy ===== *)
theory Trojan
  imports Socks5 Crypto Framing
begin

text \<open>
  \<open>crates/omni-proto/src/proto/trojan\<close>: the request head, the server
  handshake, the UDP frame codec with its incremental decoder, and the loops
  that drive it (\<open>UdpRelayClient::recv_from\<close>, \<open>UdpRelayRecv::recv_from\<close> and the
  uplink task of \<open>listener_executor::handle_trojan_udp\<close>). SHA-224 is a
  parameter: a function from bytes to its 28-byte digest.
\<close>

section \<open>Request head\<close>

definition CMD_CONNECT :: byte where
  "CMD_CONNECT = 0x01"

definition CMD_UDP_ASSOCIATE :: byte where
  "CMD_UDP_ASSOCIATE = 0x03"

definition CRLF :: bytes where
  "CRLF = [13, 10]"

lemma CRLF_length [simp]: "length CRLF = 2"
  by (simp add: CRLF_def)

definition password_hash :: "(bytes \<Rightarrow> bytes) \<Rightarrow> string \<Rightarrow> string" where
  "password_hash sha224 password = hex_encode (sha224 (as_bytes password))"

text \<open>The address reader repeats the one of \<open>socks5.rs\<close> for the three known types
  and has its own error for the others.\<close>

definition trojan_read_addr :: "socks5_addr io" where
  "trojan_read_addr =
    io_bind (read_exact 1) (\<lambda>t. let atyp = t ! 0 in
      if atyp = 0x01 \<or> atyp = 0x03 \<or> atyp = 0x04 then read_addr atyp
      else io_throw (io_err ''trojan: unknown address type''))"

definition read_request_head :: "string option \<Rightarrow> (byte \<times> proxy_target) io" where
  "read_request_head expect =
    io_bind (read_exact (56 + 2)) (\<lambda>head.
      let hash = from_utf8_lossy (take 56 head) in
      if slice 56 58 head \<noteq> CRLF then io_throw (io_err ''trojan: malformed request'')
      else if (case expect of Some e \<Rightarrow> \<not> eq_ignore_ascii_case hash e | None \<Rightarrow> False)
        then io_throw (io_err ''trojan: authentication failed'')
      else
        io_bind (read_exact 1) (\<lambda>c. let cmd = c ! 0 in
        io_bind trojan_read_addr (\<lambda>addr.
        io_bind (read_exact 2) (\<lambda>tail.
          if tail \<noteq> CRLF then io_throw (io_err ''trojan: malformed request tail'')
          else io_ret (cmd, to_proxy_target addr)))))"

definition encode_request_head :: "byte \<Rightarrow> proxy_target \<Rightarrow> string \<Rightarrow> bytes" where
  "encode_request_head cmd target hash_hex =
    encode_into (from_proxy_target target) (as_bytes hash_hex @ CRLF @ [cmd]) @ CRLF"

datatype trojan_accepted = TrojanTcp proxy_target | TrojanUdp

definition trojan_handshake :: "string \<Rightarrow> trojan_accepted io" where
  "trojan_handshake password_hash_hex =
    io_bind (read_request_head (Some password_hash_hex)) (\<lambda>(cmd, target).
      if cmd = CMD_CONNECT then io_ret (TrojanTcp target)
      else if cmd = CMD_UDP_ASSOCIATE then io_ret TrojanUdp
      else io_throw (io_err ''trojan: unsupported command''))"

definition trojan_connect_tcp :: "(bytes \<Rightarrow> bytes) \<Rightarrow> string \<Rightarrow> proxy_target \<Rightarrow> unit io" where
  "trojan_connect_tcp sha224 password target =
    write_all (encode_request_head CMD_CONNECT target (password_hash sha224 password))"

definition trojan_udp_start :: "(bytes \<Rightarrow> bytes) \<Rightarrow> string \<Rightarrow> unit io" where
  "trojan_udp_start sha224 password =
    write_all (encode_request_head CMD_UDP_ASSOCIATE (Domain ''0.0.0.0'' 0)
      (password_hash sha224 password))"

section \<open>UDP frames\<close>

definition udp_encode :: "socks5_addr \<Rightarrow> bytes \<Rightarrow> bytes" where
  "udp_encode addr payload =
    encode_addr addr @ CRLF @ u16_be (word_of_nat (length payload)) @ CRLF @ payload"

definition try_parse :: "bytes \<Rightarrow> (socks5_addr \<times> bytes, unit) parse" where
  "try_parse buf =
    (case decode buf of
       Inl _ \<Rightarrow> if length buf < 260 then Need else Bad ()
     | Inr (addr, used) \<Rightarrow>
         let rest = drop used buf in
         if length rest < 2 then Need
         else if take 2 rest \<noteq> CRLF then Bad ()
         else if length rest < 4 then Need
         else let len = unat (be_u16 (rest ! 2) (rest ! 3)) in
           if length rest < 6 + len then Need
           else Frame (addr, slice 6 (6 + len) rest) (used + 6 + len))"

record udp_decoder =
  dbuf :: bytes
  deof :: bool

definition decoder_new :: udp_decoder where
  "decoder_new = \<lparr>dbuf = [], deof = False\<rparr>"

definition feed :: "bytes \<Rightarrow> udp_decoder \<Rightarrow> udp_decoder" where
  "feed data d = d\<lparr>dbuf := dbuf d @ data\<rparr>"

definition mark_eof :: "udp_decoder \<Rightarrow> udp_decoder" where
  "mark_eof d = d\<lparr>deof := True\<rparr>"

definition next_packet :: "udp_decoder \<Rightarrow> (io_error + socks5_addr \<times> bytes) option \<times> udp_decoder" where
  "next_packet d =
    (if dbuf d = [] \<and> deof d then (None, d)
     else (case try_parse (dbuf d) of
         Need \<Rightarrow> if deof d then (Some (Inl (io_err ''trojan: truncated UDP frame'')), d) else (None, d)
       | Bad _ \<Rightarrow> (Some (Inl (io_err ''trojan: invalid UDP frame'')), d)
       | Frame f used \<Rightarrow> (Some (Inr f), d\<lparr>dbuf := drop used (dbuf d)\<rparr>)))"

section \<open>The decoder is an incremental frame decoder\<close>

lemma decode_domain_long:
  assumes "258 \<le> length rest"
  shows "decode_domain (rest @ r) = decode_domain rest"
proof -
  have dl: "unat (rest ! 0) + 3 \<le> length rest" using assms unat_byte_le [of "rest ! 0"] by linarith
  have ne: "rest \<noteq> []" using assms by auto
  then have hd: "(rest @ r) ! 0 = rest ! 0" by (simp add: nth_append)
  show ?thesis
    using dl ne unfolding decode_domain_def hd Let_def
    by (auto simp: nth_append slice_def split: option.split)
qed

lemma decode_long:
  assumes "260 \<le> length b"
  shows "decode (b @ r) = decode b"
proof -
  obtain t rest where b: "b = t # rest" using assms by (cases b) auto
  have len: "259 \<le> length rest" using assms b by simp
  then have "decode_v4 (rest @ r) = decode_v4 rest" "decode_v6 (rest @ r) = decode_v6 rest"
    by (auto simp: decode_v4_def decode_v6_def nth_append)
  moreover have "rest \<noteq> []" using len by auto
  ultimately show ?thesis
    using len by (simp add: b decode_def Let_def decode_domain_long)
qed

lemma try_parse_bounds:
  assumes "try_parse b = Frame f n" shows "0 < n \<and> n \<le> length b"
proof -
  obtain a used where "decode b = Inr (a, used)"
    using assms by (auto simp: try_parse_def split: sum.splits if_splits)
  then show ?thesis
    using assms decode_sound [of b a used]
    by (auto simp: try_parse_def Let_def split: if_splits)
qed

lemma try_parse_stable:
  assumes "try_parse b = Frame f n" shows "try_parse (b @ r) = Frame f n"
proof -
  obtain a used where d: "decode b = Inr (a, used)"
    using assms by (auto simp: try_parse_def split: sum.splits if_splits)
  then have "decode (b @ r) = Inr (a, used)" by (rule socks5.dec_mono)
  moreover have "used \<le> length b" using decode_sound [OF d] by simp
  ultimately show ?thesis
    using assms d
    by (auto simp: try_parse_def Let_def nth_append slice_def split: if_splits)
qed

lemma try_parse_bad_stable:
  assumes "try_parse b = Bad e" shows "try_parse (b @ r) = Bad e"
proof (cases "decode b")
  case (Inl x)
  then have "260 \<le> length b" using assms by (auto simp: try_parse_def split: if_splits)
  then show ?thesis using Inl by (simp add: try_parse_def decode_long)
next
  case (Inr au)
  obtain a used where d: "decode b = Inr (a, used)" using Inr by (cases au) auto
  then have "decode (b @ r) = Inr (a, used)" by (rule socks5.dec_mono)
  moreover have "used \<le> length b" using decode_sound [OF d] by simp
  ultimately show ?thesis
    using assms d by (auto simp: try_parse_def Let_def split: if_splits)
qed

definition frame_ok :: "socks5_addr \<times> bytes \<Rightarrow> bool" where
  "frame_ok f \<longleftrightarrow> wf_addr (fst f) \<and> length (snd f) \<le> 65535"

lemma try_parse_encode:
  assumes "wf_addr a" "length d \<le> 65535"
  shows "try_parse (udp_encode a d @ r) = Frame (a, d) (length (udp_encode a d))"
proof -
  have "unat (word_of_nat (length d) :: u16) = length d" using assms(2) by (simp add: unat_of_nat)
  then show ?thesis
    using decode_encode_addr [OF assms(1)]
    by (cases rule: u16_be_cases [of "word_of_nat (length d)"])
      (simp add: try_parse_def udp_encode_def CRLF_def Let_def slice_def)
qed

interpretation trojan_udp: frame_codec try_parse "case_prod udp_encode" frame_ok
proof unfold_locales
  show "try_parse [] = Need" by code_simp
qed (auto simp: frame_ok_def try_parse_encode dest: try_parse_bounds try_parse_stable try_parse_bad_stable)

section \<open>Draining the decoder\<close>

lemma next_packet_shrinks:
  "next_packet d = (Some (Inr f), d') \<Longrightarrow> length (dbuf d') < length (dbuf d)"
  by (auto simp: next_packet_def split: parse.splits if_splits dest: trojan_udp.drop_shorter)

text \<open>The inner loop of \<open>handle_trojan_udp\<close>: packets until \<open>next_packet\<close> returns
  \<open>None\<close> or an error.\<close>

function packets :: "udp_decoder \<Rightarrow> (socks5_addr \<times> bytes) list \<times> udp_decoder \<times> io_error option" where
  "packets d =
    (case next_packet d of
       (None, d') \<Rightarrow> ([], d', None)
     | (Some (Inl e), d') \<Rightarrow> ([], d', Some e)
     | (Some (Inr f), d') \<Rightarrow> (case packets d' of (fs, d2, e) \<Rightarrow> (f # fs, d2, e)))"
  by auto
termination
  by (relation "measure (length \<circ> dbuf)") (auto dest: next_packet_shrinks [OF sym])

declare packets.simps [simp del]

text \<open>The uplink task: one element of the list per successful \<open>read\<close>; an empty read
  is the end of the stream. The result is the packets handed to the remote
  side, for as long as it accepts them, and the error that ended the task.\<close>

fun uplink :: "udp_decoder \<Rightarrow> bytes list \<Rightarrow> (proxy_target \<times> bytes) list \<times> io_error option" where
  "uplink d [] = ([], None)"
| "uplink d (c # cs) =
    (if c = [] then ([], None)
     else (case packets (feed c d) of
         (fs, d', Some e) \<Rightarrow> (map (\<lambda>(a, x). (to_proxy_target a, x)) fs, Some e)
       | (fs, d', None) \<Rightarrow>
           (case uplink d' cs of (gs, e) \<Rightarrow> (map (\<lambda>(a, x). (to_proxy_target a, x)) fs @ gs, e))))"

text \<open>The client side: \<open>UdpRelayClient::recv_from\<close>. \<open>None\<close> means that it still waits
  for the network.\<close>

fun recv_from :: "udp_decoder \<Rightarrow> bytes list \<Rightarrow>
    ((io_error + socks5_addr \<times> bytes) \<times> udp_decoder \<times> bytes list) option" where
  "recv_from d reads =
    (case next_packet d of
       (Some r, d') \<Rightarrow> Some (r, d', reads)
     | (None, d') \<Rightarrow>
         (case reads of
            [] \<Rightarrow> None
          | c # cs \<Rightarrow>
              if c = [] then
                (case next_packet (mark_eof d') of
                   (Some r, d2) \<Rightarrow> Some (r, d2, cs)
                 | (None, d2) \<Rightarrow> Some (Inl (io_err ''trojan: UDP relay closed''), d2, cs))
              else recv_from (feed c d') cs))"

declare recv_from.simps [simp del]

lemma packets_drain:
  "\<not> deof d \<Longrightarrow> packets d =
    (case drain try_parse (dbuf d) of (fs, r, e) \<Rightarrow>
      (fs, d\<lparr>dbuf := r\<rparr>, map_option (\<lambda>_. io_err ''trojan: invalid UDP frame'') e))"
proof (induction d rule: packets.induct)
  case (1 d)
  show ?case
  proof (cases "try_parse (dbuf d)")
    case Need
    then show ?thesis
      using 1(2) by (simp add: packets.simps next_packet_def drain.simps)
  next
    case (Bad e)
    then show ?thesis
      using 1(2) by (simp add: packets.simps next_packet_def drain.simps)
  next
    case (Frame f n)
    let ?d = "d\<lparr>dbuf := drop n (dbuf d)\<rparr>"
    have np: "next_packet d = (Some (Inr f), ?d)"
      using Frame 1(2) by (simp add: next_packet_def)
    then have "packets d = (case packets ?d of (fs, d2, e) \<Rightarrow> (f # fs, d2, e))"
      by (simp add: packets.simps)
    moreover have "packets ?d = (case drain try_parse (dbuf ?d) of (fs, r, e) \<Rightarrow>
        (fs, ?d\<lparr>dbuf := r\<rparr>, map_option (\<lambda>_. io_err ''trojan: invalid UDP frame'') e))"
      using 1(1) [OF np [symmetric] refl refl] 1(2) by simp
    ultimately show ?thesis
      using trojan_udp.drain_Frame [OF Frame] by (simp split: prod.splits)
  qed
qed

lemma uplink_pump:
  assumes "[] \<notin> set cs" "\<not> deof d"
  shows "uplink d cs =
    (case pump try_parse (dbuf d) cs of (fs, r, e) \<Rightarrow>
      (map (\<lambda>(a, x). (to_proxy_target a, x)) fs,
       map_option (\<lambda>_. io_err ''trojan: invalid UDP frame'') e))"
  using assms
proof (induction cs arbitrary: d)
  case (Cons c cs)
  obtain fs r e where dr: "drain try_parse (dbuf d @ c) = (fs, r, e)" by (metis surj_pair)
  have pk: "packets (feed c d) = (fs, d\<lparr>dbuf := r\<rparr>, map_option (\<lambda>_. io_err ''trojan: invalid UDP frame'') e)"
    using packets_drain [of "feed c d"] Cons.prems dr by (simp add: feed_def)
  show ?case
  proof (cases e)
    case None
    then show ?thesis
      using pk dr Cons.prems Cons.IH [of "d\<lparr>dbuf := r\<rparr>"] by (auto split: prod.splits)
  next
    case (Some x)
    then show ?thesis using pk dr Cons.prems by auto
  qed
qed simp

section \<open>The request head\<close>

lemma trojan_read_addr_encode:
  assumes "wf_addr a"
  shows "trojan_read_addr \<lparr>inp = encode_addr a @ r, outp = w\<rparr> = (Inr a, \<lparr>inp = r, outp = w\<rparr>)"
proof -
  have hd: "hd (encode_addr a) = 0x01 \<or> hd (encode_addr a) = 0x03 \<or> hd (encode_addr a) = 0x04"
    by (cases a) simp_all
  have "trojan_read_addr \<lparr>inp = [hd (encode_addr a)] @ tl (encode_addr a) @ r, outp = w\<rparr> =
      (Inr a, \<lparr>inp = r, outp = w\<rparr>)"
    unfolding trojan_read_addr_def
    by (subst io_bind_read_append) (use hd read_addr_encode [OF assms, of r w] in \<open>auto simp: Let_def\<close>)
  then show ?thesis using encode_addr_Cons [of a] by (metis append_Cons append_Nil)
qed

lemma read_request_head_encode:
  assumes "length h = 56" "utf8_valid (as_bytes h)" "wf_addr (from_proxy_target target)"
    "case expect of Some e \<Rightarrow> eq_ignore_ascii_case h e | None \<Rightarrow> True"
  shows "read_request_head expect \<lparr>inp = encode_request_head cmd target h @ r, outp = w\<rparr> =
    (Inr (cmd, target), \<lparr>inp = r, outp = w\<rparr>)"
proof -
  let ?a = "from_proxy_target target"
  have split: "encode_request_head cmd target h @ r =
      (as_bytes h @ CRLF) @ [cmd] @ encode_addr ?a @ CRLF @ r"
    by (simp add: encode_request_head_def encode_into_def)
  have head: "from_utf8_lossy (as_bytes h) = h" "slice 56 58 (as_bytes h @ CRLF) = CRLF"
    using assms(1,2) by (simp_all add: from_utf8_lossy_def utf8_lossy_id slice_def CRLF_def)
  have ok: "\<not> (case expect of Some e \<Rightarrow> \<not> eq_ignore_ascii_case h e | None \<Rightarrow> False)"
    using assms(4) by (cases expect) auto
  have addr: "io_bind trojan_read_addr f \<lparr>inp = encode_addr ?a @ CRLF @ r, outp = w\<rparr> =
      f ?a \<lparr>inp = CRLF @ r, outp = w\<rparr>" for f :: "socks5_addr \<Rightarrow> (byte \<times> proxy_target) io"
    by (simp add: io_bind_def trojan_read_addr_encode [OF assms(3)])
  show ?thesis
    unfolding read_request_head_def split
    by (subst io_bind_read_append)
      (simp_all add: assms(1) CRLF_def [symmetric] head ok Let_def io_bind_read_append addr
        to_from_proxy_target del: append_Cons append.append_Nil add: CRLF_length)
qed

lemma password_hash_ok:
  assumes "\<And>x. length (sha224 x) = 28"
  shows "length (password_hash sha224 pw) = 56" "utf8_valid (as_bytes (password_hash sha224 pw))"
  by (simp_all add: password_hash_def assms hex_encode_utf8)

section \<open>Properties\<close>

text \<open>The server accepts exactly what the client sends. For a server
  configured with the hash of a password, the bytes a client with the same
  password writes for a target are accepted as a connection to that target,
  and the application bytes that follow are left on the stream.\<close>

theorem trojan_client_accepted:
  assumes "\<And>x. length (sha224 x) = 28" "wf_addr (from_proxy_target target)"
  shows "trojan_handshake (password_hash sha224 pw)
      \<lparr>inp = outp (snd (trojan_connect_tcp sha224 pw target \<lparr>inp = [], outp = []\<rparr>)) @ rest, outp = []\<rparr> =
    (Inr (TrojanTcp target), \<lparr>inp = rest, outp = []\<rparr>)"
  using read_request_head_encode [OF password_hash_ok [of sha224 pw, OF assms(1)] assms(2),
      of "Some (password_hash sha224 pw)"]
  by (simp add: trojan_handshake_def trojan_connect_tcp_def io_bind_def)

theorem trojan_client_accepted_witness:
  "trojan_handshake (password_hash (\<lambda>_. replicate 28 0x5A) ''pw'')
      \<lparr>inp = outp (snd (trojan_connect_tcp (\<lambda>_. replicate 28 0x5A) ''pw'' (Domain ''a.b'' 443) \<lparr>inp = [], outp = []\<rparr>)) @ [1, 2],
       outp = []\<rparr> =
    (Inr (TrojanTcp (Domain ''a.b'' 443)), \<lparr>inp = [1, 2], outp = []\<rparr>)"
proof -
  have "wf_addr (from_proxy_target (Domain ''a.b'' 443))" by code_simp
  then show ?thesis by (intro trojan_client_accepted) simp
qed

text \<open>Property C21: the server accepts no client that does not present the
  configured hash: whenever the handshake succeeds, the first 56 bytes of the
  connection are the configured hash up to letter case, followed by CRLF.\<close>

theorem trojan_authenticates:
  assumes "trojan_handshake hash c = (Inr acc, c')"
  shows "\<exists>h rest. inp c = h @ CRLF @ rest \<and> length h = 56
    \<and> eq_ignore_ascii_case (from_utf8_lossy h) hash"
proof -
  obtain head c1 where h: "read_exact 58 c = (Inr head, c1)" and crlf: "slice 56 58 head = CRLF"
    and eq: "eq_ignore_ascii_case (from_utf8_lossy (take 56 head)) hash"
    using assms
    by (auto simp: trojan_handshake_def read_request_head_def io_bind_Inr_iff Let_def split: if_splits)
  have "length head = 58" "inp c = head @ inp c1" using read_exact_split [OF h] by auto
  moreover have "drop 56 head = CRLF"
    using crlf \<open>length head = 58\<close> by (simp add: slice_def)
  ultimately have "inp c = take 56 head @ CRLF @ inp c1"
    by (metis append.assoc append_take_drop_id)
  then show ?thesis
    using eq \<open>length head = 58\<close> by (intro exI [of _ "take 56 head"] exI [of _ "inp c1"]) simp
qed

theorem trojan_authenticates_witness:
  "\<exists>h rest. as_bytes (replicate 56 CHR ''a'') @ CRLF @ [1, 1, 127, 0, 0, 1, 0, 80] @ CRLF = h @ CRLF @ rest
    \<and> length h = 56 \<and> eq_ignore_ascii_case (from_utf8_lossy h) (replicate 56 CHR ''A'')"
proof -
  let ?c = "\<lparr>inp = as_bytes (replicate 56 CHR ''a'') @ CRLF @ [1, 1, 127, 0, 0, 1, 0, 80] @ CRLF, outp = []\<rparr>"
  have "trojan_handshake (replicate 56 CHR ''A'') ?c =
    (Inr (TrojanTcp (Tcp (SocketAddr (IpV4 0x7F000001) 80))), \<lparr>inp = [], outp = []\<rparr>)"
    by code_simp
  from trojan_authenticates [OF this] show ?thesis by simp
qed

text \<open>UDP over a Trojan stream survives any fragmentation. However the
  bytes of a sequence of frames are cut into reads, the uplink task hands over
  exactly those packets, in order, and reports no error.\<close>

theorem trojan_udp_fragmentation:
  assumes "list_all frame_ok fs" "concat cs = concat (map (case_prod udp_encode) fs)" "[] \<notin> set cs"
  shows "uplink decoder_new cs = (map (\<lambda>(a, x). (to_proxy_target a, x)) fs, None)"
  using trojan_udp.pump_encoded [OF assms(1,2)] uplink_pump [OF assms(3), of decoder_new]
  by (auto simp: decoder_new_def split: prod.splits)

theorem trojan_udp_fragmentation_witness:
  "uplink decoder_new [[1, 1, 2], [3, 4, 0, 53, 13, 10, 0, 2, 13], [10, 7, 8, 1, 9, 9, 9, 9, 0, 80, 13, 10, 0, 0, 13, 10]]
    = (map (\<lambda>(a, x). (to_proxy_target a, x)) [(V4 [1, 2, 3, 4] 53, [7, 8]), (V4 [9, 9, 9, 9] 80, [])], None)"
proof (rule trojan_udp_fragmentation)
  show "list_all frame_ok [(V4 [1, 2, 3, 4] 53, [7, 8]), (V4 [9, 9, 9, 9] 80, [])]"
    by (simp add: frame_ok_def)
  show "concat [[1, 1, 2], [3, 4, 0, 53, 13, 10, 0, 2, 13], [10, 7, 8, 1, 9, 9, 9, 9, 0, 80, 13, 10, 0, 0, 13, 10]] =
      concat (map (case_prod udp_encode) [(V4 [1, 2, 3, 4] 53, [7, 8]), (V4 [9, 9, 9, 9] 80, [])])"
    by code_simp
qed simp

end
