(* ===== verification/Vless.thy ===== *)
theory Vless
  imports Socks5 Crypto
begin

text \<open>
  \<open>crates/omni-proto/src/proto/vless\<close>: request and response heads, the server
  handshake, the client, and the UDP frame codec with its decoder. Debug
  logging is left out.
\<close>

section \<open>Requests\<close>

definition CMD_TCP :: byte where "CMD_TCP = 0x01"
definition CMD_UDP :: byte where "CMD_UDP = 0x02"
definition ATYP_V4 :: byte where "ATYP_V4 = 0x01"
definition ATYP_DOMAIN :: byte where "ATYP_DOMAIN = 0x02"
definition ATYP_V6 :: byte where "ATYP_V6 = 0x03"

lemmas vless_consts = CMD_TCP_def CMD_UDP_def ATYP_V4_def ATYP_DOMAIN_def ATYP_V6_def

fun encode_target_addr :: "proxy_target \<Rightarrow> bytes" where
  "encode_target_addr (Tcp a) =
    (case sa_ip a of IpV4 i \<Rightarrow> ATYP_V4 # octets4 i | IpV6 i \<Rightarrow> ATYP_V6 # octets6 i)"
| "encode_target_addr (Domain h p) = ATYP_DOMAIN # word_of_nat (length h) # as_bytes h"

definition encode_request :: "bytes \<Rightarrow> byte \<Rightarrow> proxy_target \<Rightarrow> bytes \<Rightarrow> bytes" where
  "encode_request uuid cmd target addons =
    0 # uuid @ word_of_nat (length addons) # addons @ cmd # u16_be (target_port target)
      @ encode_target_addr target"

definition read_vless_addr :: "byte \<Rightarrow> u16 \<Rightarrow> socks5_addr io" where
  "read_vless_addr atyp p =
    (if atyp = ATYP_V4 then io_bind (read_exact 4) (\<lambda>b. io_ret (V4 b p))
     else if atyp = ATYP_DOMAIN then
       io_bind (read_exact 1) (\<lambda>dl.
       io_bind (read_exact (unat (dl ! 0))) (\<lambda>rest. io_ret (DomainName (from_utf8_lossy rest) p)))
     else if atyp = ATYP_V6 then io_bind (read_exact 16) (\<lambda>b. io_ret (V6 b p))
     else io_throw (io_err ''vless: unknown address type''))"

definition read_addons :: "byte \<Rightarrow> unit io" where
  "read_addons alen =
    (if alen > 0 then
       io_bind (read_exact (unat alen)) (\<lambda>addons.
         if addons \<noteq> [] \<and> hd addons = 0x01
         then io_throw (io_err ''vless: flow addon requires vision support'')
         else io_ret ())
     else io_ret ())"

definition vless_read_head :: "(bytes \<times> byte \<times> proxy_target) io" where
  "vless_read_head =
    io_bind (read_exact 1) (\<lambda>ver.
      if ver ! 0 \<noteq> 0 then io_throw (io_err ''vless: unsupported version'')
      else
        io_bind (read_exact 16) (\<lambda>uuid.
        io_bind (read_exact 1) (\<lambda>alen.
        io_bind (read_addons (alen ! 0)) (\<lambda>_.
        io_bind (read_exact 1) (\<lambda>cmd_b.
        io_bind (read_exact 2) (\<lambda>portb. let p = be_u16 (portb ! 0) (portb ! 1) in
        io_bind (read_exact 1) (\<lambda>atyp.
        io_bind (read_vless_addr (atyp ! 0) p) (\<lambda>addr.
          io_ret (uuid, cmd_b ! 0, with_port (to_proxy_target addr) p)))))))))"

definition write_response :: "unit io" where
  "write_response = write_all [0x00, 0x00]"

definition read_response :: "unit io" where
  "read_response =
    io_bind (read_exact 2) (\<lambda>head.
      if head ! 0 \<noteq> 0 then io_throw (io_err ''vless: bad response version'')
      else let alen = unat (head ! 1) in
        if alen > 0 then io_bind (read_exact alen) (\<lambda>_. io_ret ()) else io_ret ())"

section \<open>Server and client\<close>

datatype vless_accepted = VlessTcp proxy_target | VlessUdp

definition vless_handshake :: "bytes list \<Rightarrow> vless_accepted io" where
  "vless_handshake allowed_uuids =
    io_bind vless_read_head (\<lambda>(uuid, cmd, target).
      if uuid \<notin> set allowed_uuids then io_throw (io_err ''vless: authentication failed'')
      else if cmd = CMD_TCP then io_bind write_response (\<lambda>_. io_ret (VlessTcp target))
      else if cmd = CMD_UDP then io_bind write_response (\<lambda>_. io_ret VlessUdp)
      else io_throw (io_err ''vless: unsupported command''))"

definition uuid_bytes :: "string \<Rightarrow> io_error + bytes" where
  "uuid_bytes uuid =
    (case parse_uuid uuid of
       Some u \<Rightarrow> Inr u
     | None \<Rightarrow> Inl (invalid_data (''vless: invalid UUID '' @ [CHR 0x27] @ uuid @ [CHR 0x27])))"

definition vless_connect_tcp :: "string \<Rightarrow> proxy_target \<Rightarrow> unit io" where
  "vless_connect_tcp uuid target =
    (case uuid_bytes uuid of
       Inl e \<Rightarrow> io_throw e
     | Inr u \<Rightarrow>
         io_bind (write_all (encode_request u CMD_TCP target [])) (\<lambda>_. read_response))"

section \<open>UDP frames\<close>

definition vless_udp_encode :: "proxy_target \<Rightarrow> bytes \<Rightarrow> bytes" where
  "vless_udp_encode target data =
    u16_be (word_of_nat (length data)) @ encode_target_addr target
      @ u16_be (target_port target) @ data"

definition frame_addr_len :: "bytes \<Rightarrow> nat" where
  "frame_addr_len buf =
    (if buf = [] then 0
     else if buf ! 0 = ATYP_V4 then 7
     else if buf ! 0 = ATYP_V6 then 19
     else if buf ! 0 = ATYP_DOMAIN then
       (if length buf > 1 then 1 + 1 + unat (buf ! 1) + 2 else 2)
     else 1)"

definition frame_target :: "bytes \<Rightarrow> (proxy_target \<times> nat) option" where
  "frame_target frame =
    (let atyp = frame ! 2 in
     if atyp = ATYP_V4 then
       Some (Tcp (SocketAddr (IpV4 (be_u32 (slice 3 7 frame))) (be_u16 (frame ! 7) (frame ! 8))), 9)
     else if atyp = ATYP_DOMAIN then
       (let dl = unat (frame ! 3) in
        Some (Domain (from_utf8_lossy (slice 4 (4 + dl) frame))
          (be_u16 (frame ! (4 + dl)) (frame ! (5 + dl))), 6 + dl))
     else if atyp = ATYP_V6 then
       Some (Tcp (SocketAddr (IpV6 (be_u128 (slice 3 19 frame))) (be_u16 (frame ! 19) (frame ! 20))), 21)
     else None)"

text \<open>\<open>next_packet\<close> on the buffer and the end-of-stream flag; the result and the
  buffer after it.\<close>

definition vless_next_packet ::
    "bytes \<Rightarrow> bool \<Rightarrow> (io_error + proxy_target \<times> bytes) option \<times> bytes" where
  "vless_next_packet buf eof =
    (if length buf < 3 then (None, buf)
     else let len = unat (be_u16 (buf ! 0) (buf ! 1));
              need = 2 + frame_addr_len (drop 2 buf) + 2 + len in
       if length buf < need then
         (if eof then (Some (Inl (io_err ''vless: truncated UDP packet'')), buf) else (None, buf))
       else let frame = take need buf in
         (case frame_target frame of
            None \<Rightarrow> (Some (Inl (io_err ''vless: unknown UDP address type'')), drop need buf)
          | Some (target, off) \<Rightarrow> (Some (Inr (target, drop off frame)), drop need buf)))"

section \<open>Round trips\<close>

fun wf_target :: "proxy_target \<Rightarrow> bool" where
  "wf_target (Tcp a) \<longleftrightarrow> True"
| "wf_target (Domain h p) \<longleftrightarrow> utf8_valid (as_bytes h) \<and> length h \<le> 255"

lemma read_vless_addr_encode:
  assumes "wf_target t"
  shows "read_vless_addr (hd (encode_target_addr t)) (target_port t)
      \<lparr>inp = tl (encode_target_addr t) @ r, outp = w\<rparr> =
    (Inr (from_proxy_target t), \<lparr>inp = r, outp = w\<rparr>)"
proof (cases t)
  case (Tcp a)
  then show ?thesis
    by (cases "sa_ip a")
      (simp_all add: read_vless_addr_def vless_consts io_bind_def read_exact_append)
next
  case (Domain h p)
  then show ?thesis
    using assms
    by (simp add: read_vless_addr_def vless_consts io_bind_def read_exact_def unat_len_byte
        from_utf8_lossy_def utf8_lossy_id)
qed

lemma encode_target_addr_Cons:
  "encode_target_addr t = hd (encode_target_addr t) # tl (encode_target_addr t)"
  by (cases t) (simp_all split: ip_addr.split)

lemma with_port_self: "with_port (to_proxy_target (from_proxy_target t)) (target_port t) = t"
  by (cases t) (simp_all add: to_from_proxy_target del: from_proxy_target.simps)

lemma io_bind_vless_addr:
  assumes "wf_target t"
  shows "io_bind (read_vless_addr (hd (encode_target_addr t)) (target_port t)) f
      \<lparr>inp = tl (encode_target_addr t) @ r, outp = w\<rparr> =
    f (from_proxy_target t) \<lparr>inp = r, outp = w\<rparr>"
  by (simp add: io_bind_def read_vless_addr_encode [OF assms])

lemma vless_read_head_encode:
  assumes "length u = 16" "wf_target t"
  shows "vless_read_head \<lparr>inp = encode_request u cmd t [] @ r, outp = w\<rparr> =
    (Inr (u, cmd, t), \<lparr>inp = r, outp = w\<rparr>)"
proof -
  obtain x y where p: "u16_be (target_port t) = [x, y]" "be_u16 x y = target_port t"
    by (rule u16_be_cases)
  have split: "encode_request u cmd t [] @ r =
      [0] @ u @ [0] @ [cmd] @ [x, y] @ [hd (encode_target_addr t)] @ tl (encode_target_addr t) @ r"
    using encode_target_addr_Cons [of t] by (simp add: encode_request_def p)
  show ?thesis
    unfolding vless_read_head_def split
    by (simp add: io_bind_read_append assms(1) read_addons_def p io_bind_vless_addr [OF assms(2)]
        with_port_self Let_def del: append_Cons append.append_Nil)
qed

section \<open>The UDP decoder takes two bytes too many\<close>

lemma frame_target_encode:
  assumes "wf_target t" "length data \<le> 65535"
  shows "frame_target (vless_udp_encode t data @ r) =
    Some (t, length (vless_udp_encode t data) - length data)"
proof -
  obtain x y where p: "u16_be (target_port t) = [x, y]" "be_u16 x y = target_port t"
    by (rule u16_be_cases)
  obtain m n where l: "u16_be (word_of_nat (length data)) = [m, n]" by (rule u16_be_cases)
  show ?thesis
  proof (cases t)
    case (Tcp a)
    have a: "SocketAddr (sa_ip a) (target_port t) = a" using Tcp by simp
    show ?thesis
      using p l a Tcp
      by (cases "sa_ip a")
        (simp_all add: frame_target_def vless_udp_encode_def vless_consts slice_def nth_append)
  next
    case (Domain h q)
    then show ?thesis
      using p l assms(1)
      by (simp add: frame_target_def vless_udp_encode_def vless_consts slice_def nth_append
          unat_len_byte from_utf8_lossy_def utf8_lossy_id Let_def)
  qed
qed

lemma frame_addr_len_encode:
  assumes "wf_target t"
  shows "frame_addr_len (drop 2 (vless_udp_encode t data @ r)) =
    length (vless_udp_encode t data) - length data - 2"
proof -
  obtain x y where p: "u16_be (target_port t) = [x, y]" by (rule u16_be_cases)
  obtain m n where l: "u16_be (word_of_nat (length data)) = [m, n]" by (rule u16_be_cases)
  show ?thesis
  proof (cases t)
    case (Tcp a)
    then show ?thesis
      using p l
      by (cases "sa_ip a")
        (simp_all add: frame_addr_len_def vless_udp_encode_def vless_consts)
  next
    case (Domain h q)
    then show ?thesis
      using p l assms
      by (simp add: frame_addr_len_def vless_udp_encode_def vless_consts unat_len_byte)
  qed
qed

lemma vless_udp_len:
  assumes "length data \<le> 65535"
  shows "unat (be_u16 ((vless_udp_encode t data @ r) ! 0) ((vless_udp_encode t data @ r) ! 1)) = length data"
    and "4 + length data \<le> length (vless_udp_encode t data)"
proof -
  obtain m n where l: "u16_be (word_of_nat (length data)) = [m, n]"
    "be_u16 m n = word_of_nat (length data)" by (rule u16_be_cases)
  then show "unat (be_u16 ((vless_udp_encode t data @ r) ! 0) ((vless_udp_encode t data @ r) ! 1)) = length data"
    using assms by (simp add: vless_udp_encode_def unat_of_nat)
  show "4 + length data \<le> length (vless_udp_encode t data)"
    by (simp add: vless_udp_encode_def)
qed

section \<open>Properties\<close>

lemma vless_connect_run:
  assumes "parse_uuid uuid = Some u"
  shows "vless_connect_tcp uuid t \<lparr>inp = [0x00, 0x00] @ reply, outp = w\<rparr> =
    (Inr (), \<lparr>inp = reply, outp = w @ encode_request u CMD_TCP t []\<rparr>)"
  using assms
  by (simp add: vless_connect_tcp_def uuid_bytes_def read_response_def io_bind_def read_exact_def)

text \<open>VLESS client and server agree. The head a client writes is
  accepted by a server that allows its UUID, for the same target; the server
  answers with a response that the client accepts, and neither side consumes
  a byte of the application data.\<close>

theorem vless_client_accepted:
  assumes "parse_uuid uuid = Some u" "u \<in> set allowed" "wf_target t"
  shows "vless_handshake allowed
      \<lparr>inp = outp (snd (vless_connect_tcp uuid t \<lparr>inp = [], outp = []\<rparr>)) @ rest, outp = []\<rparr> =
    (Inr (VlessTcp t), \<lparr>inp = rest, outp = [0x00, 0x00]\<rparr>)
   \<and> vless_connect_tcp uuid t \<lparr>inp = [0x00, 0x00] @ reply, outp = []\<rparr> =
    (Inr (), \<lparr>inp = reply, outp = encode_request u CMD_TCP t []\<rparr>)"
proof -
  have u: "length u = 16" using assms(1) by (rule parse_uuid_length)
  have out: "outp (snd (vless_connect_tcp uuid t \<lparr>inp = [], outp = []\<rparr>)) = encode_request u CMD_TCP t []"
    using assms(1)
    by (simp add: vless_connect_tcp_def uuid_bytes_def read_response_def io_bind_def read_exact_def)
  have "vless_handshake allowed \<lparr>inp = encode_request u CMD_TCP t [] @ rest, outp = []\<rparr> =
      (Inr (VlessTcp t), \<lparr>inp = rest, outp = [0x00, 0x00]\<rparr>)"
    using assms(2) vless_read_head_encode [OF u assms(3), of CMD_TCP rest "[]"]
    by (simp add: vless_handshake_def io_bind_def write_response_def)
  moreover have "vless_connect_tcp uuid t \<lparr>inp = [0x00, 0x00] @ reply, outp = []\<rparr> =
    (Inr (), \<lparr>inp = reply, outp = encode_request u CMD_TCP t []\<rparr>)"
    using vless_connect_run [OF assms(1), of t reply "[]"] by simp
  ultimately show ?thesis using out by simp
qed

theorem vless_client_accepted_witness:
  "vless_handshake [replicate 16 0xAB]
      \<lparr>inp = outp (snd (vless_connect_tcp (uuid_to_string (replicate 16 0xAB)) (Domain ''a'' 80) \<lparr>inp = [], outp = []\<rparr>)) @ [9],
       outp = []\<rparr> =
    (Inr (VlessTcp (Domain ''a'' 80)), \<lparr>inp = [9], outp = [0x00, 0x00]\<rparr>)
   \<and> vless_connect_tcp (uuid_to_string (replicate 16 0xAB)) (Domain ''a'' 80) \<lparr>inp = [0x00, 0x00] @ [7], outp = []\<rparr> =
    (Inr (), \<lparr>inp = [7], outp = encode_request (replicate 16 0xAB) CMD_TCP (Domain ''a'' 80) []\<rparr>)"
proof (rule vless_client_accepted)
  show "parse_uuid (uuid_to_string (replicate 16 0xAB)) = Some (replicate 16 0xAB)"
    by (rule parse_uuid_to_string) simp
  show "wf_target (Domain ''a'' 80)" by code_simp
qed simp

text \<open>Property C22: the VLESS server accepts only allowed users: if the handshake
  succeeds, the connection starts with version 0 and a UUID of the configured
  list.\<close>

theorem vless_authenticates:
  assumes "vless_handshake allowed c = (Inr acc, c')"
  shows "\<exists>u rest. inp c = 0 # u @ rest \<and> length u = 16 \<and> u \<in> set allowed"
proof -
  obtain ver c1 u c2 where v: "read_exact 1 c = (Inr ver, c1)" "ver ! 0 = 0"
    and u: "read_exact 16 c1 = (Inr u, c2)" "u \<in> set allowed"
    using assms
    by (auto simp: vless_handshake_def vless_read_head_def io_bind_Inr_iff Let_def split: if_splits)
  have "ver = [0]" using read_exact_split [OF v(1)] v(2) by (auto simp: length_Suc_conv)
  then have "inp c = 0 # u @ inp c2"
    using read_exact_split [OF v(1)] read_exact_split [OF u(1)] by simp
  then show ?thesis using read_exact_split [OF u(1)] u(2) by blast
qed

theorem vless_authenticates_witness:
  "\<exists>u rest. 0 # replicate 16 7 @ [0, 1, 0, 80, 1, 127, 0, 0, 1] = 0 # u @ rest
    \<and> length u = 16 \<and> u \<in> set [replicate 16 (7 :: byte)]"
proof -
  have "vless_handshake [replicate 16 7]
      \<lparr>inp = 0 # replicate 16 7 @ [0, 1, 0, 80, 1, 127, 0, 0, 1], outp = []\<rparr> =
    (Inr (VlessTcp (Tcp (SocketAddr (IpV4 0x7F000001) 80))), \<lparr>inp = [], outp = [0, 0]\<rparr>)"
    by code_simp
  from vless_authenticates [OF this] show ?thesis by simp
qed

text \<open>The UDP decoder counts the port twice. An encoded packet that
  arrives alone is never delivered, and when more bytes follow, the packet is
  delivered with the next two bytes of the stream appended to its payload.\<close>

theorem vless_udp_takes_two_extra_bytes:
  assumes "wf_target t" "length data \<le> 65535"
  shows "vless_next_packet (vless_udp_encode t data) False = (None, vless_udp_encode t data)
    \<and> vless_next_packet (vless_udp_encode t data @ [x, y] @ r) eof = (Some (Inr (t, data @ [x, y])), r)"
proof -
  let ?e = "vless_udp_encode t data"
  note len = vless_udp_len [OF assms(2)] and al = frame_addr_len_encode [OF assms(1)]
  have need: "2 + (length ?e - length data - 2) + 2 + length data = length ?e + 2"
    using len(2) [of t] by simp
  have ne: "?e \<noteq> []" using len(2) [of t] by auto
  have one: "vless_next_packet ?e False = (None, ?e)"
    using len(1) [of t "[]"] al [of data "[]"] need len(2) [of t]
    by (simp add: vless_next_packet_def Let_def)
  have "take (length ?e + 2) (?e @ [x, y] @ r) = ?e @ [x, y]" "drop (length ?e + 2) (?e @ [x, y] @ r) = r"
    by simp_all
  moreover have "drop (length ?e - length data) ?e = data"
    by (simp add: vless_udp_encode_def)
  moreover have "drop (length ?e - length data) (?e @ [x, y]) = data @ [x, y]"
    using calculation(3) by (simp add: drop_append)
  ultimately have "vless_next_packet (?e @ [x, y] @ r) eof = (Some (Inr (t, data @ [x, y])), r)"
    using len(1) [of t "[x, y] @ r"] al [of data "[x, y] @ r"] need len(2) [of t]
      frame_target_encode [OF assms, of "[x, y]"] ne
    by (simp add: vless_next_packet_def Let_def)
  with one show ?thesis by simp
qed

theorem vless_udp_takes_two_extra_bytes_witness:
  "vless_next_packet (vless_udp_encode (Domain ''a'' 53) [1, 2]) False = (None, vless_udp_encode (Domain ''a'' 53) [1, 2])
    \<and> vless_next_packet (vless_udp_encode (Domain ''a'' 53) [1, 2] @ [8, 9] @ [5]) True
      = (Some (Inr (Domain ''a'' 53, [1, 2] @ [8, 9])), [5])"
proof (rule vless_udp_takes_two_extra_bytes)
  show "wf_target (Domain ''a'' 53)" by code_simp
qed simp

end
