(* ===== verification/Hysteria2.thy ===== *)
theory Hysteria2
  imports IpText
begin

text \<open>
  \<open>crates/omni-proto/src/proto/hysteria2\<close>: variable-length integers, the TCP
  request and response messages, UDP messages, the server's request loop and
  authentication decision (\<open>inbound.rs\<close>), the client's request text
  (\<open>outbound.rs\<close>), and \<open>parse_hy_addr\<close> of \<open>runtime/core.rs\<close>, which turns the
  requested address into a target. QUIC and HTTP/3 are third-party; a stream
  is the list of chunks its reads return.
\<close>

section \<open>Variable-length integers\<close>

definition FRAME_TYPE_TCP_REQUEST :: nat where
  "FRAME_TYPE_TCP_REQUEST = 0x401"

definition MAX_ADDRESS_LENGTH :: nat where "MAX_ADDRESS_LENGTH = 2048"
definition MAX_MESSAGE_LENGTH :: nat where "MAX_MESSAGE_LENGTH = 2048"
definition MAX_PADDING_LENGTH :: nat where "MAX_PADDING_LENGTH = 4096"

lemmas hy_consts = FRAME_TYPE_TCP_REQUEST_def MAX_ADDRESS_LENGTH_def MAX_MESSAGE_LENGTH_def
  MAX_PADDING_LENGTH_def

text \<open>The loop that fills \<open>tmp\<close> from the end: the bytes \<open>tmp[i..]\<close>.\<close>

fun min_be :: "nat \<Rightarrow> bytes" where
  "min_be v = (if v < 256 then [word_of_nat v] else min_be (v div 256) @ [word_of_nat v])"

declare min_be.simps [simp del]

definition encode_varint :: "nat \<Rightarrow> bytes" where
  "encode_varint v =
    (let t = min_be v; len = length t; first = hd t in
     if len = 1 then [first]
     else if len = 2 then ((first AND 0x3F) OR 0x40) # tl t
     else if len = 4 then ((first AND 0x3F) OR 0x80) # tl t
     else ((first AND 0x3F) OR 0xC0) # tl t)"

definition varint_len :: "byte \<Rightarrow> nat" where
  "varint_len first =
    (let prefix = drop_bit 6 first in
     if prefix = 0 then 1 else if prefix = 1 then 2 else if prefix = 2 then 4 else 8)"

definition read_varint :: "bytes \<Rightarrow> io_error + nat \<times> nat" where
  "read_varint data =
    (if data = [] then Inl (IoError UnexpectedEof ''hysteria2: empty varint'')
     else let first = data ! 0; len = varint_len first in
       if length data < len then Inl (IoError UnexpectedEof ''hysteria2: truncated varint'')
       else Inr (foldl (\<lambda>value b. value * 256 + unat b) (unat (first AND 0x3F)) (slice 1 len data), len))"

section \<open>TCP requests and responses\<close>

definition encode_tcp_request :: "string \<Rightarrow> bytes" where
  "encode_tcp_request addr =
    encode_varint FRAME_TYPE_TCP_REQUEST @ encode_varint (length addr) @ as_bytes addr @ encode_varint 0"

definition read_padding :: "bytes \<Rightarrow> io_error + bytes" where
  "read_padding rest =
    (case read_varint rest of
       Inl e \<Rightarrow> Inl e
     | Inr (pad_len, n2) \<Rightarrow>
         if pad_len > MAX_PADDING_LENGTH then Inl (invalid_data ''hysteria2: padding too large'')
         else let rest = drop n2 rest in
           if length rest < pad_len then Inl (IoError UnexpectedEof ''hysteria2: truncated padding'')
           else Inr (drop pad_len rest))"

definition decode_tcp_request :: "bytes \<Rightarrow> io_error + string \<times> bytes" where
  "decode_tcp_request buf =
    (case read_varint buf of
       Inl e \<Rightarrow> Inl e
     | Inr (frame_type, n) \<Rightarrow>
         if frame_type \<noteq> FRAME_TYPE_TCP_REQUEST
         then Inl (invalid_data (''hysteria2: unexpected frame type 0x'' @ show_hex frame_type))
         else let rest = drop n buf in
           (case read_varint rest of
              Inl e \<Rightarrow> Inl e
            | Inr (addr_len, n1) \<Rightarrow>
                if addr_len = 0 \<or> addr_len > MAX_ADDRESS_LENGTH
                then Inl (invalid_data ''hysteria2: invalid address length'')
                else let rest = drop n1 rest in
                  if length rest < addr_len
                  then Inl (IoError UnexpectedEof ''hysteria2: truncated address'')
                  else (case read_padding (drop addr_len rest) of
                      Inl e \<Rightarrow> Inl e
                    | Inr tail \<Rightarrow> Inr (from_utf8_lossy (take addr_len rest), tail))))"

definition encode_tcp_response :: "bool \<Rightarrow> string \<Rightarrow> bytes" where
  "encode_tcp_response ok msg =
    (if ok then 0 else 1) # encode_varint (length msg) @ as_bytes msg @ encode_varint 0"

definition decode_tcp_response :: "bytes \<Rightarrow> io_error + bool \<times> string" where
  "decode_tcp_response buf =
    (if buf = [] then Inl (IoError UnexpectedEof ''hysteria2: empty response'')
     else let ok = (buf ! 0 = 0) in
       (case read_varint (drop 1 buf) of
          Inl e \<Rightarrow> Inl e
        | Inr (msg_len, n) \<Rightarrow>
            if msg_len > MAX_MESSAGE_LENGTH then Inl (invalid_data ''hysteria2: message too long'')
            else let rest = drop (1 + n) buf in
              if length rest < msg_len
              then Inl (IoError UnexpectedEof ''hysteria2: truncated message'')
              else (case read_varint (drop msg_len rest) of
                  Inl e \<Rightarrow> Inl e
                | Inr (pad_len, n2) \<Rightarrow>
                    if pad_len > MAX_PADDING_LENGTH
                    then Inl (invalid_data ''hysteria2: padding too large'')
                    else Inr (ok, from_utf8_lossy (take msg_len rest)))))"

section \<open>UDP messages\<close>

record udp_message =
  session_id :: u32
  packet_id :: u16
  frag_id :: byte
  frag_count :: byte
  m_addr :: string
  m_data :: bytes

definition serialize :: "udp_message \<Rightarrow> bytes" where
  "serialize m =
    u32_be (session_id m) @ u16_be (packet_id m) @ [frag_id m, frag_count m]
      @ encode_varint (length (m_addr m)) @ as_bytes (m_addr m) @ m_data m"

definition parse_message :: "bytes \<Rightarrow> io_error + udp_message" where
  "parse_message buf =
    (if length buf < 8 then Inl (invalid_data ''hysteria2: short udp message'')
     else (case read_varint (drop 8 buf) of
         Inl e \<Rightarrow> Inl e
       | Inr (addr_len, n) \<Rightarrow>
           if addr_len = 0 \<or> addr_len > MAX_MESSAGE_LENGTH
           then Inl (invalid_data ''hysteria2: invalid udp address length'')
           else let rest = drop (8 + n) buf in
             if length rest < addr_len
             then Inl (IoError UnexpectedEof ''hysteria2: truncated udp address'')
             else Inr \<lparr>session_id = be_u32 (take 4 buf), packet_id = be_u16 (buf ! 4) (buf ! 5),
               frag_id = buf ! 6, frag_count = buf ! 7,
               m_addr = from_utf8_lossy (take addr_len rest), m_data = drop addr_len rest\<rparr>))"

section \<open>The server's request loop\<close>

text \<open>What the task of one QUIC stream does with the bytes it reads before it hands
  the stream over: the requested address, or nothing, and the bytes written
  to the client.\<close>

datatype hy_outcome = HyServe string bytes | HyRefuse bytes | HyClosed

fun io_msg :: "io_error \<Rightarrow> string" where
  "io_msg (IoError k m) = m"

fun hy_read_request :: "bytes \<Rightarrow> bytes list \<Rightarrow> hy_outcome" where
  "hy_read_request buf [] = HyClosed"
| "hy_read_request buf (c # cs) =
    (let buf' = buf @ c in
     case decode_tcp_request buf' of
       Inr (addr, rest) \<Rightarrow> HyServe addr (rest @ encode_tcp_response True [])
     | Inl e \<Rightarrow>
         if error_kind_of e = UnexpectedEof then
           (if length buf' \<ge> 4096 then HyRefuse (encode_tcp_response False ''addr too long'')
            else hy_read_request buf' cs)
         else HyRefuse (encode_tcp_response False (io_msg e)))"

text \<open>The authentication request as the HTTP/3 layer presents it, and the decision
  of the server. \<open>to_str\<close> is the header library's reading of a header value as text, which not every value has. The
  listener's configuration has a password, but this code does not read it.\<close>

record auth_request =
  is_post :: bool
  uri_host :: "string option"
  uri_path :: string
  auth_header :: "bytes option"

definition accepts_auth :: "(bytes \<Rightarrow> string option) \<Rightarrow> auth_request \<Rightarrow> bool" where
  "accepts_auth to_str req \<longleftrightarrow>
    is_post req \<and> uri_host req = Some ''hysteria'' \<and> uri_path req = ''/auth''
    \<and> (case Option.bind (auth_header req) to_str of Some a \<Rightarrow> a | None \<Rightarrow> []) \<noteq> []"

section \<open>Requested addresses\<close>

definition hy_addr_string :: "string \<Rightarrow> u16 \<Rightarrow> string" where
  "hy_addr_string host p =
    (if CHR '':'' \<in> set host \<and> \<not> prefix ''['' host
     then ''['' @ host @ '']:'' @ show_nat (unat p)
     else host @ '':'' @ show_nat (unat p))"

text \<open>\<open>SocketAddr::from_str\<close> on text that starts with a bracket.\<close>

definition parse_bracketed :: "string \<Rightarrow> socket_addr option" where
  "parse_bracketed s =
    (case read_given_char CHR ''['' s of None \<Rightarrow> None | Some s1 \<Rightarrow>
     case read_ipv6 s1 of None \<Rightarrow> None | Some (a, s2) \<Rightarrow>
     case read_given_char CHR '']'' s2 of None \<Rightarrow> None | Some s3 \<Rightarrow>
     case read_given_char CHR '':'' s3 of None \<Rightarrow> None | Some s4 \<Rightarrow>
     case parse_port s4 of None \<Rightarrow> None | Some p \<Rightarrow> Some (SocketAddr (IpV6 a) p))"

definition parse_hy_addr :: "string \<Rightarrow> proxy_target option" where
  "parse_hy_addr addr0 =
    (let addr = dropWhile (\<lambda>c. c = CHR ''['') addr0 in
     if prefix '']'' addr then
       (let rest = dropWhile (\<lambda>c. c = CHR '':'') (drop 1 addr) in
        case parse_port rest of
          None \<Rightarrow> None
        | Some p \<Rightarrow>
            let host = take (length addr - length rest - 1) addr in
            map_option Tcp (parse_bracketed (''['' @ host @ '']:'' @ show_nat (unat p))))
     else (case rsplit_once CHR '':'' addr of
         None \<Rightarrow> None
       | Some (h, p) \<Rightarrow>
           (case parse_port p of
              None \<Rightarrow> None
            | Some port \<Rightarrow>
                (case parse_ip h of
                   Some ip \<Rightarrow> Some (Tcp (SocketAddr ip port))
                 | None \<Rightarrow> Some (Domain h port)))))"


section \<open>Which integers survive the variable-length encoding\<close>

lemma nat_be_Cons: "nat_be (Suc k) v = word_of_nat (v div 256 ^ k) # nat_be k v"
proof (induction k arbitrary: v)
  case (Suc k)
  have "nat_be (Suc (Suc k)) v = nat_be (Suc k) (v div 256) @ [word_of_nat v]" by simp
  also have "\<dots> = word_of_nat (v div 256 div 256 ^ k) # nat_be (Suc k) v"
    by (subst Suc) simp
  finally show ?case by (simp add: div_mult2_eq)
qed simp

lemma min_be_small: "v < 256 \<Longrightarrow> min_be v = nat_be 1 v"
  by (simp add: min_be.simps)

lemma min_be_nat_be:
  "256 ^ k \<le> v \<or> k = 0 \<Longrightarrow> v < 256 ^ Suc k \<Longrightarrow> min_be v = nat_be (Suc k) v"
proof (induction k arbitrary: v)
  case 0
  then show ?case using min_be_small [of v] by simp
next
  case (Suc k)
  have le: "256 * 256 ^ k \<le> v" and lt: "v < 256 * 256 ^ Suc k" using Suc.prems by auto
  have "1 \<le> (256 ^ k :: nat)" by simp
  then have "\<not> v < 256" using le by linarith
  moreover have "256 ^ k \<le> v div 256" "v div 256 < 256 ^ Suc k"
    using le lt by (auto simp: less_eq_div_iff_mult_less_eq div_less_iff_less_mult mult.commute)
  ultimately show ?case using Suc.IH [of "v div 256"] by (subst min_be.simps) simp
qed

lemma varint_size:
  fixes v :: nat
  assumes "v < 2 ^ 64"
  obtains k where "k < 8" "256 ^ k \<le> v \<or> k = 0" "v < 256 ^ Suc k"
proof -
  define k where "k = (LEAST k. v < 256 ^ Suc k)"
  have "v < 256 ^ Suc 7" using assms by simp
  then have lt: "v < 256 ^ Suc k" and le: "k \<le> 7"
    unfolding k_def by (rule LeastI, intro Least_le)
  have "256 ^ k \<le> v \<or> k = 0"
  proof (cases k)
    case (Suc j)
    then have "\<not> v < 256 ^ Suc j" unfolding k_def using not_less_Least by (metis lessI)
    then show ?thesis using Suc by simp
  qed simp
  with lt le show thesis by (intro that) auto
qed

definition varint_tag :: "nat \<Rightarrow> byte \<Rightarrow> byte" where
  "varint_tag k b =
    (if k = 0 then b else (b AND 0x3F) OR (if k = 1 then 0x40 else if k = 3 then 0x80 else 0xC0))"

lemma encode_varint_eq:
  assumes "256 ^ k \<le> v \<or> k = 0" "v < 256 ^ Suc k"
  shows "encode_varint v = varint_tag k (word_of_nat (v div 256 ^ k)) # nat_be k v"
  unfolding encode_varint_def min_be_nat_be [OF assms] nat_be_Cons
  by (simp add: varint_tag_def)

lemma unat_and_3F: "unat (b AND 0x3F :: byte) = unat b mod 64"
proof -
  have "b AND 0x3F = take_bit 6 b"
    by (simp add: take_bit_eq_mask mask_eq_exp_minus_1)
  then show ?thesis by (simp only: unsigned_take_bit_eq) (simp add: take_bit_eq_mod)
qed

lemma varint_tag_len:
  "k \<noteq> 0 \<Longrightarrow> varint_len (varint_tag k b) = (if k = 1 then 2 else if k = 3 then 4 else 8)"
  by (simp add: varint_len_def varint_tag_def drop_bit_or drop_bit_and)

lemma varint_tag_value: "unat (varint_tag k b AND 0x3F) = unat b mod 64"
proof -
  have "varint_tag k b AND 0x3F = b AND 0x3F"
    by (simp add: varint_tag_def bit.conj_disj_distrib2 and.assoc)
  then show ?thesis by (simp add: unat_and_3F)
qed

lemma foldl_be_nat: "foldl (\<lambda>a b. a * 256 + unat b) x bs = x * 256 ^ length bs + be_nat bs"
proof (induction bs rule: rev_induct)
  case (snoc b bs)
  then show ?case by (simp add: algebra_simps)
qed simp

lemma read_varint_exact:
  assumes "varint_len x = Suc (length bs)"
  shows "read_varint (x # bs @ rest) = Inr (unat (x AND 0x3F) * 256 ^ length bs + be_nat bs, Suc (length bs))"
  using assms by (simp add: read_varint_def Let_def slice_def foldl_be_nat)

lemma read_varint_used: "read_varint (x # r) = Inr (v, n) \<Longrightarrow> n = varint_len x"
  by (simp add: read_varint_def Let_def split: if_splits)

lemma varint_len_0: "varint_len x = 1 \<longleftrightarrow> unat x < 64"
proof -
  have "unat (drop_bit 6 x) = unat x div 64" 
    by (simp only: unsigned_drop_bit_eq) (simp add: take_bit_eq_mod drop_bit_eq_div)
  then have "drop_bit 6 x = 0 \<longleftrightarrow> unat x < 64"
    by (metis div_eq_0_iff unsigned_0 word_unat_eq_iff zero_neq_numeral)
  then show ?thesis by (simp add: varint_len_def Let_def)
qed

text \<open>Reading back an encoding of \<open>k + 1\<close> bytes gives the value exactly when the prefix
  announces that length and the value leaves the two prefix bits free.\<close>

lemma read_varint_encode_iff:
  assumes k: "256 ^ k \<le> v \<or> k = 0" "v < 256 ^ Suc k"
  shows "read_varint (encode_varint v @ rest) = Inr (v, length (encode_varint v)) \<longleftrightarrow>
    k \<in> {0, 1, 3, 7} \<and> v < 64 * 256 ^ k"
proof -
  let ?b = "word_of_nat (v div 256 ^ k) :: byte"
  let ?x = "varint_tag k ?b"
  have d: "v div 256 ^ k < 256" using k(2) by (simp add: div_less_iff_less_mult mult.commute)
  then have b: "unat ?b = v div 256 ^ k" by (simp add: unat_of_nat_byte)
  have enc: "encode_varint v = ?x # nat_be k v" by (rule encode_varint_eq [OF k])
  have len: "varint_len ?x = Suc k \<longleftrightarrow> k \<in> {0, 1, 3, 7} \<and> (k = 0 \<longrightarrow> v < 64)"
  proof (cases "k = 0")
    case True
    then show ?thesis using varint_len_0 [of ?b] b by (simp add: varint_tag_def)
  next
    case False
    then show ?thesis using varint_tag_len [OF False, of ?b] by auto
  qed
  show ?thesis
  proof (cases "varint_len ?x = Suc k")
    case True
    then have "read_varint (encode_varint v @ rest) = Inr (v div 256 ^ k mod 64 * 256 ^ k + v mod 256 ^ k, Suc k)"
      using read_varint_exact [of ?x "nat_be k v" rest] enc
      by (simp add: varint_tag_value b be_nat_nat_be)
    moreover have "v div 256 ^ k mod 64 * 256 ^ k + v mod 256 ^ k = v mod (256 ^ k * 64)"
      by (simp add: mod_mult2_eq)
    moreover have "v mod (256 ^ k * 64) = v \<longleftrightarrow> v < 256 ^ k * 64"
      by (rule mod_eq_self_iff_div_eq_0 [THEN trans]) (simp add: div_eq_0_iff)
    ultimately show ?thesis using True len enc by (auto simp: mult.commute)
  next
    case False
    then have "read_varint (encode_varint v @ rest) \<noteq> Inr (v, length (encode_varint v))"
      using read_varint_used [of ?x "nat_be k v @ rest"] enc by fastforce
    then show ?thesis using False len by auto
  qed
qed


definition varint_safe :: "nat \<Rightarrow> bool" where
  "varint_safe v \<longleftrightarrow>
    v < 64 \<or> (256 \<le> v \<and> v < 2 ^ 14) \<or> (2 ^ 24 \<le> v \<and> v < 2 ^ 30) \<or> (2 ^ 56 \<le> v \<and> v < 2 ^ 62)"

lemma varint_safe_iff:
  assumes k: "256 ^ k \<le> v \<or> k = 0" "v < 256 ^ Suc k" and "k < 8"
  shows "varint_safe v \<longleftrightarrow> k \<in> {0, 1, 3, 7} \<and> v < 64 * 256 ^ k"
proof -
  have "k \<in> {0, 1, 2, 3, 4, 5, 6, 7}" using assms(3) by auto
  then show ?thesis using k unfolding varint_safe_def by (elim insertE) simp_all
qed

lemma read_varint_iff:
  assumes "v < 2 ^ 64"
  shows "read_varint (encode_varint v @ rest) = Inr (v, length (encode_varint v)) \<longleftrightarrow> varint_safe v"
proof -
  obtain k where k: "k < 8" "256 ^ k \<le> v \<or> k = 0" "v < 256 ^ Suc k"
    using varint_size [OF assms] by blast
  show ?thesis
    unfolding read_varint_encode_iff [OF k(2,3)] varint_safe_iff [OF k(2,3,1)] ..
qed

lemma varint_safe_lt: "varint_safe v \<Longrightarrow> v < 2 ^ 64"
  by (auto simp: varint_safe_def)

lemma read_varint_safe:
  "varint_safe v \<Longrightarrow> read_varint (encode_varint v @ rest) = Inr (v, length (encode_varint v))"
  using read_varint_iff varint_safe_lt by blast

lemma read_varint_short:
  assumes "varint_safe v" "prefix b (encode_varint v)" "b \<noteq> encode_varint v"
  shows "\<exists>m. read_varint b = Inl (IoError UnexpectedEof m)"
proof (cases b)
  case (Cons x r)
  obtain t where t: "encode_varint v = b @ t" "t \<noteq> []" using assms(2,3) by (auto simp: prefix_def)
  have "read_varint (x # r @ t) = Inr (v, length (encode_varint v))"
    using read_varint_safe [OF assms(1), of "[]"] t Cons by simp
  then have "varint_len x = length (b @ t)" using read_varint_used t by metis
  then show ?thesis using t(2) Cons by (simp add: read_varint_def Let_def)
qed (simp add: read_varint_def)

text \<open>Property C33: writing a 64-bit integer with \<open>write_varint\<close> and reading it with
  \<open>read_varint\<close> gives the integer and its length back if and only if it lies in one
  of four ranges. All other values, 64 for instance, are written in a form that
  is read as something else, because the length is chosen by the number of
  significant bytes and not by the QUIC ranges.\<close>

theorem varint_roundtrip_iff:
  assumes "v < 2 ^ 64"
  shows "read_varint (encode_varint v @ rest) = Inr (v, length (encode_varint v)) \<longleftrightarrow>
    v < 64 \<or> (256 \<le> v \<and> v < 2 ^ 14) \<or> (2 ^ 24 \<le> v \<and> v < 2 ^ 30) \<or> (2 ^ 56 \<le> v \<and> v < 2 ^ 62)"
  using read_varint_iff [OF assms] unfolding varint_safe_def .

theorem varint_roundtrip_iff_witness:
  "read_varint (encode_varint 64 @ []) \<noteq> Inr (64, length (encode_varint 64))"
  using varint_roundtrip_iff [of 64 "[]"] by simp

section \<open>The request of the client reaches the server\<close>

definition request_addr_ok :: "string \<Rightarrow> bool" where
  "request_addr_ok a \<longleftrightarrow>
    utf8_valid (as_bytes a) \<and> (1 \<le> length a \<and> length a < 64 \<or> 256 \<le> length a \<and> length a \<le> 2048)"

lemma request_addr_safe:
  "request_addr_ok a \<Longrightarrow> varint_safe (length a) \<and> 0 < length a \<and> length a \<le> MAX_ADDRESS_LENGTH"
  by (auto simp: request_addr_ok_def varint_safe_def hy_consts)

lemma frame_type_safe: "varint_safe FRAME_TYPE_TCP_REQUEST"
  by (simp add: varint_safe_def hy_consts)

lemma zero_safe: "varint_safe 0"
  by (simp add: varint_safe_def)

lemma encode_varint_0 [simp]: "encode_varint 0 = [0]"
  by (simp add: encode_varint_def min_be.simps)

lemma read_varint_0 [simp]: "read_varint (0 # rest) = Inr (0, 1)"
  using read_varint_safe [OF zero_safe, of rest] by simp

lemma from_utf8_lossy_id: "utf8_valid (as_bytes a) \<Longrightarrow> from_utf8_lossy (as_bytes a) = a"
  by (simp add: from_utf8_lossy_def utf8_lossy_id)

lemma decode_tcp_request_encode:
  assumes "request_addr_ok a"
  shows "decode_tcp_request (encode_tcp_request a @ rest) = Inr (a, rest)"
  using request_addr_safe [OF assms] assms
  by (simp add: decode_tcp_request_def encode_tcp_request_def read_varint_safe frame_type_safe
      read_padding_def from_utf8_lossy_id request_addr_ok_def)

lemma strict_prefix_append:
  assumes "prefix b (x @ y)" "b \<noteq> x @ y"
  shows "(prefix b x \<and> b \<noteq> x) \<or> (\<exists>c. b = x @ c \<and> prefix c y \<and> c \<noteq> y)"
proof (cases "prefix b x \<and> b \<noteq> x")
  case False
  then obtain c where "b = x @ c" "prefix c y"
    using assms(1) unfolding prefix_append by (metis append_Nil2 Nil_prefix)
  then show ?thesis using assms(2) by auto
qed simp

lemma decode_tcp_request_prefix:
  assumes ok: "request_addr_ok a" and b: "prefix b (encode_tcp_request a)" "b \<noteq> encode_tcp_request a"
  shows "\<exists>m. decode_tcp_request b = Inl (IoError UnexpectedEof m)"
proof -
  let ?F = "encode_varint FRAME_TYPE_TCP_REQUEST" and ?L = "encode_varint (length a)"
  note safe = request_addr_safe [OF ok]
  have e: "encode_tcp_request a = ?F @ ?L @ as_bytes a @ [0]" by (simp add: encode_tcp_request_def)
  from b e consider "prefix b ?F" "b \<noteq> ?F"
    | c where "b = ?F @ c" "prefix c ?L" "c \<noteq> ?L"
    | c where "b = ?F @ ?L @ c" "prefix c (as_bytes a @ [0])" "c \<noteq> as_bytes a @ [0]"
    using strict_prefix_append [of b ?F "?L @ as_bytes a @ [0]"]
      strict_prefix_append [of _ ?L "as_bytes a @ [0]"] by fastforce
  then show ?thesis
  proof cases
    case 1
    then show ?thesis
      using read_varint_short [OF frame_type_safe, of b] by (auto simp: decode_tcp_request_def)
  next
    case 2
    then show ?thesis
      using read_varint_short [of "length a" c] safe
      by (auto simp: decode_tcp_request_def read_varint_safe frame_type_safe)
  next
    case 3
    then have "prefix c (as_bytes a)" by auto
    then have "c = as_bytes a \<or> length c < length a"
      by (metis length_as_bytes not_equal_is_parallel parallelE prefix_length_less strict_prefixI)
    then show ?thesis
      using 3(1) safe
      by (auto simp: decode_tcp_request_def read_varint_safe frame_type_safe read_padding_def
          read_varint_def [of "[]"])
  qed
qed


lemma min_be_length: "256 ^ k \<le> v \<or> k = 0 \<Longrightarrow> v < 256 ^ Suc k \<Longrightarrow> length (encode_varint v) = Suc k"
  by (simp add: encode_varint_eq)

lemma encode_tcp_request_length:
  assumes "request_addr_ok a"
  shows "length (encode_tcp_request a) < 4096"
proof -
  have "length (encode_varint FRAME_TYPE_TCP_REQUEST) = 2"
    using min_be_length [of 1 FRAME_TYPE_TCP_REQUEST] by (simp add: hy_consts)
  moreover have "length (encode_varint (length a)) \<le> 2"
    using min_be_length [of 0 "length a"] min_be_length [of 1 "length a"] assms
    by (cases "length a < 256") (auto simp: request_addr_ok_def)
  ultimately show ?thesis
    using assms by (auto simp: encode_tcp_request_def request_addr_ok_def)
qed

lemma hy_read_request_complete:
  assumes ok: "request_addr_ok a"
  shows "length (buf @ concat pre) < length (encode_tcp_request a) \<Longrightarrow>
    buf @ concat pre @ c = encode_tcp_request a @ rest \<Longrightarrow>
    hy_read_request buf (pre @ c # later) = HyServe a (rest @ encode_tcp_response True [])"
proof (induction pre arbitrary: buf)
  case Nil
  then show ?case using decode_tcp_request_encode [OF ok, of rest] by simp
next
  case (Cons d ds)
  have "prefix (buf @ d) (encode_tcp_request a @ rest)"
    using Cons.prems(2) by (metis append.assoc concat.simps(2) prefixI)
  moreover have short: "length (buf @ d) < length (encode_tcp_request a)" using Cons.prems(1) by simp
  ultimately have "prefix (buf @ d) (encode_tcp_request a)" "buf @ d \<noteq> encode_tcp_request a"
    using prefix_length_prefix [of "buf @ d" "encode_tcp_request a @ rest" "encode_tcp_request a"]
    by (auto simp flip: length_append)
  then obtain m where "decode_tcp_request (buf @ d) = Inl (IoError UnexpectedEof m)"
    using decode_tcp_request_prefix [OF ok] by blast
  moreover have "\<not> 4096 \<le> length (buf @ d)"
    using short encode_tcp_request_length [OF ok] by linarith
  ultimately show ?case using Cons.IH [of "buf @ d"] Cons.prems by simp
qed

text \<open>Property C23: however the client's request is split over reads, the server
  serves exactly the requested address once the request is complete, for
  every UTF-8 address of 1 to 63 or of 256 to 2048 bytes: these are the lengths up to the limit that
  the integer encoding carries, an address of 64 to 255 bytes is not understood. The bytes that
  arrive after the request in the same read are written back to the client before the
  response instead of being passed to the target.\<close>

theorem hy_request_served:
  assumes "utf8_valid (as_bytes a)"
    and "1 \<le> length a \<and> length a < 64 \<or> 256 \<le> length a \<and> length a \<le> 2048"
    and "length (concat pre) < length (encode_tcp_request a)"
    and "concat pre @ c = encode_tcp_request a @ rest"
  shows "hy_read_request [] (pre @ c # later) = HyServe a (rest @ encode_tcp_response True [])"
  using hy_read_request_complete [of a "[]" pre c rest later] assms by (simp add: request_addr_ok_def)

theorem hy_request_served_witness:
  "hy_read_request [] ([[0x44, 0x01, 3]] @ [0x61, 0x3A, 0x31, 0, 0xFF] # [])
    = HyServe ''a:1'' ([0xFF] @ encode_tcp_response True [])"
  by (rule hy_request_served) code_simp+

lemma drop_8: "drop (8 + n) (a # b # c # d # e # f # g # h # r) = drop n r"
  "drop (m + (8 + n)) (a # b # c # d # e # f # g # h # r) = drop (m + n) r"
  by (simp_all add: numeral_eq_Suc)

lemma parse_serialize:
  assumes "request_addr_ok (m_addr m)"
  shows "parse_message (serialize m) = Inr m"
proof -
  have u: "utf8_valid (as_bytes (m_addr m))" using assms by (simp add: request_addr_ok_def)
  obtain p q where pq: "u16_be (packet_id m) = [p, q]" "be_u16 p q = packet_id m"
    by (rule u16_be_cases)
  have l4: "length (u32_be (session_id m)) = 4" by (simp add: u32_be_def)
  then obtain s0 s1 s2 s3 where s: "u32_be (session_id m) = [s0, s1, s2, s3]" by (rule list_4_cases)
  have "be_nat (u32_be (session_id m)) = unat (session_id m)"
    using unat_lt_word [of "session_id m"] by (simp add: u32_be_def be_nat_nat_be)
  then have id: "be_u32 [s0, s1, s2, s3] = session_id m" by (simp add: be_u32_def flip: s)
  show ?thesis
    using request_addr_safe [OF assms] u pq s id
    by (simp add: parse_message_def serialize_def read_varint_safe from_utf8_lossy_id
        MAX_ADDRESS_LENGTH_def MAX_MESSAGE_LENGTH_def drop_8)
qed

text \<open>A UDP message with a UTF-8 address whose length survives the
  integer encoding parses back to itself, with all its header fields and data.\<close>

theorem udp_message_roundtrip:
  assumes "utf8_valid (as_bytes (m_addr m))"
    and "1 \<le> length (m_addr m) \<and> length (m_addr m) < 64
      \<or> 256 \<le> length (m_addr m) \<and> length (m_addr m) \<le> 2048"
  shows "parse_message (serialize m) = Inr m"
  using parse_serialize [of m] assms by (simp add: request_addr_ok_def)

theorem udp_message_roundtrip_witness:
  "parse_message (serialize \<lparr>session_id = 7, packet_id = 0x102, frag_id = 0, frag_count = 1,
      m_addr = ''a:53'', m_data = [1, 2]\<rparr>)
    = Inr \<lparr>session_id = 7, packet_id = 0x102, frag_id = 0, frag_count = 1,
      m_addr = ''a:53'', m_data = [1, 2]\<rparr>"
  by (rule udp_message_roundtrip) code_simp+

section \<open>The requested target\<close>

text \<open>The server understands the address text the client sends for a
  host without a colon: an IPv4 literal becomes that address, any other name a
  domain, with the same port. The host of an IPv6 target keeps a closing bracket:
  \<open>[::1]:443\<close> is understood as the domain \<open>::1]\<close>.\<close>

theorem hy_target_roundtrip:
  "(CHR '':'' \<notin> set host \<longrightarrow> \<not> prefix ''['' host \<longrightarrow> \<not> prefix '']'' host \<longrightarrow> host \<noteq> [] \<longrightarrow>
      parse_hy_addr (hy_addr_string host p) =
        Some (case parse_ip host of Some ip \<Rightarrow> Tcp (SocketAddr ip p) | None \<Rightarrow> Domain host p))
   \<and> parse_hy_addr (hy_addr_string ''::1'' 443) = Some (Domain ''::1]'' 443)"
proof (intro conjI impI)
  assume h: "CHR '':'' \<notin> set host" "\<not> prefix ''['' host" "\<not> prefix '']'' host" "host \<noteq> []"
  then obtain x r where host: "host = x # r" "x \<noteq> CHR ''[''" "x \<noteq> CHR '']''"
    by (cases host) auto
  have "rsplit_once CHR '':'' (host @ CHR '':'' # show_nat (unat p)) = Some (host, show_nat (unat p))"
    by (rule rsplit_once_last) (rule colon_not_in_show_nat)
  then show "parse_hy_addr (hy_addr_string host p) =
        Some (case parse_ip host of Some ip \<Rightarrow> Tcp (SocketAddr ip p) | None \<Rightarrow> Domain host p)"
    using host h(1) by (simp add: parse_hy_addr_def hy_addr_string_def parse_port_show split: option.split)
qed code_simp

theorem hy_target_roundtrip_witness:
  "parse_hy_addr (hy_addr_string ''10.0.0.1'' 443) = Some (Tcp (SocketAddr (IpV4 0x0A000001) 443))"
proof -
  have "parse_ip ''10.0.0.1'' = Some (IpV4 0x0A000001)" by code_simp
  then show ?thesis using hy_target_roundtrip [of "''10.0.0.1''" 443] by simp
qed

end
