(* ===== verification/SsCrypto.thy ===== *)
theory SsCrypto
  imports Crypto
begin

text \<open>
  Key derivation of Shadowsocks (\<open>crates/omni-proto/src/proto/shadowsocks/mod.rs\<close>):
  the cipher methods, OpenSSL's \<open>EVP_BytesToKey\<close>, SHA-1, HMAC-SHA1, HKDF, the
  session key, and the little-endian nonce counter.
\<close>

section \<open>Methods\<close>

datatype ss_method = Aes128Gcm | Aes256Gcm | ChaCha20IetfPoly1305

definition ss_method_parse :: "string \<Rightarrow> ss_method option" where
  "ss_method_parse s =
    (let l = to_ascii_lowercase s in
     if l = ''aes-128-gcm'' then Some Aes128Gcm
     else if l = ''aes-256-gcm'' then Some Aes256Gcm
     else if l = ''chacha20-ietf-poly1305'' \<or> l = ''chacha20-poly1305'' then Some ChaCha20IetfPoly1305
     else None)"

fun key_len :: "ss_method \<Rightarrow> nat" where
  "key_len Aes128Gcm = 16"
| "key_len _ = 32"

definition salt_len :: "ss_method \<Rightarrow> nat" where
  "salt_len m = key_len m"

section \<open>Password to master key\<close>

text \<open>The \<open>while out.len() < key_len\<close> loop; every digest adds 16 bytes.\<close>

function evp_loop :: "bytes \<Rightarrow> nat \<Rightarrow> bytes \<Rightarrow> bytes \<Rightarrow> bytes" where
  "evp_loop password n prev out =
    (if length out < n
     then let d = md5_digest [prev @ password] in evp_loop password n d (out @ d)
     else out)"
  by auto
termination
  by (relation "measure (\<lambda>(_, n, _, out). n - length out)") (auto simp: length_md5_digest)

declare evp_loop.simps [simp del]

definition evp_bytes_to_key :: "bytes \<Rightarrow> nat \<Rightarrow> bytes" where
  "evp_bytes_to_key password n = take n (evp_loop password n [] [])"

section \<open>SHA-1\<close>

type_synonym sha1_state = "u32 \<times> u32 \<times> u32 \<times> u32 \<times> u32"

definition sha1_iv :: sha1_state where
  "sha1_iv = (0x67452301, 0xEFCDAB89, 0x98BADCFE, 0x10325476, 0xC3D2E1F0)"

definition be_words :: "bytes \<Rightarrow> u32 list" where
  "be_words block =
    map (\<lambda>i. be_u32 [block ! (i * 4), block ! (i * 4 + 1), block ! (i * 4 + 2),
      block ! (i * 4 + 3)]) [0..<16]"

definition sha1_schedule :: "bytes \<Rightarrow> u32 list" where
  "sha1_schedule block =
    foldl (\<lambda>w i. w @ [word_rotl 1 (w ! (i - 3) XOR w ! (i - 8) XOR w ! (i - 14) XOR w ! (i - 16))])
      (be_words block) [16..<80]"

definition sha1_round :: "u32 list \<Rightarrow> sha1_state \<Rightarrow> nat \<Rightarrow> sha1_state" where
  "sha1_round w st i =
    (case st of (a, b, c, d, e) \<Rightarrow>
      let (f, k) =
            (if i div 20 = 0 then ((b AND c) OR (NOT b AND d), 0x5A827999)
             else if i div 20 = 1 then (b XOR c XOR d, 0x6ED9EBA1)
             else if i div 20 = 2 then ((b AND c) OR (b AND d) OR (c AND d), 0x8F1BBCDC)
             else (b XOR c XOR d, 0xCA62C1D6));
          tmp = word_rotl 5 a + f + e + k + w ! i
      in (tmp, a, word_rotl 30 b, c, d))"

definition sha1_block :: "sha1_state \<Rightarrow> bytes \<Rightarrow> sha1_state" where
  "sha1_block st block =
    (case foldl (sha1_round (sha1_schedule block)) st [0..<80] of (a, b, c, d, e) \<Rightarrow>
      case st of (a0, b0, c0, d0, e0) \<Rightarrow> (a0 + a, b0 + b, c0 + c, d0 + d, e0 + e))"

definition u64_be :: "u64 \<Rightarrow> bytes" where
  "u64_be w = nat_be 8 (unat w)"

definition sha1_output :: "sha1_state \<Rightarrow> bytes" where
  "sha1_output st =
    (case st of (a, b, c, d, e) \<Rightarrow> u32_be a @ u32_be b @ u32_be c @ u32_be d @ u32_be e)"

definition sha1 :: "bytes \<Rightarrow> bytes" where
  "sha1 data =
    sha1_output (block_finish sha1_block u64_be (block_update sha1_block (hasher_new sha1_iv) data))"

interpretation sha1: block_hash sha1_block sha1_iv u64_be
  by unfold_locales (simp add: u64_be_def)

lemma length_sha1 [simp]: "length (sha1 data) = 20"
  by (simp add: sha1_def sha1_output_def u32_be_def case_prod_beta)

section \<open>HMAC and HKDF\<close>

definition hmac_pad :: "bytes \<Rightarrow> bytes" where
  "hmac_pad key =
    (let k = (if length key > 64 then sha1 key else key) in k @ replicate (64 - length k) 0)"

definition hmac_sha1 :: "bytes \<Rightarrow> bytes \<Rightarrow> bytes" where
  "hmac_sha1 key data =
    (let k = hmac_pad key;
         ipad = map (\<lambda>b. b XOR 0x36) k;
         opad = map (\<lambda>b. b XOR 0x5c) k
     in sha1 (opad @ sha1 (ipad @ data)))"

lemma length_hmac_sha1 [simp]: "length (hmac_sha1 key data) = 20"
  by (simp add: hmac_sha1_def Let_def)

definition hkdf_extract :: "bytes \<Rightarrow> bytes \<Rightarrow> bytes" where
  "hkdf_extract salt ikm = hmac_sha1 salt ikm"

function hkdf_loop :: "bytes \<Rightarrow> bytes \<Rightarrow> nat \<Rightarrow> bytes \<Rightarrow> byte \<Rightarrow> bytes \<Rightarrow> bytes" where
  "hkdf_loop prk info n t ctr okm =
    (if length okm < n
     then let ti = hmac_sha1 prk (t @ info @ [ctr])
          in hkdf_loop prk info n ti (ctr + 1) (okm @ ti)
     else okm)"
  by auto
termination
  by (relation "measure (\<lambda>(_, _, n, _, _, okm). n - length okm)") auto

declare hkdf_loop.simps [simp del]

definition hkdf_expand :: "bytes \<Rightarrow> bytes \<Rightarrow> nat \<Rightarrow> bytes" where
  "hkdf_expand prk info n = take n (hkdf_loop prk info n [] 1 [])"

definition derive_subkey :: "bytes \<Rightarrow> bytes \<Rightarrow> bytes" where
  "derive_subkey master_key salt =
    hkdf_expand (hkdf_extract salt master_key) (as_bytes ''ss-subkey'') (length master_key)"

section \<open>Nonces\<close>

definition increment_nonce :: "bytes \<Rightarrow> bytes" where
  "increment_nonce nonce = inc_rev nonce"

section \<open>Lengths\<close>

lemma evp_loop_length: "n \<le> length (evp_loop password n prev out)"
proof (induction password n prev out rule: evp_loop.induct)
  case (1 password n prev out)
  then show ?case by (subst evp_loop.simps) (simp add: Let_def)
qed

lemma length_evp_bytes_to_key: "length (evp_bytes_to_key password n) = n"
  using evp_loop_length [of n password] by (simp add: evp_bytes_to_key_def min_absorb2)

lemma hkdf_loop_length: "n \<le> length (hkdf_loop prk info n t c okm)"
proof (induction prk info n t c okm rule: hkdf_loop.induct)
  case (1 prk info n t c okm)
  then show ?case by (subst hkdf_loop.simps) (simp add: Let_def)
qed

lemma length_derive_subkey: "length (derive_subkey master salt) = length master"
  using hkdf_loop_length
  by (simp add: derive_subkey_def hkdf_expand_def min_absorb2)

lemma length_increment_nonce [simp]: "length (increment_nonce n) = length n"
  by (simp add: increment_nonce_def)

lemma increment_nonce_value: "le_nat (increment_nonce n) = (le_nat n + 1) mod 256 ^ length n"
  by (simp add: increment_nonce_def inc_rev_value)

lemma increment_nonce_funpow:
  "le_nat ((increment_nonce ^^ k) n) = (le_nat n + k) mod 256 ^ length n
   \<and> length ((increment_nonce ^^ k) n) = length n"
  by (induction k) (simp_all add: increment_nonce_value mod_Suc_eq le_nat_lt)

section \<open>Properties\<close>


text \<open>For the two key sizes in use, \<open>evp_bytes_to_key\<close> is the MD5 chain of
  OpenSSL, and \<open>derive_subkey\<close> is the first one or two blocks of HKDF-SHA1.\<close>

theorem key_derivation:
  "evp_bytes_to_key pw 16 = md5_digest [pw]
   \<and> evp_bytes_to_key pw 32 = md5_digest [pw] @ md5_digest [md5_digest [pw] @ pw]
   \<and> (let prk = hmac_sha1 salt mk; info = as_bytes ''ss-subkey'';
          t1 = hmac_sha1 prk (info @ [1]); t2 = hmac_sha1 prk (t1 @ info @ [2])
      in (length mk = 16 \<longrightarrow> derive_subkey mk salt = take 16 t1)
        \<and> (length mk = 32 \<longrightarrow> derive_subkey mk salt = take 32 (t1 @ t2)))"
proof -
  have "evp_bytes_to_key pw 16 = md5_digest [pw]"
    by (simp add: evp_bytes_to_key_def evp_loop.simps Let_def length_md5_digest)
  moreover have "evp_bytes_to_key pw 32 = md5_digest [pw] @ md5_digest [md5_digest [pw] @ pw]"
    by (simp add: evp_bytes_to_key_def evp_loop.simps Let_def length_md5_digest)
  ultimately show ?thesis
    by (simp add: derive_subkey_def hkdf_expand_def hkdf_extract_def hkdf_loop.simps Let_def)
qed

theorem key_derivation_witness:
  "derive_subkey (replicate 16 7) [1] =
    take 16 (hmac_sha1 (hmac_sha1 [1] (replicate 16 7)) (as_bytes ''ss-subkey'' @ [1]))"
  using key_derivation [of "[]" "[1]" "replicate 16 7"] by (simp add: Let_def)

end
