(* ===== verification/ChunkStream.thy ===== *)
theory ChunkStream
  imports IoStream
begin

text \<open>
  What the encrypted stream protocols share: a reading task turns the bytes of a
  connection into messages, and a writer in step with it produces the bytes.
  \<open>carries\<close> says that a piece of the byte stream carries given
  messages from one common state of the two ends to the next.
\<close>

definition carries ::
    "('r \<Rightarrow> (io_error + bytes) list) \<Rightarrow> ('r \<Rightarrow> 'k \<Rightarrow> bytes \<Rightarrow> bool) \<Rightarrow> 'k \<Rightarrow> bytes \<Rightarrow> 'k \<Rightarrow> bytes list \<Rightarrow> bool" where
  "carries task in_step k b k' ps \<longleftrightarrow>
    (\<forall>r rest. in_step r k (b @ rest) \<longrightarrow>
      (\<exists>r'. in_step r' k' rest \<and> task r = map Inr ps @ task r'))"

lemma carries_Nil: "carries task in_step k [] k []"
  by (auto simp: carries_def)

lemma carries_append:
  assumes "carries task in_step k b k' ps" "carries task in_step k' b' k'' qs"
  shows "carries task in_step k (b @ b') k'' (ps @ qs)"
  unfolding carries_def
proof (intro allI impI)
  fix r rest
  assume "in_step r k ((b @ b') @ rest)"
  then obtain r1 where 1: "in_step r1 k' (b' @ rest)" "task r = map Inr ps @ task r1"
    using assms(1) unfolding carries_def by fastforce
  then obtain r2 where "in_step r2 k'' rest" "task r1 = map Inr qs @ task r2"
    using assms(2) unfolding carries_def by blast
  then show "\<exists>r'. in_step r' k'' rest \<and> task r = map Inr (ps @ qs) @ task r'"
    using 1 by auto
qed

lemma carriesD:
  assumes "carries task in_step k b k' ps" "in_step r k (b @ rest)"
  obtains r' where "in_step r' k' rest" "task r = map Inr ps @ task r'"
  using assms unfolding carries_def by blast

section \<open>Handing the messages to the relay\<close>

text \<open>\<open>ChannelDuplex\<close> of \<open>outbound_artifacts.rs\<close>: the relay side of the channel a
  reading task fills. \<open>cd_rx\<close> holds the queued messages and \<open>cd_closed\<close> tells
  whether the sender is gone.\<close>

record channel_duplex =
  cd_rx :: "(io_error + bytes) list"
  cd_closed :: bool
  cd_pending :: bytes
  cd_eof :: bool
  cd_tx :: "bytes list"
  cd_rx_gone :: bool

datatype poll = Pending | Ready "io_error + bytes"

function duplex_poll_read :: "nat \<Rightarrow> channel_duplex \<Rightarrow> poll \<times> channel_duplex" where
  "duplex_poll_read room d =
    (if cd_pending d \<noteq> [] then
       (let n = min room (length (cd_pending d))
        in (Ready (Inr (take n (cd_pending d))), d\<lparr>cd_pending := drop n (cd_pending d)\<rparr>))
     else if cd_eof d then (Ready (Inr []), d)
     else (case cd_rx d of
         Inr data # rx \<Rightarrow>
           if data = [] then duplex_poll_read room (d\<lparr>cd_rx := rx, cd_eof := True\<rparr>)
           else duplex_poll_read room (d\<lparr>cd_rx := rx, cd_pending := data\<rparr>)
       | Inl e # rx \<Rightarrow> (Ready (Inl e), d\<lparr>cd_rx := rx, cd_eof := True\<rparr>)
       | [] \<Rightarrow> if cd_closed d then (Ready (Inr []), d\<lparr>cd_eof := True\<rparr>) else (Pending, d)))"
  by auto
termination
  by (relation "measure (\<lambda>(_, d). length (cd_rx d))") auto

declare duplex_poll_read.simps [simp del]

definition broken_pipe :: io_error where
  "broken_pipe = IoError BrokenPipe ''ss: writer closed''"

definition duplex_poll_write :: "bytes \<Rightarrow> channel_duplex \<Rightarrow> (io_error + nat) \<times> channel_duplex" where
  "duplex_poll_write buf d =
    (if cd_rx_gone d then (Inl broken_pipe, d)
     else (Inr (length buf), d\<lparr>cd_tx := cd_tx d @ [buf]\<rparr>))"


text \<open>Reading until the end of the stream, an error, or nothing to read, with buffers
  of a fixed positive size, as the relay does.\<close>

lemma duplex_poll_read_progress:
  assumes "duplex_poll_read room d = (Ready (Inr x), d')" "x \<noteq> []" "0 < room"
  shows "length (cd_rx d') < length (cd_rx d)
    \<or> length (cd_rx d') = length (cd_rx d) \<and> length (cd_pending d') < length (cd_pending d)"
  using assms
proof (induction room d rule: duplex_poll_read.induct)
  case (1 room d)
  show ?case
  proof (cases "cd_pending d \<noteq> [] \<or> cd_eof d")
    case True
    then show ?thesis using 1(3-5) by (subst (asm) duplex_poll_read.simps) (auto simp: Let_def split: if_splits)
  next
    case False
    then obtain data rx where rx: "cd_rx d = Inr data # rx"
      using 1(3,4) by (subst (asm) duplex_poll_read.simps) (auto split: list.splits sum.splits if_splits)
    show ?thesis
    proof (cases "data = []")
      case True
      then have "duplex_poll_read room d = duplex_poll_read room (d\<lparr>cd_rx := rx, cd_eof := True\<rparr>)"
        using False rx by (subst duplex_poll_read.simps) simp
      also have "\<dots> = (Ready (Inr []), d\<lparr>cd_rx := rx, cd_eof := True\<rparr>)"
        using False by (subst duplex_poll_read.simps) simp
      finally show ?thesis using 1(3,4) by simp
    next
      case nonempty: False
      then have "duplex_poll_read room d = duplex_poll_read room (d\<lparr>cd_rx := rx, cd_pending := data\<rparr>)"
        using False rx by (subst duplex_poll_read.simps) simp
      then show ?thesis
        using 1(3) nonempty rx by (simp add: duplex_poll_read.simps [of room "d\<lparr>cd_rx := rx, cd_pending := data\<rparr>"] Let_def)
    qed
  qed
qed

function duplex_drain :: "nat \<Rightarrow> channel_duplex \<Rightarrow> bytes \<times> io_error option" where
  "duplex_drain room d =
    (case duplex_poll_read room d of
       (Ready (Inr x), d') \<Rightarrow>
         if x = [] \<or> room = 0 then ([], None)
         else (case duplex_drain room d' of (y, e) \<Rightarrow> (x @ y, e))
     | (Ready (Inl e), d') \<Rightarrow> ([], Some e)
     | (Pending, d') \<Rightarrow> ([], None))"
  by auto
termination
  by (relation "measures [\<lambda>(_, d). length (cd_rx d), \<lambda>(_, d). length (cd_pending d)]")
    (auto dest!: duplex_poll_read_progress [OF sym])

declare duplex_drain.simps [simp del]

lemma duplex_drain_pending:
  assumes "0 < room" "\<not> cd_eof d"
  shows "duplex_drain room d =
    (cd_pending d @ fst (duplex_drain room (d\<lparr>cd_pending := []\<rparr>)), snd (duplex_drain room (d\<lparr>cd_pending := []\<rparr>)))"
  using assms
proof (induction "length (cd_pending d)" arbitrary: d rule: less_induct)
  case less
  show ?case
  proof (cases "cd_pending d = []")
    case True
    then have "d\<lparr>cd_pending := []\<rparr> = d" by (cases d) simp
    then show ?thesis using True by (metis append_Nil prod.collapse)
  next
    case False
    let ?n = "min room (length (cd_pending d))"
    let ?d = "d\<lparr>cd_pending := drop ?n (cd_pending d)\<rparr>"
    have "duplex_poll_read room d = (Ready (Inr (take ?n (cd_pending d))), ?d)"
      using False by (subst duplex_poll_read.simps) (simp add: Let_def)
    then have "duplex_drain room d =
        (take ?n (cd_pending d) @ fst (duplex_drain room ?d), snd (duplex_drain room ?d))"
      using False less(2) by (subst duplex_drain.simps) (simp add: case_prod_beta min_def)
    moreover have "duplex_drain room ?d =
        (cd_pending ?d @ fst (duplex_drain room (?d\<lparr>cd_pending := []\<rparr>)), snd (duplex_drain room (?d\<lparr>cd_pending := []\<rparr>)))"
      using False less(2,3) by (intro less(1)) auto
    ultimately show ?thesis by (simp flip: append_assoc)
  qed
qed

lemma duplex_drain_message:
  assumes "0 < room" "\<not> cd_eof d" "cd_pending d = []" "cd_rx d = Inr p # rx" "p \<noteq> []"
  shows "duplex_drain room d =
    (p @ fst (duplex_drain room (d\<lparr>cd_rx := rx\<rparr>)), snd (duplex_drain room (d\<lparr>cd_rx := rx\<rparr>)))"
proof -
  let ?d = "d\<lparr>cd_rx := rx, cd_pending := p\<rparr>"
  have "duplex_poll_read room d = duplex_poll_read room ?d"
    using assms by (subst duplex_poll_read.simps) simp
  then have "duplex_drain room d = duplex_drain room ?d"
    by (subst (1 2) duplex_drain.simps) simp
  moreover have "?d\<lparr>cd_pending := []\<rparr> = d\<lparr>cd_rx := rx\<rparr>" using assms(3) by (cases d) simp
  ultimately show ?thesis using duplex_drain_pending [of room ?d] assms(1,2) by simp
qed

text \<open>The relay reads from the channel exactly the bytes of the messages
  a reading task sent, in order and whatever the size of its buffers, and then
  the error, if the task reported one, or the end of the stream.\<close>

theorem duplex_delivers:
  assumes "0 < room" "[] \<notin> set ps" "tail = [Inl e, Inr []] \<or> tail = [Inr []]"
  shows "duplex_drain room \<lparr>cd_rx = map Inr ps @ tail, cd_closed = c, cd_pending = [], cd_eof = False,
      cd_tx = t, cd_rx_gone = g\<rparr> = (concat ps, if tail = [Inr []] then None else Some e)"
  using assms(2)
proof (induction ps)
  case Nil
  show ?case
    using assms(1,3) by (subst duplex_drain.simps) (auto simp: duplex_poll_read.simps)
next
  case (Cons p ps)
  have "duplex_drain room \<lparr>cd_rx = Inr p # map Inr ps @ tail, cd_closed = c, cd_pending = [],
      cd_eof = False, cd_tx = t, cd_rx_gone = g\<rparr> = (p @ concat ps, if tail = [Inr []] then None else Some e)"
    using Cons by (subst duplex_drain_message [OF assms(1)]) auto
  then show ?case by simp
qed

theorem duplex_delivers_witness:
  "duplex_drain 2 \<lparr>cd_rx = map Inr [[1, 2, 3], [4]] @ [Inr []], cd_closed = False, cd_pending = [],
      cd_eof = False, cd_tx = [], cd_rx_gone = False\<rparr> = ([1, 2, 3, 4], None)"
  using duplex_delivers [of 2 "[[1, 2, 3], [4]]" "[Inr []]" early_eof] by simp

end
