(* ===== verification/Shadowsocks.thy ===== *)
theory Shadowsocks
  imports SsCrypto Socks5 ChunkStream
begin

text \<open>
  The encrypted stream of Shadowsocks
  (\<open>crates/omni-proto/src/proto/shadowsocks/stream.rs\<close>, \<open>inbound.rs\<close>,
  \<open>outbound.rs\<close>) and the pump tasks that connect it to the relay
  (\<open>ss_duplex\<close> and \<open>ChannelDuplex\<close> of \<open>outbound_artifacts.rs\<close>).
  The AEAD ciphers are third-party code: \<open>sl\<close> (seal) and \<open>op\<close> (open) are
  parameters, and \<open>aead_laws\<close> is what their documentation promises.
\<close>

section \<open>The cipher interface\<close>

definition MAX_PAYLOAD :: nat where "MAX_PAYLOAD = 0x3FFF"

datatype ss_aead = SsAead ss_method bytes

text \<open>\<open>new_from_slice(key).unwrap()\<close> panics unless the key has the cipher's length.\<close>

definition ss_aead_new :: "ss_method \<Rightarrow> bytes \<Rightarrow> ss_aead rs" where
  "ss_aead_new m key = (if length key = key_len m then Ret (SsAead m key) else Panic)"

type_synonym seal_fn = "ss_aead \<Rightarrow> bytes \<Rightarrow> bytes \<Rightarrow> bytes \<Rightarrow> (bytes \<times> bytes) option"
type_synonym open_fn = "ss_aead \<Rightarrow> bytes \<Rightarrow> bytes \<Rightarrow> bytes \<Rightarrow> bytes \<Rightarrow> bytes option"

definition aead_laws :: "seal_fn \<Rightarrow> open_fn \<Rightarrow> bool" where
  "aead_laws sl op \<longleftrightarrow>
    (\<forall>c n a p. length p \<le> 65536 \<longrightarrow>
      (\<exists>ct tag. sl c n a p = Some (ct, tag) \<and> length ct = length p \<and> length tag = 16
        \<and> op c n a ct tag = Some p))"

section \<open>Reading\<close>

record ss_reader =
  sr_inner :: bytes
  sr_cipher :: ss_aead
  sr_nonce :: bytes
  sr_rbuf :: bytes
  sr_rpos :: nat
  sr_eof :: bool

definition ss_reader_new :: "bytes \<Rightarrow> ss_aead \<Rightarrow> bytes \<Rightarrow> ss_reader" where
  "ss_reader_new inner cipher nonce =
    \<lparr>sr_inner = inner, sr_cipher = cipher, sr_nonce = nonce, sr_rbuf = [], sr_rpos = 0, sr_eof = False\<rparr>"

definition closed_mid_chunk :: io_error where
  "closed_mid_chunk = IoError UnexpectedEof ''shadowsocks: stream closed mid-chunk''"

definition read_full :: "nat \<Rightarrow> ss_reader \<Rightarrow> (io_error + bytes) \<times> ss_reader" where
  "read_full n r =
    (if n \<le> length (sr_inner r) then (Inr (take n (sr_inner r)), r\<lparr>sr_inner := drop n (sr_inner r)\<rparr>)
     else (Inl closed_mid_chunk, r\<lparr>sr_inner := []\<rparr>))"

definition fill_chunk :: "open_fn \<Rightarrow> ss_reader \<Rightarrow> (io_error + unit) \<times> ss_reader" where
  "fill_chunk op r =
    (case read_full 18 r of
       (Inl e, r1) \<Rightarrow> (Inl e, r1)
     | (Inr hdr, r1) \<Rightarrow>
         (case op (sr_cipher r1) (sr_nonce r1) [] (take 2 hdr) (slice 2 18 hdr) of
            None \<Rightarrow> (Inl (invalid_data ''shadowsocks: length decrypt failed''), r1)
          | Some len_pt \<Rightarrow>
              let r2 = r1\<lparr>sr_nonce := increment_nonce (sr_nonce r1)\<rparr>;
                  len = unat (be_u16 (len_pt ! 0) (len_pt ! 1))
              in if len > MAX_PAYLOAD
                 then (Inl (invalid_data ''shadowsocks: payload too large''), r2)
                 else (case read_full (len + 16) r2 of
                     (Inl e, r3) \<Rightarrow> (Inl e, r3)
                   | (Inr body, r3) \<Rightarrow>
                       (case op (sr_cipher r3) (sr_nonce r3) [] (take len body) (drop len body) of
                          None \<Rightarrow> (Inl (invalid_data ''shadowsocks: payload decrypt failed''), r3)
                        | Some plain \<Rightarrow>
                            (Inr (), r3\<lparr>sr_nonce := increment_nonce (sr_nonce r3), sr_rbuf := plain,
                              sr_rpos := 0, sr_eof := (sr_eof r3 \<or> len = 0)\<rparr>)))))"

definition read_target :: "open_fn \<Rightarrow> ss_reader \<Rightarrow> (io_error + proxy_target) \<times> ss_reader" where
  "read_target op r =
    (case (if sr_rpos r \<ge> length (sr_rbuf r) \<and> \<not> sr_eof r then fill_chunk op r else (Inr (), r)) of
       (Inl e, r1) \<Rightarrow> (Inl e, r1)
     | (Inr _, r1) \<Rightarrow>
         (case decode (drop (sr_rpos r1) (sr_rbuf r1)) of
            Inl e \<Rightarrow> (Inl (invalid_data e), r1)
          | Inr (addr, used) \<Rightarrow>
              (Inr (to_proxy_target addr), r1\<lparr>sr_rpos := sr_rpos r1 + used\<rparr>)))"

lemma read_full_shorter:
  "read_full n r = (Inr x, r') \<Longrightarrow> length (sr_inner r) = n + length (sr_inner r')"
  by (auto simp: read_full_def split: if_splits)

lemma fill_chunk_shorter:
  assumes "fill_chunk op r = (Inr u, r')"
  shows "length (sr_inner r') < length (sr_inner r)"
proof -
  obtain hdr r1 where 1: "read_full 18 r = (Inr hdr, r1)"
    using assms by (cases "read_full 18 r"; cases "fst (read_full 18 r)") (auto simp: fill_chunk_def)
  have "length (sr_inner r') \<le> length (sr_inner r1)"
    using assms 1
    by (auto simp: fill_chunk_def Let_def read_full_def split: option.splits if_splits)
  then show ?thesis using read_full_shorter [OF 1] by simp
qed

text \<open>The loop ends because every filled chunk consumes input.\<close>

function read_data :: "open_fn \<Rightarrow> nat \<Rightarrow> ss_reader \<Rightarrow> (io_error + bytes) \<times> ss_reader" where
  "read_data op out_len r =
    (if sr_rpos r < length (sr_rbuf r) then
       (let n = min out_len (length (sr_rbuf r) - sr_rpos r)
        in (Inr (slice (sr_rpos r) (sr_rpos r + n) (sr_rbuf r)), r\<lparr>sr_rpos := sr_rpos r + n\<rparr>))
     else if sr_eof r then (Inr [], r)
     else (case fill_chunk op r of
         (Inl e, r1) \<Rightarrow> (Inl e, r1)
       | (Inr u, r1) \<Rightarrow> read_data op out_len r1))"
  by auto
termination
  by (relation "measure (\<lambda>(_, _, r). length (sr_inner r))") (auto dest: fill_chunk_shorter [OF sym])

declare read_data.simps [simp del]

section \<open>Writing\<close>

record ss_writer =
  sw_cipher :: ss_aead
  sw_nonce :: bytes
  sw_out :: bytes

definition sw_seal :: "seal_fn \<Rightarrow> bytes \<Rightarrow> ss_writer \<Rightarrow> (bytes \<times> bytes \<times> ss_writer) option" where
  "sw_seal sl buf w =
    (case sl (sw_cipher w) (sw_nonce w) [] buf of
       None \<Rightarrow> None
     | Some (ct, tag) \<Rightarrow> Some (ct, tag, w\<lparr>sw_nonce := increment_nonce (sw_nonce w)\<rparr>))"

definition write_piece :: "seal_fn \<Rightarrow> bytes \<Rightarrow> ss_writer \<Rightarrow> (io_error + unit) rs \<times> ss_writer" where
  "write_piece sl piece w =
    (case sw_seal sl (u16_be (word_of_nat (length piece))) w of
       None \<Rightarrow> (Ret (Inl (io_err ''shadowsocks: encrypt failed'')), w)
     | Some (hdr, ltag, w1) \<Rightarrow>
         (case sw_seal sl piece w1 of
            None \<Rightarrow> (Panic, w1)
          | Some (payload, ptag, w2) \<Rightarrow>
              (Ret (Inr ()), w2\<lparr>sw_out := sw_out w2 @ hdr @ ltag @ payload @ ptag\<rparr>)))"

fun write_pieces :: "seal_fn \<Rightarrow> bytes list \<Rightarrow> ss_writer \<Rightarrow> (io_error + unit) rs \<times> ss_writer" where
  "write_pieces sl [] w = (Ret (Inr ()), w)"
| "write_pieces sl (p # ps) w =
    (case write_piece sl p w of
       (Ret (Inr _), w1) \<Rightarrow> write_pieces sl ps w1
     | (r, w1) \<Rightarrow> (r, w1))"

definition write_chunk :: "seal_fn \<Rightarrow> bytes \<Rightarrow> ss_writer \<Rightarrow> (io_error + unit) rs \<times> ss_writer" where
  "write_chunk sl data w = write_pieces sl (chunks MAX_PAYLOAD data) w"

section \<open>Opening a connection\<close>

record ss_config =
  cfg_method :: string
  cfg_password :: string

definition parsed_method :: "ss_config \<Rightarrow> io_error + ss_method" where
  "parsed_method cfg =
    (case ss_method_parse (cfg_method cfg) of
       None \<Rightarrow> Inl (invalid_data (''shadowsocks: unsupported method '' @ [CHR 0x27] @ cfg_method cfg @ [CHR 0x27]))
     | Some m \<Rightarrow> Inr m)"

definition master_key :: "ss_config \<Rightarrow> io_error + bytes" where
  "master_key cfg =
    (case parsed_method cfg of
       Inl e \<Rightarrow> Inl e
     | Inr m \<Rightarrow> Inr (evp_bytes_to_key (as_bytes (cfg_password cfg)) (key_len m)))"

type_synonym ss_conn = "ss_reader \<times> ss_writer"

definition accept_tcp :: "ss_config \<Rightarrow> conn \<Rightarrow> (io_error + ss_conn) rs" where
  "accept_tcp cfg c =
    (case parsed_method cfg of Inl e \<Rightarrow> Ret (Inl e) | Inr m \<Rightarrow>
     case master_key cfg of Inl e \<Rightarrow> Ret (Inl e) | Inr master \<Rightarrow>
         (case read_exact (salt_len m) c of
            (Inl e, _) \<Rightarrow> Ret (Inl e)
          | (Inr salt, c1) \<Rightarrow>
              rs_bind (ss_aead_new m (derive_subkey master salt)) (\<lambda>cipher.
                Ret (Inr (ss_reader_new (inp c1) cipher (replicate 12 0),
                  \<lparr>sw_cipher = cipher, sw_nonce = replicate 12 0, sw_out = outp c1\<rparr>)))))"

text \<open>The random salt is an argument.\<close>

definition connect_tcp :: "seal_fn \<Rightarrow> ss_config \<Rightarrow> bytes \<Rightarrow> proxy_target \<Rightarrow> conn \<Rightarrow> (io_error + ss_conn) rs" where
  "connect_tcp sl cfg salt target c =
    (case parsed_method cfg of Inl e \<Rightarrow> Ret (Inl e) | Inr m \<Rightarrow>
     case master_key cfg of Inl e \<Rightarrow> Ret (Inl e) | Inr master \<Rightarrow>
         rs_bind (ss_aead_new m (derive_subkey master salt)) (\<lambda>cipher.
           let w = \<lparr>sw_cipher = cipher, sw_nonce = replicate 12 0, sw_out = outp c @ salt\<rparr>;
               r = ss_reader_new (inp c) cipher (replicate 12 0)
           in case write_chunk sl (encode_addr (from_proxy_target target)) w of
                (Ret (Inr _), w1) \<Rightarrow> Ret (Inr (r, w1))
              | (Ret (Inl e), _) \<Rightarrow> Ret (Inl e)
              | (Panic, _) \<Rightarrow> Panic))"

section \<open>The pump tasks\<close>

text \<open>The task that reads the encrypted stream: the messages it sends into the
  channel of the relay. A failed send means that the receiver is gone.\<close>

lemma read_data_progress:
  "read_data op n r = (Inr d, r') \<Longrightarrow> d \<noteq> [] \<Longrightarrow>
    length (sr_inner r') < length (sr_inner r)
    \<or> length (sr_inner r') = length (sr_inner r)
      \<and> length (sr_rbuf r') - sr_rpos r' < length (sr_rbuf r) - sr_rpos r"
proof (induction op n r rule: read_data.induct)
  case (1 op n r)
  show ?case
  proof (cases "sr_rpos r < length (sr_rbuf r) \<or> sr_eof r")
    case True
    then show ?thesis
      using 1(2,3) by (subst (asm) read_data.simps) (auto simp: Let_def slice_def min_def split: if_splits)
  next
    case False
    then obtain u r1 where f: "fill_chunk op r = (Inr u, r1)" and d: "read_data op n r1 = (Inr d, r')"
      using 1(2) by (subst (asm) read_data.simps) (auto split: prod.splits sum.splits)
    have "length (sr_inner r') \<le> length (sr_inner r1)"
      using 1(1) [of "Inr u" r1] f d False 1(3) by force
    then show ?thesis using fill_chunk_shorter [OF f] by simp
  qed
qed

function ss_read_task :: "open_fn \<Rightarrow> ss_reader \<Rightarrow> (io_error + bytes) list" where
  "ss_read_task op r =
    (case read_data op 16384 r of
       (Inl e, r1) \<Rightarrow> [Inl e, Inr []]
     | (Inr d, r1) \<Rightarrow> if d = [] then [Inr []] else Inr d # ss_read_task op r1)"
  by auto
termination
  by (relation "measures [\<lambda>(_, r). length (sr_inner r), \<lambda>(_, r). length (sr_rbuf r) - sr_rpos r]")
    (auto dest!: read_data_progress [OF sym])

declare ss_read_task.simps [simp del]

text \<open>The task that writes: the vectors it receives from the channel, until the
  channel is closed; then the final, empty write.\<close>

fun ss_write_task :: "seal_fn \<Rightarrow> bytes list \<Rightarrow> ss_writer \<Rightarrow> (io_error + unit) rs \<times> ss_writer" where
  "ss_write_task sl [] w = write_chunk sl [] w"
| "ss_write_task sl (v # vs) w =
    (if v = [] then ss_write_task sl vs w
     else case write_chunk sl v w of
         (Ret (Inr _), w1) \<Rightarrow> ss_write_task sl vs w1
       | (Ret (Inl e), w1) \<Rightarrow> write_chunk sl [] w1
       | (Panic, w1) \<Rightarrow> (Panic, w1))"


section \<open>The reader undoes the writer\<close>

lemma aead_lawsE:
  assumes "aead_laws sl op" "length p \<le> 65536"
  obtains ct tag where "sl c n a p = Some (ct, tag)" "length ct = length p" "length tag = 16"
    "op c n a ct tag = Some p"
  using assms unfolding aead_laws_def by blast

lemma unat_u16_small: "k \<le> MAX_PAYLOAD \<Longrightarrow> unat (word_of_nat k :: u16) = k"
  by (simp add: unat_of_nat MAX_PAYLOAD_def)

lemma fill_chunk_sealed:
  assumes "sr_inner r = (hc @ ht) @ (pc @ pt) @ rest"
    and "length hc = 2" "length ht = 16" "length pc = length p" "length pt = 16"
    and "length p \<le> MAX_PAYLOAD"
    and "op (sr_cipher r) (sr_nonce r) [] hc ht = Some (u16_be (word_of_nat (length p)))"
    and "op (sr_cipher r) (increment_nonce (sr_nonce r)) [] pc pt = Some p"
  shows "fill_chunk op r =
    (Inr (), r\<lparr>sr_inner := rest, sr_nonce := increment_nonce (increment_nonce (sr_nonce r)),
      sr_rbuf := p, sr_rpos := 0, sr_eof := (sr_eof r \<or> p = [])\<rparr>)"
proof -
  have 1: "read_full 18 r = (Inr (hc @ ht), r\<lparr>sr_inner := (pc @ pt) @ rest\<rparr>)"
    using assms(1-3) by (simp add: read_full_def)
  have 2: "take 2 (hc @ ht) = hc" "slice 2 18 (hc @ ht) = ht"
    using assms(2,3) by (simp_all add: slice_def)
  have len: "unat (be_u16 (u16_be (word_of_nat (length p)) ! 0) (u16_be (word_of_nat (length p)) ! 1)) = length p"
    using unat_u16_small [OF assms(6)] by (simp only: be_u16_nth)
  let ?r2 = "r\<lparr>sr_inner := (pc @ pt) @ rest, sr_nonce := increment_nonce (sr_nonce r)\<rparr>"
  have 3: "read_full (length p + 16) ?r2 = (Inr (pc @ pt), ?r2\<lparr>sr_inner := rest\<rparr>)"
    using assms(4,5) by (simp add: read_full_def)
  show ?thesis
    unfolding fill_chunk_def 1 using 2 3 len assms(4,6,7,8) by (simp add: Let_def)
qed

text \<open>A reader in step with the writer: everything decrypted so far was delivered.\<close>

definition in_step :: "ss_reader \<Rightarrow> ss_aead \<Rightarrow> bytes \<Rightarrow> bytes \<Rightarrow> bool" where
  "in_step r c n rest \<longleftrightarrow>
    sr_cipher r = c \<and> sr_nonce r = n \<and> sr_inner r = rest \<and> sr_rpos r = length (sr_rbuf r) \<and> \<not> sr_eof r"

abbreviation ss_carries :: "open_fn \<Rightarrow> ss_aead \<Rightarrow> bytes \<Rightarrow> bytes \<Rightarrow> bytes \<Rightarrow> bytes list \<Rightarrow> bool" where
  "ss_carries op c \<equiv> carries (ss_read_task op) (\<lambda>r. in_step r c)"

text \<open>Writing one piece: the bytes produced, and how a reader in step fills from them.\<close>

lemma write_piece_sealed:
  assumes laws: "aead_laws sl op" and p: "length p \<le> MAX_PAYLOAD"
  obtains b where
    "write_piece sl p w = (Ret (Inr ()), w\<lparr>sw_nonce := increment_nonce (increment_nonce (sw_nonce w)),
       sw_out := sw_out w @ b\<rparr>)"
    and "\<And>r rest. in_step r (sw_cipher w) (sw_nonce w) (b @ rest) \<Longrightarrow>
      fill_chunk op r = (Inr (), r\<lparr>sr_inner := rest,
        sr_nonce := increment_nonce (increment_nonce (sw_nonce w)),
        sr_rbuf := p, sr_rpos := 0, sr_eof := (p = [])\<rparr>)"
proof -
  let ?c = "sw_cipher w" and ?n = "sw_nonce w" and ?h = "u16_be (word_of_nat (length p))"
  obtain hc ht where h: "sl ?c ?n [] ?h = Some (hc, ht)" "length hc = length ?h" "length ht = 16"
    "op ?c ?n [] hc ht = Some ?h"
    using aead_lawsE [OF laws, of ?h ?c ?n "[]"] by auto
  obtain pc pt where q: "sl ?c (increment_nonce ?n) [] p = Some (pc, pt)" "length pc = length p"
    "length pt = 16" "op ?c (increment_nonce ?n) [] pc pt = Some p"
    using aead_lawsE [OF laws, of p ?c "increment_nonce ?n" "[]"] p by (auto simp: MAX_PAYLOAD_def)
  show thesis
  proof (rule that [of "(hc @ ht) @ (pc @ pt)"])
    show "write_piece sl p w = (Ret (Inr ()), w\<lparr>sw_nonce := increment_nonce (increment_nonce ?n),
       sw_out := sw_out w @ (hc @ ht) @ (pc @ pt)\<rparr>)"
      using h(1) q(1) by (simp add: write_piece_def sw_seal_def)
    fix r rest
    assume "in_step r ?c ?n (((hc @ ht) @ (pc @ pt)) @ rest)"
    then show "fill_chunk op r = (Inr (), r\<lparr>sr_inner := rest,
        sr_nonce := increment_nonce (increment_nonce ?n), sr_rbuf := p, sr_rpos := 0, sr_eof := (p = [])\<rparr>)"
      using fill_chunk_sealed [of r hc ht pc pt rest p op] h q p by (simp add: in_step_def)
  qed
qed

lemma read_data_filled:
  assumes "fill_chunk op r = (Inr (), r1)" "sr_rpos r = length (sr_rbuf r)" "\<not> sr_eof r"
    and "sr_rpos r1 = 0" "sr_rbuf r1 = p" "p \<noteq> []" "length p \<le> 16384"
  shows "read_data op 16384 r = (Inr p, r1\<lparr>sr_rpos := length p\<rparr>)"
proof -
  have "read_data op 16384 r = read_data op 16384 r1"
    using assms(1-3) by (subst read_data.simps) simp
  also have "\<dots> = (Inr p, r1\<lparr>sr_rpos := length p\<rparr>)"
    using assms(4-7) by (subst read_data.simps) (simp add: slice_def Let_def min_absorb2)
  finally show ?thesis .
qed

lemma write_piece_carries:
  assumes laws: "aead_laws sl op" and p: "p \<noteq> []" "length p \<le> MAX_PAYLOAD"
  obtains b where
    "write_piece sl p w = (Ret (Inr ()), w\<lparr>sw_nonce := increment_nonce (increment_nonce (sw_nonce w)),
       sw_out := sw_out w @ b\<rparr>)"
    and "ss_carries op (sw_cipher w) (sw_nonce w) b (increment_nonce (increment_nonce (sw_nonce w))) [p]"
proof -
  let ?n = "increment_nonce (increment_nonce (sw_nonce w))"
  obtain b where b: "write_piece sl p w = (Ret (Inr ()), w\<lparr>sw_nonce := ?n, sw_out := sw_out w @ b\<rparr>)"
    and f: "\<And>r rest. in_step r (sw_cipher w) (sw_nonce w) (b @ rest) \<Longrightarrow> fill_chunk op r =
        (Inr (), r\<lparr>sr_inner := rest, sr_nonce := ?n, sr_rbuf := p, sr_rpos := 0, sr_eof := (p = [])\<rparr>)"
    using write_piece_sealed [OF laws p(2)] by metis
  have "ss_carries op (sw_cipher w) (sw_nonce w) b ?n [p]"
    unfolding carries_def
  proof (intro allI impI)
    fix r rest
    assume s: "in_step r (sw_cipher w) (sw_nonce w) (b @ rest)"
    let ?r = "r\<lparr>sr_inner := rest, sr_nonce := ?n, sr_rbuf := p, sr_rpos := 0, sr_eof := False\<rparr>"
    have "read_data op 16384 r = (Inr p, ?r\<lparr>sr_rpos := length p\<rparr>)"
      using f [OF s] s p by (intro read_data_filled) (auto simp: in_step_def MAX_PAYLOAD_def)
    then have "ss_read_task op r = map Inr [p] @ ss_read_task op (?r\<lparr>sr_rpos := length p\<rparr>)"
      using p by (subst ss_read_task.simps) simp
    moreover have "in_step (?r\<lparr>sr_rpos := length p\<rparr>) (sw_cipher w) ?n rest"
      using s by (simp add: in_step_def)
    ultimately show "\<exists>r'. in_step r' (sw_cipher w) ?n rest
        \<and> ss_read_task op r = map Inr [p] @ ss_read_task op r'"
      by blast
  qed
  with b show thesis by (rule that)
qed


lemma write_pieces_carries:
  assumes laws: "aead_laws sl op"
  shows "(\<And>p. p \<in> set ps \<Longrightarrow> p \<noteq> [] \<and> length p \<le> MAX_PAYLOAD) \<Longrightarrow>
    \<exists>b n'. write_pieces sl ps w = (Ret (Inr ()), w\<lparr>sw_nonce := n', sw_out := sw_out w @ b\<rparr>)
      \<and> ss_carries op (sw_cipher w) (sw_nonce w) b n' ps"
proof (induction ps arbitrary: w)
  case Nil
  show ?case by (rule exI [of _ "[]"], rule exI [of _ "sw_nonce w"]) (simp add: carries_Nil)
next
  case (Cons p ps)
  let ?n = "increment_nonce (increment_nonce (sw_nonce w))"
  obtain b where b: "write_piece sl p w = (Ret (Inr ()), w\<lparr>sw_nonce := ?n, sw_out := sw_out w @ b\<rparr>)"
    and c: "ss_carries op (sw_cipher w) (sw_nonce w) b ?n [p]"
    using write_piece_carries [OF laws] Cons.prems [of p] by (metis list.set_intros(1))
  let ?w = "w\<lparr>sw_nonce := ?n, sw_out := sw_out w @ b\<rparr>"
  obtain b' n' where "write_pieces sl ps ?w = (Ret (Inr ()), ?w\<lparr>sw_nonce := n', sw_out := sw_out ?w @ b'\<rparr>)"
    and "ss_carries op (sw_cipher ?w) (sw_nonce ?w) b' n' ps"
    using Cons.IH [of ?w] Cons.prems by auto
  then show ?case
    using b carries_append [OF c, of b' n' ps] by (intro exI [of _ "b @ b'"] exI [of _ n']) simp
qed

lemma write_chunk_carries:
  assumes "aead_laws sl op"
  obtains b n' where
    "write_chunk sl v w = (Ret (Inr ()), w\<lparr>sw_nonce := n', sw_out := sw_out w @ b\<rparr>)"
    and "ss_carries op (sw_cipher w) (sw_nonce w) b n' (chunks MAX_PAYLOAD v)"
  using write_pieces_carries [OF assms, of "chunks MAX_PAYLOAD v" w] chunks_bounds
  unfolding write_chunk_def by metis

lemma write_chunk_Nil [simp]: "write_chunk sl [] w = (Ret (Inr ()), w)"
  by (simp add: write_chunk_def)

lemma ss_write_task_carries:
  assumes laws: "aead_laws sl op"
  shows "\<exists>b n'. ss_write_task sl vs w = (Ret (Inr ()), w\<lparr>sw_nonce := n', sw_out := sw_out w @ b\<rparr>)
    \<and> ss_carries op (sw_cipher w) (sw_nonce w) b n' (concat (map (chunks MAX_PAYLOAD) vs))"
proof (induction vs arbitrary: w)
  case Nil
  show ?case by (rule exI [of _ "[]"], rule exI [of _ "sw_nonce w"]) (simp add: carries_Nil)
next
  case (Cons v vs)
  show ?case
  proof (cases "v = []")
    case False
    obtain b n where b: "write_chunk sl v w = (Ret (Inr ()), w\<lparr>sw_nonce := n, sw_out := sw_out w @ b\<rparr>)"
      and c: "ss_carries op (sw_cipher w) (sw_nonce w) b n (chunks MAX_PAYLOAD v)"
      by (rule write_chunk_carries [OF laws])
    let ?w = "w\<lparr>sw_nonce := n, sw_out := sw_out w @ b\<rparr>"
    obtain b' n' where "ss_write_task sl vs ?w = (Ret (Inr ()), ?w\<lparr>sw_nonce := n', sw_out := sw_out ?w @ b'\<rparr>)"
      and "ss_carries op (sw_cipher ?w) (sw_nonce ?w) b' n' (concat (map (chunks MAX_PAYLOAD) vs))"
      using Cons.IH [of ?w] by auto
    then show ?thesis
      using b False carries_append [OF c, of b' n'] by (intro exI [of _ "b @ b'"] exI [of _ n']) simp
  qed (use Cons.IH in simp)
qed

lemma ss_read_task_end:
  assumes "in_step r c n []"
  shows "ss_read_task op r = [Inl closed_mid_chunk, Inr []]"
proof -
  have "fill_chunk op r = (Inl closed_mid_chunk, r\<lparr>sr_inner := []\<rparr>)"
    using assms by (simp add: fill_chunk_def read_full_def in_step_def)
  then have "read_data op 16384 r = (Inl closed_mid_chunk, r\<lparr>sr_inner := []\<rparr>)"
    using assms by (subst read_data.simps) (simp add: in_step_def)
  then show ?thesis by (subst ss_read_task.simps) simp
qed

section \<open>Connections\<close>

lemma parsed_method_key:
  assumes "parsed_method cfg = Inr m"
  shows "\<exists>mk. master_key cfg = Inr mk \<and> length mk = key_len m"
  using assms by (simp add: master_key_def length_evp_bytes_to_key)

lemma ss_aead_new_subkey:
  "length mk = key_len m \<Longrightarrow> ss_aead_new m (derive_subkey mk salt) = Ret (SsAead m (derive_subkey mk salt))"
  by (simp add: ss_aead_new_def length_derive_subkey)

lemma read_target_decodes:
  assumes "fill_chunk op r = (Inr (), r1)" "in_step r c n b"
    and "sr_rpos r1 = 0" "sr_rbuf r1 = encode_addr a" "wf_addr a"
  shows "read_target op r = (Inr (to_proxy_target a), r1\<lparr>sr_rpos := length (encode_addr a)\<rparr>)"
  using assms decode_encode_addr [of a "[]"] by (simp add: read_target_def in_step_def)


lemma connect_writes:
  assumes laws: "aead_laws sl op" and m: "parsed_method cfg = Inr m" and wf: "wf_addr (from_proxy_target t)"
  obtains C n b r where
    "\<And>i. connect_tcp sl cfg salt t \<lparr>inp = i, outp = []\<rparr> = Ret (Inr (r i, \<lparr>sw_cipher = C, sw_nonce = n, sw_out = salt @ b\<rparr>))"
    and "length salt = salt_len m \<Longrightarrow> \<exists>sw. \<forall>rest. accept_tcp cfg \<lparr>inp = (salt @ b) @ rest, outp = []\<rparr>
      = Ret (Inr (ss_reader_new (b @ rest) C (replicate 12 0), sw))"
    and "\<And>rest. \<exists>r'. read_target op (ss_reader_new (b @ rest) C (replicate 12 0)) = (Inr t, r') \<and> in_step r' C n rest"
proof -
  obtain mk where mk: "master_key cfg = Inr mk" "length mk = key_len m" using parsed_method_key [OF m] by blast
  let ?C = "SsAead m (derive_subkey mk salt)" and ?A = "encode_addr (from_proxy_target t)"
  let ?w = "\<lparr>sw_cipher = ?C, sw_nonce = replicate 12 0, sw_out = salt\<rparr>"
  let ?n = "increment_nonce (increment_nonce (replicate 12 0))"
  note new = ss_aead_new_subkey [OF mk(2), of salt]
  have A: "?A \<noteq> []" "length ?A \<le> MAX_PAYLOAD"
    using length_encode_addr [OF wf] by (auto simp: MAX_PAYLOAD_def)
  obtain b where b: "write_piece sl ?A ?w = (Ret (Inr ()), \<lparr>sw_cipher = ?C, sw_nonce = ?n, sw_out = salt @ b\<rparr>)"
    and f: "\<And>r rest. in_step r ?C (replicate 12 0) (b @ rest) \<Longrightarrow> fill_chunk op r =
      (Inr (), r\<lparr>sr_inner := rest, sr_nonce := ?n, sr_rbuf := ?A, sr_rpos := 0, sr_eof := (?A = [])\<rparr>)"
    using write_piece_sealed [OF laws A(2), of ?w] by auto
  have wc: "write_chunk sl ?A ?w = (Ret (Inr ()), \<lparr>sw_cipher = ?C, sw_nonce = ?n, sw_out = salt @ b\<rparr>)"
    unfolding write_chunk_def using b chunks_single [OF A] by simp
  show thesis
  proof (rule that [of "\<lambda>i. ss_reader_new i ?C (replicate 12 0)" ?C ?n b])
    show "connect_tcp sl cfg salt t \<lparr>inp = i, outp = []\<rparr> = Ret (Inr (ss_reader_new i ?C (replicate 12 0),
        \<lparr>sw_cipher = ?C, sw_nonce = ?n, sw_out = salt @ b\<rparr>))" for i
      using m mk(1) new wc by (simp add: connect_tcp_def)
    assume "length salt = salt_len m"
    then show "\<exists>sw. \<forall>rest. accept_tcp cfg \<lparr>inp = (salt @ b) @ rest, outp = []\<rparr>
      = Ret (Inr (ss_reader_new (b @ rest) ?C (replicate 12 0), sw))"
      using m mk(1) new by (simp add: accept_tcp_def read_exact_append)
  next
    fix rest
    let ?r = "ss_reader_new (b @ rest) ?C (replicate 12 0)"
    have s: "in_step ?r ?C (replicate 12 0) (b @ rest)" by (simp add: in_step_def ss_reader_new_def)
    show "\<exists>r'. read_target op ?r = (Inr t, r') \<and> in_step r' ?C ?n rest"
      using read_target_decodes [OF f [OF s] s _ _ wf] A s
      by (auto simp: to_from_proxy_target in_step_def)
  qed
qed

section \<open>Properties\<close>

text \<open>Property C5: whatever a client connects to and writes, the server with the same
  method and password reads the same target and then exactly the written bytes,
  in order, in pieces of at most 16383 bytes. The reading task then reports an error,
  because the writing task marks the end of the stream with an empty chunk
  that \<open>write_chunk\<close> never writes. The AEAD is assumed to open what it sealed.\<close>

theorem ss_end_to_end:
  assumes "aead_laws sl op" "ss_method_parse (cfg_method cfg) = Some m" "length salt = salt_len m"
    and "wf_addr (from_proxy_target target)"
  shows "\<exists>cr cw cw' sr sw sr'.
    connect_tcp sl cfg salt target \<lparr>inp = i, outp = []\<rparr> = Ret (Inr (cr, cw))
    \<and> ss_write_task sl vs cw = (Ret (Inr ()), cw')
    \<and> accept_tcp cfg \<lparr>inp = sw_out cw', outp = []\<rparr> = Ret (Inr (sr, sw))
    \<and> read_target op sr = (Inr target, sr')
    \<and> ss_read_task op sr' =
        map Inr (concat (map (chunks MAX_PAYLOAD) vs)) @ [Inl closed_mid_chunk, Inr []]"
proof -
  have "parsed_method cfg = Inr m" using assms(2) by (simp add: parsed_method_def)
  then obtain C n b r where
    c: "\<And>i. connect_tcp sl cfg salt target \<lparr>inp = i, outp = []\<rparr> = Ret (Inr (r i, \<lparr>sw_cipher = C, sw_nonce = n, sw_out = salt @ b\<rparr>))"
    and a: "\<exists>sw. \<forall>rest. accept_tcp cfg \<lparr>inp = (salt @ b) @ rest, outp = []\<rparr>
      = Ret (Inr (ss_reader_new (b @ rest) C (replicate 12 0), sw))"
    and t: "\<And>rest. \<exists>r'. read_target op (ss_reader_new (b @ rest) C (replicate 12 0)) = (Inr target, r') \<and> in_step r' C n rest"
    using connect_writes [OF assms(1) _ assms(4), of cfg m salt] assms(3) by metis
  let ?w = "\<lparr>sw_cipher = C, sw_nonce = n, sw_out = salt @ b\<rparr>"
  let ?ps = "concat (map (chunks MAX_PAYLOAD) vs)"
  obtain b' n' where w: "ss_write_task sl vs ?w = (Ret (Inr ()), ?w\<lparr>sw_nonce := n', sw_out := sw_out ?w @ b'\<rparr>)"
    and cr: "ss_carries op C n b' n' ?ps"
    using ss_write_task_carries [OF assms(1), of vs ?w] by auto
  obtain r1 where r1: "read_target op (ss_reader_new (b @ b') C (replicate 12 0)) = (Inr target, r1)"
      "in_step r1 C n (b' @ [])"
    using t [of b'] by auto
  obtain r2 where "in_step r2 C n' []" "ss_read_task op r1 = map Inr ?ps @ ss_read_task op r2"
    using cr r1(2) unfolding carries_def by blast
  then have e: "ss_read_task op r1 = map Inr ?ps @ [Inl closed_mid_chunk, Inr []]"
    using ss_read_task_end by metis
  obtain sw where a': "accept_tcp cfg \<lparr>inp = (salt @ b) @ b', outp = []\<rparr>
      = Ret (Inr (ss_reader_new (b @ b') C (replicate 12 0), sw))"
    using a by blast
  show ?thesis
    by (intro exI conjI, rule c [of i], rule w, simp add: a' [simplified], rule r1(1), rule e)
qed

text \<open>A cipher that satisfies the laws, for the witnesses: a constant mask and tag.\<close>

definition mask_seal :: seal_fn where
  "mask_seal c n a p = Some (map (\<lambda>b. b XOR 0x55) p, replicate 16 0xA5)"

definition mask_open :: open_fn where
  "mask_open c n a ct tag = (if tag = replicate 16 0xA5 then Some (map (\<lambda>b. b XOR 0x55) ct) else None)"

lemma mask_laws: "aead_laws mask_seal mask_open"
  by (simp add: aead_laws_def mask_seal_def mask_open_def o_def xor.assoc)

theorem ss_end_to_end_witness:
  "\<exists>cr cw cw' sr sw sr'.
    connect_tcp mask_seal \<lparr>cfg_method = ''AES-128-GCM'', cfg_password = ''pw''\<rparr> (replicate 16 3)
      (Domain ''a.b'' 80) \<lparr>inp = [], outp = []\<rparr> = Ret (Inr (cr, cw))
    \<and> ss_write_task mask_seal [[1, 2], [], [3]] cw = (Ret (Inr ()), cw')
    \<and> accept_tcp \<lparr>cfg_method = ''AES-128-GCM'', cfg_password = ''pw''\<rparr>
      \<lparr>inp = sw_out cw', outp = []\<rparr> = Ret (Inr (sr, sw))
    \<and> read_target mask_open sr = (Inr (Domain ''a.b'' 80), sr')
    \<and> ss_read_task mask_open sr' =
        map Inr (concat (map (chunks MAX_PAYLOAD) [[1, 2], [], [3]])) @ [Inl closed_mid_chunk, Inr []]"
proof (rule ss_end_to_end [OF mask_laws])
  show "ss_method_parse (cfg_method \<lparr>cfg_method = ''AES-128-GCM'', cfg_password = ''pw''\<rparr>) = Some Aes128Gcm"
    by code_simp
  show "length (replicate 16 3) = salt_len Aes128Gcm" by (simp add: salt_len_def)
  show "wf_addr (from_proxy_target (Domain ''a.b'' 80))" by code_simp
qed


lemma accept_tcp_state:
  assumes "accept_tcp cfg \<lparr>inp = salt @ rest, outp = []\<rparr> = Ret (Inr (sr, sw))"
    and "parsed_method cfg = Inr m" "master_key cfg = Inr mk" "length salt = salt_len m"
  shows "sr = ss_reader_new rest (SsAead m (derive_subkey mk salt)) (replicate 12 0)
    \<and> sw = \<lparr>sw_cipher = SsAead m (derive_subkey mk salt), sw_nonce = replicate 12 0, sw_out = []\<rparr>"
  using assms
  by (auto simp: accept_tcp_def read_exact_append rs_bind_Ret_iff ss_aead_new_def split: if_splits)

lemma connect_tcp_state:
  assumes "connect_tcp sl cfg salt target c = Ret (Inr (cr, cw))"
    and "parsed_method cfg = Inr m" "master_key cfg = Inr mk"
  shows "cr = ss_reader_new (inp c) (SsAead m (derive_subkey mk salt)) (replicate 12 0)
    \<and> (Ret (Inr ()), cw) = write_chunk sl (encode_addr (from_proxy_target target))
        \<lparr>sw_cipher = SsAead m (derive_subkey mk salt), sw_nonce = replicate 12 0, sw_out = outp c @ salt\<rparr>"
  using assms
  by (auto simp: connect_tcp_def rs_bind_Ret_iff ss_aead_new_def Let_def
      split: if_splits prod.splits rs.splits sum.splits)

text \<open>The nonces one writer uses do not repeat within \<open>2^96\<close> encryptions.\<close>

theorem ss_nonces_distinct:
  assumes "j < k" "k < 256 ^ 12"
  shows "(increment_nonce ^^ j) (replicate 12 0) \<noteq> (increment_nonce ^^ k) (replicate 12 0)"
proof -
  have z: "le_nat (replicate 12 0) = 0" by (simp add: numeral_eq_Suc)
  have "le_nat ((increment_nonce ^^ l) (replicate 12 0)) = l" if "l < 256 ^ 12" for l
    using increment_nonce_funpow [of l "replicate 12 0"] that z by simp
  from this [of j] this [of k] assms show ?thesis by (metis less_trans nat_neq_iff)
qed

theorem ss_nonces_distinct_witness:
  "(increment_nonce ^^ 1) (replicate 12 0) \<noteq> (increment_nonce ^^ 256) (replicate 12 0)"
  by (rule ss_nonces_distinct) simp_all

text \<open>The two directions of a connection share their nonces: the writer of
  the accepting side starts with the very key and all-zero nonce under which
  the connecting side encrypted the first chunk it sent.\<close>

theorem ss_directions_share_nonces:
  assumes "connect_tcp sl cfg salt target \<lparr>inp = i, outp = []\<rparr> = Ret (Inr (cr, cw))"
    and "accept_tcp cfg \<lparr>inp = salt @ rest, outp = []\<rparr> = Ret (Inr (sr, sw))"
    and "ss_method_parse (cfg_method cfg) = Some m" "length salt = salt_len m"
  shows "write_chunk sl (encode_addr (from_proxy_target target)) (sw\<lparr>sw_out := salt\<rparr>) = (Ret (Inr ()), cw)"
proof -
  have p: "parsed_method cfg = Inr m" using assms(3) by (simp add: parsed_method_def)
  then obtain mk where k: "master_key cfg = Inr mk" using parsed_method_key by blast
  show ?thesis
    using accept_tcp_state [OF assms(2) p k assms(4)] connect_tcp_state [OF assms(1) p k] by simp
qed

theorem ss_directions_share_nonces_witness:
  "\<exists>cr cw sr sw rest.
    connect_tcp mask_seal \<lparr>cfg_method = ''AES-128-GCM'', cfg_password = ''pw''\<rparr> (replicate 16 3)
      (Domain ''a.b'' 80) \<lparr>inp = [], outp = []\<rparr> = Ret (Inr (cr, cw))
    \<and> accept_tcp \<lparr>cfg_method = ''AES-128-GCM'', cfg_password = ''pw''\<rparr>
      \<lparr>inp = replicate 16 3 @ rest, outp = []\<rparr> = Ret (Inr (sr, sw))
    \<and> write_chunk mask_seal (encode_addr (from_proxy_target (Domain ''a.b'' 80)))
      (sw\<lparr>sw_out := replicate 16 3\<rparr>) = (Ret (Inr ()), cw)"
proof -
  let ?cfg = "\<lparr>cfg_method = ''AES-128-GCM'', cfg_password = ''pw''\<rparr>"
  let ?t = "Domain ''a.b'' 80" and ?salt = "replicate 16 3 :: bytes"
  have p: "ss_method_parse (cfg_method ?cfg) = Some Aes128Gcm" by code_simp
  then have m: "parsed_method ?cfg = Inr Aes128Gcm" by (simp add: parsed_method_def)
  have l: "length ?salt = salt_len Aes128Gcm" by (simp add: salt_len_def)
  have wf: "wf_addr (from_proxy_target ?t)" by code_simp
  obtain C n b r where
    "\<And>i. connect_tcp mask_seal ?cfg ?salt ?t \<lparr>inp = i, outp = []\<rparr> = Ret (Inr (r i, \<lparr>sw_cipher = C, sw_nonce = n, sw_out = ?salt @ b\<rparr>))"
    and "\<exists>sw. \<forall>rest. accept_tcp ?cfg \<lparr>inp = (?salt @ b) @ rest, outp = []\<rparr>
      = Ret (Inr (ss_reader_new (b @ rest) C (replicate 12 0), sw))"
    using connect_writes [OF mask_laws m wf, of ?salt] l by metis
  then show ?thesis
    using ss_directions_share_nonces [OF _ _ p l] by (metis append.assoc)
qed

end
