(* ===== verification/Shake.thy ===== *)
theory Shake
  imports Prelude
begin

text \<open>
  The SHAKE128 sponge and the size masks derived from it
  (\<open>crates/omni-proto/src/proto/vmess/shake.rs\<close>): Keccak-f[1600] on 25 lanes of 64 bits,
  absorbing and squeezing at a rate of 168 bytes, and \<open>ShakeSizeParser\<close>.
\<close>

section \<open>Keccak-f[1600]\<close>

definition RATE :: nat where "RATE = 168"

definition ROUND_CONSTS :: "u64 list" where
  "ROUND_CONSTS =
    [0x0000000000000001, 0x0000000000008082, 0x800000000000808a, 0x8000000080008000,
     0x000000000000808b, 0x0000000080000001, 0x8000000080008081, 0x8000000000008009,
     0x000000000000008a, 0x0000000000000088, 0x0000000080008009, 0x000000008000000a,
     0x000000008000808b, 0x800000000000008b, 0x8000000000008089, 0x8000000000008003,
     0x8000000000008002, 0x8000000000000080, 0x000000000000800a, 0x800000008000000a,
     0x8000000080008081, 0x8000000000008080, 0x0000000080000001, 0x8000000080008008]"

definition RHO_OFFSETS :: "nat list list" where
  "RHO_OFFSETS =
    [[0, 36, 3, 41, 18], [1, 44, 10, 45, 2], [62, 6, 43, 15, 61], [28, 55, 25, 21, 56],
     [27, 20, 39, 8, 14]]"

definition keccak_theta :: "u64 list \<Rightarrow> u64 list" where
  "keccak_theta st =
    (let c = map (\<lambda>x. st ! x XOR st ! (x + 5) XOR st ! (x + 10) XOR st ! (x + 15) XOR st ! (x + 20)) [0..<5];
         d = map (\<lambda>x. c ! ((x + 4) mod 5) XOR word_rotl 1 (c ! ((x + 1) mod 5))) [0..<5]
     in map (\<lambda>i. st ! i XOR d ! (i mod 5)) [0..<25])"

definition keccak_rho_pi :: "u64 list \<Rightarrow> u64 list" where
  "keccak_rho_pi st =
    foldl (\<lambda>b (x, y). b[y + 5 * ((2 * x + 3 * y) mod 5) := word_rotl (RHO_OFFSETS ! x ! y) (st ! (x + 5 * y))])
      (replicate 25 0) (List.product [0..<5] [0..<5])"

definition keccak_chi :: "u64 list \<Rightarrow> u64 list" where
  "keccak_chi b =
    map (\<lambda>i. b ! i XOR (NOT (b ! ((i mod 5 + 1) mod 5 + 5 * (i div 5))) AND b ! ((i mod 5 + 2) mod 5 + 5 * (i div 5))))
      [0..<25]"

definition keccak_round :: "u64 list \<Rightarrow> u64 \<Rightarrow> u64 list" where
  "keccak_round st rc = (let s = keccak_chi (keccak_rho_pi (keccak_theta st)) in s[0 := s ! 0 XOR rc])"

definition keccak_f1600 :: "u64 list \<Rightarrow> u64 list" where
  "keccak_f1600 st = foldl keccak_round st ROUND_CONSTS"

section \<open>The sponge\<close>

record shake128 =
  sh_state :: "u64 list"
  sh_pos :: nat
  sh_finalized :: bool

definition shake_new :: shake128 where
  "shake_new = \<lparr>sh_state = replicate 25 0, sh_pos = 0, sh_finalized = False\<rparr>"

definition xor_byte :: "nat \<Rightarrow> byte \<Rightarrow> u64 list \<Rightarrow> u64 list" where
  "xor_byte idx b st = st[idx div 8 := st ! (idx div 8) XOR push_bit ((idx mod 8) * 8) (ucast b)]"

fun xor_at :: "nat \<Rightarrow> bytes \<Rightarrow> u64 list \<Rightarrow> u64 list" where
  "xor_at p [] st = st"
| "xor_at p (b # bs) st = xor_at (Suc p) bs (xor_byte p b st)"

text \<open>The guard on the position always holds in reachable states and makes the
  loop total.\<close>

function shake_absorb :: "bytes \<Rightarrow> shake128 \<Rightarrow> shake128" where
  "shake_absorb data s =
    (if data = [] \<or> RATE \<le> sh_pos s then s
     else let n = min (RATE - sh_pos s) (length data);
              st = xor_at (sh_pos s) (take n data) (sh_state s);
              p = sh_pos s + n
          in shake_absorb (drop n data)
               (if p = RATE then s\<lparr>sh_state := keccak_f1600 st, sh_pos := 0\<rparr>
                else s\<lparr>sh_state := st, sh_pos := p\<rparr>))"
  by auto
termination
  by (relation "measure (\<lambda>(data, _). length data)") auto

declare shake_absorb.simps [simp del]

definition shake_finalize :: "shake128 \<Rightarrow> shake128" where
  "shake_finalize s =
    (let st = xor_byte (RATE - 1) 0x80 (xor_byte (sh_pos s) 0x1F (sh_state s))
     in \<lparr>sh_state = keccak_f1600 st, sh_pos = 0, sh_finalized = True\<rparr>)"

text \<open>One iteration of the loop over the output slots.\<close>

definition squeeze_byte :: "shake128 \<Rightarrow> byte \<times> shake128" where
  "squeeze_byte s =
    (let s1 = (if sh_pos s = RATE then s\<lparr>sh_state := keccak_f1600 (sh_state s), sh_pos := 0\<rparr> else s);
         idx = sh_pos s1
     in (ucast (drop_bit ((idx mod 8) * 8) (sh_state s1 ! (idx div 8)) AND 0xFF), s1\<lparr>sh_pos := idx + 1\<rparr>))"

fun squeeze_slots :: "nat \<Rightarrow> shake128 \<Rightarrow> bytes \<times> shake128" where
  "squeeze_slots 0 s = ([], s)"
| "squeeze_slots (Suc n) s =
    (let (b, s1) = squeeze_byte s; (out, s2) = squeeze_slots n s1 in (b # out, s2))"

definition shake_squeeze :: "nat \<Rightarrow> shake128 \<Rightarrow> bytes \<times> shake128" where
  "shake_squeeze n s = squeeze_slots n (if sh_finalized s then s else shake_finalize s)"

section \<open>Size masks\<close>

definition size_parser_new :: "bytes \<Rightarrow> shake128" where
  "size_parser_new nonce = shake_absorb nonce shake_new"

definition next_mask :: "shake128 \<Rightarrow> u16 \<times> shake128" where
  "next_mask s = (case shake_squeeze 2 s of (b, s') \<Rightarrow> (be_u16 (b ! 0) (b ! 1), s'))"

definition next_padding_len :: "shake128 \<Rightarrow> u16 \<times> shake128" where
  "next_padding_len s = (case next_mask s of (m, s') \<Rightarrow> (m mod 64, s'))"

definition size_encode :: "u16 \<Rightarrow> shake128 \<Rightarrow> bytes \<times> shake128" where
  "size_encode v s = (case next_mask s of (m, s') \<Rightarrow> (u16_be (v XOR m), s'))"

definition size_decode :: "bytes \<Rightarrow> shake128 \<Rightarrow> u16 \<times> shake128" where
  "size_decode b s = (case next_mask s of (m, s') \<Rightarrow> (be_u16 (b ! 0) (b ! 1) XOR m, s'))"

section \<open>Absorbing byte by byte\<close>







section \<open>Squeezing in pieces\<close>




lemma length_squeeze_slots: "length (fst (squeeze_slots n s)) = n"
  by (induction n arbitrary: s) (simp_all add: Let_def case_prod_beta)


section \<open>Properties\<close>


lemma size_decode_encode:
  assumes "size_encode v s = (b, s')"
  shows "length b = 2 \<and> size_decode b s = (v, s')"
proof -
  obtain m where m: "next_mask s = (m, s')" and b: "b = u16_be (v XOR m)"
    using assms by (auto simp: size_encode_def split: prod.splits)
  have "be_u16 (b ! 0) (b ! 1) = v XOR m" unfolding b by (rule be_u16_nth)
  then show ?thesis using m b by (simp add: size_decode_def xor.assoc)
qed

lemma next_padding_len_lt: "unat (fst (next_padding_len s)) < 64"
proof -
  have "unat (m mod 64) < 64" for m :: u16 by (simp add: unat_mod)
  then show ?thesis by (simp add: next_padding_len_def case_prod_beta)
qed

end
