(* ===== verification/VmessChunk.thy ===== *)
theory VmessChunk
  imports Shake ChunkStream
begin

text \<open>
  The body stream of VMess (\<open>crates/omni-proto/src/proto/vmess/chunk.rs\<close>): chunks with
  masked sizes, random padding and optional AEAD encryption, the reader and the
  writer, and the pump tasks of \<open>vmess_duplex\<close> (\<open>outbound_artifacts.rs\<close>).
  The third-party primitives are the fields of \<open>vm_prims\<close>; \<open>vm_laws\<close> is what
  their documentation promises. Random bytes come from the argument \<open>rnd\<close>, which gives the
  n-th 64-byte draw of a writer.
\<close>

section \<open>Primitives\<close>

record vm_prims =
  vm_gcm_seal :: "bytes \<Rightarrow> bytes \<Rightarrow> bytes \<Rightarrow> bytes \<Rightarrow> (bytes \<times> bytes) option"
  vm_gcm_open :: "bytes \<Rightarrow> bytes \<Rightarrow> bytes \<Rightarrow> bytes \<Rightarrow> bytes \<Rightarrow> bytes option"
  vm_cc_seal :: "bytes \<Rightarrow> bytes \<Rightarrow> bytes \<Rightarrow> bytes \<Rightarrow> (bytes \<times> bytes) option"
  vm_cc_open :: "bytes \<Rightarrow> bytes \<Rightarrow> bytes \<Rightarrow> bytes \<Rightarrow> bytes \<Rightarrow> bytes option"
  vm_sha256 :: "bytes \<Rightarrow> bytes"
  vm_hmac_sha256 :: "bytes \<Rightarrow> bytes \<Rightarrow> bytes"
  vm_aes_encrypt :: "bytes \<Rightarrow> bytes \<Rightarrow> bytes"
  vm_aes_decrypt :: "bytes \<Rightarrow> bytes \<Rightarrow> bytes"

definition opens_sealed ::
    "(bytes \<Rightarrow> bytes \<Rightarrow> bytes \<Rightarrow> bytes \<Rightarrow> (bytes \<times> bytes) option) \<Rightarrow>
     (bytes \<Rightarrow> bytes \<Rightarrow> bytes \<Rightarrow> bytes \<Rightarrow> bytes \<Rightarrow> bytes option) \<Rightarrow> bool" where
  "opens_sealed sl op \<longleftrightarrow>
    (\<forall>k n a p. length p \<le> 65536 \<longrightarrow>
      (\<exists>ct tag. sl k n a p = Some (ct, tag) \<and> length ct = length p \<and> length tag = 16
        \<and> op k n a ct tag = Some p))"

definition vm_laws :: "vm_prims \<Rightarrow> bool" where
  "vm_laws P \<longleftrightarrow>
    opens_sealed (vm_gcm_seal P) (vm_gcm_open P) \<and> opens_sealed (vm_cc_seal P) (vm_cc_open P)
    \<and> (\<forall>d. length (vm_sha256 P d) = 32) \<and> (\<forall>k d. length (vm_hmac_sha256 P k d) = 32)
    \<and> (\<forall>k b. length b = 16 \<longrightarrow> length (vm_aes_encrypt P k b) = 16 \<and> vm_aes_decrypt P k (vm_aes_encrypt P k b) = b)"

section \<open>Chunk state\<close>

definition MAX_CHUNK :: nat where "MAX_CHUNK = 0x3FFF"

datatype chunk_security = SecNone | SecGcm | SecChaCha

record chunk_keys =
  ck_key :: bytes
  ck_iv :: bytes

definition nonce_for :: "chunk_keys \<Rightarrow> u16 \<Rightarrow> bytes" where
  "nonce_for k counter = u16_be counter @ slice 2 12 (ck_iv k)"

text \<open>The fields the reader and the writer have in common.\<close>

record chunk_state =
  cs_keys :: chunk_keys
  cs_security :: chunk_security
  cs_masking :: bool
  cs_padding :: bool
  cs_parser :: shake128
  cs_counter :: u16

definition chunk_state_new :: "chunk_keys \<Rightarrow> chunk_security \<Rightarrow> bool \<Rightarrow> bool \<Rightarrow> chunk_state" where
  "chunk_state_new keys sec masking padding =
    \<lparr>cs_keys = keys, cs_security = sec, cs_masking = masking, cs_padding = padding,
     cs_parser = size_parser_new (ck_iv keys), cs_counter = 0\<rparr>"

definition overhead :: "chunk_security \<Rightarrow> nat" where
  "overhead sec = (case sec of SecNone \<Rightarrow> 0 | _ \<Rightarrow> 16)"

definition next_nonce :: "chunk_state \<Rightarrow> bytes option \<times> chunk_state" where
  "next_nonce st =
    (case cs_security st of
       SecNone \<Rightarrow> (None, st)
     | _ \<Rightarrow> (Some (nonce_for (cs_keys st) (cs_counter st)), st\<lparr>cs_counter := cs_counter st + 1\<rparr>))"

definition draw_padding :: "bool \<Rightarrow> chunk_state \<Rightarrow> nat \<times> chunk_state" where
  "draw_padding wanted st =
    (if wanted then (case next_padding_len (cs_parser st) of (p, s) \<Rightarrow> (unat p, st\<lparr>cs_parser := s\<rparr>))
     else (0, st))"

definition put_size :: "u16 \<Rightarrow> chunk_state \<Rightarrow> bytes \<times> chunk_state" where
  "put_size v st =
    (if cs_masking st then (case size_encode v (cs_parser st) of (b, s) \<Rightarrow> (b, st\<lparr>cs_parser := s\<rparr>))
     else (u16_be v, st))"

definition get_size :: "bytes \<Rightarrow> chunk_state \<Rightarrow> u16 \<times> chunk_state" where
  "get_size b st =
    (if cs_masking st then (case size_decode b (cs_parser st) of (v, s) \<Rightarrow> (v, st\<lparr>cs_parser := s\<rparr>))
     else (be_u16 (b ! 0) (b ! 1), st))"

text \<open>\<open>aead_seal_gcm\<close>, \<open>aead_seal_chacha\<close> and their counterparts; the key of ChaCha20
  is the SHA-256 digest of the 16-byte key.\<close>

definition chacha_key :: "vm_prims \<Rightarrow> bytes \<Rightarrow> bytes" where
  "chacha_key P key16 = vm_sha256 P key16"

definition chunk_seal :: "vm_prims \<Rightarrow> chunk_state \<Rightarrow> bytes \<Rightarrow> bytes \<Rightarrow> bytes option" where
  "chunk_seal P st nonce pt =
    (case cs_security st of
       SecNone \<Rightarrow> Some pt
     | SecGcm \<Rightarrow> map_option (\<lambda>(ct, tag). ct @ tag) (vm_gcm_seal P (ck_key (cs_keys st)) nonce [] pt)
     | SecChaCha \<Rightarrow> map_option (\<lambda>(ct, tag). ct @ tag)
         (vm_cc_seal P (chacha_key P (ck_key (cs_keys st))) nonce [] pt))"

definition chunk_open :: "vm_prims \<Rightarrow> chunk_state \<Rightarrow> bytes \<Rightarrow> bytes \<Rightarrow> bytes option" where
  "chunk_open P st nonce data =
    (if length data < 16 then None
     else let ct = take (length data - 16) data; tag = drop (length data - 16) data in
       (case cs_security st of
          SecNone \<Rightarrow> None
        | SecGcm \<Rightarrow> vm_gcm_open P (ck_key (cs_keys st)) nonce [] ct tag
        | SecChaCha \<Rightarrow> vm_cc_open P (chacha_key P (ck_key (cs_keys st))) nonce [] ct tag))"

section \<open>Reading\<close>

record chunk_reader =
  cr_inner :: bytes
  cr_st :: chunk_state
  cr_pending :: bytes
  cr_ppos :: nat
  cr_eof :: bool

definition chunk_reader_new :: "bytes \<Rightarrow> chunk_state \<Rightarrow> chunk_reader" where
  "chunk_reader_new inner st =
    \<lparr>cr_inner = inner, cr_st = st, cr_pending = [], cr_ppos = 0, cr_eof = False\<rparr>"

definition read_exact_vec :: "nat \<Rightarrow> chunk_reader \<Rightarrow> (io_error + bytes) \<times> chunk_reader" where
  "read_exact_vec n r =
    (if n \<le> length (cr_inner r) then (Inr (take n (cr_inner r)), r\<lparr>cr_inner := drop n (cr_inner r)\<rparr>)
     else (Inl early_eof, r\<lparr>cr_inner := []\<rparr>))"

text \<open>The payload and the padding of a chunk whose size has been decoded.\<close>

definition read_body :: "vm_prims \<Rightarrow> nat \<Rightarrow> nat \<Rightarrow> chunk_reader \<Rightarrow> (io_error + unit) \<times> chunk_reader" where
  "read_body P payload_ct padding_len r =
    (case read_exact_vec payload_ct r of
       (Inl e, r1) \<Rightarrow> (Inl e, r1)
     | (Inr buf, r1) \<Rightarrow>
         (case (if padding_len > 0 then read_exact_vec padding_len r1 else (Inr [], r1)) of
            (Inl e, r2) \<Rightarrow> (Inl e, r2)
          | (Inr _, r2) \<Rightarrow>
              (case next_nonce (cr_st r2) of
                 (None, st) \<Rightarrow> (Inr (), r2\<lparr>cr_pending := buf, cr_ppos := 0\<rparr>)
               | (Some nonce, st) \<Rightarrow>
                   (case chunk_open P (cr_st r2) nonce buf of
                      None \<Rightarrow> (Inl (invalid_data ''vmess: chunk decrypt failed''), r2\<lparr>cr_st := st\<rparr>)
                    | Some plain \<Rightarrow>
                        (Inr (), r2\<lparr>cr_st := st, cr_pending := plain, cr_ppos := 0\<rparr>)))))"

definition vm_fill_chunk :: "vm_prims \<Rightarrow> chunk_reader \<Rightarrow> (io_error + unit) \<times> chunk_reader" where
  "vm_fill_chunk P r =
    (case draw_padding (cs_padding (cr_st r)) (cr_st r) of (padding_len, st) \<Rightarrow>
     case read_exact_vec 2 (r\<lparr>cr_st := st\<rparr>) of
       (Inl e, r1) \<Rightarrow> (Inl e, r1)
     | (Inr masked, r1) \<Rightarrow>
         (case get_size masked (cr_st r1) of (decoded, st1) \<Rightarrow>
          let r2 = r1\<lparr>cr_st := st1\<rparr>; o_h = overhead (cs_security st1) in
          if unat decoded = o_h + padding_len then (Inr (), r2\<lparr>cr_eof := True\<rparr>)
          else if unat decoded < o_h + padding_len
          then (Inl (invalid_data ''vmess: invalid chunk size''), r2)
          else read_body P (unat decoded - padding_len) padding_len r2))"

lemma read_exact_vec_shorter:
  "read_exact_vec n r = (Inr x, r') \<Longrightarrow> length (cr_inner r) = n + length (cr_inner r')"
  by (auto simp: read_exact_vec_def split: if_splits)

lemma read_exact_vec_le: "length (cr_inner (snd (read_exact_vec n r))) \<le> length (cr_inner r)"
  by (simp add: read_exact_vec_def)

lemma read_body_le: "length (cr_inner (snd (read_body P n m r))) \<le> length (cr_inner r)"
  using read_exact_vec_le [of n r] read_exact_vec_le [of m "snd (read_exact_vec n r)"]
  by (auto simp: read_body_def split: sum.splits prod.splits option.splits if_splits)

lemma vm_fill_chunk_shorter:
  assumes "vm_fill_chunk P r = (Inr u, r')"
  shows "length (cr_inner r') < length (cr_inner r)"
proof -
  obtain padding_len st where d: "draw_padding (cs_padding (cr_st r)) (cr_st r) = (padding_len, st)"
    by fastforce
  then obtain masked r1 where 1: "read_exact_vec 2 (r\<lparr>cr_st := st\<rparr>) = (Inr masked, r1)"
    using assms by (auto simp: vm_fill_chunk_def split: prod.splits sum.splits)
  obtain decoded st1 where g: "get_size masked (cr_st r1) = (decoded, st1)" by fastforce
  have "r' = r1\<lparr>cr_st := st1, cr_eof := True\<rparr>
      \<or> r' = snd (read_body P (unat decoded - padding_len) padding_len (r1\<lparr>cr_st := st1\<rparr>))"
    using assms d 1 g by (auto simp: vm_fill_chunk_def Let_def split: if_splits)
  then have "length (cr_inner r') \<le> length (cr_inner r1)"
    using read_body_le [of P _ padding_len "r1\<lparr>cr_st := st1\<rparr>"] by auto
  then show ?thesis using read_exact_vec_shorter [OF 1] by simp
qed

function vm_read_data :: "vm_prims \<Rightarrow> nat \<Rightarrow> chunk_reader \<Rightarrow> (io_error + bytes) \<times> chunk_reader" where
  "vm_read_data P out_len r =
    (if cr_ppos r < length (cr_pending r) then
       (let n = min out_len (length (cr_pending r) - cr_ppos r)
        in (Inr (slice (cr_ppos r) (cr_ppos r + n) (cr_pending r)), r\<lparr>cr_ppos := cr_ppos r + n\<rparr>))
     else if cr_eof r then (Inr [], r)
     else (case vm_fill_chunk P r of
         (Inl e, r1) \<Rightarrow> (Inl e, r1)
       | (Inr u, r1) \<Rightarrow> vm_read_data P out_len r1))"
  by auto
termination
  by (relation "measure (\<lambda>(_, _, r). length (cr_inner r))") (auto dest: vm_fill_chunk_shorter [OF sym])

declare vm_read_data.simps [simp del]

lemma vm_read_data_progress:
  "vm_read_data P n r = (Inr d, r') \<Longrightarrow> d \<noteq> [] \<Longrightarrow>
    length (cr_inner r') < length (cr_inner r)
    \<or> length (cr_inner r') = length (cr_inner r)
      \<and> length (cr_pending r') - cr_ppos r' < length (cr_pending r) - cr_ppos r"
proof (induction P n r rule: vm_read_data.induct)
  case (1 P n r)
  show ?case
  proof (cases "cr_ppos r < length (cr_pending r) \<or> cr_eof r")
    case True
    then show ?thesis
      using 1(2,3) by (subst (asm) vm_read_data.simps) (auto simp: Let_def slice_def min_def split: if_splits)
  next
    case False
    then obtain u r1 where f: "vm_fill_chunk P r = (Inr u, r1)" and d: "vm_read_data P n r1 = (Inr d, r')"
      using 1(2) by (subst (asm) vm_read_data.simps) (auto split: prod.splits sum.splits)
    have "length (cr_inner r') \<le> length (cr_inner r1)"
      using 1(1) [of "Inr u" r1] f d False 1(3) by force
    then show ?thesis using vm_fill_chunk_shorter [OF f] by simp
  qed
qed

text \<open>The reading task of \<open>vmess_duplex\<close>: the messages it sends into the channel.\<close>

function vm_read_task :: "vm_prims \<Rightarrow> chunk_reader \<Rightarrow> (io_error + bytes) list" where
  "vm_read_task P r =
    (case vm_read_data P 16384 r of
       (Inl e, r1) \<Rightarrow> [Inl e, Inr []]
     | (Inr d, r1) \<Rightarrow> if d = [] then [Inr []] else Inr d # vm_read_task P r1)"
  by auto
termination
  by (relation "measures [\<lambda>(_, r). length (cr_inner r), \<lambda>(_, r). length (cr_pending r) - cr_ppos r]")
    (auto dest!: vm_read_data_progress [OF sym])

declare vm_read_task.simps [simp del]

section \<open>Writing\<close>

record chunk_writer =
  cw_out :: bytes
  cw_st :: chunk_state
  cw_draws :: nat

definition put_padding :: "(nat \<Rightarrow> bytes) \<Rightarrow> nat \<Rightarrow> chunk_writer \<Rightarrow> chunk_writer" where
  "put_padding rnd padding_len w =
    (if padding_len > 0
     then w\<lparr>cw_out := cw_out w @ take padding_len (rnd (cw_draws w)), cw_draws := cw_draws w + 1\<rparr>
     else w)"

definition encrypt_failed :: io_error where
  "encrypt_failed = io_err ''vmess: encrypt failed''"

text \<open>One iteration of the loop over the pieces of the data. An error leaves what was
  written before it.\<close>

definition vm_write_piece ::
    "vm_prims \<Rightarrow> (nat \<Rightarrow> bytes) \<Rightarrow> bytes \<Rightarrow> chunk_writer \<Rightarrow> (io_error + unit) \<times> chunk_writer" where
  "vm_write_piece P rnd piece w =
    (case draw_padding (cs_padding (cw_st w) \<and> piece \<noteq> []) (cw_st w) of (padding_len, st1) \<Rightarrow>
     let total = length piece + overhead (cs_security st1) + padding_len in
     if total > 65535
     then (Inl (invalid_data ''vmess: chunk too large''), w\<lparr>cw_st := st1\<rparr>)
     else (case put_size (word_of_nat total) st1 of (size_bytes, st2) \<Rightarrow>
       let w1 = w\<lparr>cw_out := cw_out w @ size_bytes, cw_st := st2\<rparr> in
       case next_nonce st2 of (nonce, st3) \<Rightarrow>
       (case (case nonce of None \<Rightarrow> Some piece | Some n \<Rightarrow> chunk_seal P st2 n piece) of
          None \<Rightarrow> (Inl encrypt_failed, w1\<lparr>cw_st := st3\<rparr>)
        | Some payload \<Rightarrow>
            (Inr (), put_padding rnd padding_len (w1\<lparr>cw_out := cw_out w1 @ payload, cw_st := st3\<rparr>)))))"

text \<open>The end marker: an empty chunk.\<close>

definition vm_write_end ::
    "vm_prims \<Rightarrow> (nat \<Rightarrow> bytes) \<Rightarrow> chunk_writer \<Rightarrow> (io_error + unit) \<times> chunk_writer" where
  "vm_write_end P rnd w =
    (case draw_padding (cs_padding (cw_st w)) (cw_st w) of (padding_len, st1) \<Rightarrow>
     case put_size (word_of_nat (overhead (cs_security st1) + padding_len)) st1 of (size_bytes, st2) \<Rightarrow>
     let w1 = w\<lparr>cw_out := cw_out w @ size_bytes, cw_st := st2\<rparr> in
     case next_nonce st2 of (nonce, st3) \<Rightarrow>
     (case (case nonce of None \<Rightarrow> Some [] | Some n \<Rightarrow> chunk_seal P st2 n []) of
        None \<Rightarrow> (Inl encrypt_failed, w1\<lparr>cw_st := st3\<rparr>)
      | Some payload \<Rightarrow>
          (Inr (), put_padding rnd padding_len (w1\<lparr>cw_out := cw_out w1 @ payload, cw_st := st3\<rparr>))))"

fun vm_write_pieces ::
    "vm_prims \<Rightarrow> (nat \<Rightarrow> bytes) \<Rightarrow> bytes list \<Rightarrow> chunk_writer \<Rightarrow> (io_error + unit) \<times> chunk_writer" where
  "vm_write_pieces P rnd [] w = (Inr (), w)"
| "vm_write_pieces P rnd (p # ps) w =
    (case vm_write_piece P rnd p w of
       (Inl e, w1) \<Rightarrow> (Inl e, w1)
     | (Inr _, w1) \<Rightarrow> vm_write_pieces P rnd ps w1)"

definition vm_write_chunk ::
    "vm_prims \<Rightarrow> (nat \<Rightarrow> bytes) \<Rightarrow> bytes \<Rightarrow> chunk_writer \<Rightarrow> (io_error + unit) \<times> chunk_writer" where
  "vm_write_chunk P rnd data w =
    (case vm_write_pieces P rnd (chunks MAX_CHUNK data) w of
       (Inl e, w1) \<Rightarrow> (Inl e, w1)
     | (Inr _, w1) \<Rightarrow> if data = [] then vm_write_end P rnd w1 else (Inr (), w1))"

text \<open>The writing task of \<open>vmess_duplex\<close>.\<close>

fun vm_write_task ::
    "vm_prims \<Rightarrow> (nat \<Rightarrow> bytes) \<Rightarrow> bytes list \<Rightarrow> chunk_writer \<Rightarrow> (io_error + unit) \<times> chunk_writer" where
  "vm_write_task P rnd [] w = vm_write_chunk P rnd [] w"
| "vm_write_task P rnd (v # vs) w =
    (if v = [] then vm_write_task P rnd vs w
     else (case vm_write_chunk P rnd v w of
         (Inr _, w1) \<Rightarrow> vm_write_task P rnd vs w1
       | (Inl _, w1) \<Rightarrow> vm_write_chunk P rnd [] w1))"


section \<open>The reader undoes the writer\<close>

definition vm_in_step :: "chunk_reader \<Rightarrow> chunk_state \<Rightarrow> bytes \<Rightarrow> bool" where
  "vm_in_step r st rest \<longleftrightarrow>
    cr_st r = st \<and> cr_inner r = rest \<and> cr_ppos r = length (cr_pending r) \<and> \<not> cr_eof r"

lemma draw_padding_facts:
  assumes "draw_padding wanted st = (pl, st')"
  shows "pl < 64 \<and> cs_keys st' = cs_keys st \<and> cs_security st' = cs_security st
    \<and> cs_masking st' = cs_masking st \<and> cs_padding st' = cs_padding st \<and> cs_counter st' = cs_counter st"
  using assms next_padding_len_lt [of "cs_parser st"]
  by (auto simp: draw_padding_def split: if_splits prod.splits)

lemma put_size_facts:
  assumes "put_size v st = (b, st')"
  shows "length b = 2 \<and> get_size b st = (v, st') \<and> cs_keys st' = cs_keys st \<and> cs_security st' = cs_security st"
proof (cases "cs_masking st")
  case True
  then show ?thesis
    using assms size_decode_encode [of v "cs_parser st"]
    by (auto simp: put_size_def get_size_def split: prod.splits)
next
  case False
  then have "b = u16_be v" "st' = st" using assms by (simp_all add: put_size_def)
  then show ?thesis using False be_u16_nth [of v] by (simp add: get_size_def del: be_u16_nth)
qed

lemma opens_sealedE:
  assumes "opens_sealed sl op" "length p \<le> 65536"
  obtains ct tag where "sl k n a p = Some (ct, tag)" "length ct = length p" "length tag = 16" "op k n a ct tag = Some p"
  using assms unfolding opens_sealed_def by blast

lemma chunk_seal_open:
  assumes "vm_laws P" "length p \<le> 65536" "cs_security st \<noteq> SecNone"
  obtains d where "chunk_seal P st n p = Some d" "length d = length p + 16" "chunk_open P st n d = Some p"
proof (cases "cs_security st")
  case SecGcm
  obtain ct tag where "vm_gcm_seal P (ck_key (cs_keys st)) n [] p = Some (ct, tag)" "length ct = length p"
    "length tag = 16" "vm_gcm_open P (ck_key (cs_keys st)) n [] ct tag = Some p"
    using opens_sealedE [of "vm_gcm_seal P" "vm_gcm_open P"] assms(1,2) unfolding vm_laws_def by metis
  then show ?thesis using SecGcm by (intro that [of "ct @ tag"]) (simp_all add: chunk_seal_def chunk_open_def Let_def)
next
  case SecChaCha
  let ?k = "chacha_key P (ck_key (cs_keys st))"
  obtain ct tag where "vm_cc_seal P ?k n [] p = Some (ct, tag)" "length ct = length p"
    "length tag = 16" "vm_cc_open P ?k n [] ct tag = Some p"
    using opens_sealedE [of "vm_cc_seal P" "vm_cc_open P"] assms(1,2) unfolding vm_laws_def by metis
  then show ?thesis using SecChaCha by (intro that [of "ct @ tag"]) (simp_all add: chunk_seal_def chunk_open_def Let_def)
qed (use assms(3) in simp)

text \<open>What is written for the payload, and what the reader makes of it: the two sides
  draw the same nonce.\<close>

lemma sealed_payload:
  assumes "vm_laws P" "length p \<le> 65536" "next_nonce st = (nonce, st')"
  obtains d where "(case nonce of None \<Rightarrow> Some p | Some n \<Rightarrow> chunk_seal P st n p) = Some d"
    and "length d = length p + overhead (cs_security st)"
    and "\<And>n. nonce = Some n \<Longrightarrow> chunk_open P st n d = Some p"
    and "nonce = None \<Longrightarrow> d = p \<and> st' = st"
proof (cases "cs_security st")
  case SecNone
  then show ?thesis using assms(3) by (intro that [of p]) (auto simp: next_nonce_def overhead_def)
next
  case SecGcm
  then obtain n where "nonce = Some n" using assms(3) by (auto simp: next_nonce_def)
  then show ?thesis
    using chunk_seal_open [OF assms(1,2), of st n] SecGcm that by (simp add: overhead_def) metis
next
  case SecChaCha
  then obtain n where "nonce = Some n" using assms(3) by (auto simp: next_nonce_def)
  then show ?thesis
    using chunk_seal_open [OF assms(1,2), of st n] SecChaCha that by (simp add: overhead_def) metis
qed

lemma read_exact_vec_append:
  "length a = n \<Longrightarrow> cr_inner r = a @ rest \<Longrightarrow> read_exact_vec n r = (Inr a, r\<lparr>cr_inner := rest\<rparr>)"
  by (simp add: read_exact_vec_def)

lemma read_body_sealed:
  assumes "cr_inner r = d @ pad @ rest" "length pad = pl"
    and "next_nonce (cr_st r) = (nonce, st')"
    and "\<And>n. nonce = Some n \<Longrightarrow> chunk_open P (cr_st r) n d = Some p"
    and "nonce = None \<Longrightarrow> d = p \<and> st' = cr_st r"
  shows "read_body P (length d) pl r =
    (Inr (), r\<lparr>cr_inner := rest, cr_st := st', cr_pending := p, cr_ppos := 0\<rparr>)"
proof -
  have 1: "read_exact_vec (length d) r = (Inr d, r\<lparr>cr_inner := pad @ rest\<rparr>)"
    by (rule read_exact_vec_append) (simp_all add: assms(1))
  have 2: "(if pl > 0 then read_exact_vec pl (r\<lparr>cr_inner := pad @ rest\<rparr>) else (Inr [], r\<lparr>cr_inner := pad @ rest\<rparr>))
      = (Inr pad, r\<lparr>cr_inner := rest\<rparr>)"
    using assms(2) read_exact_vec_append [of pad pl "r\<lparr>cr_inner := pad @ rest\<rparr>" rest] by auto
  show ?thesis
    unfolding read_body_def 1 using assms(3-5)
    by (cases nonce) (auto simp: 2)
qed

lemma put_padding_out:
  assumes "\<forall>i. length (rnd i) = 64" "pl < 64"
  shows "\<exists>pad k. length pad = pl \<and> put_padding rnd pl w = w\<lparr>cw_out := cw_out w @ pad, cw_draws := k\<rparr>"
proof (cases "pl > 0")
  case True
  then show ?thesis
    using assms by (intro exI [of _ "take pl (rnd (cw_draws w))"] exI [of _ "cw_draws w + 1"])
      (simp add: put_padding_def)
next
  case False
  then show ?thesis by (intro exI [of _ "[]"] exI [of _ "cw_draws w"]) (simp add: put_padding_def)
qed

lemma unat_u16_of_nat: "n \<le> 65535 \<Longrightarrow> unat (word_of_nat n :: u16) = n"
  by (simp add: unat_of_nat)

lemma overhead_le: "overhead sec \<le> 16"
  by (simp add: overhead_def split: chunk_security.split)

text \<open>Writing one piece produces bytes from which a reader in step fills exactly the
  piece, and both sides end in the same state.\<close>

lemma vm_write_piece_filled:
  assumes laws: "vm_laws P" "\<forall>i. length (rnd i) = 64" and p: "p \<noteq> []" "length p \<le> MAX_CHUNK"
  obtains b st k where
    "vm_write_piece P rnd p w = (Inr (), w\<lparr>cw_out := cw_out w @ b, cw_st := st, cw_draws := k\<rparr>)"
    and "\<And>r rest. vm_in_step r (cw_st w) (b @ rest) \<Longrightarrow>
      vm_fill_chunk P r = (Inr (), r\<lparr>cr_inner := rest, cr_st := st, cr_pending := p, cr_ppos := 0\<rparr>)"
proof -
  obtain pl st1 where d: "draw_padding (cs_padding (cw_st w)) (cw_st w) = (pl, st1)" by fastforce
  note df = draw_padding_facts [OF d]
  let ?total = "length p + overhead (cs_security st1) + pl"
  have tot: "?total \<le> 65535" using df p(2) overhead_le [of "cs_security st1"] by (simp add: MAX_CHUNK_def)
  obtain sb st2 where s: "put_size (word_of_nat ?total) st1 = (sb, st2)" by fastforce
  note sf = put_size_facts [OF s]
  obtain nonce st3 where n: "next_nonce st2 = (nonce, st3)" by fastforce
  obtain q where q: "(case nonce of None \<Rightarrow> Some p | Some n \<Rightarrow> chunk_seal P st2 n p) = Some q"
    "length q = length p + overhead (cs_security st2)"
    "\<And>n. nonce = Some n \<Longrightarrow> chunk_open P st2 n q = Some p" "nonce = None \<Longrightarrow> q = p \<and> st3 = st2"
    using sealed_payload [OF laws(1) _ n, of p] p(2) by (auto simp: MAX_CHUNK_def)
  obtain pad k where pad: "length pad = pl" "put_padding rnd pl (w\<lparr>cw_out := (cw_out w @ sb) @ q, cw_st := st3\<rparr>)
      = w\<lparr>cw_out := (cw_out w @ sb) @ q, cw_st := st3\<rparr>\<lparr>cw_out := ((cw_out w @ sb) @ q) @ pad, cw_draws := k\<rparr>"
    using put_padding_out [OF laws(2), of pl "w\<lparr>cw_out := (cw_out w @ sb) @ q, cw_st := st3\<rparr>"] df by fastforce
  show thesis
  proof (rule that [of k st3 "sb @ q @ pad"])
    show "vm_write_piece P rnd p w = (Inr (), w\<lparr>cw_out := cw_out w @ sb @ q @ pad, cw_st := st3, cw_draws := k\<rparr>)"
      using d p(1) tot s n q(1) pad by (simp add: vm_write_piece_def Let_def)
    fix r rest
    assume r: "vm_in_step r (cw_st w) ((sb @ q @ pad) @ rest)"
    have 1: "read_exact_vec 2 (r\<lparr>cr_st := st1\<rparr>) = (Inr sb, r\<lparr>cr_st := st1, cr_inner := q @ pad @ rest\<rparr>)"
      using r sf by (subst read_exact_vec_append [of sb]) (simp_all add: vm_in_step_def)
    have len: "length q = ?total - pl" "length p \<noteq> 0" using q(2) sf p(1) by simp_all
    have 2: "read_body P (length q) pl (r\<lparr>cr_inner := q @ pad @ rest, cr_st := st2\<rparr>) =
        (Inr (), r\<lparr>cr_inner := rest, cr_st := st3, cr_pending := p, cr_ppos := 0\<rparr>)"
      using read_body_sealed [of "r\<lparr>cr_inner := q @ pad @ rest, cr_st := st2\<rparr>" q pad rest pl nonce st3 P p]
        pad(1) n q(3,4) by simp
    show "vm_fill_chunk P r = (Inr (), r\<lparr>cr_inner := rest, cr_st := st3, cr_pending := p, cr_ppos := 0\<rparr>)"
      using r d 1 2 sf len tot unat_u16_of_nat [OF tot] by (simp add: vm_fill_chunk_def vm_in_step_def Let_def)
  qed
qed

lemma vm_write_piece_carries:
  assumes "vm_laws P" "\<forall>i. length (rnd i) = 64" "p \<noteq> []" "length p \<le> MAX_CHUNK"
  obtains b st k where
    "vm_write_piece P rnd p w = (Inr (), w\<lparr>cw_out := cw_out w @ b, cw_st := st, cw_draws := k\<rparr>)"
    and "carries (vm_read_task P) vm_in_step (cw_st w) b st [p]"
proof -
  obtain b st k where w: "vm_write_piece P rnd p w = (Inr (), w\<lparr>cw_out := cw_out w @ b, cw_st := st, cw_draws := k\<rparr>)"
    and f: "\<And>r rest. vm_in_step r (cw_st w) (b @ rest) \<Longrightarrow>
      vm_fill_chunk P r = (Inr (), r\<lparr>cr_inner := rest, cr_st := st, cr_pending := p, cr_ppos := 0\<rparr>)"
    by (rule vm_write_piece_filled [OF assms, of w]) blast
  have "\<exists>r'. vm_in_step r' st rest \<and> vm_read_task P r = map Inr [p] @ vm_read_task P r'"
    if s: "vm_in_step r (cw_st w) (b @ rest)" for r rest
  proof -
    let ?r = "r\<lparr>cr_inner := rest, cr_st := st, cr_pending := p, cr_ppos := 0\<rparr>"
    have "vm_read_data P 16384 r = vm_read_data P 16384 ?r"
      using f [OF s] s by (subst vm_read_data.simps) (simp add: vm_in_step_def)
    also have "\<dots> = (Inr p, ?r\<lparr>cr_ppos := length p\<rparr>)"
      using assms(3,4) by (subst vm_read_data.simps) (simp add: slice_def Let_def min_absorb2 MAX_CHUNK_def)
    finally have "vm_read_task P r = map Inr [p] @ vm_read_task P (?r\<lparr>cr_ppos := length p\<rparr>)"
      using assms(3) by (subst vm_read_task.simps) simp
    moreover have "vm_in_step (?r\<lparr>cr_ppos := length p\<rparr>) st rest"
      using s by (simp add: vm_in_step_def)
    ultimately show ?thesis by blast
  qed
  then have "carries (vm_read_task P) vm_in_step (cw_st w) b st [p]" by (simp add: carries_def)
  with w show thesis by (rule that)
qed


lemma vm_write_pieces_carries:
  assumes laws: "vm_laws P" "\<forall>i. length (rnd i) = 64"
  shows "(\<And>p. p \<in> set ps \<Longrightarrow> p \<noteq> [] \<and> length p \<le> MAX_CHUNK) \<Longrightarrow>
    \<exists>b st k. vm_write_pieces P rnd ps w = (Inr (), w\<lparr>cw_out := cw_out w @ b, cw_st := st, cw_draws := k\<rparr>)
      \<and> carries (vm_read_task P) vm_in_step (cw_st w) b st ps"
proof (induction ps arbitrary: w)
  case Nil
  show ?case
    by (rule exI [of _ "[]"], rule exI [of _ "cw_st w"], rule exI [of _ "cw_draws w"]) (simp add: carries_Nil)
next
  case (Cons p ps)
  obtain b st k where b: "vm_write_piece P rnd p w = (Inr (), w\<lparr>cw_out := cw_out w @ b, cw_st := st, cw_draws := k\<rparr>)"
    and c: "carries (vm_read_task P) vm_in_step (cw_st w) b st [p]"
    using vm_write_piece_carries [OF laws] Cons.prems [of p] by (metis list.set_intros(1))
  let ?w = "w\<lparr>cw_out := cw_out w @ b, cw_st := st, cw_draws := k\<rparr>"
  obtain b' st' k' where "vm_write_pieces P rnd ps ?w
      = (Inr (), ?w\<lparr>cw_out := cw_out ?w @ b', cw_st := st', cw_draws := k'\<rparr>)"
    and "carries (vm_read_task P) vm_in_step (cw_st ?w) b' st' ps"
    using Cons.IH [of ?w] Cons.prems by (meson list.set_intros(2))
  then show ?case
    using b carries_append [OF c, of b' st' ps]
    by (intro exI [of _ "b @ b'"] exI [of _ st'] exI [of _ k']) simp
qed

lemma vm_write_end_ends:
  assumes laws: "vm_laws P" "\<forall>i. length (rnd i) = 64"
  shows "\<exists>b w'. vm_write_end P rnd w = (Inr (), w') \<and> cw_out w' = cw_out w @ b
    \<and> (\<forall>r rest. vm_in_step r (cw_st w) (b @ rest) \<longrightarrow> vm_read_task P r = [Inr []])"
proof -
  obtain pl st1 where d: "draw_padding (cs_padding (cw_st w)) (cw_st w) = (pl, st1)" by fastforce
  note df = draw_padding_facts [OF d]
  let ?total = "overhead (cs_security st1) + pl"
  have tot: "?total \<le> 65535" using df overhead_le [of "cs_security st1"] by simp
  obtain sb st2 where s: "put_size (word_of_nat ?total) st1 = (sb, st2)" by fastforce
  note sf = put_size_facts [OF s]
  obtain nonce st3 where n: "next_nonce st2 = (nonce, st3)" by fastforce
  obtain q where q: "(case nonce of None \<Rightarrow> Some [] | Some n \<Rightarrow> chunk_seal P st2 n []) = Some q"
    using sealed_payload [OF laws(1) _ n, of "[]"] by auto
  let ?w = "w\<lparr>cw_out := (cw_out w @ sb) @ q, cw_st := st3\<rparr>"
  obtain pad k where pad: "put_padding rnd pl ?w = ?w\<lparr>cw_out := cw_out ?w @ pad, cw_draws := k\<rparr>"
    using put_padding_out [OF laws(2), of pl ?w] df by blast
  have "vm_read_task P r = [Inr []]" if r: "vm_in_step r (cw_st w) ((sb @ q @ pad) @ rest)" for r rest
  proof -
    have 1: "read_exact_vec 2 (r\<lparr>cr_st := st1\<rparr>) = (Inr sb, r\<lparr>cr_st := st1, cr_inner := q @ pad @ rest\<rparr>)"
      using r sf by (subst read_exact_vec_append [of sb]) (simp_all add: vm_in_step_def)
    obtain r1 where f: "vm_fill_chunk P r = (Inr (), r1)" "cr_eof r1" "cr_ppos r1 = length (cr_pending r1)"
      using r d 1 sf tot unat_u16_of_nat [OF tot] by (simp add: vm_fill_chunk_def vm_in_step_def Let_def)
    then have "vm_read_data P 16384 r = vm_read_data P 16384 r1"
      using r by (subst vm_read_data.simps) (simp add: vm_in_step_def)
    also have "\<dots> = (Inr [], r1)" using f by (subst vm_read_data.simps) simp
    finally show ?thesis by (subst vm_read_task.simps) simp
  qed
  moreover have "vm_write_end P rnd w = (Inr (), ?w\<lparr>cw_out := cw_out ?w @ pad, cw_draws := k\<rparr>)"
    using d s n q pad by (simp add: vm_write_end_def Let_def)
  ultimately show ?thesis by (intro exI [of _ "sb @ q @ pad"]) auto
qed

lemma vm_write_chunk_carries:
  assumes "vm_laws P" "\<forall>i. length (rnd i) = 64" "v \<noteq> []"
  shows "\<exists>b st k. vm_write_chunk P rnd v w = (Inr (), w\<lparr>cw_out := cw_out w @ b, cw_st := st, cw_draws := k\<rparr>)
    \<and> carries (vm_read_task P) vm_in_step (cw_st w) b st (chunks MAX_CHUNK v)"
proof -
  obtain b st k where "vm_write_pieces P rnd (chunks MAX_CHUNK v) w
      = (Inr (), w\<lparr>cw_out := cw_out w @ b, cw_st := st, cw_draws := k\<rparr>)"
    "carries (vm_read_task P) vm_in_step (cw_st w) b st (chunks MAX_CHUNK v)"
    using vm_write_pieces_carries [OF assms(1,2), of "chunks MAX_CHUNK v" w] chunks_bounds by metis
  then show ?thesis using assms(3) by (intro exI [of _ b] exI [of _ st] exI [of _ k]) (simp add: vm_write_chunk_def)
qed

lemma vm_write_task_delivers:
  assumes laws: "vm_laws P" "\<forall>i. length (rnd i) = 64"
  shows "\<exists>b w'. vm_write_task P rnd vs w = (Inr (), w') \<and> cw_out w' = cw_out w @ b
    \<and> (\<forall>r rest. vm_in_step r (cw_st w) (b @ rest) \<longrightarrow>
        vm_read_task P r = map Inr (concat (map (chunks MAX_CHUNK) vs)) @ [Inr []])"
proof (induction vs arbitrary: w)
  case Nil
  then show ?case using vm_write_end_ends [OF laws, of w] by (simp add: vm_write_chunk_def)
next
  case (Cons v vs)
  show ?case
  proof (cases "v = []")
    case False
    obtain b st k where b: "vm_write_chunk P rnd v w = (Inr (), w\<lparr>cw_out := cw_out w @ b, cw_st := st, cw_draws := k\<rparr>)"
      and c: "carries (vm_read_task P) vm_in_step (cw_st w) b st (chunks MAX_CHUNK v)"
      using vm_write_chunk_carries [OF laws False] by blast
    let ?w = "w\<lparr>cw_out := cw_out w @ b, cw_st := st, cw_draws := k\<rparr>"
    obtain b' w' where w': "vm_write_task P rnd vs ?w = (Inr (), w')" "cw_out w' = cw_out ?w @ b'"
      and r': "\<And>r rest. vm_in_step r st (b' @ rest) \<Longrightarrow>
        vm_read_task P r = map Inr (concat (map (chunks MAX_CHUNK) vs)) @ [Inr []]"
      using Cons.IH [of ?w] by auto
    have "vm_read_task P r = map Inr (concat (map (chunks MAX_CHUNK) (v # vs))) @ [Inr []]"
      if "vm_in_step r (cw_st w) ((b @ b') @ rest)" for r rest
    proof -
      have "vm_in_step r (cw_st w) (b @ (b' @ rest))" using that by simp
      then obtain r1 where "vm_in_step r1 st (b' @ rest)"
        "vm_read_task P r = map Inr (chunks MAX_CHUNK v) @ vm_read_task P r1"
        by (rule carriesD [OF c])
      then show ?thesis using r' by simp
    qed
    then show ?thesis using b w' False by (intro exI [of _ "b @ b'"] exI [of _ w']) auto
  qed (use Cons.IH in simp)
qed


section \<open>Properties\<close>

text \<open>Property C10: whatever is written to a VMess body stream, with any cipher and with or
  without size masking and padding, the reader with the same keys delivers
  the same bytes in order, in pieces of at most 16383 bytes, and then the
  end of the stream; what follows the end marker is not looked at.\<close>

theorem vm_body_roundtrip:
  assumes "vm_laws P" "\<forall>i. length (rnd i) = 64" "st = chunk_state_new keys sec masking padding"
  shows "\<exists>w. vm_write_task P rnd vs \<lparr>cw_out = [], cw_st = st, cw_draws = 0\<rparr> = (Inr (), w)
    \<and> vm_read_task P (chunk_reader_new (cw_out w @ rest) st) =
      map Inr (concat (map (chunks MAX_CHUNK) vs)) @ [Inr []]"
proof -
  let ?w = "\<lparr>cw_out = [], cw_st = st, cw_draws = 0\<rparr>"
  obtain b w where w: "vm_write_task P rnd vs ?w = (Inr (), w)" "cw_out w = b"
    and r: "\<And>r rest. vm_in_step r st (b @ rest) \<Longrightarrow>
      vm_read_task P r = map Inr (concat (map (chunks MAX_CHUNK) vs)) @ [Inr []]"
    using vm_write_task_delivers [OF assms(1,2), of vs ?w] by auto
  have "vm_in_step (chunk_reader_new (b @ rest) st) st (b @ rest)"
    by (simp add: vm_in_step_def chunk_reader_new_def)
  then show ?thesis using w r by blast
qed

text \<open>Primitives that satisfy the laws, for the witnesses: a constant mask and tag,
  constant digests, and the identity as block cipher.\<close>

definition mask_prims :: vm_prims where
  "mask_prims =
    \<lparr>vm_gcm_seal = \<lambda>k n a p. Some (map (\<lambda>b. b XOR 0x55) p, replicate 16 0xA5),
     vm_gcm_open = \<lambda>k n a ct tag. if tag = replicate 16 0xA5 then Some (map (\<lambda>b. b XOR 0x55) ct) else None,
     vm_cc_seal = \<lambda>k n a p. Some (map (\<lambda>b. b XOR 0x33) p, replicate 16 0x5A),
     vm_cc_open = \<lambda>k n a ct tag. if tag = replicate 16 0x5A then Some (map (\<lambda>b. b XOR 0x33) ct) else None,
     vm_sha256 = \<lambda>d. replicate 32 1, vm_hmac_sha256 = \<lambda>k d. replicate 32 2,
     vm_aes_encrypt = \<lambda>k b. b, vm_aes_decrypt = \<lambda>k b. b\<rparr>"

lemma mask_prims_laws: "vm_laws mask_prims"
  by (simp add: vm_laws_def mask_prims_def opens_sealed_def o_def xor.assoc)

theorem vm_body_roundtrip_witness:
  "\<exists>w. vm_write_task mask_prims (\<lambda>i. replicate 64 9) [[1, 2], [3]]
      \<lparr>cw_out = [], cw_st = chunk_state_new \<lparr>ck_key = replicate 16 4, ck_iv = replicate 16 5\<rparr> SecGcm True True,
       cw_draws = 0\<rparr> = (Inr (), w)
    \<and> vm_read_task mask_prims (chunk_reader_new (cw_out w @ [7])
        (chunk_state_new \<lparr>ck_key = replicate 16 4, ck_iv = replicate 16 5\<rparr> SecGcm True True)) =
      map Inr (concat (map (chunks MAX_CHUNK) [[1, 2], [3]])) @ [Inr []]"
  by (rule vm_body_roundtrip [OF mask_prims_laws _ refl]) simp

end
