(* ===== verification/Vmess.thy ===== *)
theory Vmess
  imports VmessChunk Vless SsCrypto
begin

text \<open>
  The VMess handshake (\<open>crates/omni-proto/src/proto/vmess\<close>): the request command with
  its FNV checksum (\<open>mod.rs\<close>), the key derivation and the sealed header
  (\<open>aead_header.rs\<close>), the server's handshake (\<open>inbound.rs\<close>) and the client's connect
  (\<open>outbound.rs\<close>). The clock and the random bytes are arguments.
\<close>

section \<open>The request command\<close>

definition VERSION :: byte where "VERSION = 0x01"
definition OPT_CHUNK_STREAM :: byte where "OPT_CHUNK_STREAM = 0x01"
definition OPT_CHUNK_MASKING :: byte where "OPT_CHUNK_MASKING = 0x04"
definition OPT_GLOBAL_PADDING :: byte where "OPT_GLOBAL_PADDING = 0x08"
definition OPT_AUTHENTICATED_LENGTH :: byte where "OPT_AUTHENTICATED_LENGTH = 0x10"
definition SEC_LEGACY :: byte where "SEC_LEGACY = 1"
definition SEC_AUTO :: byte where "SEC_AUTO = 2"
definition SEC_AES128_GCM :: byte where "SEC_AES128_GCM = 3"
definition SEC_CHACHA20_POLY1305 :: byte where "SEC_CHACHA20_POLY1305 = 4"
definition SEC_NONE :: byte where "SEC_NONE = 5"

lemmas vm_consts = VERSION_def OPT_CHUNK_STREAM_def OPT_CHUNK_MASKING_def OPT_GLOBAL_PADDING_def
  OPT_AUTHENTICATED_LENGTH_def SEC_LEGACY_def SEC_AUTO_def SEC_AES128_GCM_def
  SEC_CHACHA20_POLY1305_def SEC_NONE_def

definition cmd_key :: "bytes \<Rightarrow> bytes" where
  "cmd_key uuid = md5_digest [uuid]"

text \<open>The command up to its checksum; the address has the form of VLESS.\<close>

definition command_body :: "bytes \<Rightarrow> bytes \<Rightarrow> byte \<Rightarrow> byte \<Rightarrow> byte \<Rightarrow> byte \<Rightarrow> proxy_target \<Rightarrow> bytes" where
  "command_body request_iv request_key response_v options security cmd target =
    VERSION # request_iv @ request_key @ [response_v, options, security AND 0x0F, 0x00, cmd]
      @ u16_be (target_port target) @ encode_target_addr target"

definition encode_request_command ::
    "bytes \<Rightarrow> bytes \<Rightarrow> byte \<Rightarrow> byte \<Rightarrow> byte \<Rightarrow> byte \<Rightarrow> proxy_target \<Rightarrow> bytes" where
  "encode_request_command request_iv request_key response_v options security cmd target =
    (let buf = command_body request_iv request_key response_v options security cmd target
     in buf @ u32_be (fnv1a32 buf))"

record decoded_request =
  dr_iv :: bytes
  dr_key :: bytes
  dr_response_v :: byte
  dr_options :: byte
  dr_security :: byte
  dr_cmd :: byte
  dr_target :: proxy_target

text \<open>The address at position 41 and the position after it.\<close>

definition command_target :: "byte \<Rightarrow> u16 \<Rightarrow> bytes \<Rightarrow> io_error + proxy_target \<times> nat" where
  "command_target atyp p buf =
    (if atyp = ATYP_V4 then
       (if length buf < 45 then Inl (io_err ''vmess: short ipv4'')
        else Inr (Tcp (SocketAddr (IpV4 (be_u32 (slice 41 45 buf))) p), 45))
     else if atyp = ATYP_DOMAIN then
       (if length buf < 42 then Inl (io_err ''vmess: short domain len'')
        else let dl = unat (buf ! 41) in
          if length buf < 42 + dl then Inl (io_err ''vmess: short domain'')
          else Inr (Domain (from_utf8_lossy (slice 42 (42 + dl) buf)) p, 42 + dl))
     else if atyp = ATYP_V6 then
       (if length buf < 57 then Inl (io_err ''vmess: short ipv6'')
        else Inr (Tcp (SocketAddr (IpV6 (be_u128 (slice 41 57 buf))) p), 57))
     else Inl (io_err ''vmess: unknown address type''))"

definition decode_request_command :: "bytes \<Rightarrow> io_error + decoded_request" where
  "decode_request_command buf =
    (if length buf < 41 then Inl (io_err ''vmess: command buffer too short'')
     else let n = length buf - 4 in
       if fnv1a32 (take n buf) \<noteq> be_u32 (drop n buf) then Inl (io_err ''vmess: command fnv mismatch'')
       else if buf ! 0 \<noteq> VERSION then Inl (io_err ''vmess: unsupported version'')
       else (case command_target (buf ! 40) (be_u16 (buf ! 38) (buf ! 39)) buf of
           Inl e \<Rightarrow> Inl e
         | Inr (target, p) \<Rightarrow>
             if p \<noteq> n then Inl (io_err ''vmess: trailing garbage in command'')
             else Inr \<lparr>dr_iv = slice 1 17 buf, dr_key = slice 17 33 buf, dr_response_v = buf ! 33,
               dr_options = buf ! 34, dr_security = buf ! 35 AND 0x0F, dr_cmd = buf ! 37,
               dr_target = target\<rparr>))"

section \<open>Key derivation\<close>

definition LABEL_AUTH_ID :: bytes where "LABEL_AUTH_ID = as_bytes ''AES Auth ID Encryption''"
definition LABEL_RESP_LEN_KEY :: bytes where "LABEL_RESP_LEN_KEY = as_bytes ''AEAD Resp Header Len Key''"
definition LABEL_RESP_LEN_IV :: bytes where "LABEL_RESP_LEN_IV = as_bytes ''AEAD Resp Header Len IV''"
definition LABEL_RESP_KEY :: bytes where "LABEL_RESP_KEY = as_bytes ''AEAD Resp Header Key''"
definition LABEL_RESP_IV :: bytes where "LABEL_RESP_IV = as_bytes ''AEAD Resp Header IV''"
definition LABEL_KDF :: bytes where "LABEL_KDF = as_bytes ''VMess AEAD KDF''"
definition LABEL_HDR_KEY :: bytes where "LABEL_HDR_KEY = as_bytes ''VMess Header AEAD Key''"
definition LABEL_HDR_IV :: bytes where "LABEL_HDR_IV = as_bytes ''VMess Header AEAD Nonce''"
definition LABEL_HDR_LEN_KEY :: bytes where "LABEL_HDR_LEN_KEY = as_bytes ''VMess Header AEAD Key_Length''"
definition LABEL_HDR_LEN_IV :: bytes where "LABEL_HDR_LEN_IV = as_bytes ''VMess Header AEAD Nonce_Length''"

text \<open>The parameter \<open>_key\<close> of \<open>kdf\<close> is not used in the code either.\<close>

definition kdf :: "vm_prims \<Rightarrow> bytes \<Rightarrow> bytes list \<Rightarrow> bytes" where
  "kdf P key path = vm_hmac_sha256 P (foldl (vm_hmac_sha256 P) LABEL_KDF path) []"

definition kdf16 :: "vm_prims \<Rightarrow> bytes \<Rightarrow> bytes list \<Rightarrow> bytes" where
  "kdf16 P key path = take 16 (kdf P key path)"

definition kdf_nonce :: "vm_prims \<Rightarrow> bytes \<Rightarrow> bytes list \<Rightarrow> bytes" where
  "kdf_nonce P key path = take 12 (kdf P key path)"

section \<open>The sealed header\<close>

definition create_auth_id :: "vm_prims \<Rightarrow> bytes \<Rightarrow> u64 \<Rightarrow> bytes \<Rightarrow> bytes" where
  "create_auth_id P ck ts rand4 =
    vm_aes_encrypt P (kdf16 P ck [LABEL_AUTH_ID]) (u64_be ts @ rand4 @ replicate 4 0)"

definition gcm_seal_vec :: "vm_prims \<Rightarrow> bytes \<Rightarrow> bytes \<Rightarrow> bytes \<Rightarrow> bytes \<Rightarrow> bytes option" where
  "gcm_seal_vec P key nonce plaintext aad =
    map_option (\<lambda>(ct, tag). ct @ tag) (vm_gcm_seal P key nonce aad plaintext)"

definition gcm_open_vec :: "vm_prims \<Rightarrow> bytes \<Rightarrow> bytes \<Rightarrow> bytes \<Rightarrow> bytes \<Rightarrow> bytes option" where
  "gcm_open_vec P key nonce data aad =
    (if length data < 16 then None
     else vm_gcm_open P key nonce aad (take (length data - 16) data) (drop (length data - 16) data))"

definition expect :: "'a option \<Rightarrow> 'a rs" where
  "expect x = (case x of Some y \<Rightarrow> Ret y | None \<Rightarrow> Panic)"

definition seal_vmess_aead_header ::
    "vm_prims \<Rightarrow> bytes \<Rightarrow> u64 \<Rightarrow> bytes \<Rightarrow> bytes \<Rightarrow> bytes \<Rightarrow> bytes rs" where
  "seal_vmess_aead_header P ck now rand4 nonce8 data =
    (let auth_id = create_auth_id P ck now rand4;
         len_key = kdf16 P ck [LABEL_HDR_LEN_KEY, auth_id, nonce8];
         len_nonce = kdf_nonce P ck [LABEL_HDR_LEN_IV, auth_id, nonce8];
         hdr_key = kdf16 P ck [LABEL_HDR_KEY, auth_id, nonce8];
         hdr_nonce = kdf_nonce P ck [LABEL_HDR_IV, auth_id, nonce8]
     in rs_bind (expect (gcm_seal_vec P len_key len_nonce (u16_be (word_of_nat (length data))) auth_id)) (\<lambda>enc_len.
        rs_bind (expect (gcm_seal_vec P hdr_key hdr_nonce data auth_id)) (\<lambda>enc_hdr.
          Ret (auth_id @ enc_len @ nonce8 @ enc_hdr))))"

text \<open>The 64-bit signed subtraction and \<open>abs\<close> wrap, as in a release build.\<close>

definition auth_fresh :: "u64 \<Rightarrow> bytes \<Rightarrow> bool" where
  "auth_fresh now plain =
    (let d = now - word_of_nat (be_nat (take 8 plain));
         a = (if sint d < 0 then - d else d)
     in sint a \<le> 120)"

section \<open>The server\<close>

datatype vm_accepted = VmAccepted (va_target: proxy_target) (va_reader: chunk_state) (va_writer: chunk_state)

definition resp_chunk_keys :: "vm_prims \<Rightarrow> bytes \<Rightarrow> bytes \<Rightarrow> chunk_keys" where
  "resp_chunk_keys P request_key request_iv =
    \<lparr>ck_key = take 16 (vm_sha256 P request_key), ck_iv = take 16 (vm_sha256 P request_iv)\<rparr>"

definition chunk_security_of :: "byte \<Rightarrow> io_error + chunk_security" where
  "chunk_security_of s =
    (if s = SEC_AES128_GCM \<or> s = SEC_AUTO then Inr SecGcm
     else if s = SEC_CHACHA20_POLY1305 then Inr SecChaCha
     else if s = SEC_NONE then Inr SecNone
     else if s = SEC_LEGACY then Inl (io_err ''vmess: legacy security not supported'')
     else Inl (io_err ''vmess: unknown security''))"

definition from_sum :: "io_error + 'a \<Rightarrow> 'a io" where
  "from_sum x = (case x of Inl e \<Rightarrow> io_throw e | Inr y \<Rightarrow> io_ret y)"

definition or_throw :: "string \<Rightarrow> 'a option \<Rightarrow> 'a io" where
  "or_throw msg x = (case x of None \<Rightarrow> io_throw (io_err msg) | Some y \<Rightarrow> io_ret y)"

text \<open>The part of the handshake after the request is decoded: the checks and the
  sealed response header.\<close>

definition vm_respond :: "vm_prims \<Rightarrow> decoded_request \<Rightarrow> vm_accepted io" where
  "vm_respond P req =
    (if dr_cmd req \<noteq> CMD_TCP then io_throw (io_err ''vmess: UDP command not supported in this build'')
     else if dr_options req AND OPT_AUTHENTICATED_LENGTH \<noteq> 0
     then io_throw (io_err ''vmess: authenticated-length option not supported'')
     else if dr_options req AND OPT_CHUNK_STREAM = 0
     then io_throw (io_err ''vmess: non-chunked body not supported'')
     else io_bind (from_sum (chunk_security_of (dr_security req))) (\<lambda>security.
       let masking = (dr_options req AND OPT_CHUNK_MASKING \<noteq> 0);
           padding = (dr_options req AND OPT_GLOBAL_PADDING \<noteq> 0);
           wkeys = resp_chunk_keys P (dr_key req) (dr_iv req);
           payload = [dr_response_v req, dr_options req, 0x00]
       in io_bind (or_throw ''vmess: seal failed'' (gcm_seal_vec P (kdf16 P (ck_key wkeys) [LABEL_RESP_LEN_KEY])
            (kdf_nonce P (ck_iv wkeys) [LABEL_RESP_LEN_IV]) (u16_be (word_of_nat (length payload))) [])) (\<lambda>enc_len.
          io_bind (or_throw ''vmess: seal failed'' (gcm_seal_vec P (kdf16 P (ck_key wkeys) [LABEL_RESP_KEY])
            (kdf_nonce P (ck_iv wkeys) [LABEL_RESP_IV]) payload [])) (\<lambda>enc_payload.
          io_bind (write_all enc_len) (\<lambda>_. io_bind (write_all enc_payload) (\<lambda>_.
            io_ret (VmAccepted (dr_target req)
              (chunk_state_new \<lparr>ck_key = dr_key req, ck_iv = dr_iv req\<rparr> security masking padding)
              (chunk_state_new wkeys security masking padding))))))))"

text \<open>The sealed header after the authentication identifier.\<close>

definition vm_read_header :: "vm_prims \<Rightarrow> bytes \<Rightarrow> bytes \<Rightarrow> decoded_request io" where
  "vm_read_header P ck auth_id =
    io_bind (read_exact 18) (\<lambda>enc_len.
    io_bind (read_exact 8) (\<lambda>nonce8.
    io_bind (or_throw ''vmess: header length decrypt failed''
      (gcm_open_vec P (kdf16 P ck [LABEL_HDR_LEN_KEY, auth_id, nonce8])
        (kdf_nonce P ck [LABEL_HDR_LEN_IV, auth_id, nonce8]) enc_len auth_id)) (\<lambda>len_plain.
    if length len_plain \<noteq> 2 then io_throw (io_err ''vmess: bad header length block'')
    else io_bind (read_exact (unat (be_u16 (len_plain ! 0) (len_plain ! 1)) + 16)) (\<lambda>enc_hdr.
      io_bind (or_throw ''vmess: header payload decrypt failed''
        (gcm_open_vec P (kdf16 P ck [LABEL_HDR_KEY, auth_id, nonce8])
          (kdf_nonce P ck [LABEL_HDR_IV, auth_id, nonce8]) enc_hdr auth_id)) (\<lambda>cmd_buf.
      from_sum (decode_request_command cmd_buf))))))"

definition match_user :: "vm_prims \<Rightarrow> u64 \<Rightarrow> bytes list \<Rightarrow> bytes \<Rightarrow> bytes option" where
  "match_user P now users auth_id =
    map_option fst (find (\<lambda>(ck, ik). auth_fresh now (vm_aes_decrypt P ik auth_id))
      (map (\<lambda>u. (cmd_key u, kdf16 P (cmd_key u) [LABEL_AUTH_ID])) users))"

definition vm_handshake :: "vm_prims \<Rightarrow> u64 \<Rightarrow> bytes list \<Rightarrow> vm_accepted io" where
  "vm_handshake P now users =
    io_bind (read_exact 16) (\<lambda>auth_id.
    io_bind (or_throw ''vmess: authentication failed'' (match_user P now users auth_id)) (\<lambda>ck.
    io_bind (vm_read_header P ck auth_id) (\<lambda>req. vm_respond P req)))"

text \<open>\<open>open_vmess_aead_header\<close>, which nothing calls: it reads the identifier together with the 18 bytes after it, and then the sealed length
  once more behind the nonce.\<close>

definition open_vmess_aead_header :: "vm_prims \<Rightarrow> bytes \<Rightarrow> u64 \<Rightarrow> bytes io" where
  "open_vmess_aead_header P ck now =
    io_bind (read_exact 34) (\<lambda>auth_and_len.
      let auth_id = take 16 auth_and_len in
      if \<not> auth_fresh now (vm_aes_decrypt P (kdf16 P ck [LABEL_AUTH_ID]) auth_id)
      then io_throw (invalid_data ''vmess: auth id timestamp expired'')
      else
    io_bind (read_exact 8) (\<lambda>nonce8.
    io_bind (read_exact 18) (\<lambda>enc_len.
    case gcm_open_vec P (kdf16 P ck [LABEL_HDR_LEN_KEY, auth_id, nonce8])
        (kdf_nonce P ck [LABEL_HDR_LEN_IV, auth_id, nonce8]) enc_len auth_id of
      None \<Rightarrow> io_throw (invalid_data ''vmess: failed to decrypt header length'')
    | Some len_plain \<Rightarrow>
        if length len_plain \<noteq> 2 then io_throw (invalid_data ''vmess: bad length block'')
        else
    io_bind (read_exact (unat (be_u16 (len_plain ! 0) (len_plain ! 1)) + 16)) (\<lambda>enc_hdr.
    case gcm_open_vec P (kdf16 P ck [LABEL_HDR_KEY, auth_id, nonce8])
        (kdf_nonce P ck [LABEL_HDR_IV, auth_id, nonce8]) enc_hdr auth_id of
      None \<Rightarrow> io_throw (invalid_data ''vmess: failed to decrypt header payload'')
    | Some hdr \<Rightarrow> io_ret hdr))))"

section \<open>The client\<close>

definition security_byte :: "string \<Rightarrow> io_error + byte" where
  "security_byte s =
    (let l = to_ascii_lowercase s in
     if l = ''auto'' \<or> l = '''' then Inr SEC_AES128_GCM
     else if l = ''aes-128-gcm'' then Inr SEC_AES128_GCM
     else if l = ''chacha20-poly1305'' \<or> l = ''chacha20-ietf-poly1305'' then Inr SEC_CHACHA20_POLY1305
     else if l = ''none'' then Inr SEC_NONE
     else Inl (io_err (''vmess: unsupported security '' @ [CHR 0x27] @ l @ [CHR 0x27])))"

definition client_options :: byte where
  "client_options = OPT_CHUNK_STREAM OR OPT_CHUNK_MASKING OR OPT_GLOBAL_PADDING"

definition client_security :: "byte \<Rightarrow> chunk_security" where
  "client_security s =
    (if s = SEC_CHACHA20_POLY1305 then SecChaCha else if s = SEC_NONE then SecNone else SecGcm)"

definition vm_read_response :: "vm_prims \<Rightarrow> bytes \<Rightarrow> bytes \<Rightarrow> byte \<Rightarrow> unit io" where
  "vm_read_response P request_key request_iv response_v =
    (let rkeys = resp_chunk_keys P request_key request_iv in
     io_bind (read_exact 18) (\<lambda>enc_len.
     io_bind (or_throw ''vmess: response length decrypt failed''
       (gcm_open_vec P (kdf16 P (ck_key rkeys) [LABEL_RESP_LEN_KEY])
         (kdf_nonce P (ck_iv rkeys) [LABEL_RESP_LEN_IV]) enc_len [])) (\<lambda>len_plain.
     if length len_plain \<noteq> 2 then io_throw (io_err ''vmess: bad response length block'')
     else io_bind (read_exact (unat (be_u16 (len_plain ! 0) (len_plain ! 1)) + 16)) (\<lambda>enc_payload.
       io_bind (or_throw ''vmess: response payload decrypt failed''
         (gcm_open_vec P (kdf16 P (ck_key rkeys) [LABEL_RESP_KEY])
           (kdf_nonce P (ck_iv rkeys) [LABEL_RESP_IV]) enc_payload [])) (\<lambda>payload.
       if payload = [] \<or> payload ! 0 \<noteq> response_v
       then io_throw (io_err ''vmess: response auth mismatch'')
       else io_ret ())))))"

text \<open>The request the client writes, and the states of its two streams.\<close>

definition vm_request ::
    "vm_prims \<Rightarrow> bytes \<Rightarrow> byte \<Rightarrow> u64 \<Rightarrow> bytes \<Rightarrow> bytes \<Rightarrow> byte \<Rightarrow> bytes \<Rightarrow> bytes \<Rightarrow> proxy_target \<Rightarrow> bytes rs" where
  "vm_request P uuid sec now request_iv request_key response_v rand4 nonce8 target =
    seal_vmess_aead_header P (cmd_key uuid) now rand4 nonce8
      (encode_request_command request_iv request_key response_v client_options sec CMD_TCP target)"

record vm_random =
  vr_iv :: bytes
  vr_key :: bytes
  vr_response_v :: byte
  vr_rand4 :: bytes
  vr_nonce8 :: bytes

definition vm_connect ::
    "vm_prims \<Rightarrow> string \<Rightarrow> string \<Rightarrow> u64 \<Rightarrow> vm_random \<Rightarrow> proxy_target \<Rightarrow> conn \<Rightarrow>
     (io_error + chunk_state \<times> chunk_state) rs \<times> conn" where
  "vm_connect P uuid security now R target c =
    (case parse_uuid uuid of
       None \<Rightarrow> (Ret (Inl (io_err (''vmess: invalid UUID '' @ [CHR 0x27] @ uuid @ [CHR 0x27]))), c)
     | Some u \<Rightarrow>
    (case security_byte security of
       Inl e \<Rightarrow> (Ret (Inl e), c)
     | Inr sec \<Rightarrow>
    (case vm_request P u sec now (vr_iv R) (vr_key R) (vr_response_v R) (vr_rand4 R) (vr_nonce8 R) target of
       Panic \<Rightarrow> (Panic, c)
     | Ret sealed \<Rightarrow>
       let masking = (client_options AND OPT_CHUNK_MASKING \<noteq> 0);
           padding = (client_options AND OPT_GLOBAL_PADDING \<noteq> 0);
           (r, c') = io_bind (write_all sealed) (\<lambda>_.
             io_bind (vm_read_response P (vr_key R) (vr_iv R) (vr_response_v R)) (\<lambda>_.
             io_ret (chunk_state_new (resp_chunk_keys P (vr_key R) (vr_iv R)) (client_security sec) masking padding,
               chunk_state_new \<lparr>ck_key = vr_key R, ck_iv = vr_iv R\<rparr> (client_security sec) masking padding))) c
       in (Ret r, c'))))"


section \<open>Commands decode to what was encoded\<close>

lemma command_target_encode:
  assumes "wf_target t" "length H = 40" "length F = 4"
  shows "command_target (hd (encode_target_addr t)) (target_port t) (H @ encode_target_addr t @ F) =
    Inr (t, 40 + length (encode_target_addr t))"
proof (cases t)
  case (Tcp a)
  have "SocketAddr (sa_ip a) (sa_port a) = a" by (cases a) simp
  then show ?thesis
    using Tcp assms(2,3)
    by (cases "sa_ip a") (simp_all add: command_target_def vless_consts slice_def)
next
  case (Domain h p)
  then show ?thesis
    using assms
    by (simp add: command_target_def vless_consts slice_def nth_append unat_len_byte
        from_utf8_lossy_def utf8_lossy_id Let_def)
qed

lemma decode_request_command_encode:
  assumes "length iv = 16" "length key = 16" "wf_target t"
  shows "decode_request_command (encode_request_command iv key rv opts sec cmd t) =
    Inr \<lparr>dr_iv = iv, dr_key = key, dr_response_v = rv, dr_options = opts, dr_security = sec AND 0x0F,
      dr_cmd = cmd, dr_target = t\<rparr>"
proof -
  obtain x y where p: "u16_be (target_port t) = [x, y]" "be_u16 x y = target_port t" by (rule u16_be_cases)
  define H where "H = VERSION # iv @ key @ [rv, opts, sec AND 0x0F, 0x00, cmd, x, y]"
  define F where "F = u32_be (fnv1a32 (H @ encode_target_addr t))"
  let ?A = "encode_target_addr t"
  have enc: "encode_request_command iv key rv opts sec cmd t = H @ ?A @ F"
    by (simp add: encode_request_command_def command_body_def p H_def F_def Let_def)
  have lens: "length H = 40" "length F = 4" using assms by (simp_all add: H_def F_def u32_be_def)
  have A: "?A = hd ?A # tl ?A" by (rule encode_target_addr_Cons)
  then have pos: "0 < length ?A" by (metis length_greater_0_conv list.distinct(1))
  have tgt: "command_target (hd ?A) (target_port t) (H @ ?A @ F) = Inr (t, 40 + length ?A)"
    by (rule command_target_encode [OF assms(3) lens])
  have n: "length (H @ ?A @ F) - 4 = length (H @ ?A)" using lens by simp
  have split: "take (length (H @ ?A)) (H @ ?A @ F) = H @ ?A" "drop (length (H @ ?A)) (H @ ?A @ F) = F"
    by simp_all
  have idx: "(H @ ?A @ F) ! 40 = hd ?A" using lens A by (metis append_Cons nth_append_length)
  have hdr: "(H @ ?A @ F) ! 38 = x" "(H @ ?A @ F) ! 39 = y" "(H @ ?A @ F) ! 33 = rv"
    "(H @ ?A @ F) ! 34 = opts" "(H @ ?A @ F) ! 35 = sec AND 0x0F" "(H @ ?A @ F) ! 37 = cmd"
    "(H @ ?A @ F) ! 0 = VERSION" "slice 1 17 (H @ ?A @ F) = iv" "slice 17 33 (H @ ?A @ F) = key"
    using assms(1,2) by (simp_all add: H_def nth_append slice_def)
  have fnv: "be_u32 F = fnv1a32 (H @ ?A)" by (simp add: F_def be_u32_u32_be)
  show ?thesis
    unfolding enc decode_request_command_def n Let_def split hdr idx p(2) tgt fnv
    using pos lens by (simp add: and.assoc)
qed

text \<open>A seal that the corresponding open undoes.\<close>

lemma gcm_vec_roundtrip:
  assumes "vm_laws P" "length p \<le> 65536"
  obtains d where "gcm_seal_vec P k n p a = Some d" "length d = length p + 16" "gcm_open_vec P k n d a = Some p"
proof -
  obtain ct tag where "vm_gcm_seal P k n a p = Some (ct, tag)" "length ct = length p" "length tag = 16"
    "vm_gcm_open P k n a ct tag = Some p"
    using opens_sealedE [of "vm_gcm_seal P" "vm_gcm_open P"] assms unfolding vm_laws_def by metis
  then show thesis by (intro that [of "ct @ tag"]) (simp_all add: gcm_seal_vec_def gcm_open_vec_def)
qed

lemma from_sum_Inr [simp]: "from_sum (Inr x) = io_ret x"
  by (simp add: from_sum_def)

lemma or_throw_Some [simp]: "or_throw m (Some x) = io_ret x"
  by (simp add: or_throw_def)

lemma wf_target_length: "wf_target t \<Longrightarrow> length (encode_target_addr t) \<le> 257"
  by (cases t) (auto split: ip_addr.split)

lemma length_encode_request_command:
  assumes "length iv = 16" "length key = 16" "wf_target t"
  shows "length (encode_request_command iv key rv opts sec cmd t) \<le> 301"
  using assms wf_target_length [OF assms(3)]
  by (simp add: encode_request_command_def command_body_def u32_be_def Let_def)

lemma seal_header_read:
  assumes laws: "vm_laws P" and d: "length d \<le> 65535" and n8: "length nonce8 = 8"
  obtains b where
    "seal_vmess_aead_header P ck now rand4 nonce8 d = Ret (create_auth_id P ck now rand4 @ b)"
    and "\<And>rest w. vm_read_header P ck' (create_auth_id P ck now rand4) \<lparr>inp = b @ rest, outp = w\<rparr> =
      from_sum (decode_request_command d) \<lparr>inp = rest, outp = w\<rparr>"
proof -
  define aid where "aid = create_auth_id P ck now rand4"
  have key: "kdf16 P ck' = kdf16 P ck" "kdf_nonce P ck' = kdf_nonce P ck"
    by (simp_all add: fun_eq_iff kdf16_def kdf_nonce_def kdf_def)
  let ?L = "u16_be (word_of_nat (length d))"
  obtain el where el: "gcm_seal_vec P (kdf16 P ck [LABEL_HDR_LEN_KEY, aid, nonce8])
      (kdf_nonce P ck [LABEL_HDR_LEN_IV, aid, nonce8]) ?L aid = Some el" "length el = length ?L + 16"
    "gcm_open_vec P (kdf16 P ck [LABEL_HDR_LEN_KEY, aid, nonce8])
      (kdf_nonce P ck [LABEL_HDR_LEN_IV, aid, nonce8]) el aid = Some ?L"
    by (rule gcm_vec_roundtrip [OF laws, of ?L]) (simp, blast)
  obtain eh where eh: "gcm_seal_vec P (kdf16 P ck [LABEL_HDR_KEY, aid, nonce8])
      (kdf_nonce P ck [LABEL_HDR_IV, aid, nonce8]) d aid = Some eh" "length eh = length d + 16"
    "gcm_open_vec P (kdf16 P ck [LABEL_HDR_KEY, aid, nonce8])
      (kdf_nonce P ck [LABEL_HDR_IV, aid, nonce8]) eh aid = Some d"
    by (rule gcm_vec_roundtrip [OF laws, of d]) (use d in simp, blast)
  have len: "unat (be_u16 (?L ! 0) (?L ! Suc 0)) = length d"
    using unat_u16_of_nat [OF d] be_u16_nth [of "word_of_nat (length d)"] by simp
  show thesis
  proof (rule that [of "el @ nonce8 @ eh"])
    show "seal_vmess_aead_header P ck now rand4 nonce8 d = Ret (create_auth_id P ck now rand4 @ el @ nonce8 @ eh)"
      using el(1) eh(1) by (simp add: seal_vmess_aead_header_def Let_def expect_def flip: aid_def)
    fix rest w
    show "vm_read_header P ck' (create_auth_id P ck now rand4) \<lparr>inp = (el @ nonce8 @ eh) @ rest, outp = w\<rparr> =
      from_sum (decode_request_command d) \<lparr>inp = rest, outp = w\<rparr>"
      unfolding vm_read_header_def
      by (simp add: io_bind_read_append el(2,3) eh(2,3) n8 len key flip: aid_def)
  qed
qed


lemma auth_id_length: "vm_laws P \<Longrightarrow> length rand4 = 4 \<Longrightarrow> length (create_auth_id P ck now rand4) = 16"
  by (simp add: vm_laws_def create_auth_id_def u64_be_def)

lemma kdf_ignores_key: "kdf16 P ck = kdf16 P ck'" "kdf_nonce P ck = kdf_nonce P ck'"
  by (simp_all add: fun_eq_iff kdf16_def kdf_nonce_def kdf_def)

lemma sint_minus_small:
  fixes d :: u64
  assumes "- 120 \<le> sint d" "sint d < 0"
  shows "sint (- d) = - sint d"
  using assms by (simp add: sint_word_ariths(4) signed_take_bit_int_eq_self)

lemma auth_id_fresh:
  assumes "vm_laws P" "length rand4 = 4" "\<bar>sint (now - ts)\<bar> \<le> 120"
  shows "auth_fresh now (vm_aes_decrypt P (kdf16 P ck' [LABEL_AUTH_ID]) (create_auth_id P ck ts rand4))"
proof -
  have "unat ts < 256 ^ 8" using unat_lt_word [of ts] by simp
  then have "be_nat (u64_be ts) = unat ts" by (simp add: u64_be_def be_nat_nat_be)
  moreover have "vm_aes_decrypt P (kdf16 P ck' [LABEL_AUTH_ID]) (create_auth_id P ck ts rand4)
      = u64_be ts @ rand4 @ replicate 4 0"
    using assms(1,2) by (simp add: vm_laws_def create_auth_id_def kdf16_def kdf_def u64_be_def)
  moreover have "length (u64_be ts) = 8" by (simp add: u64_be_def)
  moreover have "sint (if sint (now - ts) < 0 then - (now - ts) else now - ts) \<le> 120"
  proof (cases "sint (now - ts) < 0")
    case True
    then have "sint (- (now - ts)) = - sint (now - ts)"
      using assms(3) by (intro sint_minus_small) auto
    then show ?thesis using assms(3) True by simp
  qed (use assms(3) in simp)
  ultimately show ?thesis by (simp add: auth_fresh_def Let_def)
qed

lemma match_user_fresh:
  assumes "vm_laws P" "length rand4 = 4" "\<bar>sint (now - ts)\<bar> \<le> 120" "users \<noteq> []"
  shows "match_user P now users (create_auth_id P ck ts rand4) = Some (cmd_key (hd users))"
  using assms(4) auth_id_fresh [OF assms(1-3)] by (cases users) (simp_all add: match_user_def)

definition vm_accepts :: "decoded_request \<Rightarrow> bool" where
  "vm_accepts req \<longleftrightarrow>
    dr_cmd req = CMD_TCP \<and> dr_options req AND OPT_AUTHENTICATED_LENGTH = 0
    \<and> dr_options req AND OPT_CHUNK_STREAM \<noteq> 0 \<and> dr_security req \<in> {2, 3, 4, 5}"

lemma vm_respond_read:
  assumes laws: "vm_laws P" and acc: "vm_accepts req" and sec: "chunk_security_of (dr_security req) = Inr security"
  obtains b where
    "\<And>i w. vm_respond P req \<lparr>inp = i, outp = w\<rparr> =
      (Inr (VmAccepted (dr_target req)
        (chunk_state_new \<lparr>ck_key = dr_key req, ck_iv = dr_iv req\<rparr> security
          (dr_options req AND OPT_CHUNK_MASKING \<noteq> 0) (dr_options req AND OPT_GLOBAL_PADDING \<noteq> 0))
        (chunk_state_new (resp_chunk_keys P (dr_key req) (dr_iv req)) security
          (dr_options req AND OPT_CHUNK_MASKING \<noteq> 0) (dr_options req AND OPT_GLOBAL_PADDING \<noteq> 0))),
       \<lparr>inp = i, outp = w @ b\<rparr>)"
    and "\<And>rest w. vm_read_response P (dr_key req) (dr_iv req) (dr_response_v req) \<lparr>inp = b @ rest, outp = w\<rparr> =
      (Inr (), \<lparr>inp = rest, outp = w\<rparr>)"
proof -
  let ?k = "resp_chunk_keys P (dr_key req) (dr_iv req)"
  let ?p = "[dr_response_v req, dr_options req, 0x00]"
  let ?L = "u16_be (word_of_nat (length ?p))"
  obtain el where el: "gcm_seal_vec P (kdf16 P (ck_key ?k) [LABEL_RESP_LEN_KEY])
      (kdf_nonce P (ck_iv ?k) [LABEL_RESP_LEN_IV]) ?L [] = Some el" "length el = length ?L + 16"
    "gcm_open_vec P (kdf16 P (ck_key ?k) [LABEL_RESP_LEN_KEY])
      (kdf_nonce P (ck_iv ?k) [LABEL_RESP_LEN_IV]) el [] = Some ?L"
    by (rule gcm_vec_roundtrip [OF laws, of ?L]) (simp, blast)
  obtain ep where ep: "gcm_seal_vec P (kdf16 P (ck_key ?k) [LABEL_RESP_KEY])
      (kdf_nonce P (ck_iv ?k) [LABEL_RESP_IV]) ?p [] = Some ep" "length ep = length ?p + 16"
    "gcm_open_vec P (kdf16 P (ck_key ?k) [LABEL_RESP_KEY])
      (kdf_nonce P (ck_iv ?k) [LABEL_RESP_IV]) ep [] = Some ?p"
    by (rule gcm_vec_roundtrip [OF laws, of ?p]) (simp, blast)
  have len: "unat (be_u16 (u16_be 3 ! 0) (u16_be 3 ! Suc 0)) = 3"
    using be_u16_nth [of 3] by (simp del: be_u16_nth)
  show thesis
  proof (rule that [of "el @ ep"])
    fix i w
    show "vm_respond P req \<lparr>inp = i, outp = w\<rparr> =
      (Inr (VmAccepted (dr_target req)
        (chunk_state_new \<lparr>ck_key = dr_key req, ck_iv = dr_iv req\<rparr> security
          (dr_options req AND OPT_CHUNK_MASKING \<noteq> 0) (dr_options req AND OPT_GLOBAL_PADDING \<noteq> 0))
        (chunk_state_new ?k security
          (dr_options req AND OPT_CHUNK_MASKING \<noteq> 0) (dr_options req AND OPT_GLOBAL_PADDING \<noteq> 0))),
       \<lparr>inp = i, outp = w @ el @ ep\<rparr>)"
      using acc sec el(1) ep(1) by (simp add: vm_respond_def vm_accepts_def Let_def)
    show "vm_read_response P (dr_key req) (dr_iv req) (dr_response_v req) \<lparr>inp = (el @ ep) @ rest, outp = w\<rparr> =
      (Inr (), \<lparr>inp = rest, outp = w\<rparr>)" for rest
      unfolding vm_read_response_def
      by (simp add: io_bind_read_append el(2,3) ep(2,3) len Let_def)
  qed
qed

section \<open>Properties\<close>

text \<open>The users configured on a VMess server make no difference: with any
  two non-empty lists of users the handshake behaves identically on every input, because the
  key derivation ignores its key. A client that knows no UUID is accepted.\<close>

theorem vm_users_irrelevant:
  assumes "users \<noteq> []" "users' \<noteq> []"
  shows "vm_handshake P now users c = vm_handshake P now users' c"
proof -
  have hdr: "vm_read_header P ck = vm_read_header P ck'" for ck ck'
    by (rule ext) (simp only: vm_read_header_def kdf_ignores_key [of P ck ck'])
  have m: "match_user P now us aid =
      (if us \<noteq> [] \<and> auth_fresh now (vm_aes_decrypt P (kdf16 P [] [LABEL_AUTH_ID]) aid)
       then Some (cmd_key (hd us)) else None)" for us aid
    by (induction us) (auto simp: match_user_def kdf16_def kdf_def)
  have "io_bind (or_throw msg (match_user P now users aid)) (\<lambda>ck. io_bind (vm_read_header P ck aid) (vm_respond P)) =
      io_bind (or_throw msg (match_user P now users' aid)) (\<lambda>ck. io_bind (vm_read_header P ck aid) (vm_respond P))"
    for msg aid
    using assms hdr [of "cmd_key (hd users)" "cmd_key (hd users')"] by (auto simp: m or_throw_def)
  then show ?thesis by (simp only: vm_handshake_def)
qed

theorem vm_users_irrelevant_witness:
  "vm_handshake mask_prims 1000 [replicate 16 1] \<lparr>inp = [], outp = []\<rparr>
    = vm_handshake mask_prims 1000 [replicate 16 2, replicate 16 3] \<lparr>inp = [], outp = []\<rparr>"
  by (rule vm_users_irrelevant) simp_all


lemma client_security_ok:
  assumes "security_byte s = Inr sec"
  shows "sec AND 0x0F = sec \<and> chunk_security_of sec = Inr (client_security sec) \<and> sec \<in> {3, 4, 5}"
  using assms
  by (auto simp: security_byte_def Let_def vm_consts chunk_security_of_def client_security_def split: if_splits)

lemma client_options_flags:
  "client_options AND OPT_AUTHENTICATED_LENGTH = 0" "client_options AND OPT_CHUNK_STREAM \<noteq> 0"
  "client_options AND OPT_CHUNK_MASKING \<noteq> 0" "client_options AND OPT_GLOBAL_PADDING \<noteq> 0"
  by (simp_all add: client_options_def vm_consts)

lemma vm_handshake_run:
  assumes laws: "vm_laws P" and uuid: "parse_uuid uuid = Some u" and sec: "security_byte security = Inr sec"
    and R: "length (vr_iv R) = 16" "length (vr_key R) = 16" "length (vr_rand4 R) = 4" "length (vr_nonce8 R) = 8"
    and t: "wf_target t" and users: "users \<noteq> []" and clock: "\<bar>sint (now - ts)\<bar> \<le> 120"
  shows "\<exists>req resp up down.
    (\<forall>body. vm_handshake P now users \<lparr>inp = req @ body, outp = []\<rparr> =
      (Inr (VmAccepted t up down), \<lparr>inp = body, outp = resp\<rparr>))
    \<and> (\<forall>body. vm_connect P uuid security ts R t \<lparr>inp = resp @ body, outp = []\<rparr> =
      (Ret (Inr (down, up)), \<lparr>inp = body, outp = req\<rparr>))"
proof -
  note s = client_security_ok [OF sec]
  let ?d = "encode_request_command (vr_iv R) (vr_key R) (vr_response_v R) client_options sec CMD_TCP t"
  define rq where "rq = \<lparr>dr_iv = vr_iv R, dr_key = vr_key R, dr_response_v = vr_response_v R,
    dr_options = client_options, dr_security = sec, dr_cmd = CMD_TCP, dr_target = t\<rparr>"
  have dec: "decode_request_command ?d = Inr rq"
    using decode_request_command_encode [OF R(1,2) t] s by (simp add: rq_def)
  have d: "length ?d \<le> 65535" using length_encode_request_command [OF R(1,2) t] by (rule order_trans) simp
  let ?aid = "create_auth_id P (cmd_key u) ts (vr_rand4 R)"
  obtain b where b: "seal_vmess_aead_header P (cmd_key u) ts (vr_rand4 R) (vr_nonce8 R) ?d = Ret (?aid @ b)"
    and rd: "\<And>rest w. vm_read_header P (cmd_key (hd users)) ?aid \<lparr>inp = b @ rest, outp = w\<rparr> =
      from_sum (decode_request_command ?d) \<lparr>inp = rest, outp = w\<rparr>"
    by (rule seal_header_read [OF laws d R(4), of "cmd_key u" ts "vr_rand4 R" "cmd_key (hd users)"]) blast
  have acc: "vm_accepts rq" and sc: "chunk_security_of (dr_security rq) = Inr (client_security sec)"
    using s client_options_flags by (auto simp: vm_accepts_def rq_def)
  obtain resp where resp: "\<And>i w. vm_respond P rq \<lparr>inp = i, outp = w\<rparr> =
      (Inr (VmAccepted t
        (chunk_state_new \<lparr>ck_key = vr_key R, ck_iv = vr_iv R\<rparr> (client_security sec) True True)
        (chunk_state_new (resp_chunk_keys P (vr_key R) (vr_iv R)) (client_security sec) True True)),
       \<lparr>inp = i, outp = w @ resp\<rparr>)"
    and rr: "\<And>rest w. vm_read_response P (vr_key R) (vr_iv R) (vr_response_v R) \<lparr>inp = resp @ rest, outp = w\<rparr> =
      (Inr (), \<lparr>inp = rest, outp = w\<rparr>)"
    using vm_respond_read [OF laws acc sc] client_options_flags by (simp add: rq_def) metis
  let ?up = "chunk_state_new \<lparr>ck_key = vr_key R, ck_iv = vr_iv R\<rparr> (client_security sec) True True"
  let ?down = "chunk_state_new (resp_chunk_keys P (vr_key R) (vr_iv R)) (client_security sec) True True"
  have "vm_handshake P now users \<lparr>inp = (?aid @ b) @ body, outp = []\<rparr> =
      (Inr (VmAccepted t ?up ?down), \<lparr>inp = body, outp = resp\<rparr>)" for body
    unfolding vm_handshake_def
    by (simp add: io_bind_read_append auth_id_length [OF laws R(3)] match_user_fresh [OF laws R(3) clock users])
      (simp add: io_bind_def rd dec resp)
  moreover have "vm_connect P uuid security ts R t \<lparr>inp = resp @ body, outp = []\<rparr> =
      (Ret (Inr (?down, ?up)), \<lparr>inp = body, outp = ?aid @ b\<rparr>)" for body
    using uuid sec b client_options_flags by (simp add: vm_connect_def vm_request_def Let_def io_bind_def rr)
  ultimately show ?thesis by blast
qed

text \<open>A client and a server whose clocks differ by at most two minutes agree: the
  server accepts the client's request for exactly its target, the client accepts
  the response, both consume exactly the headers, and the two ends of each direction
  start in the same stream state, so that the body streams round trip.\<close>

theorem vm_handshake_agrees:
  assumes laws: "vm_laws P" and uuid: "parse_uuid uuid = Some u" and sec: "security_byte security = Inr sec"
    and R: "length (vr_iv R) = 16" "length (vr_key R) = 16" "length (vr_rand4 R) = 4" "length (vr_nonce8 R) = 8"
    and t: "wf_target t" and users: "users \<noteq> []" and clock: "\<bar>sint (now - ts)\<bar> \<le> 120"
  shows "\<exists>req resp up down.
    (\<forall>body. vm_handshake P now users \<lparr>inp = req @ body, outp = []\<rparr> =
      (Inr (VmAccepted t up down), \<lparr>inp = body, outp = resp\<rparr>))
    \<and> (\<forall>body. vm_connect P uuid security ts R t \<lparr>inp = resp @ body, outp = []\<rparr> =
      (Ret (Inr (down, up)), \<lparr>inp = body, outp = req\<rparr>))"
  by (rule vm_handshake_run [OF assms])


theorem vm_handshake_agrees_witness:
  "\<exists>req resp up down.
    (\<forall>body. vm_handshake mask_prims 1030 [replicate 16 1] \<lparr>inp = req @ body, outp = []\<rparr> =
      (Inr (VmAccepted (Domain ''a.b'' 443) up down), \<lparr>inp = body, outp = resp\<rparr>))
    \<and> (\<forall>body. vm_connect mask_prims ''00112233-4455-6677-8899-aabbccddeeff'' ''auto'' 1000
        \<lparr>vr_iv = replicate 16 1, vr_key = replicate 16 2, vr_response_v = 3, vr_rand4 = replicate 4 4,
         vr_nonce8 = replicate 8 5\<rparr> (Domain ''a.b'' 443) \<lparr>inp = resp @ body, outp = []\<rparr> =
      (Ret (Inr (down, up)), \<lparr>inp = body, outp = req\<rparr>))"
proof (rule vm_handshake_agrees [OF mask_prims_laws])
  show "parse_uuid ''00112233-4455-6677-8899-aabbccddeeff'' = Some (map (\<lambda>i. word_of_nat (17 * i)) [0..<16])"
    by code_simp
  show "security_byte ''auto'' = Inr SEC_AES128_GCM" by code_simp
  show "wf_target (Domain ''a.b'' 443)" by code_simp
  show "\<bar>sint (1030 - 1000 :: u64)\<bar> \<le> 120" by simp
qed simp_all

text \<open>On a sealed header the unused opener takes the first bytes of the sealed command for the sealed length: it fails unless they
  authenticate under the key of the length.\<close>

lemma open_header_misreads:
  assumes "length aid = 16" "length el = 18" "length nonce8 = 8"
    and "length eh < 18 \<or> gcm_open_vec P (kdf16 P ck [LABEL_HDR_LEN_KEY, aid, nonce8])
      (kdf_nonce P ck [LABEL_HDR_LEN_IV, aid, nonce8]) (take 18 eh) aid = None"
  shows "isl (fst (open_vmess_aead_header P ck now \<lparr>inp = aid @ el @ nonce8 @ eh, outp = w\<rparr>))"
proof -
  have r: "read_exact 34 \<lparr>inp = (aid @ el) @ nonce8 @ eh, outp = w\<rparr> = (Inr (aid @ el), \<lparr>inp = nonce8 @ eh, outp = w\<rparr>)"
    "read_exact 8 \<lparr>inp = nonce8 @ eh, outp = w\<rparr> = (Inr nonce8, \<lparr>inp = eh, outp = w\<rparr>)"
    using assms(1-3) by (simp_all add: read_exact_def)
  show ?thesis
    using r assms by (auto simp: open_vmess_aead_header_def io_bind_def Let_def io_throw_def read_exact_def split: if_splits)
qed

end
