(* ===== verification/AnyTls.thy ===== *)
theory AnyTls
  imports Framing ChunkStream Socks5
begin

text \<open>
  \<open>crates/omni-proto/src/proto/anytls/frame.rs\<close> and \<open>session.rs\<close>: frames of a
  multiplexed session, the loop that reads them and keeps the registry of the
  streams, and the streams themselves. A \<open>tokio::sync::mpsc\<close> channel is its
  queue together with whether its sender and its receiver are gone; the
  channels of a session are numbered in the order in which they are created,
  and the registry maps a stream id to the number of its channel.
\<close>

section \<open>Frames\<close>

definition CMD_WASTE :: byte where "CMD_WASTE = 0"
definition CMD_SYN :: byte where "CMD_SYN = 1"
definition CMD_PSH :: byte where "CMD_PSH = 2"
definition CMD_FIN :: byte where "CMD_FIN = 3"
definition CMD_SETTINGS :: byte where "CMD_SETTINGS = 4"
definition CMD_ALERT :: byte where "CMD_ALERT = 5"

definition HEADER_SIZE :: nat where "HEADER_SIZE = 7"

lemmas cmd_defs = CMD_WASTE_def CMD_SYN_def CMD_PSH_def CMD_FIN_def CMD_SETTINGS_def CMD_ALERT_def

record aframe =
  af_cmd :: byte
  af_sid :: u32
  af_data :: bytes

definition frame_new :: "byte \<Rightarrow> u32 \<Rightarrow> aframe" where
  "frame_new cmd sid = \<lparr>af_cmd = cmd, af_sid = sid, af_data = []\<rparr>"

definition with_data :: "byte \<Rightarrow> u32 \<Rightarrow> bytes \<Rightarrow> aframe" where
  "with_data cmd sid data = \<lparr>af_cmd = cmd, af_sid = sid, af_data = data\<rparr>"

lemma frame_simps [simp]:
  "af_cmd (frame_new c i) = c" "af_sid (frame_new c i) = i" "af_data (frame_new c i) = []"
  "af_cmd (with_data c i d) = c" "af_sid (with_data c i d) = i" "af_data (with_data c i d) = d"
  by (simp_all add: frame_new_def with_data_def)

text \<open>The length is cast to 16 bits.\<close>

definition frame_encode :: "aframe \<Rightarrow> bytes" where
  "frame_encode f = af_cmd f # u32_be (af_sid f) @ nat_be 2 (length (af_data f)) @ af_data f"

definition try_decode :: "bytes \<Rightarrow> (aframe, io_error) parse" where
  "try_decode buf =
    (if length buf < HEADER_SIZE then Need
     else let dlen = unat (be_u16 (buf ! 5) (buf ! 6)) in
       if length buf < HEADER_SIZE + dlen then Need
       else Frame \<lparr>af_cmd = buf ! 0, af_sid = be_u32 [buf ! 1, buf ! 2, buf ! 3, buf ! 4],
           af_data = slice HEADER_SIZE (HEADER_SIZE + dlen) buf\<rparr> (HEADER_SIZE + dlen))"

definition wf_frame :: "aframe \<Rightarrow> bool" where
  "wf_frame f \<longleftrightarrow> length (af_data f) < 65536"

lemma try_decode_bounds: "try_decode b = Frame f n \<Longrightarrow> 0 < n \<and> n \<le> length b"
  by (auto simp: try_decode_def Let_def HEADER_SIZE_def split: if_splits)

lemma try_decode_stable: "try_decode b = Frame f n \<Longrightarrow> try_decode (b @ r) = Frame f n"
  by (auto simp: try_decode_def Let_def HEADER_SIZE_def slice_def nth_append split: if_splits)

lemma try_decode_not_Bad: "try_decode b \<noteq> Bad e"
  by (simp add: try_decode_def Let_def)

lemma u32_be_octets4: "u32_be w = octets4 w"
  by (simp add: u32_be_def octets4_def)

lemma unat_be_u16: "unat (be_u16 a b) = be_nat [a, b]"
  using be_nat_lt [of "[a, b]"] by (simp add: be_u16_def unat_of_nat)

lemma try_decode_header:
  assumes "length d = unat (be_u16 l h)"
  shows "try_decode (c # w # x # y # z # l # h # d @ r) =
    Frame \<lparr>af_cmd = c, af_sid = be_u32 [w, x, y, z], af_data = d\<rparr> (7 + length d)"
  using assms by (simp add: try_decode_def HEADER_SIZE_def Let_def slice_def numeral_nat)

lemma try_decode_encode:
  assumes "wf_frame f"
  shows "try_decode (frame_encode f @ r) = Frame f (length (frame_encode f))"
proof -
  obtain w x y z where s: "u32_be (af_sid f) = [w, x, y, z]"
    by (rule list_4_cases [of "u32_be (af_sid f)"]) (simp_all add: u32_be_octets4)
  then have sid: "be_u32 [w, x, y, z] = af_sid f"
    by (metis be_u32_octets4 u32_be_octets4)
  define l h where "l = nat_be 2 (length (af_data f)) ! 0" and "h = nat_be 2 (length (af_data f)) ! 1"
  have lh: "nat_be 2 (length (af_data f)) = [l, h]"
    unfolding l_def h_def by (rule list_2_nth) simp
  then have "be_nat [l, h] = length (af_data f)"
    using be_nat_nat_be [of 2 "length (af_data f)"] assms by (simp add: wf_frame_def)
  then have "length (af_data f) = unat (be_u16 l h)" by (simp add: unat_be_u16)
  from try_decode_header [OF this, of "af_cmd f" w x y z r]
  show ?thesis by (simp add: frame_encode_def s lh sid)
qed

interpretation anytls: frame_codec try_decode frame_encode wf_frame
  by unfold_locales
    (auto simp: try_decode_bounds try_decode_stable try_decode_not_Bad try_decode_encode
      intro: try_decode_stable, simp add: try_decode_def HEADER_SIZE_def)

section \<open>The registry of the streams\<close>

definition STREAM_BUF :: nat where "STREAM_BUF = 256"
definition FRAME_BUF :: nat where "FRAME_BUF = 256"
definition ANYTLS_MAX_PAYLOAD :: nat where "ANYTLS_MAX_PAYLOAD = 16384"

datatype stream_msg = MsgData bytes | MsgEof

record chan =
  ch_sid :: u32
  ch_queue :: "stream_msg list"
  ch_closed :: bool
  ch_dropped :: bool

record session =
  se_registry :: "u32 \<rightharpoonup> nat"
  se_chans :: "chan list"
  se_settings :: bool

definition session_init :: session where
  "session_init = \<lparr>se_registry = Map.empty, se_chans = [], se_settings = False\<rparr>"

definition with_chan :: "nat \<Rightarrow> (chan \<Rightarrow> chan) \<Rightarrow> session \<Rightarrow> session" where
  "with_chan c g s = s\<lparr>se_chans := (se_chans s)[c := g (se_chans s ! c)]\<rparr>"

text \<open>\<open>Sender::send\<close>: a message to a receiver that is gone is lost.\<close>

definition chan_send :: "stream_msg \<Rightarrow> chan \<Rightarrow> chan" where
  "chan_send m ch = (if ch_dropped ch then ch else ch\<lparr>ch_queue := ch_queue ch @ [m]\<rparr>)"

definition chan_close :: "chan \<Rightarrow> chan" where
  "chan_close ch = ch\<lparr>ch_closed := True\<rparr>"

text \<open>\<open>HashMap::insert\<close> of a new channel drops the sender it replaces.\<close>

definition close_old :: "u32 \<Rightarrow> session \<Rightarrow> session" where
  "close_old sid s = (case se_registry s sid of None \<Rightarrow> s | Some c \<Rightarrow> with_chan c chan_close s)"

definition register_stream :: "bool \<Rightarrow> u32 \<Rightarrow> session \<Rightarrow> session" where
  "register_stream kept sid s =
    (let s' = close_old sid s in
     s'\<lparr>se_registry := (se_registry s')(sid \<mapsto> length (se_chans s')),
        se_chans := se_chans s' @ [\<lparr>ch_sid = sid, ch_queue = [], ch_closed = False, ch_dropped = \<not> kept\<rparr>]\<rparr>)"

definition psh_msg :: "bytes \<Rightarrow> stream_msg" where
  "psh_msg d = (if d = [] then MsgEof else MsgData d)"

definition on_psh :: "u32 \<Rightarrow> bytes \<Rightarrow> session \<Rightarrow> session" where
  "on_psh sid d s =
    (case se_registry s sid of None \<Rightarrow> s | Some c \<Rightarrow> with_chan c (chan_send (psh_msg d)) s)"

definition on_fin :: "u32 \<Rightarrow> session \<Rightarrow> session" where
  "on_fin sid s =
    (case se_registry s sid of
       None \<Rightarrow> s
     | Some c \<Rightarrow> with_chan c (chan_close \<circ> chan_send MsgEof)
         (s\<lparr>se_registry := (se_registry s)(sid := None)\<rparr>))"

definition syn_before_settings :: io_error where
  "syn_before_settings = invalid_data ''anytls: SYN before settings''"

definition peer_alert :: "bytes \<Rightarrow> io_error" where
  "peer_alert d = IoError PermissionDenied (''anytls: alert from peer: '' @ from_utf8_lossy d)"

text \<open>One frame of the loop. The server hands a new stream to a task of its own; the
  client's callback drops it.\<close>

definition handle_frame :: "bool \<Rightarrow> aframe \<Rightarrow> session \<Rightarrow> io_error + session" where
  "handle_frame is_server f s =
    (if af_cmd f = CMD_WASTE then Inr s
     else if af_cmd f = CMD_SETTINGS then Inr (s\<lparr>se_settings := True\<rparr>)
     else if af_cmd f = CMD_SYN then
       if is_server \<and> \<not> se_settings s then Inl syn_before_settings
       else Inr (register_stream is_server (af_sid f) s)
     else if af_cmd f = CMD_PSH then Inr (on_psh (af_sid f) (af_data f) s)
     else if af_cmd f = CMD_FIN then Inr (on_fin (af_sid f) s)
     else if af_cmd f = CMD_ALERT then Inl (peer_alert (af_data f))
     else Inr s)"

section \<open>The reading loop\<close>

function handle_buf :: "bool \<Rightarrow> session \<Rightarrow> bytes \<Rightarrow> (io_error + bytes) \<times> session" where
  "handle_buf is_server s buf =
    (case try_decode buf of
       Need \<Rightarrow> (Inr buf, s)
     | Bad e \<Rightarrow> (Inl e, s)
     | Frame f n \<Rightarrow>
         (case handle_frame is_server f s of
            Inl e \<Rightarrow> (Inl e, s)
          | Inr s' \<Rightarrow> handle_buf is_server s' (drop n buf)))"
  by auto
termination
  by (relation "measure (\<lambda>(_, _, buf). length buf)") (auto dest!: try_decode_bounds)

declare handle_buf.simps [simp del]

definition truncated_frame :: io_error where
  "truncated_frame = IoError UnexpectedEof ''anytls: truncated frame''"

definition at_eof :: "bytes \<Rightarrow> io_error + unit" where
  "at_eof buf = (if buf \<noteq> [] then Inl truncated_frame else Inr ())"

text \<open>The list holds what the successive reads return; an empty read, or the end of
  the list, is the end of the connection.\<close>

fun read_loop :: "bool \<Rightarrow> session \<Rightarrow> bytes \<Rightarrow> bytes list \<Rightarrow> (io_error + unit) \<times> session" where
  "read_loop is_server s buf cs =
    (case handle_buf is_server s buf of
       (Inl e, s') \<Rightarrow> (Inl e, s')
     | (Inr r, s') \<Rightarrow>
         (case cs of
            [] \<Rightarrow> (at_eof r, s')
          | c # cs' \<Rightarrow> if c = [] then (at_eof r, s') else read_loop is_server s' (r @ c) cs'))"

declare read_loop.simps [simp del]

section \<open>The loop is a fold over the frames\<close>

fun run_frames :: "bool \<Rightarrow> aframe list \<Rightarrow> session \<Rightarrow> io_error option \<times> session" where
  "run_frames is_server [] s = (None, s)"
| "run_frames is_server (f # fs) s =
    (case handle_frame is_server f s of Inl e \<Rightarrow> (Some e, s) | Inr s' \<Rightarrow> run_frames is_server fs s')"

lemma run_frames_append:
  "run_frames b (fs @ gs) s =
    (case run_frames b fs s of (Some e, s') \<Rightarrow> (Some e, s') | (None, s') \<Rightarrow> run_frames b gs s')"
  by (induction fs arbitrary: s) (auto split: sum.splits)

definition after_frames ::
    "bool \<Rightarrow> session \<Rightarrow> aframe list \<times> bytes \<times> io_error option \<Rightarrow> (io_error + bytes) \<times> session" where
  "after_frames b s d =
    (case run_frames b (fst d) s of
       (Some e, s') \<Rightarrow> (Inl e, s')
     | (None, s') \<Rightarrow> (Inr (fst (snd d)), s'))"

lemma handle_buf_drain: "handle_buf b s buf = after_frames b s (drain try_decode buf)"
proof (induction b s buf rule: handle_buf.induct)
  case (1 b s buf)
  show ?case
  proof (cases "try_decode buf")
    case Need
    then show ?thesis by (subst handle_buf.simps) (simp add: after_frames_def anytls.drain_Need)
  next
    case (Bad e)
    then show ?thesis by (simp add: try_decode_not_Bad)
  next
    case (Frame f n)
    then show ?thesis
      using 1 [OF Frame]
      by (subst handle_buf.simps)
        (auto simp: after_frames_def anytls.drain_Frame case_prod_beta split: sum.splits option.splits)
  qed
qed

lemma drain_no_error: "snd (snd (drain try_decode b)) = None"
proof (induction "length b" arbitrary: b rule: less_induct)
  case less
  show ?case
  proof (cases "try_decode b")
    case (Frame f n)
    then have "snd (snd (drain try_decode (drop n b))) = None"
      by (intro less) (rule anytls.drop_shorter)
    then show ?thesis by (auto simp: anytls.drain_Frame [OF Frame] split: prod.splits)
  qed (simp_all add: anytls.drain_Need try_decode_not_Bad)
qed

lemma handle_buf_append:
  "handle_buf b s (x @ y) =
    (case handle_buf b s x of (Inl e, s') \<Rightarrow> (Inl e, s') | (Inr r, s') \<Rightarrow> handle_buf b s' (r @ y))"
proof -
  obtain fs r where d: "drain try_decode x = (fs, r, None)"
    using drain_no_error [of x] by (metis prod.collapse)
  show ?thesis
    using anytls.drain_append [OF d, of y]
    by (auto simp: handle_buf_drain after_frames_def d run_frames_append split: prod.splits option.splits)
qed

lemma handle_buf_rest: "handle_buf b s x = (Inr r, s') \<Longrightarrow> handle_buf b s' r = (Inr r, s')"
proof -
  assume h: "handle_buf b s x = (Inr r, s')"
  obtain fs q where d: "drain try_decode x = (fs, q, None)"
    using drain_no_error [of x] by (metis prod.collapse)
  have "q = r" using h by (auto simp: handle_buf_drain after_frames_def d split: prod.splits option.splits)
  then have "try_decode r = Need" using anytls.drain_rest d by blast
  then show ?thesis by (subst handle_buf.simps) simp
qed

definition loop_result :: "(io_error + bytes) \<times> session \<Rightarrow> (io_error + unit) \<times> session" where
  "loop_result x = (case x of (Inl e, s) \<Rightarrow> (Inl e, s) | (Inr r, s) \<Rightarrow> (at_eof r, s))"

lemma read_loop_concat:
  "[] \<notin> set cs \<Longrightarrow> read_loop b s buf cs = loop_result (handle_buf b s (buf @ concat cs))"
proof (induction cs arbitrary: s buf)
  case Nil
  show ?case by (subst read_loop.simps) (simp add: loop_result_def split: prod.splits sum.splits)
next
  case (Cons c cs)
  show ?case
  proof (cases "handle_buf b s buf")
    case (Pair r s')
    then show ?thesis
      using Cons by (subst read_loop.simps)
        (auto simp: handle_buf_append [of b s buf] loop_result_def split: sum.splits)
  qed
qed

text \<open>What the session loop does depends only on the bytes it receives, not
  on how the connection splits them into reads: a connection that carries
  encoded frames and then ends leaves the session as if the frames had been
  handled one after the other.\<close>

theorem anytls_fragmentation:
  assumes "list_all wf_frame fs" "[] \<notin> set cs" "concat cs = concat (map frame_encode fs)"
  shows "read_loop is_server s [] cs =
    (case run_frames is_server fs s of (Some e, s') \<Rightarrow> (Inl e, s') | (None, s') \<Rightarrow> (Inr (), s'))"
  using anytls.drain_encoded [OF assms(1), of "[]"] anytls.drain_Need [OF anytls.parse_empty]
  by (auto simp: read_loop_concat [OF assms(2)] assms(3) handle_buf_drain after_frames_def loop_result_def
      at_eof_def split: option.splits prod.splits)

definition sample_frames :: "aframe list" where
  "sample_frames =
    [frame_new CMD_SETTINGS 0, frame_new CMD_SYN 1, with_data CMD_PSH 1 [7, 8], frame_new CMD_SYN 2,
     with_data CMD_PSH 2 [9], with_data CMD_PSH 1 [10], frame_new CMD_FIN 1]"

lemma sample_run:
  "\<exists>s. run_frames True sample_frames session_init = (None, s)"
  by (simp add: sample_frames_def handle_frame_def cmd_defs session_init_def register_stream_def
      close_old_def on_psh_def on_fin_def with_chan_def Let_def)

lemma sample_wf: "list_all wf_frame sample_frames"
  by (simp add: sample_frames_def wf_frame_def)

theorem anytls_fragmentation_witness:
  "\<exists>s. read_loop True session_init [] (map (\<lambda>b. [b]) (concat (map frame_encode sample_frames))) = (Inr (), s)"
proof -
  let ?cs = "map (\<lambda>b. [b]) (concat (map frame_encode sample_frames))"
  have "concat ?cs = concat (map frame_encode sample_frames)" by (simp only: concat_map_singleton map_ident)
  moreover have "[] \<notin> set ?cs" by auto
  ultimately show ?thesis
    using anytls_fragmentation [OF sample_wf, of ?cs True session_init] sample_run by (auto split: prod.splits option.splits)
qed

section \<open>The streams of a session\<close>

text \<open>What a stream is sent, read off the frames alone: the messages from its SYN to its
  FIN or to the next SYN with its id, and whether it has been closed.\<close>

fun stream_queue :: "u32 \<Rightarrow> aframe list \<Rightarrow> stream_msg list \<times> bool" where
  "stream_queue sid [] = ([], False)"
| "stream_queue sid (f # fs) =
    (if af_sid f \<noteq> sid then stream_queue sid fs
     else if af_cmd f = CMD_SYN then ([], True)
     else if af_cmd f = CMD_PSH then apfst ((#) (psh_msg (af_data f))) (stream_queue sid fs)
     else if af_cmd f = CMD_FIN then ([MsgEof], True)
     else stream_queue sid fs)"

fun streams_of :: "aframe list \<Rightarrow> (u32 \<times> stream_msg list \<times> bool) list" where
  "streams_of [] = []"
| "streams_of (f # fs) =
    (if af_cmd f = CMD_SYN then (af_sid f, stream_queue (af_sid f) fs) # streams_of fs
     else streams_of fs)"

definition view :: "session \<Rightarrow> (u32 \<times> stream_msg list \<times> bool) list" where
  "view s = map (\<lambda>ch. (ch_sid ch, ch_queue ch, ch_closed ch)) (se_chans s)"

text \<open>The registry holds exactly the open channels, each under its own id.\<close>

definition registered :: "session \<Rightarrow> nat \<Rightarrow> bool" where
  "registered s c \<longleftrightarrow> se_registry s (ch_sid (se_chans s ! c)) = Some c"

definition wf_session :: "session \<Rightarrow> bool" where
  "wf_session s \<longleftrightarrow>
    (\<forall>sid c. se_registry s sid = Some c \<longrightarrow> c < length (se_chans s) \<and> ch_sid (se_chans s ! c) = sid)
    \<and> (\<forall>c < length (se_chans s). ch_closed (se_chans s ! c) \<longleftrightarrow> \<not> registered s c)"

lemma wf_sessionD:
  assumes "wf_session s" "se_registry s sid = Some c"
  shows "c < length (se_chans s)" "ch_sid (se_chans s ! c) = sid" "registered s c" "\<not> ch_closed (se_chans s ! c)"
  using assms by (auto simp: wf_session_def registered_def)

lemma wf_session_unique:
  assumes "wf_session s" "i < length (se_chans s)" "j < length (se_chans s)"
    "\<not> ch_closed (se_chans s ! i)" "\<not> ch_closed (se_chans s ! j)"
    "ch_sid (se_chans s ! i) = ch_sid (se_chans s ! j)"
  shows "i = j"
  using assms by (auto simp: wf_session_def registered_def)

text \<open>How every channel stands after more frames.\<close>

definition chan_after :: "session \<Rightarrow> aframe list \<Rightarrow> nat \<Rightarrow> u32 \<times> stream_msg list \<times> bool" where
  "chan_after s fs c =
    (let ch = se_chans s ! c in
     if registered s c
     then (ch_sid ch, apfst ((@) (ch_queue ch)) (stream_queue (ch_sid ch) fs))
     else (ch_sid ch, ch_queue ch, True))"

definition none_dropped :: "session \<Rightarrow> bool" where
  "none_dropped s \<longleftrightarrow> list_all (\<lambda>ch. \<not> ch_dropped ch) (se_chans s)"

lemma with_chan_simps [simp]:
  "length (se_chans (with_chan c g s)) = length (se_chans s)"
  "se_registry (with_chan c g s) = se_registry s"
  "se_settings (with_chan c g s) = se_settings s"
  by (simp_all add: with_chan_def)

lemma nth_with_chan [simp]:
  "se_chans (with_chan c g s) ! i =
    (if i = c \<and> c < length (se_chans s) then g (se_chans s ! c) else se_chans s ! i)"
  by (cases "c < length (se_chans s)") (auto simp: with_chan_def nth_list_update list_update_beyond)

lemma chan_update_simps [simp]:
  "ch_sid (chan_send m ch) = ch_sid ch" "ch_sid (chan_close ch) = ch_sid ch"
  "ch_closed (chan_send m ch) = ch_closed ch" "ch_closed (chan_close ch)"
  "ch_queue (chan_close ch) = ch_queue ch"
  "ch_dropped (chan_send m ch) = ch_dropped ch" "ch_dropped (chan_close ch) = ch_dropped ch"
  "\<not> ch_dropped ch \<Longrightarrow> ch_queue (chan_send m ch) = ch_queue ch @ [m]"
  by (simp_all add: chan_send_def chan_close_def)

lemma close_old_simps [simp]:
  "length (se_chans (close_old sid s)) = length (se_chans s)"
  "se_registry (close_old sid s) = se_registry s"
  "se_settings (close_old sid s) = se_settings s"
  by (simp_all add: close_old_def split: option.splits)

lemma wf_with_chan:
  assumes "wf_session s" "ch_sid (g (se_chans s ! c)) = ch_sid (se_chans s ! c)"
    "ch_closed (g (se_chans s ! c)) = ch_closed (se_chans s ! c)"
  shows "wf_session (with_chan c g s)"
  using assms by (auto simp: wf_session_def registered_def)

lemma wf_on_psh: "wf_session s \<Longrightarrow> wf_session (on_psh sid d s)"
  by (auto simp: on_psh_def wf_with_chan split: option.splits)

lemma wf_on_fin: "wf_session s \<Longrightarrow> wf_session (on_fin sid s)"
  by (auto simp: on_fin_def wf_session_def registered_def split: option.splits if_splits)

lemma nth_close_old:
  assumes "wf_session s" "i < length (se_chans s)"
  shows "se_chans (close_old sid s) ! i =
    (if se_registry s sid = Some i then chan_close (se_chans s ! i) else se_chans s ! i)"
  using assms wf_sessionD(1) [OF assms(1), of sid]
  by (auto simp: close_old_def split: option.splits)

lemma register_stream_simps [simp]:
  "se_registry (register_stream k sid s) = (se_registry s)(sid \<mapsto> length (se_chans s))"
  "se_chans (register_stream k sid s) =
    se_chans (close_old sid s) @ [\<lparr>ch_sid = sid, ch_queue = [], ch_closed = False, ch_dropped = \<not> k\<rparr>]"
  "se_settings (register_stream k sid s) = se_settings s"
  by (simp_all add: register_stream_def Let_def)

lemma nth_register_stream:
  assumes "wf_session s" "i < Suc (length (se_chans s))"
  shows "se_chans (register_stream k sid s) ! i =
    (if i = length (se_chans s) then \<lparr>ch_sid = sid, ch_queue = [], ch_closed = False, ch_dropped = \<not> k\<rparr>
     else if se_registry s sid = Some i then chan_close (se_chans s ! i) else se_chans s ! i)"
  using assms by (auto simp: nth_append nth_close_old)

lemma wf_register_stream:
  assumes "wf_session s"
  shows "wf_session (register_stream k sid s)"
  unfolding wf_session_def
proof (intro conjI allI impI)
  fix sid' c
  assume "se_registry (register_stream k sid s) sid' = Some c"
  then show "c < length (se_chans (register_stream k sid s))"
      "ch_sid (se_chans (register_stream k sid s) ! c) = sid'"
    using assms wf_sessionD(1,2) [OF assms, of sid' c]
    by (auto simp: nth_append nth_close_old split: if_splits)
next
  fix c
  assume "c < length (se_chans (register_stream k sid s))"
  then have c: "c < Suc (length (se_chans s))" by simp
  show "ch_closed (se_chans (register_stream k sid s) ! c) \<longleftrightarrow> \<not> registered (register_stream k sid s) c"
    using assms c
    unfolding registered_def nth_register_stream [OF assms c] register_stream_simps(1)
    by (auto simp: wf_session_def registered_def less_Suc_eq)
qed

lemma wf_handle_frame: "wf_session s \<Longrightarrow> handle_frame b f s = Inr s' \<Longrightarrow> wf_session s'"
  by (auto simp: handle_frame_def wf_register_stream wf_on_psh wf_on_fin split: if_splits)
    (simp add: wf_session_def registered_def)

lemma wf_run_frames: "wf_session s \<Longrightarrow> wf_session (snd (run_frames b fs s))"
  by (induction fs arbitrary: s) (auto split: sum.splits dest: wf_handle_frame)

lemma wf_handle_buf: "wf_session s \<Longrightarrow> handle_buf b s x = (r, s') \<Longrightarrow> wf_session s'"
  using wf_run_frames [of s b "fst (drain try_decode x)"]
  by (auto simp: handle_buf_drain after_frames_def split: prod.splits option.splits)

lemma wf_read_loop: "wf_session s \<Longrightarrow> read_loop b s buf cs = (r, s') \<Longrightarrow> wf_session s'"
proof (induction cs arbitrary: s buf)
  case Nil
  then show ?case by (subst (asm) read_loop.simps) (auto split: prod.splits sum.splits dest: wf_handle_buf)
next
  case (Cons c cs)
  then show ?case
    by (subst (asm) read_loop.simps) (auto split: prod.splits sum.splits if_splits dest: wf_handle_buf)
qed

lemma none_dropped_nth: "none_dropped s \<Longrightarrow> c < length (se_chans s) \<Longrightarrow> \<not> ch_dropped (se_chans s ! c)"
  by (simp add: none_dropped_def list_all_length)

lemma none_dropped_with_chan:
  "none_dropped s \<Longrightarrow> ch_dropped (g (se_chans s ! c)) = ch_dropped (se_chans s ! c) \<Longrightarrow>
    none_dropped (with_chan c g s)"
  by (auto simp: none_dropped_def list_all_length)

lemma none_dropped_registry [simp]: "none_dropped (s\<lparr>se_registry := r\<rparr>) = none_dropped s"
  by (simp add: none_dropped_def)

lemma none_dropped_handle_frame:
  assumes "none_dropped s" "handle_frame True f s = Inr s'"
  shows "none_dropped s'"
proof -
  have "none_dropped (on_psh i d s)" for i d
    using assms(1) by (auto simp: on_psh_def none_dropped_with_chan split: option.splits)
  moreover have "none_dropped (on_fin i s)" for i
    using assms(1) by (auto simp: on_fin_def none_dropped_with_chan split: option.splits)
  moreover have "none_dropped (close_old i s)" for i
    using assms(1) by (auto simp: close_old_def none_dropped_with_chan split: option.splits)
  then have "none_dropped (register_stream True i s)" for i
    by (simp add: none_dropped_def)
  ultimately show ?thesis
    using assms by (auto simp: handle_frame_def none_dropped_def split: if_splits)
qed

lemma chan_after_syn:
  assumes "wf_session s" "c < length (se_chans s)" "af_cmd f = CMD_SYN"
  shows "chan_after (register_stream True (af_sid f) s) fs c = chan_after s (f # fs) c"
proof -
  note nth = nth_register_stream [OF assms(1), of c True "af_sid f"]
  show ?thesis
    using assms wf_sessionD(2) [OF assms(1), of "af_sid f" c]
    unfolding chan_after_def registered_def nth [OF less_SucI [OF assms(2)]] register_stream_simps(1) Let_def
    by auto
qed

lemma chan_after_new:
  assumes "wf_session s"
  shows "chan_after (register_stream True sid s) fs (length (se_chans s)) = (sid, stream_queue sid fs)"
  using nth_register_stream [OF assms, of "length (se_chans s)" True sid]
  unfolding chan_after_def registered_def Let_def register_stream_simps(1)
  by (simp add: apfst_def map_prod_def split: prod.splits)

text \<open>A frame of a stream that is not registered, or of another stream, changes nothing.\<close>

lemma chan_after_skip:
  assumes "\<not> (registered s c \<and> ch_sid (se_chans s ! c) = af_sid f)"
  shows "chan_after s (f # fs) c = chan_after s fs c"
  using assms by (auto simp: chan_after_def Let_def)

lemma chan_after_cong:
  assumes "se_chans s' ! c = se_chans s ! c" "registered s' c = registered s c"
  shows "chan_after s' fs c = chan_after s fs c"
  using assms by (simp add: chan_after_def)

lemma registered_with_chan:
  "ch_sid (g (se_chans s ! i)) = ch_sid (se_chans s ! i) \<Longrightarrow>
    registered (with_chan i g s) c = registered s c"
  by (auto simp: registered_def)

lemma chan_after_psh:
  assumes "wf_session s" "none_dropped s" "c < length (se_chans s)" "af_cmd f = CMD_PSH"
  shows "chan_after (on_psh (af_sid f) (af_data f) s) fs c = chan_after s (f # fs) c"
proof (cases "se_registry s (af_sid f) = Some c")
  case True
  note c = wf_sessionD [OF assms(1) True]
  then show ?thesis
    using assms(3,4) True none_dropped_nth [OF assms(2,3)]
    by (simp add: chan_after_def on_psh_def registered_with_chan cmd_defs apfst_def map_prod_def split: prod.splits)
next
  case False
  then have "registered (on_psh (af_sid f) (af_data f) s) c = registered s c"
      "se_chans (on_psh (af_sid f) (af_data f) s) ! c = se_chans s ! c"
    by (auto simp: on_psh_def registered_with_chan split: option.splits)
  then show ?thesis
    using False by (subst chan_after_skip) (auto simp: registered_def intro!: chan_after_cong)
qed

lemma chan_after_fin:
  assumes "wf_session s" "none_dropped s" "c < length (se_chans s)" "af_cmd f = CMD_FIN"
  shows "chan_after (on_fin (af_sid f) s) fs c = chan_after s (f # fs) c"
proof (cases "se_registry s (af_sid f) = Some c")
  case True
  note c = wf_sessionD [OF assms(1) True]
  then have "\<not> registered (on_fin (af_sid f) s) c"
    using True by (simp add: on_fin_def registered_def)
  then show ?thesis
    using c assms(3,4) True none_dropped_nth [OF assms(2,3)]
    by (simp add: chan_after_def on_fin_def cmd_defs)
next
  case False
  then have "se_chans (on_fin (af_sid f) s) ! c = se_chans s ! c"
    by (auto simp: on_fin_def split: option.splits)
  moreover from this have "registered (on_fin (af_sid f) s) c = registered s c"
    using False by (auto simp: registered_def on_fin_def split: option.splits)
  ultimately show ?thesis
    using False by (subst chan_after_skip) (auto simp: registered_def intro!: chan_after_cong)
qed

lemma chan_after_other:
  assumes "af_cmd f \<noteq> CMD_SYN" "af_cmd f \<noteq> CMD_PSH" "af_cmd f \<noteq> CMD_FIN"
  shows "chan_after (s\<lparr>se_settings := b\<rparr>) fs c = chan_after s (f # fs) c"
    and "chan_after s fs c = chan_after s (f # fs) c"
  using assms by (simp_all add: chan_after_def registered_def Let_def)

lemma length_on_psh [simp]: "length (se_chans (on_psh i d s)) = length (se_chans s)"
  by (simp add: on_psh_def split: option.splits)

lemma length_on_fin [simp]: "length (se_chans (on_fin i s)) = length (se_chans s)"
  by (simp add: on_fin_def split: option.splits)

definition predicted :: "session \<Rightarrow> aframe list \<Rightarrow> (u32 \<times> stream_msg list \<times> bool) list" where
  "predicted s fs = map (chan_after s fs) [0..<length (se_chans s)] @ streams_of fs"

lemma predicted_step:
  assumes "wf_session s" "none_dropped s" "handle_frame True f s = Inr s'"
  shows "predicted s' fs = predicted s (f # fs)"
proof -
  consider "af_cmd f = CMD_SYN" "s' = register_stream True (af_sid f) s"
    | "af_cmd f = CMD_PSH" "s' = on_psh (af_sid f) (af_data f) s"
    | "af_cmd f = CMD_FIN" "s' = on_fin (af_sid f) s"
    | "af_cmd f \<noteq> CMD_SYN" "af_cmd f \<noteq> CMD_PSH" "af_cmd f \<noteq> CMD_FIN"
      "s' = s \<or> s' = s\<lparr>se_settings := True\<rparr>"
    using assms(3) by (auto simp: handle_frame_def cmd_defs split: if_splits)
  then show ?thesis
  proof cases
    case 1
    then show ?thesis
      using chan_after_syn [OF assms(1)] chan_after_new [OF assms(1)]
      by (simp add: predicted_def del: register_stream_simps(2) stream_queue.simps)
        (simp add: register_stream_simps(2))
  next
    case 2
    then show ?thesis
      using chan_after_psh [OF assms(1,2)] by (simp add: predicted_def cmd_defs)
  next
    case 3
    then show ?thesis
      using chan_after_fin [OF assms(1,2)] by (simp add: predicted_def cmd_defs)
  next
    case 4
    then show ?thesis
      using chan_after_other [OF 4(1-3)] by (auto simp: predicted_def)
  qed
qed

lemma predicted_Nil:
  assumes "wf_session s"
  shows "predicted s [] = view s"
  using assms
  by (auto simp: predicted_def view_def chan_after_def wf_session_def Let_def intro!: nth_equalityI)

lemma run_frames_view:
  assumes "wf_session s" "none_dropped s" "run_frames True fs s = (None, s')"
  shows "view s' = predicted s fs"
  using assms
proof (induction fs arbitrary: s)
  case Nil
  then show ?case by (simp add: predicted_Nil)
next
  case (Cons f fs)
  then obtain s1 where s1: "handle_frame True f s = Inr s1" "run_frames True fs s1 = (None, s')"
    by (auto split: sum.splits)
  then have "view s' = predicted s1 fs"
    using Cons wf_handle_frame none_dropped_handle_frame by blast
  then show ?case using predicted_step [OF Cons(2,3) s1(1)] by simp
qed

lemma wf_session_init: "wf_session session_init" "none_dropped session_init"
  by (simp_all add: wf_session_def session_init_def none_dropped_def)

text \<open>Property C17: the session keeps its streams apart. After any frames that it accepts,
  the server has one stream for every SYN, in their order, and the messages
  queued for it are exactly the payloads of the PSH frames with its id between
  its SYN and its FIN (or the SYN that reuses the id), in order; the frames of
  the other streams have no part in it.\<close>

theorem anytls_streams:
  assumes "run_frames True fs session_init = (None, s)"
  shows "view s = streams_of fs"
  using run_frames_view [OF wf_session_init assms] by (simp add: predicted_def session_init_def)

theorem anytls_streams_witness:
  "\<exists>s. run_frames True sample_frames session_init = (None, s) \<and>
    view s = [(1, [MsgData [7, 8], MsgData [10], MsgEof], True), (2, [MsgData [9]], False)]"
proof -
  obtain s where s: "run_frames True sample_frames session_init = (None, s)"
    using sample_run by blast
  from anytls_streams [OF s] show ?thesis
    using s by (simp add: sample_frames_def cmd_defs psh_msg_def)
qed

section \<open>The reading end of a channel\<close>

definition chan_pop :: "chan \<Rightarrow> chan" where
  "chan_pop ch = ch\<lparr>ch_queue := tl (ch_queue ch)\<rparr>"

definition chan_drop :: "chan \<Rightarrow> chan" where
  "chan_drop ch = ch\<lparr>ch_queue := [], ch_dropped := True\<rparr>"

lemma chan_pop_drop_simps [simp]:
  "ch_sid (chan_pop ch) = ch_sid ch" "ch_closed (chan_pop ch) = ch_closed ch"
  "ch_sid (chan_drop ch) = ch_sid ch" "ch_closed (chan_drop ch) = ch_closed ch"
  "ch_queue (chan_pop ch) = tl (ch_queue ch)" "ch_queue (chan_drop ch) = []"
  "ch_dropped (chan_pop ch) = ch_dropped ch" "ch_dropped (chan_drop ch)"
  by (simp_all add: chan_pop_def chan_drop_def)

end
