(* ===== verification/AnyTlsPeer.thy ===== *)
theory AnyTlsPeer
  imports AnyTls Crypto
begin

text \<open>
  The two ends of an AnyTLS session: the stream objects and the writer task of
  \<open>session.rs\<close>, the client of \<open>client.rs\<close> and the server of \<open>server.rs\<close>. The SHA-256
  function is a parameter: it is called from a third-party crate.
\<close>

section \<open>Readers\<close>

text \<open>The contract of an \<open>AsyncRead\<close>: what is still to be read, and whether the end
  of the stream follows it, do not depend on how it is read; an empty read means
  the end, and \<open>Pending\<close> that nothing is there yet. \<open>read_all\<close> reads until
  then, at most \<open>n\<close> times.\<close>

fun read_all :: "('s \<Rightarrow> poll \<times> 's) \<Rightarrow> nat \<Rightarrow> 's \<Rightarrow> bytes \<times> bool" where
  "read_all rd 0 s = ([], False)"
| "read_all rd (Suc n) s =
    (case rd s of
       (Ready (Inr x), s') \<Rightarrow> if x = [] then ([], True) else apfst ((@) x) (read_all rd n s')
     | _ \<Rightarrow> ([], False))"

locale byte_reader =
  fixes rd :: "nat \<Rightarrow> 's \<Rightarrow> poll \<times> 's"
    and remaining :: "'s \<Rightarrow> bytes"
    and ended :: "'s \<Rightarrow> bool"
    and inv :: "'s \<Rightarrow> bool"
  assumes read_some: "inv s \<Longrightarrow> 0 < room \<Longrightarrow> rd room s = (Ready (Inr x), s') \<Longrightarrow>
      inv s' \<and> ended s' = ended s \<and> remaining s = x @ remaining s' \<and> (x = [] \<longrightarrow> ended s \<and> remaining s = [])"
    and read_pending: "inv s \<Longrightarrow> rd room s = (Pending, s') \<Longrightarrow> remaining s = [] \<and> \<not> ended s"
    and read_no_error: "inv s \<Longrightarrow> fst (rd room s) \<noteq> Ready (Inl e)"
begin

lemma read_all_remaining:
  assumes "inv s" "0 < room" "length (remaining s) < n"
  shows "read_all (rd room) n s = (remaining s, ended s)"
  using assms
proof (induction n arbitrary: s)
  case (Suc n)
  obtain p s' where r: "rd room s = (p, s')" by fastforce
  show ?case
  proof (cases p)
    case Pending
    then show ?thesis using read_pending [OF Suc(2), of room s'] r by simp
  next
    case (Ready z)
    then obtain x where x: "z = Inr x" using read_no_error [OF Suc(2), of room] r by (cases z) auto
    note law = read_some [OF Suc(2,3), of x s']
    show ?thesis
    proof (cases "x = []")
      case True
      then show ?thesis using law r Ready x by auto
    next
      case False
      have "length (remaining s') < n" using law r Ready x False Suc(4) by (cases x) auto
      then have "read_all (rd room) n s' = (remaining s', ended s')"
        using law r Ready x False Suc(3) by (intro Suc(1)) auto
      then show ?thesis using law r Ready x False by simp
    qed
  qed
qed simp

lemma read_nonempty:
  assumes "inv s" "0 < room" "remaining s \<noteq> []"
  obtains x s' where "rd room s = (Ready (Inr x), s')" "x \<noteq> []" "inv s'" "ended s' = ended s"
    "remaining s = x @ remaining s'"
proof -
  obtain p s' where r: "rd room s = (p, s')" by fastforce
  have "p \<noteq> Pending" using read_pending [OF assms(1)] r assms(3) by blast
  then obtain z where "p = Ready z" by (cases p) auto
  then obtain x where x: "p = Ready (Inr x)"
    using read_no_error [OF assms(1), of room] r by (cases z) auto
  then have "rd room s = (Ready (Inr x), s')" using r by simp
  from read_some [OF assms(1,2) this] this assms(3) show ?thesis by (auto intro: that)
qed

end

section \<open>Streams\<close>

record astream =
  st_sid :: u32
  st_rx :: chan
  st_leftover :: "bytes option"
  st_fin_sent :: bool
  st_eof :: bool

definition stream_new :: "u32 \<Rightarrow> chan \<Rightarrow> astream" where
  "stream_new sid rx =
    \<lparr>st_sid = sid, st_rx = rx, st_leftover = None, st_fin_sent = False, st_eof = False\<rparr>"

text \<open>\<open>poll_read\<close> with \<open>room\<close> bytes left in the caller's buffer.\<close>

definition give :: "nat \<Rightarrow> bytes \<Rightarrow> astream \<Rightarrow> poll \<times> astream" where
  "give room data st =
    (let capped = min room (length data) in
     (Ready (Inr (take capped data)),
      st\<lparr>st_leftover := (if capped < length data then Some (drop capped data) else None)\<rparr>))"

definition stream_poll_read :: "nat \<Rightarrow> astream \<Rightarrow> poll \<times> astream" where
  "stream_poll_read room st =
    (case st_leftover st of
       Some data \<Rightarrow> give room data st
     | None \<Rightarrow>
         if st_eof st then (Ready (Inr []), st)
         else (case ch_queue (st_rx st) of
             MsgData data # q \<Rightarrow>
               let st' = st\<lparr>st_rx := chan_pop (st_rx st)\<rparr> in
               if data = [] then (Ready (Inr []), st'\<lparr>st_eof := True\<rparr>)
               else give room data st'
           | MsgEof # q \<Rightarrow> (Ready (Inr []), st\<lparr>st_rx := chan_pop (st_rx st), st_eof := True\<rparr>)
           | [] \<Rightarrow> if ch_closed (st_rx st) then (Ready (Inr []), st\<lparr>st_eof := True\<rparr>) else (Pending, st)))"

text \<open>The bytes of a queue up to the first end of stream, and whether it has one.\<close>

fun stream_content :: "stream_msg list \<Rightarrow> bytes \<times> bool" where
  "stream_content [] = ([], False)"
| "stream_content (MsgEof # q) = ([], True)"
| "stream_content (MsgData d # q) = (if d = [] then ([], True) else apfst ((@) d) (stream_content q))"

definition stream_remaining :: "astream \<Rightarrow> bytes" where
  "stream_remaining st =
    (case st_leftover st of None \<Rightarrow> [] | Some d \<Rightarrow> d)
    @ (if st_eof st then [] else fst (stream_content (ch_queue (st_rx st))))"

definition stream_ended :: "astream \<Rightarrow> bool" where
  "stream_ended st \<longleftrightarrow>
    st_eof st \<or> snd (stream_content (ch_queue (st_rx st))) \<or> ch_closed (st_rx st)"

definition wf_stream :: "astream \<Rightarrow> bool" where
  "wf_stream st \<longleftrightarrow> st_leftover st \<noteq> Some []"

lemma give_reads:
  assumes "give room data st = (Ready (Inr x), st')" "0 < room" "data \<noteq> []"
  shows "wf_stream st' \<and> data @ stream_remaining (st\<lparr>st_leftover := None\<rparr>) = x @ stream_remaining st'
    \<and> stream_ended st' = stream_ended st \<and> x \<noteq> []"
  using assms by (auto simp: give_def Let_def wf_stream_def stream_remaining_def stream_ended_def
      split: if_splits)

lemma stream_poll_read_queue:
  assumes "st_leftover st = None" "\<not> st_eof st" "0 < room"
    "stream_poll_read room st = (Ready (Inr x), st')"
  shows "wf_stream st' \<and> stream_ended st' = stream_ended st \<and> stream_remaining st = x @ stream_remaining st'
    \<and> (x = [] \<longrightarrow> stream_ended st \<and> stream_remaining st = [])"
proof (cases "ch_queue (st_rx st)")
  case Nil
  then show ?thesis
    using assms by (auto simp: stream_poll_read_def wf_stream_def stream_remaining_def stream_ended_def split: if_splits)
next
  case (Cons m q)
  show ?thesis
  proof (cases "\<exists>d. m = MsgData d \<and> d \<noteq> []")
    case True
    then obtain d where d: "m = MsgData d" "d \<noteq> []" by blast
    let ?st = "st\<lparr>st_rx := chan_pop (st_rx st)\<rparr>"
    have "give room d ?st = (Ready (Inr x), st')"
      using assms d Cons by (simp add: stream_poll_read_def Let_def)
    from give_reads [OF this assms(3) d(2)] show ?thesis
      using assms(1,2) d Cons by (auto simp: stream_remaining_def stream_ended_def)
  next
    case False
    then show ?thesis
      using assms Cons
      by (cases m) (auto simp: stream_poll_read_def wf_stream_def stream_remaining_def stream_ended_def Let_def)
  qed
qed

lemma stream_poll_read_spec:
  assumes "wf_stream st" "0 < room" "stream_poll_read room st = (Ready (Inr x), st')"
  shows "wf_stream st' \<and> stream_ended st' = stream_ended st \<and> stream_remaining st = x @ stream_remaining st'
    \<and> (x = [] \<longrightarrow> stream_ended st \<and> stream_remaining st = [])"
proof (cases "st_leftover st")
  case (Some d)
  then have "give room d st = (Ready (Inr x), st')" "d \<noteq> []"
    using assms by (auto simp: stream_poll_read_def wf_stream_def)
  from give_reads [OF this(1) assms(2) this(2)] show ?thesis
    using Some by (auto simp: stream_remaining_def)
next
  case None
  show ?thesis
  proof (cases "st_eof st")
    case True
    then show ?thesis using assms None by (auto simp: stream_poll_read_def stream_remaining_def stream_ended_def)
  next
    case False
    then show ?thesis using stream_poll_read_queue [OF None False assms(2,3)] by blast
  qed
qed

interpretation astream: byte_reader stream_poll_read stream_remaining stream_ended wf_stream
proof
  fix st room st'
  assume "wf_stream st" "stream_poll_read room st = (Pending, st')"
  then show "stream_remaining st = [] \<and> \<not> stream_ended st"
    by (auto simp: stream_poll_read_def give_def Let_def stream_remaining_def stream_ended_def
        split: option.splits if_splits list.splits stream_msg.splits)
next
  fix st room e
  show "fst (stream_poll_read room st) \<noteq> Ready (Inl e)"
    by (auto simp: stream_poll_read_def give_def Let_def split: option.splits list.splits stream_msg.splits)
qed (use stream_poll_read_spec in blast)

section \<open>The server\<close>

record prefixed =
  pf_inner :: astream
  pf_prefix :: "bytes option"

definition prefixed_poll_read :: "nat \<Rightarrow> prefixed \<Rightarrow> poll \<times> prefixed" where
  "prefixed_poll_read room pf =
    (case pf_prefix pf of
       Some pre \<Rightarrow>
         if pre \<noteq> [] then
           (let n = min room (length pre) in
            (Ready (Inr (take n pre)), pf\<lparr>pf_prefix := Some (drop n pre)\<rparr>))
         else (case stream_poll_read room (pf_inner pf) of
             (p, st) \<Rightarrow> (p, pf\<lparr>pf_inner := st, pf_prefix := None\<rparr>))
     | None \<Rightarrow> (case stream_poll_read room (pf_inner pf) of
             (p, st) \<Rightarrow> (p, pf\<lparr>pf_inner := st, pf_prefix := None\<rparr>)))"

definition prefixed_remaining :: "prefixed \<Rightarrow> bytes" where
  "prefixed_remaining pf =
    (case pf_prefix pf of None \<Rightarrow> [] | Some pre \<Rightarrow> pre) @ stream_remaining (pf_inner pf)"

definition wf_prefixed :: "prefixed \<Rightarrow> bool" where
  "wf_prefixed pf \<longleftrightarrow> wf_stream (pf_inner pf)"

lemma prefixed_poll_read_inner:
  "prefixed_poll_read room pf =
    (if pf_prefix pf = None \<or> pf_prefix pf = Some [] then
       (fst (stream_poll_read room (pf_inner pf)),
        pf\<lparr>pf_inner := snd (stream_poll_read room (pf_inner pf)), pf_prefix := None\<rparr>)
     else let pre = the (pf_prefix pf); n = min room (length pre) in
       (Ready (Inr (take n pre)), pf\<lparr>pf_prefix := Some (drop n pre)\<rparr>))"
  by (auto simp: prefixed_poll_read_def Let_def case_prod_beta split: option.splits)

interpretation prefixed: byte_reader prefixed_poll_read prefixed_remaining "stream_ended \<circ> pf_inner" wf_prefixed
proof
  fix pf room x pf'
  assume inv: "wf_prefixed pf" and room: "0 < (room :: nat)"
    and r: "prefixed_poll_read room pf = (Ready (Inr x), pf')"
  show "wf_prefixed pf' \<and> (stream_ended \<circ> pf_inner) pf' = (stream_ended \<circ> pf_inner) pf
      \<and> prefixed_remaining pf = x @ prefixed_remaining pf'
      \<and> (x = [] \<longrightarrow> (stream_ended \<circ> pf_inner) pf \<and> prefixed_remaining pf = [])"
  proof (cases "pf_prefix pf = None \<or> pf_prefix pf = Some []")
    case True
    then obtain st where st: "stream_poll_read room (pf_inner pf) = (Ready (Inr x), st)"
        "pf' = pf\<lparr>pf_inner := st, pf_prefix := None\<rparr>"
      using r by (auto simp: prefixed_poll_read_inner prod_eq_iff)
    from astream.read_some [OF _ room st(1)] show ?thesis
      using inv True by (auto simp: wf_prefixed_def prefixed_remaining_def st(2))
  next
    case False
    then show ?thesis
      using inv room r by (auto simp: prefixed_poll_read_inner Let_def wf_prefixed_def prefixed_remaining_def min_def
          split: if_splits)
  qed
next
  fix pf and room :: nat and pf'
  assume inv: "wf_prefixed pf" and r: "prefixed_poll_read room pf = (Pending, pf')"
  then have n: "pf_prefix pf = None \<or> pf_prefix pf = Some []"
    by (auto simp: prefixed_poll_read_inner Let_def split: if_splits)
  then have "stream_poll_read room (pf_inner pf) = (Pending, snd (stream_poll_read room (pf_inner pf)))"
    using r by (auto simp: prefixed_poll_read_inner prod_eq_iff)
  from astream.read_pending [OF _ this] show "prefixed_remaining pf = [] \<and> \<not> (stream_ended \<circ> pf_inner) pf"
    using inv n by (auto simp: wf_prefixed_def prefixed_remaining_def)
next
  fix pf room e
  assume "wf_prefixed pf"
  then show "fst (prefixed_poll_read room pf) \<noteq> Ready (Inl e)"
    using astream.read_no_error [of "pf_inner pf" room e]
    by (auto simp: prefixed_poll_read_inner Let_def wf_prefixed_def split: if_splits)
qed

text \<open>The task of a new stream reads until the buffer starts with an address.\<close>

datatype served = Routed proxy_target prefixed | Dropped | Waiting bytes astream

lemma stream_read_shorter:
  assumes "stream_poll_read 512 st = (Ready (Inr x), st')" "x \<noteq> []"
  shows "length (ch_queue (st_rx st')) < length (ch_queue (st_rx st))
    \<or> st_rx st' = st_rx st
      \<and> length (case st_leftover st' of None \<Rightarrow> [] | Some d \<Rightarrow> d) < length (case st_leftover st of None \<Rightarrow> [] | Some d \<Rightarrow> d)"
  using assms
  by (auto simp: stream_poll_read_def give_def Let_def split: option.splits if_splits list.splits stream_msg.splits)

function serve_stream :: "bytes \<Rightarrow> astream \<Rightarrow> served" where
  "serve_stream buf st =
    (case decode buf of
       Inr (addr, used) \<Rightarrow>
         Routed (to_proxy_target addr) \<lparr>pf_inner = st, pf_prefix = Some (drop used buf)\<rparr>
     | Inl m \<Rightarrow>
         if length buf > 4096 then Dropped
         else (case stream_poll_read 512 st of
             (Ready (Inr x), st') \<Rightarrow> if x = [] then Dropped else serve_stream (buf @ x) st'
           | (Ready (Inl e), st') \<Rightarrow> Dropped
           | (Pending, st') \<Rightarrow> Waiting buf st'))"
  by auto
termination
  by (relation "measures [\<lambda>(_, st). length (ch_queue (st_rx st)),
      \<lambda>(_, st). length (case st_leftover st of None \<Rightarrow> [] | Some d \<Rightarrow> d)]")
    (auto dest!: stream_read_shorter [OF sym])

declare serve_stream.simps [simp del]

text \<open>The address is found as soon as it is there, and nothing after it is lost.\<close>

lemma decode_short:
  assumes "wf_addr a" "prefix b (encode_addr a)" "b \<noteq> encode_addr a"
  shows "\<exists>m. decode b = Inl m"
proof (cases "decode b")
  case (Inr z)
  then obtain x n where z: "decode b = Inr (x, n)" by (cases z) auto
  obtain r where r: "encode_addr a = b @ r" using assms(2) by (auto simp: prefix_def)
  have "decode (encode_addr a @ []) = Inr (x, n)" using socks5.dec_mono [OF z, of r] r by simp
  then have "n = length (encode_addr a)" using socks5.dec_enc [OF assms(1), of "[]"] by simp
  then show ?thesis using socks5.dec_sound [OF z] assms(2,3) r by auto
qed simp

lemma prefix_split_cases:
  assumes "buf @ x = a @ d"
  shows "(\<exists>c. a = buf @ c \<and> c \<noteq> []) \<or> prefix a buf"
  using assms by (auto simp: append_eq_append_conv2 prefix_def)

lemma serve_stream_spec:
  assumes "wf_addr a" "wf_stream st" "buf @ stream_remaining st = encode_addr a @ data"
  shows "\<exists>pf. serve_stream buf st = Routed (to_proxy_target a) pf \<and> wf_prefixed pf
    \<and> prefixed_remaining pf = data \<and> stream_ended (pf_inner pf) = stream_ended st"
  using assms(2,3)
proof (induction buf st rule: serve_stream.induct)
  case (1 buf st)
  show ?case
  proof (cases "prefix (encode_addr a) buf")
    case True
    then have d: "decode buf = Inr (a, length (encode_addr a))"
      using socks5.dec_iff assms(1) by blast
    moreover have "drop (length (encode_addr a)) buf @ stream_remaining st = data"
      using True 1(3) by (auto simp: prefix_def)
    ultimately show ?thesis
      using 1(2) by (subst serve_stream.simps) (simp add: wf_prefixed_def prefixed_remaining_def)
  next
    case False
    then obtain c where c: "encode_addr a = buf @ c" "c \<noteq> []"
      using prefix_split_cases [OF 1(3)] by auto
    then obtain m where m: "decode buf = Inl m"
      using decode_short [OF assms(1), of buf] by (metis append_self_conv prefixI)
    have len: "\<not> length buf > 4096"
      using length_encode_addr [OF assms(1)] c(1) by simp
    have ne: "stream_remaining st \<noteq> []" using 1(3) c by auto
    obtain x st' where r: "stream_poll_read 512 st = (Ready (Inr x), st')" "x \<noteq> []" "wf_stream st'"
        "stream_ended st' = stream_ended st" "stream_remaining st = x @ stream_remaining st'"
      by (rule astream.read_nonempty [OF 1(2) _ ne, of 512]) auto
    then have "\<exists>pf. serve_stream (buf @ x) st' = Routed (to_proxy_target a) pf \<and> wf_prefixed pf
        \<and> prefixed_remaining pf = data \<and> stream_ended (pf_inner pf) = stream_ended st'"
      using 1(3) r by (intro 1(1) [OF m len r(1) [symmetric]]) auto
    then show ?thesis
      using m len r by (subst serve_stream.simps) simp
  qed
qed

definition read_auth :: "(bytes \<Rightarrow> bytes) \<Rightarrow> string \<Rightarrow> unit io" where
  "read_auth sha256 password =
    io_bind (read_exact 32) (\<lambda>token.
    io_bind (read_exact 2) (\<lambda>b. let pad_len = unat (be_u16 (b ! 0) (b ! 1)) in
    io_bind (if pad_len > 0 then read_exact pad_len else io_ret []) (\<lambda>_.
      if token \<noteq> sha256 (as_bytes password) then io_throw (io_err ''anytls: authentication failed'')
      else io_ret ())))"

text \<open>The registry of the server belongs to the loop: when the loop returns, every
  sender is dropped. \<open>reads\<close> is how the connection splits its bytes into reads.\<close>

definition close_all :: "session \<Rightarrow> session" where
  "close_all s = s\<lparr>se_registry := Map.empty, se_chans := map chan_close (se_chans s)\<rparr>"

definition accept_session ::
    "(bytes \<Rightarrow> bytes) \<Rightarrow> string \<Rightarrow> (bytes \<Rightarrow> bytes list) \<Rightarrow> conn \<Rightarrow> (io_error + unit) \<times> session" where
  "accept_session sha256 password reads c =
    (case read_auth sha256 password c of
       (Inl e, c') \<Rightarrow> (Inl e, session_init)
     | (Inr _, c') \<Rightarrow> apsnd close_all (read_loop True session_init [] (reads (inp c'))))"

section \<open>Writing\<close>

text \<open>The frame channel and the writer task: \<open>w_queue\<close> holds the frames that wait,
  \<open>w_wire\<close> what was written to the connection, and \<open>w_log\<close> records the frames
  the channel has accepted since the session began.\<close>

record writer =
  w_queue :: "aframe list"
  w_wire :: bytes
  w_gone :: bool
  w_log :: "aframe list"

definition writer_push :: "aframe \<Rightarrow> writer \<Rightarrow> writer" where
  "writer_push f w = w\<lparr>w_queue := w_queue w @ [f], w_log := w_log w @ [f]\<rparr>"

definition writer_step :: "writer \<Rightarrow> writer" where
  "writer_step w =
    (case w_queue w of [] \<Rightarrow> w | f # q \<Rightarrow> w\<lparr>w_queue := q, w_wire := w_wire w @ frame_encode f\<rparr>)"

definition try_send :: "aframe \<Rightarrow> writer \<Rightarrow> writer option" where
  "try_send f w = (if w_gone w \<or> length (w_queue w) \<ge> FRAME_BUF then None else Some (writer_push f w))"

text \<open>\<open>Sender::send\<close> waits until the writer task has made room.\<close>

definition send_wait :: "aframe \<Rightarrow> writer \<Rightarrow> writer option" where
  "send_wait f w =
    (if w_gone w then None
     else Some (writer_push f (if length (w_queue w) \<ge> FRAME_BUF then writer_step w else w)))"

definition send_psh :: "astream \<Rightarrow> bytes \<Rightarrow> writer \<Rightarrow> io_error + writer" where
  "send_psh st data w =
    (if st_fin_sent st then Inl (IoError BrokenPipe ''anytls: closed'')
     else (case try_send (with_data CMD_PSH (st_sid st) data) w of
         None \<Rightarrow> Inl (IoError BrokenPipe ''anytls: session closed'')
       | Some w' \<Rightarrow> Inr w'))"

definition send_fin :: "astream \<Rightarrow> writer \<Rightarrow> astream \<times> writer" where
  "send_fin st w =
    (if st_fin_sent st then (st, w)
     else (st\<lparr>st_fin_sent := True\<rparr>,
       case try_send (frame_new CMD_FIN (st_sid st)) w of None \<Rightarrow> w | Some w' \<Rightarrow> w'))"

fun send_chunks :: "astream \<Rightarrow> bytes list \<Rightarrow> writer \<Rightarrow> (io_error + unit) \<times> writer" where
  "send_chunks st [] w = (Inr (), w)"
| "send_chunks st (d # ds) w =
    (case send_psh st d w of Inl e \<Rightarrow> (Inl e, w) | Inr w' \<Rightarrow> send_chunks st ds w')"

definition stream_poll_write :: "astream \<Rightarrow> bytes \<Rightarrow> writer \<Rightarrow> (io_error + nat) \<times> writer" where
  "stream_poll_write st buf w =
    (case send_chunks st (chunks ANYTLS_MAX_PAYLOAD buf) w of
       (Inl e, w') \<Rightarrow> (Inl e, w')
     | (Inr _, w') \<Rightarrow> (Inr (length buf), w'))"

definition stream_poll_shutdown :: "astream \<Rightarrow> writer \<Rightarrow> astream \<times> writer" where
  "stream_poll_shutdown st w = send_fin st w"

section \<open>The client\<close>

record client_session =
  cl_session :: session
  cl_writer :: writer
  cl_next_sid :: u32

definition auth_token :: "(bytes \<Rightarrow> bytes) \<Rightarrow> string \<Rightarrow> bytes" where
  "auth_token sha256 password = sha256 (as_bytes password)"

definition scheme_md5 :: "bytes \<Rightarrow> string" where
  "scheme_md5 raw = hex_encode (md5_digest [raw])"

definition settings_text :: "string \<Rightarrow> string" where
  "settings_text version =
    ''v=2'' @ [CHR 0x0A] @ ''client=omni-rs/'' @ version @ [CHR 0x0A] @ ''padding-md5='' @ scheme_md5 []"

definition connect_session :: "(bytes \<Rightarrow> bytes) \<Rightarrow> string \<Rightarrow> string \<Rightarrow> client_session" where
  "connect_session sha256 version password =
    \<lparr>cl_session = session_init,
     cl_writer = writer_push (with_data CMD_SETTINGS 0 (as_bytes (settings_text version)))
       \<lparr>w_queue = [], w_wire = auth_token sha256 password @ nat_be 2 0, w_gone = False, w_log = []\<rparr>,
     cl_next_sid = 1\<rparr>"

definition session_gone :: io_error where
  "session_gone = io_err ''anytls: session closed''"

definition open_stream_to :: "proxy_target \<Rightarrow> client_session \<Rightarrow> (io_error + astream) \<times> client_session" where
  "open_stream_to target cl =
    (let sid = cl_next_sid cl;
         c = length (se_chans (cl_session cl));
         cl1 = cl\<lparr>cl_next_sid := sid + 1, cl_session := register_stream True sid (cl_session cl)\<rparr>
     in case send_wait (frame_new CMD_SYN sid) (cl_writer cl1) of
          None \<Rightarrow> (Inl session_gone, cl1)
        | Some w \<Rightarrow>
            (case send_wait (with_data CMD_PSH sid (encode_into (from_proxy_target target) [])) w of
               None \<Rightarrow> (Inl session_gone, cl1\<lparr>cl_writer := w\<rparr>)
             | Some w' \<Rightarrow>
                 (Inr (stream_new sid (se_chans (cl_session cl1) ! c)), cl1\<lparr>cl_writer := w'\<rparr>)))"

text \<open>The use of a session by the tasks that share it: streams are opened, written and
  shut down, and the writer task sends frames in between. The first failing
  write ends the run.\<close>

datatype cl_op = OpOpen proxy_target | OpWrite nat bytes | OpShutdown nat | OpFlush

record cl_state =
  cs_client :: client_session
  cs_streams :: "astream list"

definition client_op :: "cl_op \<Rightarrow> cl_state \<Rightarrow> io_error + cl_state" where
  "client_op op cs =
    (case op of
       OpOpen t \<Rightarrow>
         (case open_stream_to t (cs_client cs) of
            (Inl e, cl) \<Rightarrow> Inl e
          | (Inr st, cl) \<Rightarrow> Inr \<lparr>cs_client = cl, cs_streams = cs_streams cs @ [st]\<rparr>)
     | OpWrite k d \<Rightarrow>
         if k < length (cs_streams cs) then
           (case stream_poll_write (cs_streams cs ! k) d (cl_writer (cs_client cs)) of
              (Inl e, w) \<Rightarrow> Inl e
            | (Inr n, w) \<Rightarrow> Inr (cs\<lparr>cs_client := (cs_client cs)\<lparr>cl_writer := w\<rparr>\<rparr>))
         else Inr cs
     | OpShutdown k \<Rightarrow>
         if k < length (cs_streams cs) then
           (case stream_poll_shutdown (cs_streams cs ! k) (cl_writer (cs_client cs)) of
              (st, w) \<Rightarrow> Inr (cs\<lparr>cs_client := (cs_client cs)\<lparr>cl_writer := w\<rparr>, cs_streams := (cs_streams cs)[k := st]\<rparr>))
         else Inr cs
     | OpFlush \<Rightarrow> Inr (cs\<lparr>cs_client := (cs_client cs)\<lparr>cl_writer := writer_step (cl_writer (cs_client cs))\<rparr>\<rparr>))"

fun client_run :: "cl_op list \<Rightarrow> cl_state \<Rightarrow> io_error + cl_state" where
  "client_run [] cs = Inr cs"
| "client_run (op # ops) cs = (case client_op op cs of Inl e \<Rightarrow> Inl e | Inr cs' \<Rightarrow> client_run ops cs')"

definition client_start :: "(bytes \<Rightarrow> bytes) \<Rightarrow> string \<Rightarrow> string \<Rightarrow> cl_state" where
  "client_start sha256 version password =
    \<lparr>cs_client = connect_session sha256 version password, cs_streams = []\<rparr>"

section \<open>A session is a list of independent pipes\<close>

text \<open>What a session promises: a list of byte pipes, each with its target, the bytes
  written to it, and whether it has been shut down.\<close>

type_synonym pipe = "proxy_target \<times> bytes \<times> bool"

fun pipe_op :: "cl_op \<Rightarrow> pipe list \<Rightarrow> pipe list" where
  "pipe_op (OpOpen t) ps = ps @ [(t, [], False)]"
| "pipe_op (OpWrite k d) ps = (case ps ! k of (t, x, c) \<Rightarrow> ps[k := (t, x @ d, c)])"
| "pipe_op (OpShutdown k) ps = (case ps ! k of (t, x, c) \<Rightarrow> ps[k := (t, x, True)])"
| "pipe_op OpFlush ps = ps"

definition pipes :: "cl_op list \<Rightarrow> pipe list" where
  "pipes ops = fold pipe_op ops []"

definition sid_of :: "nat \<Rightarrow> u32" where
  "sid_of k = word_of_nat (Suc k)"

lemma sid_of_inject:
  assumes "Suc i < 2 ^ 32" "Suc j < 2 ^ 32"
  shows "sid_of i = sid_of j \<longleftrightarrow> i = j"
proof -
  have "unat (sid_of i) = Suc i" "unat (sid_of j) = Suc j"
    using assms unfolding sid_of_def by (subst unat_of_nat, simp)+
  then show ?thesis by (metis Suc_inject)
qed

definition pipe_ok :: "session \<Rightarrow> nat \<Rightarrow> pipe \<Rightarrow> bool" where
  "pipe_ok s k p \<longleftrightarrow>
    (case p of (t, x, c) \<Rightarrow>
      ch_sid (se_chans s ! k) = sid_of k
      \<and> fst (stream_content (ch_queue (se_chans s ! k))) = encode_addr (from_proxy_target t) @ x
      \<and> (\<not> c \<longrightarrow> registered s k \<and> \<not> snd (stream_content (ch_queue (se_chans s ! k)))))"

definition serves :: "session \<Rightarrow> pipe list \<Rightarrow> bool" where
  "serves s ps \<longleftrightarrow>
    wf_session s \<and> none_dropped s \<and> se_settings s \<and> length (se_chans s) = length ps
    \<and> (\<forall>k < length ps. pipe_ok s k (ps ! k))"

lemma servesD:
  assumes "serves s ps" "k < length ps" "ps ! k = (t, x, c)"
  shows "wf_session s" "none_dropped s" "k < length (se_chans s)" "ch_sid (se_chans s ! k) = sid_of k"
    "fst (stream_content (ch_queue (se_chans s ! k))) = encode_addr (from_proxy_target t) @ x"
    "\<not> c \<Longrightarrow> se_registry s (sid_of k) = Some k"
    "\<not> c \<Longrightarrow> \<not> snd (stream_content (ch_queue (se_chans s ! k)))"
  using assms by (auto simp: serves_def pipe_ok_def registered_def)

lemma stream_content_snoc:
  "\<not> snd (stream_content q) \<Longrightarrow> d \<noteq> [] \<Longrightarrow>
    stream_content (q @ [MsgData d]) = (fst (stream_content q) @ d, False)"
  by (induction q rule: stream_content.induct) auto

lemma stream_content_eof:
  "fst (stream_content (q @ [MsgEof])) = fst (stream_content q)"
  by (induction q rule: stream_content.induct) auto

lemma pipe_ok_cong:
  assumes "se_chans s' ! k = se_chans s ! k" "se_registry s' (sid_of k) = se_registry s (sid_of k)"
  shows "pipe_ok s' k p = pipe_ok s k p"
  using assms by (auto simp: pipe_ok_def registered_def split: prod.splits)

lemma serves_psh:
  assumes "serves s ps" "k < length ps" "ps ! k = (t, x, False)" "d \<noteq> []" "length ps < 2 ^ 32 - 1"
  shows "\<exists>s'. handle_frame True (with_data CMD_PSH (sid_of k) d) s = Inr s' \<and> serves s' (ps[k := (t, x @ d, False)])"
proof -
  note D = servesD [OF assms(1-3)]
  define s' where "s' = with_chan k (chan_send (MsgData d)) s"
  have h: "handle_frame True (with_data CMD_PSH (sid_of k) d) s = Inr s'"
    using D(6) assms(4) by (simp add: handle_frame_def on_psh_def psh_msg_def s'_def cmd_defs)
  have "pipe_ok s' k (t, x @ d, False)"
    using D stream_content_snoc [OF D(7) assms(4)] none_dropped_nth [OF D(2,3)]
    by (simp add: pipe_ok_def s'_def registered_with_chan registered_def)
  moreover have "pipe_ok s' j (ps ! j)" if "j < length ps" "j \<noteq> k" for j
    using assms(1) that by (subst pipe_ok_cong [of _ _ s]) (auto simp: serves_def s'_def)
  ultimately have "serves s' (ps[k := (t, x @ d, False)])"
    using assms(1,2) wf_handle_frame [OF D(1) h] none_dropped_handle_frame [OF D(2) h]
    by (auto simp: serves_def nth_list_update s'_def)
  with h show ?thesis by blast
qed

lemma serves_fin:
  assumes "serves s ps" "k < length ps" "ps ! k = (t, x, False)" "length ps < 2 ^ 32 - 1"
  shows "\<exists>s'. handle_frame True (frame_new CMD_FIN (sid_of k)) s = Inr s' \<and> serves s' (ps[k := (t, x, True)])"
proof -
  note D = servesD [OF assms(1-3)]
  define s' where "s' = on_fin (sid_of k) s"
  have h: "handle_frame True (frame_new CMD_FIN (sid_of k)) s = Inr s'"
    by (simp add: handle_frame_def s'_def cmd_defs)
  have "pipe_ok s' k (t, x, True)"
    using D none_dropped_nth [OF D(2,3)]
    by (simp add: pipe_ok_def s'_def on_fin_def stream_content_eof)
  moreover have "pipe_ok s' j (ps ! j)" if "j < length ps" "j \<noteq> k" for j
    using assms that D(6) sid_of_inject [of j k]
    by (subst pipe_ok_cong [of _ _ s]) (auto simp: serves_def s'_def on_fin_def)
  ultimately have "serves s' (ps[k := (t, x, True)])"
    using assms(1,2) wf_handle_frame [OF D(1) h] none_dropped_handle_frame [OF D(2) h] D(6)
    by (auto simp: serves_def nth_list_update s'_def on_fin_def)
  with h show ?thesis by blast
qed

lemma serves_lost_fin:
  assumes "serves s ps" "k < length ps" "ps ! k = (t, x, c)"
  shows "serves s (ps[k := (t, x, True)])"
  using assms by (auto simp: serves_def nth_list_update pipe_ok_def)

lemma encode_addr_nonempty [simp]: "encode_addr a \<noteq> []"
  by (cases a) auto

lemma serves_open:
  assumes "serves s ps" "Suc (length ps) < 2 ^ 32 - 1"
  shows "\<exists>s'. run_frames True [frame_new CMD_SYN (sid_of (length ps)),
      with_data CMD_PSH (sid_of (length ps)) (encode_addr (from_proxy_target t))] s = (None, s')
    \<and> serves s' (ps @ [(t, [], False)])"
proof -
  let ?n = "length ps" and ?a = "encode_addr (from_proxy_target t)"
  define s1 where "s1 = register_stream True (sid_of ?n) s"
  define s2 where "s2 = with_chan ?n (chan_send (MsgData ?a)) s1"
  have wf: "wf_session s" "none_dropped s" "se_settings s" and len: "length (se_chans s) = ?n"
    using assms(1) by (auto simp: serves_def)
  have h1: "handle_frame True (frame_new CMD_SYN (sid_of ?n)) s = Inr s1"
    using wf by (simp add: handle_frame_def s1_def cmd_defs)
  have h2: "handle_frame True (with_data CMD_PSH (sid_of ?n) ?a) s1 = Inr s2"
    using len by (simp add: handle_frame_def on_psh_def psh_msg_def s1_def s2_def cmd_defs)
  have old: "sid_of j \<noteq> sid_of ?n" if "j < ?n" for j
    using sid_of_inject [of j ?n] that assms(2) by auto
  have nth: "se_chans s1 ! j = se_chans s ! j" if "j < ?n" for j
  proof -
    have "se_registry s (sid_of ?n) \<noteq> Some j"
      using wf_sessionD(2) [OF wf(1)] old [OF that] servesD(4) [OF assms(1) that] by (metis prod_cases3)
    then show ?thesis using nth_register_stream [OF wf(1), of j True] that len by (simp add: s1_def)
  qed
  have "se_chans s1 ! ?n = \<lparr>ch_sid = sid_of ?n, ch_queue = [], ch_closed = False, ch_dropped = False\<rparr>"
    using nth_register_stream [OF wf(1), of ?n True] len by (simp add: s1_def)
  then have "pipe_ok s2 ?n (t, [], False)"
    using len by (simp add: pipe_ok_def s2_def registered_def s1_def)
  moreover have "pipe_ok s2 j (ps ! j)" if "j < ?n" for j
    using assms(1) that nth [OF that] old [OF that]
    by (subst pipe_ok_cong [of _ _ s]) (auto simp: serves_def s2_def s1_def)
  ultimately have "serves s2 (ps @ [(t, [], False)])"
    using wf_handle_frame [OF wf_handle_frame [OF wf(1) h1] h2] wf(3) len
      none_dropped_handle_frame [OF none_dropped_handle_frame [OF wf(2) h1] h2]
    by (auto simp: serves_def nth_append less_Suc_eq s2_def s1_def)
  with h1 h2 show ?thesis by simp
qed

section \<open>The client keeps the server in step\<close>

lemma run_frames_snoc:
  "run_frames b fs s = (None, s1) \<Longrightarrow> run_frames b gs s1 = (None, s2) \<Longrightarrow>
    run_frames b (fs @ gs) s = (None, s2)"
  by (simp add: run_frames_append)

text \<open>The server that has handled every frame the channel accepted serves the pipes.\<close>

definition log_serves :: "writer \<Rightarrow> pipe list \<Rightarrow> bool" where
  "log_serves w ps \<longleftrightarrow>
    \<not> w_gone w \<and> list_all wf_frame (w_log w)
    \<and> (\<exists>s. run_frames True (w_log w) session_init = (None, s) \<and> serves s ps)"

definition wire_ok :: "bytes \<Rightarrow> writer \<Rightarrow> bool" where
  "wire_ok hello w \<longleftrightarrow>
    w_wire w @ concat (map frame_encode (w_queue w)) = hello @ concat (map frame_encode (w_log w))"

lemma wire_ok_push [simp]: "wire_ok hello (writer_push f w) = wire_ok hello w"
  by (simp add: wire_ok_def writer_push_def flip: append_assoc)

lemma wire_ok_step [simp]: "wire_ok hello (writer_step w) = wire_ok hello w"
  by (auto simp: wire_ok_def writer_step_def split: list.splits)

lemma writer_push_simps [simp]:
  "w_log (writer_push f w) = w_log w @ [f]" "w_gone (writer_push f w) = w_gone w"
  "w_log (writer_step w) = w_log w" "w_gone (writer_step w) = w_gone w"
  by (auto simp: writer_push_def writer_step_def split: list.splits)

lemma log_serves_step [simp]: "log_serves (writer_step w) ps = log_serves w ps"
  by (simp add: log_serves_def)

lemma log_serves_push:
  assumes "log_serves w ps" "wf_frame f"
    "\<And>s. serves s ps \<Longrightarrow> \<exists>s'. handle_frame True f s = Inr s' \<and> serves s' qs"
  shows "log_serves (writer_push f w) qs"
proof -
  obtain s where s: "run_frames True (w_log w) session_init = (None, s)" "serves s ps"
    using assms(1) by (auto simp: log_serves_def)
  then obtain s' where "handle_frame True f s = Inr s'" "serves s' qs" using assms(3) by blast
  then have "run_frames True (w_log w @ [f]) session_init = (None, s')" "serves s' qs"
    using run_frames_snoc [OF s(1), of "[f]" s'] by auto
  then show ?thesis using assms(1,2) by (auto simp: log_serves_def)
qed

lemma send_psh_serves:
  assumes "log_serves w ps" "k < length ps" "ps ! k = (t, x, False)" "length ps < 2 ^ 32 - 1"
    "d \<noteq> []" "length d \<le> ANYTLS_MAX_PAYLOAD" "st_sid st = sid_of k" "send_psh st d w = Inr w'"
  shows "log_serves w' (ps[k := (t, x @ d, False)]) \<and> (wire_ok hello w' = wire_ok hello w)"
proof -
  have w': "w' = writer_push (with_data CMD_PSH (sid_of k) d) w"
    using assms(7,8) by (auto simp: send_psh_def try_send_def split: if_splits)
  have "wf_frame (with_data CMD_PSH (sid_of k) d)" using assms(6) by (simp add: wf_frame_def ANYTLS_MAX_PAYLOAD_def)
  then show ?thesis
    using w' log_serves_push [OF assms(1)] serves_psh [OF _ assms(2,3,5,4)] by simp
qed

lemma send_chunks_serves:
  assumes "log_serves w ps" "k < length ps" "ps ! k = (t, x, False)" "length ps < 2 ^ 32 - 1"
    "\<forall>d \<in> set ds. d \<noteq> [] \<and> length d \<le> ANYTLS_MAX_PAYLOAD" "st_sid st = sid_of k"
    "send_chunks st ds w = (Inr u, w')"
  shows "log_serves w' (ps[k := (t, x @ concat ds, False)]) \<and> (wire_ok hello w' = wire_ok hello w)"
  using assms
proof (induction ds arbitrary: w ps x)
  case Nil
  then show ?case by (metis append_Nil2 concat.simps(1) list_update_id prod.inject send_chunks.simps(1))
next
  case (Cons d ds)
  then obtain w1 where w1: "send_psh st d w = Inr w1" "send_chunks st ds w1 = (Inr u, w')"
    by (auto split: sum.splits)
  let ?qs = "ps[k := (t, x @ d, False)]"
  have 1: "log_serves w1 ?qs" "wire_ok hello w1 = wire_ok hello w"
    using send_psh_serves [OF Cons(2-5) _ _ Cons(7) w1(1)] Cons(6) by auto
  have "log_serves w' (?qs[k := (t, (x @ d) @ concat ds, False)]) \<and> (wire_ok hello w' = wire_ok hello w1)"
    using Cons(3-7) w1(2) by (intro Cons(1) [OF 1(1)]) auto
  then show ?case using 1(2) by simp
qed

lemma send_chunks_fin: "st_fin_sent st \<Longrightarrow> send_chunks st ds w = (Inr u, w') \<Longrightarrow> ds = [] \<and> w' = w"
  by (cases ds) (auto simp: send_psh_def)

lemma poll_write_serves:
  assumes "log_serves w ps" "k < length ps" "length ps < 2 ^ 32 - 1" "ps ! k = (t, x, c)"
    "st_sid st = sid_of k" "st_fin_sent st = c" "stream_poll_write st d w = (Inr n, w')"
  shows "log_serves w' (ps[k := (t, x @ d, c)]) \<and> (wire_ok hello w' = wire_ok hello w)"
proof -
  have s: "send_chunks st (chunks ANYTLS_MAX_PAYLOAD d) w = (Inr (), w')"
    using assms(7) by (auto simp: stream_poll_write_def split: prod.splits sum.splits)
  have cd: "concat (chunks ANYTLS_MAX_PAYLOAD d) = d" by (simp add: ANYTLS_MAX_PAYLOAD_def)
  show ?thesis
  proof (cases c)
    case True
    then have "chunks ANYTLS_MAX_PAYLOAD d = []" "w' = w" using send_chunks_fin [OF _ s] assms(6) by auto
    then have "d = []" using cd by simp
    then show ?thesis using assms(1,4) \<open>w' = w\<close> by (metis append_Nil2 list_update_id)
  next
    case False
    then show ?thesis
      using send_chunks_serves [OF assms(1,2) _ assms(3) _ assms(5) s] assms(4) cd chunks_bounds [of _ ANYTLS_MAX_PAYLOAD d]
      by auto
  qed
qed

lemma send_fin_serves:
  assumes "log_serves w ps" "k < length ps" "length ps < 2 ^ 32 - 1" "ps ! k = (t, x, c)"
    "st_sid st = sid_of k" "st_fin_sent st = c" "send_fin st w = (st', w')"
  shows "log_serves w' (ps[k := (t, x, True)]) \<and> (wire_ok hello w' = wire_ok hello w)
    \<and> st_sid st' = sid_of k \<and> st_fin_sent st'"
proof (cases "c \<or> try_send (frame_new CMD_FIN (sid_of k)) w = None")
  case True
  then have "w' = w" "st_sid st' = sid_of k" "st_fin_sent st'"
    using assms(5-7) by (auto simp: send_fin_def split: if_splits)
  then show ?thesis
    using assms(1,2,4) serves_lost_fin by (auto simp: log_serves_def)
next
  case False
  then have w': "w' = writer_push (frame_new CMD_FIN (sid_of k)) w" "st_sid st' = sid_of k" "st_fin_sent st'"
    using assms(5-7) by (auto simp: send_fin_def try_send_def split: if_splits)
  have "log_serves w' (ps[k := (t, x, True)])"
    unfolding w'(1)
    by (rule log_serves_push [OF assms(1)])
      (use serves_fin [OF _ assms(2) _ assms(3)] assms(4) False in \<open>auto simp: wf_frame_def\<close>)
  then show ?thesis using w' by simp
qed

definition client_inv :: "bytes \<Rightarrow> cl_state \<Rightarrow> pipe list \<Rightarrow> bool" where
  "client_inv hello cs ps \<longleftrightarrow>
    log_serves (cl_writer (cs_client cs)) ps \<and> wire_ok hello (cl_writer (cs_client cs))
    \<and> cl_next_sid (cs_client cs) = sid_of (length ps) \<and> length (cs_streams cs) = length ps
    \<and> (\<forall>k < length ps. st_sid (cs_streams cs ! k) = sid_of k
        \<and> st_fin_sent (cs_streams cs ! k) = snd (snd (ps ! k)))"

lemma send_wait_Some:
  assumes "send_wait f w = Some w'"
  obtains v where "w' = writer_push f v" "v = w \<or> v = writer_step w"
  using assms by (auto simp: send_wait_def split: if_splits)

lemma open_serves:
  assumes "log_serves w ps" "Suc (length ps) < 2 ^ 32 - 1" "wf_addr (from_proxy_target t)"
    "send_wait (frame_new CMD_SYN (sid_of (length ps))) w = Some w1"
    "send_wait (with_data CMD_PSH (sid_of (length ps)) (encode_addr (from_proxy_target t))) w1 = Some w2"
  shows "log_serves w2 (ps @ [(t, [], False)]) \<and> (wire_ok hello w2 = wire_ok hello w)"
proof -
  let ?f = "frame_new CMD_SYN (sid_of (length ps))"
    and ?g = "with_data CMD_PSH (sid_of (length ps)) (encode_addr (from_proxy_target t))"
  have log: "w_log w2 = w_log w @ [?f, ?g]" "w_gone w2 = w_gone w" "wire_ok hello w2 = wire_ok hello w"
    using assms(4,5) by (auto elim!: send_wait_Some)
  obtain s where s: "run_frames True (w_log w) session_init = (None, s)" "serves s ps"
    using assms(1) by (auto simp: log_serves_def)
  obtain s' where "run_frames True [?f, ?g] s = (None, s')" "serves s' (ps @ [(t, [], False)])"
    using serves_open [OF s(2) assms(2)] by blast
  moreover have "list_all wf_frame [?f, ?g]"
    using length_encode_addr [OF assms(3)] by (simp add: wf_frame_def)
  ultimately show ?thesis
    using log assms(1) run_frames_snoc [OF s(1)] by (auto simp: log_serves_def)
qed

lemma sid_of_Suc: "sid_of n + 1 = sid_of (Suc n)"
  by (simp add: sid_of_def)

lemma client_open_inv:
  assumes "client_inv hello cs ps" "Suc (length ps) < 2 ^ 32 - 1" "wf_addr (from_proxy_target t)"
    "client_op (OpOpen t) cs = Inr cs'"
  shows "client_inv hello cs' (ps @ [(t, [], False)])"
proof -
  let ?cl = "cs_client cs" and ?sid = "sid_of (length ps)"
  have inv: "log_serves (cl_writer ?cl) ps" "wire_ok hello (cl_writer ?cl)" "cl_next_sid ?cl = ?sid"
    using assms(1) by (auto simp: client_inv_def)
  obtain w1 w2 st where w: "send_wait (frame_new CMD_SYN ?sid) (cl_writer ?cl) = Some w1"
      "send_wait (with_data CMD_PSH ?sid (encode_addr (from_proxy_target t))) w1 = Some w2"
      "cl_writer (cs_client cs') = w2" "cl_next_sid (cs_client cs') = ?sid + 1"
      "cs_streams cs' = cs_streams cs @ [st]" "st_sid st = ?sid" "\<not> st_fin_sent st"
    using assms(4) inv(3)
    by (auto simp: client_op_def open_stream_to_def Let_def stream_new_def encode_into_def split: option.splits)
  have "log_serves w2 (ps @ [(t, [], False)])" "wire_ok hello w2"
    using open_serves [OF inv(1) assms(2,3) w(1,2), of hello] inv(2) by auto
  then show ?thesis
    using assms(1) w(3-7) by (auto simp: client_inv_def sid_of_Suc nth_append less_Suc_eq)
qed

lemma client_write_inv:
  assumes "client_inv hello cs ps" "length ps < 2 ^ 32 - 1" "client_op (OpWrite k d) cs = Inr cs'"
  shows "client_inv hello cs' (pipe_op (OpWrite k d) ps)"
proof (cases "k < length ps")
  case True
  obtain t x c where p: "ps ! k = (t, x, c)" by (metis prod_cases3)
  obtain n w where w: "stream_poll_write (cs_streams cs ! k) d (cl_writer (cs_client cs)) = (Inr n, w)"
      "cs' = cs\<lparr>cs_client := (cs_client cs)\<lparr>cl_writer := w\<rparr>\<rparr>"
    using assms(1,3) True by (auto simp: client_op_def client_inv_def split: prod.splits sum.splits)
  have "log_serves w (ps[k := (t, x @ d, c)]) \<and> wire_ok hello w"
    using poll_write_serves [OF _ True assms(2) p _ _ w(1), of hello] assms(1) True p by (auto simp: client_inv_def)
  then show ?thesis
    using assms(1) w(2) p True by (auto simp: client_inv_def nth_list_update)
next
  case False
  then show ?thesis using assms by (auto simp: client_op_def client_inv_def list_update_beyond split: prod.splits)
qed

lemma client_shutdown_inv:
  assumes "client_inv hello cs ps" "length ps < 2 ^ 32 - 1" "client_op (OpShutdown k) cs = Inr cs'"
  shows "client_inv hello cs' (pipe_op (OpShutdown k) ps)"
proof (cases "k < length ps")
  case True
  obtain t x c where p: "ps ! k = (t, x, c)" by (metis prod_cases3)
  obtain st w where w: "send_fin (cs_streams cs ! k) (cl_writer (cs_client cs)) = (st, w)"
      "cs' = cs\<lparr>cs_client := (cs_client cs)\<lparr>cl_writer := w\<rparr>, cs_streams := (cs_streams cs)[k := st]\<rparr>"
    using assms(1,3) True
    by (auto simp: client_op_def client_inv_def stream_poll_shutdown_def split: prod.splits)
  have "log_serves w (ps[k := (t, x, True)]) \<and> wire_ok hello w \<and> st_sid st = sid_of k \<and> st_fin_sent st"
    using send_fin_serves [OF _ True assms(2) p _ _ w(1), of hello] assms(1) True p by (auto simp: client_inv_def)
  then show ?thesis
    using assms(1) w(2) p True by (auto simp: client_inv_def nth_list_update)
next
  case False
  then show ?thesis using assms by (auto simp: client_op_def client_inv_def list_update_beyond split: prod.splits)
qed

lemma client_op_inv:
  assumes "client_inv hello cs ps" "Suc (length ps) < 2 ^ 32 - 1"
    "\<forall>t. op = OpOpen t \<longrightarrow> wf_addr (from_proxy_target t)" "client_op op cs = Inr cs'"
  shows "client_inv hello cs' (pipe_op op ps)"
proof (cases op)
  case OpFlush
  then show ?thesis using assms by (auto simp: client_op_def client_inv_def)
qed (use assms client_open_inv client_write_inv client_shutdown_inv in auto)

lemma length_pipe_op: "length (pipe_op op ps) \<le> Suc (length ps)"
  by (cases op) (auto split: prod.splits)

lemma client_run_inv:
  assumes "client_inv hello cs ps" "length ps + length ops < 2 ^ 32 - 1"
    "\<forall>t. OpOpen t \<in> set ops \<longrightarrow> wf_addr (from_proxy_target t)" "client_run ops cs = Inr cs'"
  shows "client_inv hello cs' (fold pipe_op ops ps)"
  using assms
proof (induction ops arbitrary: cs ps)
  case (Cons op ops)
  then obtain cs1 where cs1: "client_op op cs = Inr cs1" "client_run ops cs1 = Inr cs'"
    by (auto split: sum.splits)
  have "client_inv hello cs1 (pipe_op op ps)"
    using Cons(3,4) client_op_inv [OF Cons(2) _ _ cs1(1)] by auto
  moreover have "length (pipe_op op ps) + length ops < 2 ^ 32 - 1"
    using length_pipe_op [of op ps] Cons(3) by simp
  ultimately show ?case using Cons(1,4) cs1(2) by simp
qed simp

lemma client_start_inv:
  assumes "length version \<le> 255"
  shows "client_inv (auth_token sha256 password @ nat_be 2 0) (client_start sha256 version password) []"
proof -
  let ?f = "with_data CMD_SETTINGS 0 (as_bytes (settings_text version))"
  have "wf_frame ?f"
    using assms by (simp add: wf_frame_def settings_text_def scheme_md5_def length_md5_digest)
  moreover have "\<exists>s. run_frames True [?f] session_init = (None, s) \<and> serves s []"
    using wf_session_init by (simp add: handle_frame_def cmd_defs serves_def wf_session_def none_dropped_def session_init_def)
  ultimately have "log_serves (cl_writer (connect_session sha256 version password)) []"
    by (simp add: log_serves_def connect_session_def)
  then show ?thesis
    by (simp add: client_inv_def client_start_def connect_session_def sid_of_def wire_ok_def writer_push_def)
qed

section \<open>End to end\<close>

lemma read_auth_token:
  assumes "length (sha256 (as_bytes password)) = 32"
  shows "read_auth sha256 password \<lparr>inp = auth_token sha256 password @ nat_be 2 0 @ r, outp = w\<rparr> =
    (Inr (), \<lparr>inp = r, outp = w\<rparr>)"
proof -
  have "be_u16 (nat_be 2 0 ! 0) (nat_be 2 0 ! 1) = 0"
    using be_u16_nth [of 0] by (simp add: u16_be_def)
  then show ?thesis
    unfolding read_auth_def
    by (subst io_bind_read_append, simp add: auth_token_def assms)
      (subst io_bind_read_append, simp, simp add: Let_def auth_token_def)
qed

lemma pipes_opened_fold:
  "p \<in> set (fold pipe_op ops ps) \<Longrightarrow> fst p \<in> fst ` set ps \<or> OpOpen (fst p) \<in> set ops"
proof (induction ops arbitrary: ps)
  case (Cons op ops)
  have "fst ` set (pipe_op op ps) \<subseteq> fst ` set ps \<union> {t. op = OpOpen t}"
  proof (cases op)
    case (OpWrite k d)
    obtain t x c where p: "ps ! k = (t, x, c)" by (metis prod_cases3)
    then show ?thesis
      using OpWrite nth_mem [of k ps] set_update_subset_insert [of ps k "(t, x @ d, c)"]
      by (cases "k < length ps") (force simp: list_update_beyond)+
  next
    case (OpShutdown k)
    obtain t x c where p: "ps ! k = (t, x, c)" by (metis prod_cases3)
    then show ?thesis
      using OpShutdown nth_mem [of k ps] set_update_subset_insert [of ps k "(t, x, True)"]
      by (cases "k < length ps") (force simp: list_update_beyond)+
  qed auto
  then show ?case using Cons(1) [of "pipe_op op ps"] Cons(2) by auto
qed auto

lemma pipes_opened: "k < length (pipes ops) \<Longrightarrow> OpOpen (fst (pipes ops ! k)) \<in> set ops"
  using pipes_opened_fold [of "pipes ops ! k" ops "[]"] by (simp add: pipes_def)

lemma served_chan:
  assumes "pipe_ok s k (t, x, c)" "wf_addr (from_proxy_target t)"
  shows "\<exists>pf. serve_stream [] (stream_new sid (chan_close (se_chans s ! k))) = Routed t pf
    \<and> (\<forall>room n. 0 < room \<longrightarrow> length x < n \<longrightarrow> read_all (prefixed_poll_read room) n pf = (x, True))"
proof -
  let ?st = "stream_new sid (chan_close (se_chans s ! k))"
  have "wf_stream ?st" "stream_ended ?st"
      "[] @ stream_remaining ?st = encode_addr (from_proxy_target t) @ x"
    using assms(1) by (auto simp: wf_stream_def stream_new_def stream_ended_def stream_remaining_def pipe_ok_def)
  from serve_stream_spec [OF assms(2) this(1,3)] this(2) show ?thesis
    using prefixed.read_all_remaining by (fastforce simp: to_from_proxy_target)
qed

text \<open>Property C7: an AnyTLS session is a list of independent pipes. Whatever the tasks of
  the client do with the streams of a session (fewer than 2^32 - 1
  operations, none of which fails) and however the writer task and the reads of
  the server cut the connection, once the writer has sent its queue
  the server with the same password accepts the session, has one stream for every one
  that was opened, routes it to the target it was opened for, and reads from it
  exactly the bytes written to it, then the end of the stream.\<close>

theorem anytls_end_to_end:
  assumes "length (sha256 (as_bytes password)) = 32" "length version \<le> 255"
    and "client_run ops (client_start sha256 version password) = Inr cs"
    and "w_queue (cl_writer (cs_client cs)) = []"
    and "\<forall>t. OpOpen t \<in> set ops \<longrightarrow> wf_addr (from_proxy_target t)" "length ops < 2 ^ 32 - 1"
    and "\<forall>b. concat (reads b) = b \<and> [] \<notin> set (reads b)"
  shows "\<exists>s. accept_session sha256 password reads \<lparr>inp = w_wire (cl_writer (cs_client cs)), outp = []\<rparr> = (Inr (), s)
    \<and> length (se_chans s) = length (pipes ops)
    \<and> (\<forall>k < length (pipes ops). case pipes ops ! k of (t, x, c) \<Rightarrow>
        \<exists>pf. serve_stream [] (stream_new (ch_sid (se_chans s ! k)) (se_chans s ! k)) = Routed t pf
          \<and> (\<forall>room n. 0 < room \<longrightarrow> length x < n \<longrightarrow> read_all (prefixed_poll_read room) n pf = (x, True)))"
proof -
  let ?hello = "auth_token sha256 password @ nat_be 2 0" and ?w = "cl_writer (cs_client cs)"
  have "client_inv ?hello cs (pipes ops)"
    using client_run_inv [OF client_start_inv [OF assms(2)] _ assms(5,3)] assms(6) by (simp add: pipes_def)
  then obtain s where log: "list_all wf_frame (w_log ?w)" "run_frames True (w_log ?w) session_init = (None, s)"
      and s: "serves s (pipes ops)" and wire: "w_wire ?w = ?hello @ concat (map frame_encode (w_log ?w))"
    using assms(4) by (auto simp: client_inv_def log_serves_def wire_ok_def)
  let ?b = "concat (map frame_encode (w_log ?w))"
  have "read_loop True session_init [] (reads ?b) = (Inr (), s)"
    using assms(7) log anytls.drain_encoded [OF log(1), of "[]"] anytls.drain_Need [OF anytls.parse_empty]
    by (simp add: read_loop_concat handle_buf_drain after_frames_def loop_result_def at_eof_def)
  then have "accept_session sha256 password reads \<lparr>inp = w_wire ?w, outp = []\<rparr> = (Inr (), close_all s)"
    using read_auth_token [of sha256 password ?b "[]"] assms(1) wire by (simp add: accept_session_def)
  moreover have "length (se_chans (close_all s)) = length (pipes ops)"
    using s by (simp add: serves_def close_all_def)
  moreover have "case pipes ops ! k of (t, x, c) \<Rightarrow>
      \<exists>pf. serve_stream [] (stream_new (ch_sid (se_chans (close_all s) ! k)) (se_chans (close_all s) ! k)) = Routed t pf
        \<and> (\<forall>room n. 0 < room \<longrightarrow> length x < n \<longrightarrow> read_all (prefixed_poll_read room) n pf = (x, True))"
    if k: "k < length (pipes ops)" for k
  proof -
    obtain t x c where p: "pipes ops ! k = (t, x, c)" by (metis prod_cases3)
    then have "OpOpen t \<in> set ops" using pipes_opened [OF k] by simp
    moreover have "se_chans (close_all s) ! k = chan_close (se_chans s ! k)"
      using s k by (simp add: serves_def close_all_def)
    moreover have "pipe_ok s k (t, x, c)" using s k p by (auto simp: serves_def)
    ultimately show ?thesis using served_chan [of s k t x c] assms(5) p by simp
  qed
  ultimately show ?thesis by blast
qed

definition sample_ops :: "cl_op list" where
  "sample_ops =
    [OpOpen (Domain ''a'' 80), OpOpen (Domain ''b'' 443), OpWrite 1 [9], OpWrite 0 [1, 2], OpShutdown 1,
     OpFlush, OpFlush, OpFlush, OpWrite 0 [3], OpFlush, OpFlush, OpFlush, OpFlush, OpFlush, OpFlush]"

lemma sample_chunk: "chunks ANYTLS_MAX_PAYLOAD [a] = [[a]]" "chunks ANYTLS_MAX_PAYLOAD [a, b] = [[a, b]]"
  by (simp_all add: chunks_single ANYTLS_MAX_PAYLOAD_def)

lemmas client_run_simps =
  client_start_def connect_session_def client_op_def open_stream_to_def send_wait_def writer_push_def
  writer_step_def stream_poll_write_def send_psh_def try_send_def stream_poll_shutdown_def send_fin_def
  FRAME_BUF_def stream_new_def sample_chunk

lemma sample_client_run:
  "\<exists>cs. client_run sample_ops (client_start sha256 version password) = Inr cs
    \<and> w_queue (cl_writer (cs_client cs)) = []"
  by (simp add: sample_ops_def client_run_simps Let_def)

theorem anytls_end_to_end_witness:
  "\<exists>cs s. client_run sample_ops (client_start (\<lambda>d. replicate 32 0) ''0.1.5'' ''pw'') = Inr cs
    \<and> accept_session (\<lambda>d. replicate 32 0) ''pw'' (map (\<lambda>b. [b])) \<lparr>inp = w_wire (cl_writer (cs_client cs)), outp = []\<rparr>
      = (Inr (), s)
    \<and> (\<exists>pf. serve_stream [] (stream_new (ch_sid (se_chans s ! 0)) (se_chans s ! 0)) = Routed (Domain ''a'' 80) pf
        \<and> read_all (prefixed_poll_read 2) 5 pf = ([1, 2, 3], True))"
proof -
  obtain cs where cs: "client_run sample_ops (client_start (\<lambda>d. replicate 32 0) ''0.1.5'' ''pw'') = Inr cs"
      "w_queue (cl_writer (cs_client cs)) = []"
    using sample_client_run by blast
  have valid: "\<forall>t. OpOpen t \<in> set sample_ops \<longrightarrow> wf_addr (from_proxy_target t)"
    by (auto simp: sample_ops_def as_bytes_def utf8_valid.simps utf8_next_def)
  have p: "pipes sample_ops = [(Domain ''a'' 80, [1, 2, 3], False), (Domain ''b'' 443, [9], True)]"
    by (simp add: pipes_def sample_ops_def)
  have len: "length (replicate 32 (0 :: byte)) = 32" "length ''0.1.5'' \<le> 255" "length sample_ops < 2 ^ 32 - 1"
    by (simp_all add: sample_ops_def)
  have reads: "\<forall>b :: bytes. concat (map (\<lambda>b. [b]) b) = b \<and> [] \<notin> set (map (\<lambda>b. [b]) b)" by auto
  from anytls_end_to_end [OF len(1,2) cs valid len(3) reads] obtain s where
    s: "accept_session (\<lambda>d. replicate 32 0) ''pw'' (map (\<lambda>b. [b])) \<lparr>inp = w_wire (cl_writer (cs_client cs)), outp = []\<rparr>
      = (Inr (), s)"
    and k: "\<forall>k < length (pipes sample_ops). case pipes sample_ops ! k of (t, x, c) \<Rightarrow>
        \<exists>pf. serve_stream [] (stream_new (ch_sid (se_chans s ! k)) (se_chans s ! k)) = Routed t pf
          \<and> (\<forall>room n. 0 < room \<longrightarrow> length x < n \<longrightarrow> read_all (prefixed_poll_read room) n pf = (x, True))"
    by blast
  from k [rule_format, of 0] obtain pf where
    "serve_stream [] (stream_new (ch_sid (se_chans s ! 0)) (se_chans s ! 0)) = Routed (Domain ''a'' 80) pf"
    "\<forall>room n. 0 < room \<longrightarrow> length [1 :: byte, 2, 3] < n \<longrightarrow> read_all (prefixed_poll_read room) n pf = ([1, 2, 3], True)"
    unfolding p by auto
  with s cs(1) show ?thesis by auto
qed

section \<open>A full queue and a lost connection\<close>

lemma send_chunks_outcome:
  assumes "\<not> st_fin_sent st" "\<not> w_gone w" "length (w_queue w) \<le> FRAME_BUF"
  shows "send_chunks st ds w =
    (if length (w_queue w) + length ds \<le> FRAME_BUF then Inr () else Inl (IoError BrokenPipe ''anytls: session closed''),
     fold writer_push (map (with_data CMD_PSH (st_sid st)) (take (FRAME_BUF - length (w_queue w)) ds)) w)"
  using assms
proof (induction ds arbitrary: w)
  case (Cons d ds)
  show ?case
  proof (cases "length (w_queue w) = FRAME_BUF")
    case True
    then show ?thesis using Cons(2,3) by (simp add: send_psh_def try_send_def)
  next
    case False
    let ?w = "writer_push (with_data CMD_PSH (st_sid st) d) w"
    have "send_psh st d w = Inr ?w" using False Cons(2-4) by (simp add: send_psh_def try_send_def)
    moreover have "length (w_queue ?w) = Suc (length (w_queue w))" by (simp add: writer_push_def)
    moreover from this have "FRAME_BUF - length (w_queue w) = Suc (FRAME_BUF - length (w_queue ?w))"
      using False Cons(4) by simp
    ultimately show ?thesis using Cons(1) [of ?w] Cons(2-4) False by simp
  qed
qed simp

text \<open>A write succeeds exactly when the frame channel has room for all of its
  16384-byte chunks at once. Otherwise it does not wait: it fails with a broken
  pipe, although the session is up, after the chunks that did fit have been
  queued for the peer.\<close>

theorem anytls_write_outcome:
  assumes "\<not> st_fin_sent st" "\<not> w_gone w" "length (w_queue w) \<le> FRAME_BUF"
  shows "stream_poll_write st buf w =
    (if length (w_queue w) + length (chunks ANYTLS_MAX_PAYLOAD buf) \<le> FRAME_BUF then Inr (length buf)
     else Inl (IoError BrokenPipe ''anytls: session closed''),
     fold writer_push (map (with_data CMD_PSH (st_sid st))
       (take (FRAME_BUF - length (w_queue w)) (chunks ANYTLS_MAX_PAYLOAD buf))) w)"
  by (simp add: stream_poll_write_def send_chunks_outcome [OF assms])

theorem anytls_write_outcome_witness:
  "fst (stream_poll_write (stream_new 1 \<lparr>ch_sid = 1, ch_queue = [], ch_closed = False, ch_dropped = False\<rparr>) [7]
      \<lparr>w_queue = replicate 256 (frame_new CMD_WASTE 0), w_wire = [], w_gone = False, w_log = []\<rparr>)
    = Inl (IoError BrokenPipe ''anytls: session closed'')"
  by (subst anytls_write_outcome) (simp_all add: stream_new_def FRAME_BUF_def sample_chunk)

text \<open>The streams of a client do not observe that their session has failed.
  When the reading loop of the client returns, with or without an error, a
  stream that is still registered and whose messages have been read waits
  for more: its channel stays open because the client session keeps the registry.\<close>

theorem anytls_client_streams_wait:
  assumes "wf_session s" "read_loop False s buf cs = (r, s')" "se_registry s' sid = Some c"
    and "ch_queue (se_chans s' ! c) = []"
  shows "stream_poll_read room (stream_new sid (se_chans s' ! c)) = (Pending, stream_new sid (se_chans s' ! c))"
proof -
  have "wf_session s'" using wf_read_loop assms(1,2) by blast
  then show ?thesis
    using wf_sessionD(4) [OF _ assms(3)] assms(4) by (simp add: stream_poll_read_def stream_new_def)
qed

theorem anytls_client_streams_wait_witness:
  "\<exists>e s'. read_loop False (register_stream True 1 session_init) [] [[5, 0, 0, 0, 0, 0, 0]] = (Inl e, s')
    \<and> fst (stream_poll_read 10 (stream_new 1 (se_chans s' ! 0))) = Pending"
proof -
  let ?s = "register_stream True 1 session_init"
  have "try_decode [] = Need" by (simp add: try_decode_def HEADER_SIZE_def)
  moreover have "try_decode [5, 0, 0, 0, 0, 0, 0] = Frame (frame_new CMD_ALERT 0) 7"
    using try_decode_encode [of "frame_new CMD_ALERT 0" "[]"]
    by (simp add: frame_encode_def wf_frame_def u32_be_def wire_simps CMD_ALERT_def)
  ultimately have r: "read_loop False ?s [] [[5, 0, 0, 0, 0, 0, 0]] = (Inl (peer_alert []), ?s)"
    by (subst read_loop.simps) (simp add: handle_buf.simps read_loop.simps handle_frame_def cmd_defs)
  have "wf_session ?s" by (simp add: wf_register_stream wf_session_init)
  from anytls_client_streams_wait [OF this r, of 1 0 10] show ?thesis
    using r by (simp add: session_init_def close_old_def)
qed

end
