(* ===== verification/AnyTlsLoop.thy ===== *)
theory AnyTlsLoop
  imports AnyTls
begin

text \<open>
  The reading loop of an AnyTLS session (\<open>session.rs\<close>, \<open>read_loop\<close>) among the tasks of its streams, as small steps. A PSH or FIN frame
  is two steps: the loop looks the stream up in the registry, which a FIN also removes it from, and
  then waits with the sender in its hand until the channel has room. Meanwhile the tasks of the streams take
  messages or go away, and the client opens streams of its own.
\<close>

section \<open>The loop between its awaits\<close>

text \<open>A loop that waits in \<open>tx.send(msg).await\<close> holds a sender of the channel and the message.\<close>

record loop =
  lp_session :: session
  lp_sending :: "(nat \<times> stream_msg) option"

definition loop_init :: loop where
  "loop_init = \<lparr>lp_session = session_init, lp_sending = None\<rparr>"

abbreviation chan_of :: "loop \<Rightarrow> nat \<Rightarrow> chan" where
  "chan_of L c \<equiv> se_chans (lp_session L) ! c"

definition held :: "loop \<Rightarrow> nat \<Rightarrow> bool" where
  "held L c \<longleftrightarrow> map_option fst (lp_sending L) = Some c"

definition begin_frame :: "bool \<Rightarrow> aframe \<Rightarrow> session \<Rightarrow> io_error + loop" where
  "begin_frame is_server f s =
    (if af_cmd f = CMD_WASTE then Inr \<lparr>lp_session = s, lp_sending = None\<rparr>
     else if af_cmd f = CMD_SETTINGS then Inr \<lparr>lp_session = s\<lparr>se_settings := True\<rparr>, lp_sending = None\<rparr>
     else if af_cmd f = CMD_SYN then
       if is_server \<and> \<not> se_settings s then Inl syn_before_settings
       else Inr \<lparr>lp_session = register_stream is_server (af_sid f) s, lp_sending = None\<rparr>
     else if af_cmd f = CMD_PSH then
       Inr \<lparr>lp_session = s, lp_sending = map_option (\<lambda>c. (c, psh_msg (af_data f))) (se_registry s (af_sid f))\<rparr>
     else if af_cmd f = CMD_FIN then
       Inr \<lparr>lp_session = s\<lparr>se_registry := (se_registry s)(af_sid f := None)\<rparr>,
            lp_sending = map_option (\<lambda>c. (c, MsgEof)) (se_registry s (af_sid f))\<rparr>
     else if af_cmd f = CMD_ALERT then Inl (peer_alert (af_data f))
     else Inr \<lparr>lp_session = s, lp_sending = None\<rparr>)"

text \<open>The end of a send; the sender is dropped after it, and with the last sender the channel is closed.\<close>

definition end_send :: "loop \<Rightarrow> loop" where
  "end_send L =
    (case lp_sending L of
       None \<Rightarrow> L
     | Some (c, m) \<Rightarrow>
         let s = with_chan c (chan_send m) (lp_session L) in
         \<lparr>lp_session = (if registered s c then s else with_chan c chan_close s), lp_sending = None\<rparr>)"

text \<open>A stream that the client opens. Inserting its sender drops the one it replaces, unless the loop has a clone of it.\<close>

definition open_stream :: "u32 \<Rightarrow> loop \<Rightarrow> loop" where
  "open_stream sid L =
    (let s = lp_session L;
         s' = (case se_registry s sid of
                 Some c \<Rightarrow> if held L c then s else with_chan c chan_close s
               | None \<Rightarrow> s) in
     L\<lparr>lp_session := s'\<lparr>se_registry := (se_registry s')(sid \<mapsto> length (se_chans s')),
        se_chans := se_chans s' @ [\<lparr>ch_sid = sid, ch_queue = [], ch_closed = False, ch_dropped = False\<rparr>]\<rparr>\<rparr>)"

definition has_room :: "chan \<Rightarrow> bool" where
  "has_room ch \<longleftrightarrow> ch_dropped ch \<or> length (ch_queue ch) < STREAM_BUF"

definition take_message :: "nat \<Rightarrow> loop \<Rightarrow> loop" where
  "take_message c L = L\<lparr>lp_session := with_chan c chan_pop (lp_session L)\<rparr>"

definition drop_receiver :: "nat \<Rightarrow> loop \<Rightarrow> loop" where
  "drop_receiver c L = L\<lparr>lp_session := with_chan c chan_drop (lp_session L)\<rparr>"

inductive session_step :: "bool \<Rightarrow> loop \<Rightarrow> loop \<Rightarrow> bool" for is_server where
  frame: "lp_sending L = None \<Longrightarrow> begin_frame is_server f (lp_session L) = Inr L' \<Longrightarrow> session_step is_server L L'"
| sent: "lp_sending L = Some (c, m) \<Longrightarrow> has_room (chan_of L c) \<Longrightarrow> session_step is_server L (end_send L)"
| open_local: "\<not> is_server \<Longrightarrow> session_step is_server L (open_stream sid L)"
| recv: "c < length (se_chans (lp_session L)) \<Longrightarrow> ch_queue (chan_of L c) \<noteq> [] \<Longrightarrow>
    session_step is_server L (take_message c L)"
| drop_stream: "c < length (se_chans (lp_session L)) \<Longrightarrow> session_step is_server L (drop_receiver c L)"

inductive session_reachable :: "bool \<Rightarrow> loop \<Rightarrow> bool" for is_server where
  start: "session_reachable is_server loop_init"
| step: "session_reachable is_server L \<Longrightarrow> session_step is_server L L' \<Longrightarrow> session_reachable is_server L'"

section \<open>Two steps are one frame\<close>

text \<open>When no other task runs in between, the two steps do what the function of the whole frame does, on which the theorems about
  sequences of frames rest.\<close>

lemma frame_in_two_steps:
  assumes "wf_session s"
  shows "map_sum id (\<lambda>L. lp_session (end_send L)) (begin_frame b f s) = handle_frame b f s"
proof (cases "se_registry s (af_sid f)")
  case None
  then have "(se_registry s)(af_sid f := None) = se_registry s" by auto
  then show ?thesis using None by (simp add: begin_frame_def handle_frame_def end_send_def on_psh_def on_fin_def)
next
  case (Some c)
  note c = wf_sessionD [OF assms Some]
  then show ?thesis using Some
    by (simp add: begin_frame_def handle_frame_def end_send_def on_psh_def on_fin_def registered_def with_chan_def o_def)
qed

section \<open>What holds between any two steps\<close>

text \<open>A channel is open while the registry or the waiting loop has a sender of it.\<close>

definition wf_senders :: "nat option \<Rightarrow> session \<Rightarrow> bool" where
  "wf_senders hold s \<longleftrightarrow>
    (\<forall>sid c. se_registry s sid = Some c \<longrightarrow> c < length (se_chans s) \<and> ch_sid (se_chans s ! c) = sid)
    \<and> (\<forall>c. hold = Some c \<longrightarrow> c < length (se_chans s))
    \<and> (\<forall>c < length (se_chans s). ch_closed (se_chans s ! c) \<longleftrightarrow> \<not> registered s c \<and> hold \<noteq> Some c)"

definition bounded :: "session \<Rightarrow> bool" where
  "bounded s \<longleftrightarrow> (\<forall>c < length (se_chans s). length (ch_queue (se_chans s ! c)) \<le> STREAM_BUF)"

definition wf_loop :: "loop \<Rightarrow> bool" where
  "wf_loop L \<longleftrightarrow> wf_senders (map_option fst (lp_sending L)) (lp_session L) \<and> bounded (lp_session L)"

lemma wf_senders_None: "wf_senders None s = wf_session s"
  by (simp add: wf_senders_def wf_session_def)

lemma length_send_le: "has_room ch \<Longrightarrow> length (ch_queue ch) \<le> STREAM_BUF \<Longrightarrow>
    length (ch_queue (chan_send m ch)) \<le> STREAM_BUF"
  by (auto simp: has_room_def chan_send_def)

lemma bounded_with_chan:
  "bounded s \<Longrightarrow> length (ch_queue (g (se_chans s ! c))) \<le> STREAM_BUF \<Longrightarrow> bounded (with_chan c g s)"
  by (simp add: bounded_def)

lemma bounded_close: "bounded s \<Longrightarrow> bounded (with_chan c chan_close s)"
  by (simp add: bounded_def)

lemma bounded_register: "bounded s \<Longrightarrow> bounded (register_stream k sid s)"
  by (auto simp: bounded_def nth_append close_old_def less_Suc_eq split: option.splits)

lemma bounded_simps [simp]:
  "bounded (s\<lparr>se_registry := r\<rparr>) = bounded s" "bounded (s\<lparr>se_settings := b\<rparr>) = bounded s"
  by (simp_all add: bounded_def)

lemma wf_loop_init: "wf_loop loop_init"
  by (simp add: wf_loop_def loop_init_def wf_senders_def bounded_def session_init_def)

lemma wf_senders_with_chan:
  assumes "wf_senders hold s" "ch_sid (g (se_chans s ! c)) = ch_sid (se_chans s ! c)"
    "ch_closed (g (se_chans s ! c)) = ch_closed (se_chans s ! c)"
  shows "wf_senders hold (with_chan c g s)"
  using assms by (auto simp: wf_senders_def registered_def)

lemma wf_begin_frame:
  assumes "wf_session s" "bounded s" "begin_frame b f s = Inr L"
  shows "wf_loop L"
proof -
  have reg: "map_option fst (map_option (\<lambda>c. (c, m)) x) = x" for m :: stream_msg and x :: "nat option"
    by (cases x) simp_all
  have psh: "wf_loop \<lparr>lp_session = s, lp_sending = map_option (\<lambda>c. (c, m)) (se_registry s sid)\<rparr>" for m sid
    using assms(1,2) by (auto simp: wf_loop_def reg wf_senders_def wf_session_def registered_def)
  have fin: "wf_loop \<lparr>lp_session = s\<lparr>se_registry := (se_registry s)(sid := None)\<rparr>,
      lp_sending = map_option (\<lambda>c. (c, m)) (se_registry s sid)\<rparr>" for m sid
    using assms(1,2) by (auto simp: wf_loop_def reg wf_senders_def wf_session_def registered_def)
  have idle: "wf_loop \<lparr>lp_session = t, lp_sending = None\<rparr>" if "wf_session t" "bounded t" for t
    using that by (simp add: wf_loop_def wf_senders_None)
  have "wf_session (s\<lparr>se_settings := True\<rparr>)" using assms(1) by (simp add: wf_session_def registered_def)
  then show ?thesis
    using assms(3) psh fin idle assms(1,2) wf_register_stream [OF assms(1)] bounded_register [OF assms(2)]
    unfolding begin_frame_def by (simp split: if_split_asm) (auto simp: idle psh fin)
qed

lemma drop_sender: "wf_senders (Some c) s \<Longrightarrow> wf_senders None (if registered s c then s else with_chan c chan_close s)"
  by (auto simp: wf_senders_def registered_def)

lemma wf_end_send:
  assumes "wf_loop L" "lp_sending L = Some (c, m)" "has_room (chan_of L c)"
  shows "wf_loop (end_send L)"
proof -
  let ?s = "with_chan c (chan_send m) (lp_session L)"
  have h: "wf_senders (Some c) (lp_session L)" "bounded (lp_session L)" using assms(1,2) by (auto simp: wf_loop_def)
  have c: "c < length (se_chans (lp_session L))" using h(1) by (simp add: wf_senders_def)
  have s: "wf_senders (Some c) ?s" "bounded ?s"
    using h assms(3) c by (auto simp: wf_senders_with_chan bounded_def length_send_le)
  have "wf_senders None (if registered ?s c then ?s else with_chan c chan_close ?s)" by (rule drop_sender [OF s(1)])
  moreover have "bounded (with_chan c chan_close ?s)" by (rule bounded_close [OF s(2)])
  ultimately show ?thesis using assms(2) s(2) by (simp add: end_send_def wf_loop_def Let_def split: if_splits)
qed

lemma wf_open_stream:
  assumes "wf_loop L"
  shows "wf_loop (open_stream sid L)"
proof -
  let ?h = "map_option fst (lp_sending L)"
  define s' where "s' = (case se_registry (lp_session L) sid of
      Some c \<Rightarrow> if held L c then lp_session L else with_chan c chan_close (lp_session L) | None \<Rightarrow> lp_session L)"
  have w: "wf_senders ?h (lp_session L)" "bounded (lp_session L)" using assms by (auto simp: wf_loop_def)
  have s': "length (se_chans s') = length (se_chans (lp_session L))" "se_registry s' = se_registry (lp_session L)"
    by (auto simp: s'_def split: option.splits)
  have n: "se_chans s' ! c = (if se_registry (lp_session L) sid = Some c \<and> ?h \<noteq> Some c then chan_close (chan_of L c) else chan_of L c)"
    if "c < length (se_chans (lp_session L))" for c
    using that by (auto simp: s'_def held_def split: option.splits)
  let ?new = "\<lparr>ch_sid = sid, ch_queue = [], ch_closed = False, ch_dropped = False\<rparr>"
  let ?t = "s'\<lparr>se_registry := (se_registry s')(sid \<mapsto> length (se_chans s')), se_chans := se_chans s' @ [?new]\<rparr>"
  have nt: "se_chans ?t ! c = (if c = length (se_chans (lp_session L)) then ?new
      else if se_registry (lp_session L) sid = Some c \<and> ?h \<noteq> Some c then chan_close (chan_of L c) else chan_of L c)"
    if "c < Suc (length (se_chans (lp_session L)))" for c
    using that n [of c] s'(1) by (auto simp: nth_append)
  have "wf_senders ?h ?t"
    unfolding wf_senders_def
  proof (intro conjI allI impI)
    fix i c assume "se_registry ?t i = Some c"
    then show "c < length (se_chans ?t)" "ch_sid (se_chans ?t ! c) = i"
      using w(1) s' nt [of c] by (auto simp: wf_senders_def less_Suc_eq split: if_splits)
  next
    fix c assume "?h = Some c"
    then show "c < length (se_chans ?t)" using w(1) s' by (auto simp: wf_senders_def)
  next
    fix c assume "c < length (se_chans ?t)"
    then have c: "c < Suc (length (se_chans (lp_session L)))" using s' by simp
    show "ch_closed (se_chans ?t ! c) \<longleftrightarrow> \<not> registered ?t c \<and> ?h \<noteq> Some c"
    proof (cases "c = length (se_chans (lp_session L))")
      case True
      then show ?thesis using s' nt [OF c] by (simp add: registered_def)
    next
      case False
      then have l: "c < length (se_chans (lp_session L))" using c by simp
      have r: "registered ?t c \<longleftrightarrow> ch_sid (chan_of L c) \<noteq> sid \<and> registered (lp_session L) c"
        using False s' unfolding registered_def nt [OF c] by auto
      have q: "se_registry (lp_session L) sid = Some c \<longleftrightarrow> ch_sid (chan_of L c) = sid \<and> registered (lp_session L) c"
        using w(1) by (auto simp: wf_senders_def registered_def)
      have k: "ch_closed (chan_of L c) \<longleftrightarrow> \<not> registered (lp_session L) c \<and> ?h \<noteq> Some c"
        using w(1) l by (simp add: wf_senders_def)
      show ?thesis
        unfolding nt [OF c] r q using False k
        by (cases "ch_sid (chan_of L c) = sid"; cases "registered (lp_session L) c") simp_all
    qed
  qed
  moreover have "bounded ?t" using w(2) s' nt by (auto simp: bounded_def less_Suc_eq)
  ultimately show ?thesis by (simp add: wf_loop_def open_stream_def Let_def s'_def)
qed

lemma session_step_wf: "session_step b L L' \<Longrightarrow> wf_loop L \<Longrightarrow> wf_loop L'"
proof (induction rule: session_step.induct)
  case (frame L f L')
  then show ?case using wf_begin_frame by (auto simp: wf_loop_def wf_senders_None)
next
  case (recv c L)
  then show ?case
    by (auto simp: wf_loop_def take_message_def bounded_def intro!: wf_senders_with_chan le_trans [OF diff_le_self])
next
  case (drop_stream c L)
  then show ?case by (auto simp: wf_loop_def drop_receiver_def bounded_def intro!: wf_senders_with_chan)
qed (simp_all add: wf_end_send wf_open_stream)

lemma session_reachable_wf: "session_reachable b L \<Longrightarrow> wf_loop L"
  by (induction rule: session_reachable.induct) (auto simp: wf_loop_init dest: session_step_wf)

text \<open>Property C14: in every state a session can reach, however the frames of the peer, the waiting of the reading loop, the
  opening of streams and the reading tasks interleave: the registry holds only open channels, each under the id of its
  stream; a channel that is open without being in the registry is the one that the loop waits for, with a message in its
  hand; and no channel holds more than its 256 messages.\<close>

theorem anytls_session_invariant:
  assumes "session_reachable is_server L"
  shows "(\<forall>sid c. se_registry (lp_session L) sid = Some c \<longrightarrow>
      c < length (se_chans (lp_session L)) \<and> ch_sid (chan_of L c) = sid \<and> \<not> ch_closed (chan_of L c))
    \<and> (\<forall>c m. lp_sending L = Some (c, m) \<longrightarrow> c < length (se_chans (lp_session L)) \<and> \<not> ch_closed (chan_of L c))
    \<and> (\<forall>c < length (se_chans (lp_session L)). \<not> ch_closed (chan_of L c) \<longrightarrow>
        se_registry (lp_session L) (ch_sid (chan_of L c)) = Some c \<or> (\<exists>m. lp_sending L = Some (c, m)))
    \<and> (\<forall>c < length (se_chans (lp_session L)). length (ch_queue (chan_of L c)) \<le> STREAM_BUF)"
proof -
  have w: "wf_senders (map_option fst (lp_sending L)) (lp_session L)" "bounded (lp_session L)"
    using session_reachable_wf [OF assms] by (auto simp: wf_loop_def)
  have h: "map_option fst (lp_sending L) = Some c \<longleftrightarrow> (\<exists>m. lp_sending L = Some (c, m))" for c by auto
  show ?thesis
    using w unfolding wf_senders_def bounded_def h registered_def by (intro conjI; blast)
qed

lemma waiting_progress:
  assumes "wf_loop L" "lp_sending L = Some (c, m)"
  shows "c < length (se_chans (lp_session L))"
    and "has_room (chan_of L c) \<Longrightarrow> session_step b L (end_send L)"
    and "lp_sending (end_send L) = None"
    and "ch_queue (chan_of (end_send L) c) = ch_queue (chan_send m (chan_of L c))"
    and "\<not> has_room (chan_of L c) \<Longrightarrow> length (ch_queue (chan_of L c)) = STREAM_BUF \<and> \<not> ch_dropped (chan_of L c)"
proof -
  show c: "c < length (se_chans (lp_session L))" using assms by (simp add: wf_loop_def wf_senders_def)
  show "has_room (chan_of L c) \<Longrightarrow> session_step b L (end_send L)" using assms(2) by (rule session_step.sent)
  show "lp_sending (end_send L) = None" using assms(2) by (simp add: end_send_def Let_def)
  show "ch_queue (chan_of (end_send L) c) = ch_queue (chan_send m (chan_of L c))"
    using assms(2) c by (simp add: end_send_def Let_def)
  show "\<not> has_room (chan_of L c) \<Longrightarrow> length (ch_queue (chan_of L c)) = STREAM_BUF \<and> \<not> ch_dropped (chan_of L c)"
    using assms(1) c by (auto simp: has_room_def wf_loop_def bounded_def)
qed

text \<open>Property C18: the reading loop is never blocked for good. In every reachable state in which it waits to pass on a message, either it
  can go on at once, and the message is then the last of its channel (or lost, when the stream is gone); or the channel holds its 256
  messages and its reader is there, and when this reader has taken one message, the first, the loop goes on and the waiting message is the
  last.\<close>

theorem anytls_progress:
  assumes "session_reachable is_server L" "lp_sending L = Some (c, m)"
  shows "(has_room (chan_of L c) \<longrightarrow> (\<exists>L'. session_step is_server L L' \<and> lp_sending L' = None
        \<and> ch_queue (chan_of L' c) = (if ch_dropped (chan_of L c) then ch_queue (chan_of L c) else ch_queue (chan_of L c) @ [m])))
    \<and> (\<not> has_room (chan_of L c) \<longrightarrow> length (ch_queue (chan_of L c)) = STREAM_BUF \<and> \<not> ch_dropped (chan_of L c)
        \<and> session_step is_server L (take_message c L)
        \<and> (\<exists>L'. session_step is_server (take_message c L) L' \<and> lp_sending L' = None
            \<and> ch_queue (chan_of L' c) = tl (ch_queue (chan_of L c)) @ [m]))"
proof -
  have wf: "wf_loop L" by (rule session_reachable_wf [OF assms(1)])
  note p = waiting_progress [OF wf assms(2)]
  show ?thesis
  proof (intro conjI impI)
    assume "has_room (chan_of L c)"
    then show "\<exists>L'. session_step is_server L L' \<and> lp_sending L' = None
        \<and> ch_queue (chan_of L' c) = (if ch_dropped (chan_of L c) then ch_queue (chan_of L c) else ch_queue (chan_of L c) @ [m])"
      using p(2-4) by (intro exI [of _ "end_send L"]) (simp add: chan_send_def)
  next
    assume full: "\<not> has_room (chan_of L c)"
    then show f: "length (ch_queue (chan_of L c)) = STREAM_BUF" "\<not> ch_dropped (chan_of L c)" using p(5) by auto
    have ne: "ch_queue (chan_of L c) \<noteq> []" using f(1) by (auto simp: STREAM_BUF_def)
    show t: "session_step is_server L (take_message c L)" by (rule session_step.recv [OF p(1) ne])
    let ?T = "take_message c L"
    have T: "wf_loop ?T" "lp_sending ?T = Some (c, m)"
      using session_step_wf [OF t wf] assms(2) by (simp_all add: take_message_def)
    have ch: "chan_of ?T c = chan_pop (chan_of L c)" using p(1) by (simp add: take_message_def)
    have "has_room (chan_of ?T c)" unfolding ch using f by (simp add: has_room_def STREAM_BUF_def)
    then show "\<exists>L'. session_step is_server ?T L' \<and> lp_sending L' = None \<and> ch_queue (chan_of L' c) = tl (ch_queue (chan_of L c)) @ [m]"
      using waiting_progress(2) [OF T, of is_server] waiting_progress(3,4) [OF T] f(2) unfolding ch
      by (intro exI [of _ "end_send ?T"]) simp
  qed
qed

section \<open>A session that waits\<close>

text \<open>A stream whose reader has not taken any of \<open>n\<close> messages, and the loop with a FIN in its hand.\<close>

definition filled :: "nat \<Rightarrow> session" where
  "filled n = \<lparr>se_registry = [1 \<mapsto> 0],
    se_chans = [\<lparr>ch_sid = 1, ch_queue = replicate n (MsgData [7]), ch_closed = False, ch_dropped = False\<rparr>], se_settings = True\<rparr>"

definition waiting_fin :: loop where
  "waiting_fin = \<lparr>lp_session = (filled STREAM_BUF)\<lparr>se_registry := Map.empty\<rparr>, lp_sending = Some (0, MsgEof)\<rparr>"

lemma filled_reachable: "n \<le> STREAM_BUF \<Longrightarrow> session_reachable True \<lparr>lp_session = filled n, lp_sending = None\<rparr>"
proof (induction n)
  case 0
  let ?s = "session_init\<lparr>se_settings := True\<rparr>"
  have "session_step True loop_init \<lparr>lp_session = ?s, lp_sending = None\<rparr>"
    by (rule session_step.frame [of _ _ "frame_new CMD_SETTINGS 0"]) (simp_all add: loop_init_def begin_frame_def cmd_defs)
  moreover have "session_step True \<lparr>lp_session = ?s, lp_sending = None\<rparr> \<lparr>lp_session = filled 0, lp_sending = None\<rparr>"
    by (rule session_step.frame [of _ _ "frame_new CMD_SYN 1"])
      (simp_all add: begin_frame_def cmd_defs register_stream_def close_old_def session_init_def filled_def)
  ultimately show ?case using session_reachable.start session_reachable.step by metis
next
  case (Suc n)
  let ?L = "\<lparr>lp_session = filled n, lp_sending = Some (0, MsgData [7])\<rparr>"
  have "session_step True \<lparr>lp_session = filled n, lp_sending = None\<rparr> ?L"
    by (rule session_step.frame [of _ _ "with_data CMD_PSH 1 [7]"]) (simp_all add: begin_frame_def cmd_defs filled_def psh_msg_def)
  moreover have "session_step True ?L (end_send ?L)"
    using Suc.prems by (intro session_step.sent [of _ 0 "MsgData [7]"]) (simp_all add: has_room_def filled_def)
  moreover have "end_send ?L = \<lparr>lp_session = filled (Suc n), lp_sending = None\<rparr>"
    by (simp add: end_send_def filled_def with_chan_def registered_def chan_send_def replicate_append_same)
  ultimately show ?case using Suc session_reachable.step by (metis Suc_leD)
qed

lemma waiting_fin_reachable: "session_reachable True waiting_fin"
proof (rule session_reachable.step [OF filled_reachable [OF order_refl]])
  show "session_step True \<lparr>lp_session = filled STREAM_BUF, lp_sending = None\<rparr> waiting_fin"
    by (rule session_step.frame [of _ _ "frame_new CMD_FIN 1"]) (simp_all add: begin_frame_def cmd_defs filled_def waiting_fin_def)
qed

lemma waiting_fin_full: "\<not> has_room (chan_of waiting_fin 0)"
  by (simp add: waiting_fin_def filled_def has_room_def)

theorem anytls_session_invariant_witness:
  "session_reachable True waiting_fin \<and> se_registry (lp_session waiting_fin) 1 = None \<and> \<not> ch_closed (chan_of waiting_fin 0)
    \<and> length (ch_queue (chan_of waiting_fin 0)) \<le> STREAM_BUF"
  using waiting_fin_reachable anytls_session_invariant [OF waiting_fin_reachable] by (simp add: waiting_fin_def filled_def)

theorem anytls_progress_witness:
  "session_reachable True waiting_fin \<and> \<not> has_room (chan_of waiting_fin 0)
    \<and> length (ch_queue (chan_of waiting_fin 0)) = STREAM_BUF
    \<and> session_step True waiting_fin (take_message 0 waiting_fin)
    \<and> (\<exists>L'. session_step True (take_message 0 waiting_fin) L' \<and> lp_sending L' = None
        \<and> ch_queue (chan_of L' 0) = tl (ch_queue (chan_of waiting_fin 0)) @ [MsgEof])"
proof -
  have "lp_sending waiting_fin = Some (0, MsgEof)" by (simp add: waiting_fin_def)
  from anytls_progress [OF waiting_fin_reachable this] show ?thesis
    using waiting_fin_reachable waiting_fin_full by blast
qed

end
