(* ===== verification/ProxyProtocol.thy ===== *)
theory ProxyProtocol
  imports IpText
begin

text \<open>
  \<open>crates/omni-transport/src/proxy_protocol.rs\<close>: the PROXY protocol header that
  a load balancer puts in front of a connection, in its text form (version 1)
  and its binary form (version 2). Indexing a slice out of range is a panic.
\<close>

section \<open>Parsing\<close>

datatype proxy_header = HeaderV1 socket_addr socket_addr | HeaderV2 socket_addr socket_addr

fun crlf_pos :: "bytes \<Rightarrow> nat option" where
  "crlf_pos (a # b # r) =
    (if a = 0x0D \<and> b = 0x0A then Some 0 else map_option Suc (crlf_pos (b # r)))"
| "crlf_pos _ = None"

definition pp_err :: "string \<Rightarrow> io_error" where
  "pp_err msg = invalid_data (''proxy_protocol: '' @ msg)"

definition v1_endpoint :: "string \<Rightarrow> string \<Rightarrow> io_error + socket_addr" where
  "v1_endpoint ip port =
    (case IpText.parse_ip ip of
       None \<Rightarrow> Inl (pp_err ''bad address in v1 header'')
     | Some a \<Rightarrow>
         (case parse_port port of
            None \<Rightarrow> Inl (pp_err ''bad port'')
          | Some p \<Rightarrow> Inr (SocketAddr a p)))"

definition parse_v1 :: "bytes \<Rightarrow> io_error + proxy_header \<times> nat" where
  "parse_v1 buf =
    (case crlf_pos buf of
       None \<Rightarrow> Inl (pp_err ''incomplete v1 header'')
     | Some e \<Rightarrow>
         (case from_utf8 (take e buf) of
            None \<Rightarrow> Inl (pp_err ''invalid v1 header'')
          | Some line \<Rightarrow>
              let parts = split_char CHR '' '' line in
              if length parts \<noteq> 6 \<or> parts ! 0 \<noteq> ''PROXY'' then Inl (pp_err ''malformed v1 header'')
              else (case v1_endpoint (parts ! 2) (parts ! 4) of
                  Inl err \<Rightarrow> Inl err
                | Inr src \<Rightarrow>
                    (case v1_endpoint (parts ! 3) (parts ! 5) of
                       Inl err \<Rightarrow> Inl err
                     | Inr dst \<Rightarrow> Inr (HeaderV1 src dst, e + 2)))))"

definition v2_addr_len :: "byte \<Rightarrow> nat" where
  "v2_addr_len fam =
    (if fam = 0x11 \<or> fam = 0x12 then 16 else if fam = 0x21 \<or> fam = 0x22 then 36 else 0)"

definition unspecified :: socket_addr where
  "unspecified = SocketAddr (IpV4 0) 0"

text \<open>The address block is indexed up to its twelfth byte whatever its length.\<close>

definition v2_endpoints :: "bytes \<Rightarrow> (socket_addr \<times> socket_addr) rs" where
  "v2_endpoints p =
    rs_bind (index_rs p 11) (\<lambda>_.
      Ret (SocketAddr (IpV4 (be_u32 [p ! 0, p ! 1, p ! 2, p ! 3])) (be_u16 (p ! 8) (p ! 9)),
           SocketAddr (IpV4 (be_u32 [p ! 4, p ! 5, p ! 6, p ! 7])) (be_u16 (p ! 10) (p ! 11))))"

definition parse_v2 :: "bytes \<Rightarrow> (io_error + proxy_header \<times> nat) rs" where
  "parse_v2 buf =
    (let total = 16 + unat (be_u16 (buf ! 14) (buf ! 15)) in
     if drop_bit 4 (buf ! 12) \<noteq> 2 then Ret (Inl (pp_err ''unsupported v2 version''))
     else if length buf < total then Ret (Inl (pp_err ''incomplete v2 header''))
     else if v2_addr_len (buf ! 13) = 0 then Ret (Inr (HeaderV2 unspecified unspecified, total))
     else if v2_addr_len (buf ! 13) = 16 then
       rs_bind (v2_endpoints (drop 16 buf)) (\<lambda>(src, dst). Ret (Inr (HeaderV2 src dst, total)))
     else Ret (Inl (pp_err ''ipv6 v2 not parsed'')))"

definition parse_header :: "bytes \<Rightarrow> (io_error + proxy_header \<times> nat) rs" where
  "parse_header buf =
    (if 6 \<le> length buf \<and> take 5 buf = as_bytes ''PROXY'' then Ret (parse_v1 buf)
     else if 16 \<le> length buf \<and> take 5 buf = [0x0D, 0x0A, 0x0D, 0x0A, 0x00] then parse_v2 buf
     else Ret (Inl (pp_err ''signature mismatch'')))"

section \<open>Encoding\<close>

definition v2_signature :: bytes where
  "v2_signature = [0x0D, 0x0A, 0x0D, 0x0A, 0x00, 0x0D, 0x0A, 0x51, 0x55, 0x49, 0x54, 0x0A]"

definition v2_addresses :: "ip_addr \<Rightarrow> ip_addr \<Rightarrow> byte \<times> bytes" where
  "v2_addresses s d =
    (case (s, d) of
       (IpV4 a, IpV4 b) \<Rightarrow> (0x11, octets4 a @ octets4 b)
     | (IpV6 a, IpV6 b) \<Rightarrow> (0x21, octets6 a @ octets6 b)
     | _ \<Rightarrow> (0x11, replicate 12 0))"

definition encode_v2 :: "socket_addr \<Rightarrow> socket_addr \<Rightarrow> bytes" where
  "encode_v2 src dst =
    (case v2_addresses (sa_ip src) (sa_ip dst) of
       (fam, abuf) \<Rightarrow>
         v2_signature @ [0x21, fam] @ nat_be 2 (length abuf + 4) @ abuf
         @ u16_be (sa_port src) @ u16_be (sa_port dst))"

section \<open>Reading from a connection\<close>

text \<open>\<open>read_header_from\<close> over the successive reads (each at most 256 bytes; the end
  of the list stands for the end of the connection, an error or the timeout).
  The result carries the reads that are still to come: what was buffered
  after the header is not part of it.\<close>

definition header_in :: "bytes \<Rightarrow> proxy_header option rs" where
  "header_in buf =
    (if 16 \<le> length buf then
       rs_bind (parse_header buf) (\<lambda>r. Ret (case r of Inl e \<Rightarrow> None | Inr (h, used) \<Rightarrow> Some h))
     else Ret None)"

fun read_header_from :: "bytes \<Rightarrow> bytes list \<Rightarrow> (io_error + proxy_header \<times> bytes list) rs" where
  "read_header_from buf cs =
    rs_bind (header_in buf) (\<lambda>found.
      case found of
        Some h \<Rightarrow> Ret (Inr (h, cs))
      | None \<Rightarrow>
          if 1024 < length buf then Ret (Inl (pp_err ''header too large''))
          else (case cs of
              [] \<Rightarrow> Ret (Inl (pp_err ''missing header''))
            | c # cs' \<Rightarrow>
                if c = [] then Ret (Inl (pp_err ''missing header''))
                else read_header_from (buf @ c) cs'))"

declare read_header_from.simps [simp del]

section \<open>Version 2\<close>

lemma drop_bit_0x21: "drop_bit 4 (0x21 :: byte) = 2"
  by code_simp

lemma parse_v2_header:
  assumes "length t = 7" "unat (be_u16 l h) = length body"
  shows "parse_header ([0x0D, 0x0A, 0x0D, 0x0A, 0x00] @ t @ [0x21, fam, l, h] @ body @ r) =
    (if v2_addr_len fam = 0 then Ret (Inr (HeaderV2 unspecified unspecified, 16 + length body))
     else if v2_addr_len fam = 16 then
       rs_bind (v2_endpoints (body @ r)) (\<lambda>(src, dst). Ret (Inr (HeaderV2 src dst, 16 + length body)))
     else Ret (Inl (pp_err ''ipv6 v2 not parsed'')))"
proof -
  obtain t0 t1 t2 t3 t4 t5 t6 where "t = [t0, t1, t2, t3, t4, t5, t6]"
    using assms(1) by (auto simp: numeral_eq_Suc length_Suc_conv)
  then show ?thesis
    using assms(2) by (simp add: parse_header_def parse_v2_def as_bytes_def drop_bit_0x21 Let_def)
qed

lemma unat_be_u16_nat_be:
  assumes "n < 65536" shows "\<exists>l h. nat_be 2 n = [l, h] \<and> unat (be_u16 l h) = n"
proof -
  let ?w = "word_of_nat n :: u16"
  have "unat ?w = n" using assms by (simp add: unat_of_nat)
  then show ?thesis by (metis u16_be_cases u16_be_def)
qed

lemma parse_encode_v2:
  assumes "v2_addresses (sa_ip src) (sa_ip dst) = (fam, abuf)" "length abuf \<le> 32"
  shows "parse_header (encode_v2 src dst @ r) =
    (if v2_addr_len fam = 16 then
       rs_bind (v2_endpoints (abuf @ u16_be (sa_port src) @ u16_be (sa_port dst) @ r))
         (\<lambda>(s, d). Ret (Inr (HeaderV2 s d, 20 + length abuf)))
     else Ret (Inl (pp_err ''ipv6 v2 not parsed'')))"
proof -
  obtain l h where lh: "nat_be 2 (length abuf + 4) = [l, h]" "unat (be_u16 l h) = length abuf + 4"
    using unat_be_u16_nat_be [of "length abuf + 4"] assms(2) by auto
  have "fam = 0x11 \<or> fam = 0x21"
    using assms(1) by (auto simp: v2_addresses_def split: ip_addr.splits)
  then have "v2_addr_len fam \<noteq> 0" by (auto simp: v2_addr_len_def)
  let ?body = "abuf @ u16_be (sa_port src) @ u16_be (sa_port dst)"
  have "encode_v2 src dst @ r =
      [0x0D, 0x0A, 0x0D, 0x0A, 0x00] @ [0x0D, 0x0A, 0x51, 0x55, 0x49, 0x54, 0x0A] @ [0x21, fam, l, h] @ ?body @ r"
    using assms(1) lh(1) by (simp add: encode_v2_def v2_signature_def)
  then show ?thesis
    using parse_v2_header [of "[0x0D, 0x0A, 0x51, 0x55, 0x49, 0x54, 0x0A]" l h ?body fam r] lh(2)
      \<open>v2_addr_len fam \<noteq> 0\<close>
    by (simp add: add.commute)
qed

lemma v2_endpoints_v4:
  "v2_endpoints (octets4 a @ octets4 b @ u16_be p @ u16_be q @ r) =
    Ret (SocketAddr (IpV4 a) p, SocketAddr (IpV4 b) q)"
proof -
  obtain a0 a1 a2 a3 where a: "octets4 a = [a0, a1, a2, a3]" by (rule list_4_cases [of "octets4 a"]) simp
  obtain b0 b1 b2 b3 where b: "octets4 b = [b0, b1, b2, b3]" by (rule list_4_cases [of "octets4 b"]) simp
  have "be_u32 [a0, a1, a2, a3] = a" "be_u32 [b0, b1, b2, b3] = b"
    using be_u32_octets4 [of a] be_u32_octets4 [of b] a b by simp_all
  then show ?thesis
    by (cases rule: u16_be_cases [of p], cases rule: u16_be_cases [of q])
      (simp add: v2_endpoints_def a b)
qed

lemma v2_endpoints_zero:
  "v2_endpoints (replicate 12 0 @ r) = Ret (unspecified, unspecified)"
  by (simp add: v2_endpoints_def unspecified_def be_u32_def be_u16_def be_nat_def numeral_eq_Suc)

lemma parse_encode_v4:
  "parse_header (encode_v2 (SocketAddr (IpV4 a) p) (SocketAddr (IpV4 b) q) @ r) =
    Ret (Inr (HeaderV2 (SocketAddr (IpV4 a) p) (SocketAddr (IpV4 b) q), 28))"
  using parse_encode_v2 [of "SocketAddr (IpV4 a) p" "SocketAddr (IpV4 b) q" "0x11" "octets4 a @ octets4 b" r]
    v2_endpoints_v4 [of a b p q r]
  by (simp add: v2_addresses_def v2_addr_len_def)

text \<open>What the code's own reader makes of a header that the code writes.\<close>

fun reread_v2 :: "socket_addr \<Rightarrow> socket_addr \<Rightarrow> io_error + proxy_header \<times> nat" where
  "reread_v2 (SocketAddr (IpV4 a) p) (SocketAddr (IpV4 b) q) =
    Inr (HeaderV2 (SocketAddr (IpV4 a) p) (SocketAddr (IpV4 b) q), 28)"
| "reread_v2 (SocketAddr (IpV6 a) p) (SocketAddr (IpV6 b) q) = Inl (pp_err ''ipv6 v2 not parsed'')"
| "reread_v2 s d = Inr (HeaderV2 unspecified unspecified, 32)"

text \<open>Property C40: a version 2 header written for two IPv4 endpoints is read back with its
  addresses and ports, whatever follows it. A header written for two IPv6
  endpoints is refused, and one for a mixed pair is read as the unspecified
  address with port 0 on both sides.\<close>

theorem proxy_v2_roundtrip:
  "parse_header (encode_v2 src dst @ rest) = Ret (reread_v2 src dst)"
proof -
  have mixed: "parse_header (encode_v2 (SocketAddr i p) (SocketAddr j q) @ rest) = Ret (Inr (HeaderV2 unspecified unspecified, 32))"
    if "v2_addresses i j = (0x11, replicate 12 0)" for i j p q
    using that parse_encode_v2 [of "SocketAddr i p" "SocketAddr j q" "0x11" "replicate 12 0" rest]
      v2_endpoints_zero [of "u16_be p @ u16_be q @ rest"]
    by (simp add: v2_addr_len_def)
  obtain i p j q where e: "src = SocketAddr i p" "dst = SocketAddr j q"
    by (metis socket_addr.exhaust)
  then show ?thesis
    using mixed [of i j p q] parse_encode_v2 [of src dst "0x21" _ rest]
    by (cases i; cases j) (simp_all add: parse_encode_v4 v2_addresses_def v2_addr_len_def)
qed

text \<open>The parser panics exactly on a version 2 header for IPv4 whose declared
  length is present but shorter than the twelve bytes the code indexes, when
  nothing else is buffered behind it.\<close>

theorem proxy_parse_panics_iff:
  "parse_header buf = Panic \<longleftrightarrow>
    16 \<le> length buf \<and> length buf < 28 \<and> take 5 buf = [0x0D, 0x0A, 0x0D, 0x0A, 0x00]
    \<and> drop_bit 4 (buf ! 12) = 2 \<and> (buf ! 13 = 0x11 \<or> buf ! 13 = 0x12)
    \<and> 16 + unat (be_u16 (buf ! 14) (buf ! 15)) \<le> length buf"
  by (auto simp: parse_header_def parse_v2_def v2_endpoints_def v2_addr_len_def rs_bind_Panic_iff
      index_rs_def Let_def as_bytes_def not_less)

section \<open>What a connection loses\<close>

lemma header_partial:
  assumes "encode_v2 (SocketAddr (IpV4 a) p) (SocketAddr (IpV4 b) q) = buf @ x" "x \<noteq> []"
  shows "header_in buf = Ret None"
proof (cases "16 \<le> length buf")
  case True
  obtain l h where lh: "nat_be 2 12 = [l, h]" "unat (be_u16 l h) = 12"
    using unat_be_u16_nat_be [of 12] by auto
  define y where "y = octets4 a @ octets4 b @ u16_be p @ u16_be q"
  have e: "buf @ x = v2_signature @ [0x21, 0x11, l, h] @ y"
    unfolding assms(1) [symmetric] by (simp add: encode_v2_def v2_addresses_def lh y_def)
  moreover have "length (v2_signature @ [0x21, 0x11, l, h]) = 16" by (simp add: v2_signature_def)
  ultimately have "take 16 buf = v2_signature @ [0x21, 0x11, l, h]"
    using True by (metis append_eq_conv_conj take_append append_assoc diff_is_0_eq take_0 append_Nil2)
  then obtain z where z: "buf = v2_signature @ [0x21, 0x11, l, h] @ z"
    by (metis append_assoc append_take_drop_id)
  moreover have "length (buf @ x) = 28" unfolding e by (simp add: v2_signature_def y_def)
  ultimately have "length z < 12" using assms(2) by (cases x) (auto simp: v2_signature_def)
  then have "parse_header buf = Ret (Inl (pp_err ''incomplete v2 header''))"
    unfolding z using lh(2)
    by (simp add: parse_header_def parse_v2_def v2_signature_def as_bytes_def drop_bit_0x21)
  then show ?thesis using True by (simp add: header_in_def)
qed (simp add: header_in_def)

lemma header_found:
  "header_in (encode_v2 (SocketAddr (IpV4 a) p) (SocketAddr (IpV4 b) q) @ r) =
    Ret (Some (HeaderV2 (SocketAddr (IpV4 a) p) (SocketAddr (IpV4 b) q)))"
proof -
  have "16 \<le> length (encode_v2 (SocketAddr (IpV4 a) p) (SocketAddr (IpV4 b) q) @ r)"
    by (simp add: encode_v2_def v2_addresses_def v2_signature_def)
  then show ?thesis by (simp add: header_in_def parse_encode_v4)
qed

lemma length_encode_v4:
  "length (encode_v2 (SocketAddr (IpV4 a) p) (SocketAddr (IpV4 b) q)) = 28"
  by (simp add: encode_v2_def v2_addresses_def v2_signature_def)

lemma read_header_fragments:
  assumes "encode_v2 (SocketAddr (IpV4 a) p) (SocketAddr (IpV4 b) q) = buf @ concat pre @ x"
    and "x \<noteq> []" "[] \<notin> set pre" "c = x @ lost"
  shows "read_header_from buf (pre @ c # cs) =
    Ret (Inr (HeaderV2 (SocketAddr (IpV4 a) p) (SocketAddr (IpV4 b) q), cs))"
  using assms
proof (induction pre arbitrary: buf)
  case Nil
  have "header_in (buf @ c) = Ret (Some (HeaderV2 (SocketAddr (IpV4 a) p) (SocketAddr (IpV4 b) q)))"
    using header_found [of a p b q lost] Nil by simp
  moreover have "\<not> 1024 < length buf"
    using arg_cong [OF Nil(1), of length] by (simp add: length_encode_v4)
  ultimately show ?case
    using header_partial [of a p b q buf x] Nil
    by (subst read_header_from.simps) (simp add: read_header_from.simps [of "buf @ x @ lost"])
next
  case (Cons d pre)
  have "header_in buf = Ret None"
    using header_partial [of a p b q buf "d @ concat pre @ x"] Cons(2,3) by simp
  moreover have "\<not> 1024 < length buf"
    using arg_cong [OF Cons(2), of length] by (simp add: length_encode_v4)
  ultimately show ?case
    using Cons by (subst read_header_from.simps) auto
qed

text \<open>However the header of an IPv4 connection is split into reads, it is
  recognised with the read that completes it; but what that read delivered behind the
  header is lost: the connection goes on with the next read.\<close>

theorem proxy_header_loses_rest:
  assumes "concat pre @ x = encode_v2 (SocketAddr (IpV4 a) p) (SocketAddr (IpV4 b) q)"
    and "x \<noteq> []" "[] \<notin> set pre"
  shows "read_header_from [] (pre @ (x @ lost) # cs) =
    Ret (Inr (HeaderV2 (SocketAddr (IpV4 a) p) (SocketAddr (IpV4 b) q), cs))"
  using read_header_fragments [of a p b q "[]" pre x] assms by simp

theorem proxy_header_loses_rest_witness:
  "read_header_from [] [[0x0D, 0x0A], drop 2 (encode_v2 (SocketAddr (IpV4 1) 80) (SocketAddr (IpV4 2) 81)) @ [7, 8, 9]] =
    Ret (Inr (HeaderV2 (SocketAddr (IpV4 1) 80) (SocketAddr (IpV4 2) 81), []))"
  using proxy_header_loses_rest [of "[[0x0D, 0x0A]]" "drop 2 (encode_v2 (SocketAddr (IpV4 1) 80) (SocketAddr (IpV4 2) 81))"
      1 80 2 81 "[7, 8, 9]" "[]"]
  by (simp add: encode_v2_def v2_addresses_def v2_signature_def)

section \<open>Version 1\<close>

lemma crlf_pos_append:
  "0x0D \<notin> set bs \<Longrightarrow> crlf_pos (bs @ 0x0D # 0x0A # r) = Some (length bs)"
proof (induction bs)
  case (Cons b bs)
  then show ?case by (cases bs) auto
qed simp

definition v1_line :: "u32 \<Rightarrow> u32 \<Rightarrow> u16 \<Rightarrow> u16 \<Rightarrow> string" where
  "v1_line a b p q =
    ''PROXY'' @ '' '' @ ''TCP4'' @ '' '' @ show_ipv4 a @ '' '' @ show_ipv4 b @ '' ''
    @ show_nat (unat p) @ '' '' @ show_nat (unat q)"

lemma plain_not_space: "list_all plain s \<Longrightarrow> CHR '' '' \<notin> set s"
  by (auto simp: list_all_iff plain_def digit_val_def)

lemma plain_char: "plain c \<Longrightarrow> of_char c < (128 :: nat) \<and> (of_char c :: nat) \<noteq> 13"
  by (auto simp: plain_def digit_val_def Let_def split: if_splits)

lemma line_char:
  assumes "c \<in> set (v1_line a b p q)"
  shows "of_char c < (128 :: nat) \<and> (of_char c :: nat) \<noteq> 13"
  using assms plain_char show_nat_plain show_ipv4_plain
  by (auto simp: v1_line_def list_all_iff)

lemma line_bytes:
  assumes "x \<in> set (as_bytes (v1_line a b p q))"
  shows "x < 0x80" "x \<noteq> 0x0D"
proof -
  obtain c where c: "c \<in> set (v1_line a b p q)" "x = word_of_nat (of_char c)"
    using assms by (auto simp: as_bytes_def)
  then have "unat x = of_char c" using unat_of_nat_byte by simp
  then show "x < 0x80" "x \<noteq> 0x0D" using line_char [OF c(1)] by (auto simp: word_less_nat_alt)
qed

lemma split_line:
  "split_char CHR '' '' (v1_line a b p q) =
    [''PROXY'', ''TCP4'', show_ipv4 a, show_ipv4 b, show_nat (unat p), show_nat (unat q)]"
  using plain_not_space [OF show_nat_plain] plain_not_space [OF show_ipv4_plain]
  by (simp add: v1_line_def split_char_append split_char_last)

text \<open>A version 1 line with two IPv4 addresses and two decimal ports is
  read as those endpoints, and exactly the line with its line ending is
  consumed.\<close>

theorem proxy_v1_parses:
  "parse_header (as_bytes (v1_line a b p q) @ [0x0D, 0x0A] @ rest) =
    Ret (Inr (HeaderV1 (SocketAddr (IpV4 a) p) (SocketAddr (IpV4 b) q), length (v1_line a b p q) + 2))"
proof -
  let ?l = "as_bytes (v1_line a b p q)"
  have "crlf_pos (?l @ 0x0D # 0x0A # rest) = Some (length (v1_line a b p q))"
    using crlf_pos_append [of ?l rest] line_bytes(2) [of "0x0D"] by auto
  moreover have "from_utf8 ?l = Some (v1_line a b p q)"
    using utf8_valid_ascii [of ?l] line_bytes(1) by (auto intro: from_utf8_as_bytes)
  ultimately have "parse_v1 (?l @ [0x0D, 0x0A] @ rest) =
      Inr (HeaderV1 (SocketAddr (IpV4 a) p) (SocketAddr (IpV4 b) q), length (v1_line a b p q) + 2)"
    by (simp add: parse_v1_def Let_def split_line v1_endpoint_def parse_ip_show_ipv4 parse_port_show)
  moreover have "take 5 (?l @ [0x0D, 0x0A] @ rest) = as_bytes ''PROXY''" "6 \<le> length (?l @ [0x0D, 0x0A] @ rest)"
    by (simp_all add: v1_line_def as_bytes_def)
  ultimately show ?thesis by (simp add: parse_header_def)
qed

end
