(* ===== verification/MuxPool.thy ===== *)
theory MuxPool
  imports IoStream
begin

text \<open>
  \<open>crates/omni-mux/src/pool.rs\<close>: the pool of multiplexed sessions. The sessions
  themselves (yamux, smux) are third-party code: whether a session opens a
  stream, and whether a new connection and session can be made, are parameters
  of a call. A lease names the entry of its stream. The program, as it calls the pool, discards the lease of every stream:
  the step relation has the steps it takes, the functions are those of the file.
\<close>

section \<open>The pool\<close>

type_synonym session_id = nat

record pool_entry =
  pe_session :: session_id
  pe_active :: u64

record mux_pool =
  mp_max_streams :: u64
  mp_entries :: "pool_entry list"

definition with_max_streams :: "u64 \<Rightarrow> mux_pool" where
  "with_max_streams n = \<lparr>mp_max_streams = n, mp_entries = []\<rparr>"

definition DEFAULT_MAX_STREAMS_PER_SESSION :: u64 where
  "DEFAULT_MAX_STREAMS_PER_SESSION = 64"

definition pool_new :: mux_pool where
  "pool_new = with_max_streams DEFAULT_MAX_STREAMS_PER_SESSION"

definition add_active :: "u64 \<Rightarrow> nat \<Rightarrow> mux_pool \<Rightarrow> mux_pool" where
  "add_active d i mp =
    mp\<lparr>mp_entries := (mp_entries mp)[i := (mp_entries mp ! i)\<lparr>pe_active := pe_active (mp_entries mp ! i) + d\<rparr>]\<rparr>"

text \<open>The first entry below the limit whose session opens a stream.\<close>

definition usable :: "u64 \<Rightarrow> (session_id \<Rightarrow> bool) \<Rightarrow> pool_entry \<Rightarrow> bool" where
  "usable limit opens e \<longleftrightarrow> \<not> pe_active e \<ge> limit \<and> opens (pe_session e)"

fun first_usable :: "u64 \<Rightarrow> (session_id \<Rightarrow> bool) \<Rightarrow> pool_entry list \<Rightarrow> nat option" where
  "first_usable limit opens [] = None"
| "first_usable limit opens (e # es) =
    (if usable limit opens e then Some 0 else map_option Suc (first_usable limit opens es))"

text \<open>The first half of a dial, under the lock of the pool, and the second, which takes the lock again after a connection, a session and its first
  stream have been made.\<close>

definition dial_reuse :: "(session_id \<Rightarrow> bool) \<Rightarrow> mux_pool \<Rightarrow> (nat \<times> mux_pool) option" where
  "dial_reuse opens mp =
    map_option (\<lambda>i. (i, add_active 1 i mp)) (first_usable (mp_max_streams mp) opens (mp_entries mp))"

definition add_session :: "session_id \<Rightarrow> mux_pool \<Rightarrow> nat \<times> mux_pool" where
  "add_session sid mp =
    (length (mp_entries mp), mp\<lparr>mp_entries := mp_entries mp @ [\<lparr>pe_session = sid, pe_active = 1\<rparr>]\<rparr>)"

text \<open>A dial that no other one runs into; \<open>fresh\<close> is the outcome of connecting, making a session and opening its first
  stream.\<close>

definition dial :: "(session_id \<Rightarrow> bool) \<Rightarrow> io_error + session_id \<Rightarrow> mux_pool \<Rightarrow> (io_error + nat) \<times> mux_pool" where
  "dial opens fresh mp =
    (case dial_reuse opens mp of
       Some (i, mp') \<Rightarrow> (Inr i, mp')
     | None \<Rightarrow>
         (case fresh of
            Inl e \<Rightarrow> (Inl e, mp)
          | Inr sid \<Rightarrow> apfst Inr (add_session sid mp)))"

lemmas dial_defs = dial_def dial_reuse_def add_session_def

definition release :: "nat \<Rightarrow> mux_pool \<Rightarrow> mux_pool" where
  "release i mp = add_active (- 1) i mp"

definition prune_dead :: "mux_pool \<Rightarrow> nat \<times> mux_pool" where
  "prune_dead mp =
    (let kept = filter (\<lambda>_. True) (mp_entries mp)
     in (length (mp_entries mp) - length kept, mp\<lparr>mp_entries := kept\<rparr>))"

section \<open>The pool under the tasks of the program\<close>

text \<open>A state is the pool, the number of dials that are between their two halves, and the leases of all streams that were ever
  opened. Any number of tasks dial; nothing gives a stream back and nothing prunes the pool.\<close>

inductive pool_step :: "mux_pool \<times> nat \<times> nat list \<Rightarrow> mux_pool \<times> nat \<times> nat list \<Rightarrow> bool" where
  reused: "dial_reuse opens mp = Some (i, mp') \<Longrightarrow> pool_step (mp, k, ls) (mp', k, i # ls)"
| connecting: "dial_reuse opens mp = None \<Longrightarrow> pool_step (mp, k, ls) (mp, Suc k, ls)"
| connected: "add_session sid mp = (i, mp') \<Longrightarrow> pool_step (mp, Suc k, ls) (mp', k, i # ls)"
| failed: "pool_step (mp, Suc k, ls) (mp, k, ls)"

inductive pool_reachable :: "u64 \<Rightarrow> mux_pool \<times> nat \<times> nat list \<Rightarrow> bool" for limit where
  start: "pool_reachable limit (with_max_streams limit, 0, [])"
| step: "pool_reachable limit s \<Longrightarrow> pool_step s s' \<Longrightarrow> pool_reachable limit s'"

definition pool_inv :: "u64 \<Rightarrow> mux_pool \<times> nat \<times> nat list \<Rightarrow> bool" where
  "pool_inv limit s \<longleftrightarrow>
    (case s of (mp, k, ls) \<Rightarrow>
      mp_max_streams mp = limit
      \<and> (\<forall>i \<in> set ls. i < length (mp_entries mp))
      \<and> (\<forall>i < length (mp_entries mp).
          unat (pe_active (mp_entries mp ! i)) = count_list ls i \<and> 0 < count_list ls i
          \<and> pe_active (mp_entries mp ! i) \<le> limit))"

lemma first_usable_Some:
  "first_usable limit opens es = Some i \<Longrightarrow>
    i < length es \<and> usable limit opens (es ! i) \<and> (\<forall>j < i. \<not> usable limit opens (es ! j))"
proof (induction es arbitrary: i)
  case (Cons e es)
  then show ?case by (cases i) (auto simp: less_Suc_eq_0_disj split: if_splits)
qed simp

lemma first_usable_None: "first_usable limit opens es = None \<longleftrightarrow> list_all (\<lambda>e. \<not> usable limit opens e) es"
  by (induction es) auto

lemma unat_inc: "(a :: u64) < b \<Longrightarrow> unat (a + 1) = Suc (unat a)"
proof -
  assume "a < b"
  then have "a \<noteq> - 1" using word_n1_ge [of b] by (metis leD)
  then have "1 + a \<noteq> 0" by (metis add.commute eq_neg_iff_add_eq_0)
  then show ?thesis using unatSuc [of a] by (simp add: add.commute)
qed

lemma reused_inv:
  assumes "pool_inv limit (mp, k, ls)" "dial_reuse opens mp = Some (i, mp')"
  shows "pool_inv limit (mp', k, i # ls)"
proof -
  have f: "first_usable (mp_max_streams mp) opens (mp_entries mp) = Some i" and mp': "mp' = add_active 1 i mp"
    using assms(2) by (auto simp: dial_reuse_def)
  have j: "i < length (mp_entries mp)" "pe_active (mp_entries mp ! i) < mp_max_streams mp"
    using first_usable_Some [OF f] by (auto simp: usable_def not_le)
  show ?thesis
    using assms(1) unat_inc [OF j(2)] inc_le [OF j(2)] j(1)
    by (auto simp: pool_inv_def mp' add_active_def nth_list_update)
qed

lemma connected_inv:
  assumes "pool_inv limit (mp, k, ls)" "0 < limit" "add_session sid mp = (i, mp')"
  shows "pool_inv limit (mp', k', i # ls)"
proof -
  have "count_list ls (length (mp_entries mp)) = 0"
    using assms(1) by (auto simp: pool_inv_def count_list_0_iff)
  moreover have "1 \<le> limit" using assms(2) by (simp add: word_less_1 word_gt_0 flip: not_less)
  ultimately show ?thesis
    using assms(1,3) by (auto simp: add_session_def pool_inv_def nth_append less_Suc_eq)
qed

lemma pool_step_inv: "pool_step s s' \<Longrightarrow> 0 < limit \<Longrightarrow> pool_inv limit s \<Longrightarrow> pool_inv limit s'"
proof (induction rule: pool_step.induct)
  case (connected sid mp i mp' k ls)
  then show ?case using connected_inv [of limit mp "Suc k" ls sid i mp' k] by simp
next
  case (reused opens mp i mp' k ls)
  then show ?case using reused_inv by blast
qed (simp_all add: pool_inv_def)

lemma pool_reachable_inv: "pool_reachable limit s \<Longrightarrow> 0 < limit \<Longrightarrow> pool_inv limit s"
proof (induction rule: pool_reachable.induct)
  case start
  then show ?case by (simp add: pool_inv_def with_max_streams_def)
qed (auto dest: pool_step_inv)

lemma leases_of_sessions:
  assumes "pool_inv limit (mp, k, ls)"
  shows "length (mp_entries mp) \<le> length ls" "length ls \<le> length (mp_entries mp) * unat limit"
proof -
  let ?n = "length (mp_entries mp)"
  have sum: "(\<Sum>i < ?n. count_list ls i) = length ls"
    using assms by (intro sum_count_set) (auto simp: pool_inv_def)
  have one: "1 \<le> count_list ls i" "count_list ls i \<le> unat limit" if "i < ?n" for i
    using assms that by (auto simp: pool_inv_def Suc_le_eq word_le_nat_alt)
  show "?n \<le> length ls" using sum_bounded_below [of "{..<?n}" 1 "count_list ls"] one(1) sum by simp
  show "length ls \<le> ?n * unat limit" using sum_bounded_above [of "{..<?n}" "count_list ls" "unat limit"] one(2) sum by simp
qed

text \<open>Property C13: as the program uses the pool, in every state that any number of tasks can reach together, whether a session opens a stream
  or not and however long they are connecting: the counter of a session is the number of all streams that were ever opened
  over it, closed ones included; it is never zero and never above the limit. So a session serves at most the configured
  number of streams in its life, the pool has never fewer sessions than all streams ever opened need, and never more than there were streams.\<close>

theorem mux_pool_invariant:
  assumes "0 < limit" "pool_reachable limit (mp, k, ls)"
  shows "(\<forall>i \<in> set ls. i < length (mp_entries mp))
    \<and> (\<forall>i < length (mp_entries mp). unat (pe_active (mp_entries mp ! i)) = count_list ls i
        \<and> 0 < count_list ls i \<and> count_list ls i \<le> unat limit)
    \<and> length (mp_entries mp) \<le> length ls \<and> length ls \<le> length (mp_entries mp) * unat limit"
proof -
  have i: "pool_inv limit (mp, k, ls)" by (rule pool_reachable_inv [OF assms(2,1)])
  show ?thesis using leases_of_sessions [OF i] i by (auto simp: pool_inv_def word_le_nat_alt)
qed

text \<open>Two tasks that dial an empty pool at the same time make a session each; a third stream needs another one, as both are full.\<close>

theorem mux_pool_invariant_witness:
  "\<exists>mp. pool_reachable 1 (mp, 1, [1, 0]) \<and> unat (pe_active (mp_entries mp ! 0)) = 1 \<and> length (mp_entries mp) \<le> 2"
proof -
  let ?m1 = "\<lparr>mp_max_streams = 1, mp_entries = [\<lparr>pe_session = 7, pe_active = 1\<rparr>]\<rparr>"
  let ?m2 = "\<lparr>mp_max_streams = 1, mp_entries = [\<lparr>pe_session = 7, pe_active = 1\<rparr>, \<lparr>pe_session = 8, pe_active = 1\<rparr>]\<rparr>"
  have e: "dial_reuse (\<lambda>_. True) (with_max_streams 1) = None" "add_session 7 (with_max_streams 1) = (0, ?m1)"
    "add_session 8 ?m1 = (1, ?m2)" "dial_reuse (\<lambda>_. True) ?m2 = None"
    by (simp_all add: dial_reuse_def add_session_def with_max_streams_def usable_def)
  have "pool_reachable 1 (with_max_streams 1, Suc (Suc 0), [])"
    by (rule pool_reachable.step [OF pool_reachable.step [OF pool_reachable.start]]) (rule pool_step.connecting [OF e(1)])+
  then have "pool_reachable 1 (?m1, Suc 0, [0])" by (rule pool_reachable.step) (rule pool_step.connected [OF e(2)])
  then have "pool_reachable 1 (?m2, 0, [1, 0])" by (rule pool_reachable.step) (rule pool_step.connected [OF e(3)])
  then have "pool_reachable 1 (?m2, Suc 0, [1, 0])" by (rule pool_reachable.step) (rule pool_step.connecting [OF e(4)])
  then have r: "pool_reachable 1 (?m2, 1, [1, 0])" by simp
  then show ?thesis
    using mux_pool_invariant [of 1 ?m2 1 "[1, 0]"] by (intro exI [of _ ?m2]) simp
qed

text \<open>What the leases are made for: a released lease takes its stream off the counter again.\<close>

lemma release_undoes_dial:
  assumes "dial opens fresh mp = (Inr i, mp')" "i < length (mp_entries mp)"
  shows "release i mp' = mp"
  using assms first_usable_Some
  by (auto simp: dial_defs release_def add_active_def list_update_same_conv split: option.splits sum.splits)

text \<open>A stream goes to the first session below the limit that still works; only when there
  is none is a new session made.\<close>

lemma dial_reuses:
  assumes "i < length (mp_entries mp)" "usable (mp_max_streams mp) opens (mp_entries mp ! i)"
  shows "\<exists>j \<le> i. dial opens fresh mp = (Inr j, add_active 1 j mp)"
proof -
  obtain j where j: "first_usable (mp_max_streams mp) opens (mp_entries mp) = Some j"
    using assms first_usable_None [of "mp_max_streams mp" opens "mp_entries mp"]
    by (auto simp: list_all_length)
  then have "j \<le> i" using first_usable_Some [OF j] assms(2) by (meson not_le)
  then show ?thesis using j by (auto simp: dial_defs)
qed

text \<open>Pruning removes nothing, so a session that has died stays in the pool.\<close>

lemma prune_dead_keeps: "prune_dead mp = (0, mp)"
  by (simp add: prune_dead_def)

section \<open>How the outbounds use the pool\<close>

text \<open>\<open>dial_with_transport\<close> takes the stream out of the result of \<open>dial\<close> and discards
  the lease, which has no destructor: nothing calls \<open>release\<close>.\<close>

definition dial_pooled :: "(session_id \<Rightarrow> bool) \<Rightarrow> io_error + session_id \<Rightarrow> mux_pool \<Rightarrow> (io_error + unit) \<times> mux_pool" where
  "dial_pooled opens fresh mp =
    (case dial opens fresh mp of (Inl e, mp') \<Rightarrow> (Inl e, mp') | (Inr lease, mp') \<Rightarrow> (Inr (), mp'))"

fun pooled_dials :: "(nat \<Rightarrow> session_id) \<Rightarrow> nat \<Rightarrow> mux_pool" where
  "pooled_dials fresh 0 = pool_new"
| "pooled_dials fresh (Suc n) = snd (dial_pooled (\<lambda>_. True) (Inr (fresh n)) (pooled_dials fresh n))"

definition filled :: "nat \<Rightarrow> pool_entry list \<Rightarrow> bool" where
  "filled n es \<longleftrightarrow>
    n = 0 \<and> es = [] \<or>
    (\<exists>full e. es = full @ [e] \<and> list_all (\<lambda>x. pe_active x = 64) full
      \<and> 0 < pe_active e \<and> pe_active e \<le> 64 \<and> n = 64 * length full + unat (pe_active e))"

lemma first_usable_append:
  "first_usable l opens (es @ fs) =
    (case first_usable l opens es of Some i \<Rightarrow> Some i | None \<Rightarrow> map_option (\<lambda>j. j + length es) (first_usable l opens fs))"
  by (induction es) (auto simp: option.map_comp option.map_ident o_def split: option.splits)

lemma first_usable_full: "list_all (\<lambda>x. pe_active x = l) es \<Longrightarrow> first_usable l opens es = None"
  by (induction es) (auto simp: usable_def)

lemma filled_step:
  assumes "filled n (mp_entries mp)" "mp_max_streams mp = 64"
  shows "filled (Suc n) (mp_entries (snd (dial_pooled (\<lambda>_. True) (Inr sid) mp)))"
  using assms(1) unfolding filled_def [of n]
proof (elim disjE exE conjE)
  assume "n = 0" "mp_entries mp = []"
  then show ?thesis using assms(2) by (simp add: filled_def dial_pooled_def dial_defs)
next
  fix full e
  assume es: "mp_entries mp = full @ [e]" and full: "list_all (\<lambda>x. pe_active x = 64) full"
    and e: "0 < pe_active e" "pe_active e \<le> 64" "n = 64 * length full + unat (pe_active e)"
  note f = first_usable_append [of 64 "\<lambda>_. True" full "[e]"] first_usable_full [OF full]
  show ?thesis
  proof (cases "pe_active e = 64")
    case True
    let ?e = "\<lparr>pe_session = sid, pe_active = 1\<rparr>"
    have "mp_entries (snd (dial_pooled (\<lambda>_. True) (Inr sid) mp)) = (full @ [e]) @ [?e]"
      using f es assms(2) True by (simp add: dial_pooled_def dial_defs usable_def)
    moreover have "list_all (\<lambda>x. pe_active x = 64) (full @ [e])" using full True by simp
    moreover have "Suc n = 64 * length (full @ [e]) + unat (pe_active ?e)" using e(3) True by simp
    ultimately show ?thesis unfolding filled_def by fastforce
  next
    case False
    then have lt: "pe_active e < 64" using e(2) by simp
    let ?e = "e\<lparr>pe_active := pe_active e + 1\<rparr>"
    have "mp_entries (snd (dial_pooled (\<lambda>_. True) (Inr sid) mp)) = full @ [?e]"
      using f es assms(2) lt by (simp add: dial_pooled_def dial_defs usable_def add_active_def)
    moreover have "Suc n = 64 * length full + unat (pe_active ?e)" using e(3) unat_inc [OF lt] by simp
    moreover have "0 < pe_active ?e" using unat_inc [OF lt] by (simp add: word_less_nat_alt)
    moreover have "pe_active ?e \<le> 64" using inc_le [OF lt] by simp
    ultimately show ?thesis unfolding filled_def using full by blast
  qed
qed

lemma pooled_dials_filled:
  "filled n (mp_entries (pooled_dials fresh n)) \<and> mp_max_streams (pooled_dials fresh n) = 64"
proof (induction n)
  case 0
  then show ?case
    by (simp add: filled_def pool_new_def with_max_streams_def DEFAULT_MAX_STREAMS_PER_SESSION_def)
next
  case (Suc n)
  then show ?case
    using filled_step [of n "pooled_dials fresh n" "fresh n"]
    by (auto simp: dial_pooled_def dial_defs add_active_def split: option.splits)
qed

text \<open>The outbounds never give a stream back to the pool. After \<open>n\<close> dials the pool
  holds one session for every 64 streams that were ever opened, rounded up,
  although every session works and however many of the streams have been closed.\<close>

theorem mux_sessions_grow:
  "length (mp_entries (pooled_dials fresh n)) = (n + 63) div 64"
proof -
  have "filled n (mp_entries (pooled_dials fresh n))" using pooled_dials_filled by blast
  then show ?thesis
    unfolding filled_def
  proof (elim disjE exE conjE)
    fix full e
    assume "mp_entries (pooled_dials fresh n) = full @ [e]"
      and e: "0 < pe_active e" "pe_active e \<le> 64" "n = 64 * length full + unat (pe_active e)"
    moreover have "0 < unat (pe_active e)" "unat (pe_active e) \<le> 64"
      using e(1,2) by (simp_all add: word_less_nat_alt word_le_nat_alt)
    ultimately show ?thesis by simp
  qed simp
qed

end
