(* ===== verification/Mieru.thy ===== *)
theory Mieru
  imports Socks5 SsCrypto ChunkStream
begin

text \<open>
  The mieru protocol (\<open>crates/omni-proto/src/proto/mieru/\<close>): key derivation from the
  credentials and the minute, sealed segments with a 32 byte metadata block,
  the opening of a session on both sides and the pump tasks. SHA-256, its HMAC
  and XChaCha20-Poly1305 are parameters (\<open>mieru_prims\<close>) with their documented laws
  (\<open>mieru_laws\<close>); the clock and the random nonces are arguments.
\<close>

section \<open>Keys\<close>

record mieru_prims =
  mp_sha256 :: "bytes \<Rightarrow> bytes"
  mp_hmac :: "bytes \<Rightarrow> bytes \<Rightarrow> bytes"
  mp_seal :: "bytes \<Rightarrow> bytes \<Rightarrow> bytes \<Rightarrow> bytes \<times> bytes"
  mp_open :: "bytes \<Rightarrow> bytes \<Rightarrow> bytes \<Rightarrow> bytes \<Rightarrow> bytes option"

definition mieru_laws :: "mieru_prims \<Rightarrow> bool" where
  "mieru_laws P \<longleftrightarrow>
    (\<forall>d. length (mp_sha256 P d) = 32)
    \<and> (\<forall>k d. length (mp_hmac P k d) = 32)
    \<and> (\<forall>k n p. case mp_seal P k n p of (ct, tag) \<Rightarrow>
        length ct = length p \<and> length tag = 16 \<and> mp_open P k n ct tag = Some p)"

definition hmac_sha256 :: "mieru_prims \<Rightarrow> bytes \<Rightarrow> bytes \<Rightarrow> bytes" where
  "hmac_sha256 P key data = mp_hmac P key data"

text \<open>The inner loop of \<open>pbkdf2_sha256\<close>, over the pair \<open>(u, acc)\<close>.\<close>

definition pbkdf2_round :: "mieru_prims \<Rightarrow> bytes \<Rightarrow> bytes \<times> bytes \<Rightarrow> bytes \<times> bytes" where
  "pbkdf2_round P password = (\<lambda>(u, acc).
    let u' = hmac_sha256 P password u in (u', map2 (XOR) acc u'))"

definition pbkdf2_block :: "mieru_prims \<Rightarrow> bytes \<Rightarrow> bytes \<Rightarrow> nat \<Rightarrow> u32 \<Rightarrow> bytes" where
  "pbkdf2_block P password salt rounds block_index =
    (let u = hmac_sha256 P password (salt @ u32_be block_index)
     in snd ((pbkdf2_round P password ^^ (rounds - 1)) (u, u)))"

text \<open>The loop \<open>while out.len() < dk_len\<close>; that it ends depends on the length of a MAC.\<close>

partial_function (option) pbkdf2_loop ::
    "mieru_prims \<Rightarrow> bytes \<Rightarrow> bytes \<Rightarrow> nat \<Rightarrow> nat \<Rightarrow> u32 \<Rightarrow> bytes \<Rightarrow> bytes option" where
  "pbkdf2_loop P password salt rounds dk_len block_index out =
    (if length out < dk_len
     then pbkdf2_loop P password salt rounds dk_len (block_index + 1)
       (out @ pbkdf2_block P password salt rounds block_index)
     else Some out)"

definition pbkdf2_sha256 :: "mieru_prims \<Rightarrow> bytes \<Rightarrow> bytes \<Rightarrow> nat \<Rightarrow> nat \<Rightarrow> bytes option" where
  "pbkdf2_sha256 P password salt rounds dk_len =
    map_option (take dk_len) (pbkdf2_loop P password salt rounds dk_len 1 [])"

definition KEY_LEN :: nat where "KEY_LEN = 32"

definition derive_key :: "mieru_prims \<Rightarrow> bytes \<Rightarrow> bytes \<Rightarrow> u64 \<Rightarrow> bytes option" where
  "derive_key P user pass epoch_minute =
    pbkdf2_sha256 P (mp_sha256 P (pass @ [0x00] @ user)) (u64_be epoch_minute) 64 KEY_LEN"

definition mieru_seal :: "mieru_prims \<Rightarrow> bytes \<Rightarrow> bytes \<Rightarrow> bytes \<Rightarrow> bytes" where
  "mieru_seal P key nonce plaintext = (case mp_seal P key nonce plaintext of (buf, tag) \<Rightarrow> buf @ tag)"

definition mieru_open :: "mieru_prims \<Rightarrow> bytes \<Rightarrow> bytes \<Rightarrow> bytes \<Rightarrow> bytes option" where
  "mieru_open P key nonce d =
    (if length d < 16 then None
     else mp_open P key nonce (take (length d - 16) d) (drop (length d - 16) d))"

definition nonce_succ :: "bytes \<Rightarrow> bytes" where
  "nonce_succ nonce = inc_rev nonce"

section \<open>Metadata\<close>

definition METADATA_SIZE :: nat where "METADATA_SIZE = 32"
definition TAG_SIZE :: nat where "TAG_SIZE = 16"
definition NONCE_SIZE :: nat where "NONCE_SIZE = 24"
definition PROTO_DATA_C2S :: byte where "PROTO_DATA_C2S = 0"
definition PROTO_DATA_S2C :: byte where "PROTO_DATA_S2C = 1"
definition PROTO_OPEN_SESSION_REQ :: byte where "PROTO_OPEN_SESSION_REQ = 2"
definition PROTO_OPEN_SESSION_RESP :: byte where "PROTO_OPEN_SESSION_RESP = 3"

record parsed_metadata =
  md_proto_type :: byte
  md_epoch_minute :: u32
  md_session_id :: u32
  md_seq :: u32
  md_status :: byte
  md_payload_len :: u16
  md_suffix_len :: byte

definition build_metadata :: "byte \<Rightarrow> u32 \<Rightarrow> u32 \<Rightarrow> u32 \<Rightarrow> byte \<Rightarrow> u16 \<Rightarrow> byte \<Rightarrow> bytes" where
  "build_metadata proto_type epoch_minute session_id sq status payload_len suffix_len =
    [proto_type, 0] @ u32_be epoch_minute @ u32_be session_id @ u32_be sq @ [status]
    @ u16_be payload_len @ [suffix_len] @ replicate 14 0"

definition parse_metadata :: "bytes \<Rightarrow> parsed_metadata" where
  "parse_metadata m =
    \<lparr>md_proto_type = m ! 0,
     md_epoch_minute = be_u32 [m ! 2, m ! 3, m ! 4, m ! 5],
     md_session_id = be_u32 [m ! 6, m ! 7, m ! 8, m ! 9],
     md_seq = be_u32 [m ! 10, m ! 11, m ! 12, m ! 13],
     md_status = m ! 14,
     md_payload_len = be_u16 (m ! 15) (m ! 16),
     md_suffix_len = m ! 17\<rparr>"

section \<open>Segments\<close>

record segment_state =
  ms_key :: bytes
  ms_nonce :: bytes
  ms_seq :: u32

text \<open>The length in front of a segment is a \<open>usize\<close>, so \<open>to_be_bytes\<close> gives eight bytes.\<close>

definition segment_head :: "nat \<Rightarrow> bool \<Rightarrow> bytes" where
  "segment_head payload_len is_first =
    nat_be 8 (4 + (if is_first then NONCE_SIZE else 0) + METADATA_SIZE + TAG_SIZE + payload_len + TAG_SIZE)"

definition segment_meta :: "mieru_prims \<Rightarrow> u64 \<Rightarrow> byte \<Rightarrow> nat \<Rightarrow> segment_state \<Rightarrow> bytes" where
  "segment_meta P em proto_type n st =
    mieru_seal P (ms_key st) (ms_nonce st)
      (build_metadata proto_type (ucast em) 0 (ms_seq st) 0 (word_of_nat n) 0)"

definition encrypt_segment ::
    "mieru_prims \<Rightarrow> u64 \<Rightarrow> byte \<Rightarrow> bytes \<Rightarrow> bool \<Rightarrow> segment_state \<Rightarrow> bytes \<times> segment_state" where
  "encrypt_segment P em proto_type payload is_first st =
    (segment_head (length payload) is_first
     @ (if is_first then ms_nonce st else [])
     @ segment_meta P em proto_type (length payload) st
     @ (if payload \<noteq> [] then mieru_seal P (ms_key st) (nonce_succ (ms_nonce st)) payload else []),
     st\<lparr>ms_nonce := nonce_succ (if payload \<noteq> [] then nonce_succ (ms_nonce st) else ms_nonce st),
        ms_seq := ms_seq st + 1\<rparr>)"

definition decrypt_segment ::
    "mieru_prims \<Rightarrow> bytes \<Rightarrow> bool \<Rightarrow> segment_state \<Rightarrow> (parsed_metadata \<times> bytes \<times> segment_state) option" where
  "decrypt_segment P data has_nonce st =
    (if has_nonce \<and> length data < NONCE_SIZE then None
     else
       let nonce = (if has_nonce then take NONCE_SIZE data else ms_nonce st);
           off = (if has_nonce then NONCE_SIZE else 0);
           payload_start = off + METADATA_SIZE + TAG_SIZE
       in if length data < payload_start then None
       else (case mieru_open P (ms_key st) nonce (slice off payload_start data) of
           None \<Rightarrow> None
         | Some meta_plain \<Rightarrow>
             let md = parse_metadata meta_plain;
                 payload_end = payload_start + unat (md_payload_len md) + TAG_SIZE;
                 st' = st\<lparr>ms_nonce := (if md_payload_len md > 0 then nonce_succ (nonce_succ (ms_nonce st))
                   else nonce_succ (ms_nonce st))\<rparr>
             in if md_payload_len md > 0 \<and> length data \<ge> payload_end then
                 (case mieru_open P (ms_key st) (nonce_succ nonce) (slice payload_start payload_end data) of
                    None \<Rightarrow> None
                  | Some payload \<Rightarrow> Some (md, payload, st'))
               else Some (md, [], st')))"

section \<open>Opening a session\<close>

record mieru_config =
  mc_username :: string
  mc_password :: string

definition mieru_err :: "string \<Rightarrow> io_error" where
  "mieru_err msg = IoError Other (''mieru: '' @ msg)"

definition config_key :: "mieru_prims \<Rightarrow> mieru_config \<Rightarrow> u64 \<Rightarrow> bytes option" where
  "config_key P cfg now = derive_key P (as_bytes (mc_username cfg)) (as_bytes (mc_password cfg)) now"

text \<open>The server, up to the two pump tasks: the target and the states of its reader and writer.
  In-place decryption keeps the length, so the metadata it gives has 32 bytes.\<close>

definition open_request ::
    "mieru_prims \<Rightarrow> bytes \<Rightarrow> bytes \<Rightarrow> io_error + (proxy_target \<times> bytes)" where
  "open_request P key seg =
    (let payload_start = NONCE_SIZE + METADATA_SIZE + TAG_SIZE in
     if length seg < payload_start then Inl (mieru_err ''mieru: short open session segment'')
     else (case mieru_open P key (take NONCE_SIZE seg) (slice NONCE_SIZE payload_start seg) of
         None \<Rightarrow> Inl (mieru_err ''mieru: authentication failed'')
       | Some meta_plain \<Rightarrow>
           let md = parse_metadata meta_plain;
               payload_end = min (payload_start + unat (md_payload_len md)) (length seg)
           in (case decode (slice payload_start payload_end seg) of
               Inl e \<Rightarrow> Inl (invalid_data (''mieru: socks addr: '' @ e))
             | Inr (addr, n) \<Rightarrow> Inr (to_proxy_target addr, take NONCE_SIZE seg))))"

definition accept_mieru ::
    "mieru_prims \<Rightarrow> u64 \<Rightarrow> bytes \<Rightarrow> bytes \<Rightarrow> (proxy_target \<times> segment_state \<times> segment_state) io" where
  "accept_mieru P now key resp_nonce =
    io_bind (read_exact 4) (\<lambda>len_buf.
    io_bind (read_exact (unat (be_u32 len_buf))) (\<lambda>seg_buf.
      case open_request P key seg_buf of
        Inl e \<Rightarrow> io_throw e
      | Inr (target, client_nonce) \<Rightarrow>
          (case encrypt_segment P now PROTO_OPEN_SESSION_RESP [] False
              \<lparr>ms_key = key, ms_nonce = resp_nonce, ms_seq = 0\<rparr> of
             (resp_seg, st_resp) \<Rightarrow>
               io_bind (write_all resp_seg) (\<lambda>_.
                 io_ret (target, \<lparr>ms_key = key, ms_nonce = client_nonce, ms_seq = 0\<rparr>, st_resp)))))"

text \<open>\<open>None\<close> stands for a key derivation that does not return.\<close>

definition accept_session_mieru ::
    "mieru_prims \<Rightarrow> u64 \<Rightarrow> mieru_config \<Rightarrow> bytes \<Rightarrow> conn
     \<Rightarrow> ((io_error + proxy_target \<times> segment_state \<times> segment_state) \<times> conn) option" where
  "accept_session_mieru P now cfg resp_nonce c =
    map_option (\<lambda>key. accept_mieru P now key resp_nonce c) (config_key P cfg now)"

text \<open>The client: what it writes first, and what it makes of the first read of the answer
  (no read is the end of the connection).\<close>

definition open_segment :: "mieru_prims \<Rightarrow> u64 \<Rightarrow> bytes \<Rightarrow> bytes \<Rightarrow> proxy_target \<Rightarrow> bytes \<times> segment_state" where
  "open_segment P now key nonce target =
    encrypt_segment P now PROTO_OPEN_SESSION_REQ (encode_addr (from_proxy_target target)) True
      \<lparr>ms_key = key, ms_nonce = nonce, ms_seq = 0\<rparr>"

definition open_response :: "mieru_prims \<Rightarrow> bytes \<Rightarrow> bytes list \<Rightarrow> io_error + segment_state" where
  "open_response P key reads =
    (case reads of
       [] \<Rightarrow> Inl (mieru_err ''connection closed during open'')
     | hdr # _ \<Rightarrow>
         if hdr = [] then Inl (mieru_err ''connection closed during open'')
         else if length hdr < NONCE_SIZE + METADATA_SIZE + TAG_SIZE
         then Inl (mieru_err ''short openSessionResponse'')
         else (case mieru_open P key (take NONCE_SIZE hdr)
               (slice NONCE_SIZE (NONCE_SIZE + METADATA_SIZE + TAG_SIZE) hdr) of
             None \<Rightarrow> Inl (mieru_err ''open response decrypt failed'')
           | Some meta_plain \<Rightarrow>
               if md_status (parse_metadata meta_plain) \<noteq> 0 then Inl (mieru_err ''mieru: open rejected'')
               else Inr \<lparr>ms_key = key, ms_nonce = take NONCE_SIZE hdr, ms_seq = 0\<rparr>))"

definition connect_mieru ::
    "mieru_prims \<Rightarrow> u64 \<Rightarrow> mieru_config \<Rightarrow> bytes \<Rightarrow> proxy_target \<Rightarrow> bytes list
     \<Rightarrow> (bytes \<times> (io_error + segment_state \<times> segment_state)) option" where
  "connect_mieru P now cfg nonce target reads =
    map_option (\<lambda>key.
      case open_segment P now key nonce target of (seg, st) \<Rightarrow>
        (seg, map_sum id (Pair st) (open_response P key reads))) (config_key P cfg now)"

section \<open>Pump tasks\<close>

text \<open>The reading task of the client: the segments it takes off its buffer after a read,
  the messages it sends to the relay (which holds the receiver), and how the task ends.\<close>

function client_drain ::
    "mieru_prims \<Rightarrow> segment_state \<Rightarrow> bytes \<Rightarrow> bytes list \<times> segment_state \<times> bytes" where
  "client_drain P st buf =
    (if length buf \<ge> METADATA_SIZE + TAG_SIZE then
       (case decrypt_segment P buf False st of
          None \<Rightarrow> ([], st, buf)
        | Some (md, payload, st') \<Rightarrow>
            let consumed = METADATA_SIZE + TAG_SIZE + unat (md_payload_len md) + TAG_SIZE;
                (out, r) = client_drain P st' (drop (min consumed (length buf)) buf)
            in (if payload \<noteq> [] then payload # out else out, r))
     else ([], st, buf))"
  by auto
termination
  by (relation "measure (\<lambda>(_, _, buf). length buf)") (auto simp: METADATA_SIZE_def)

declare client_drain.simps [simp del]

fun client_read_pump :: "mieru_prims \<Rightarrow> segment_state \<Rightarrow> bytes \<Rightarrow> bytes list \<Rightarrow> (io_error + bytes) list" where
  "client_read_pump P st buf [] = [Inr []]"
| "client_read_pump P st buf (r # rs) =
    (if r = [] then [Inr []]
     else case client_drain P st (buf @ r) of
       (out, st', buf') \<Rightarrow> map Inr out @ client_read_pump P st' buf' rs)"

text \<open>The reading task of the server. It drains a whole segment even when the
  segment has not arrived completely, which panics (\<open>Crashed\<close>); it returns without
  a word when a seal is broken.\<close>

datatype drain_end = Waiting segment_state bytes | Returned | Crashed

function server_drain :: "mieru_prims \<Rightarrow> segment_state \<Rightarrow> bytes \<Rightarrow> bytes list \<times> drain_end" where
  "server_drain P st buf =
    (if length buf \<ge> METADATA_SIZE + TAG_SIZE then
       (case mieru_open P (ms_key st) (ms_nonce st) (take (METADATA_SIZE + TAG_SIZE) buf) of
          None \<Rightarrow> ([], Returned)
        | Some meta_plain \<Rightarrow>
            let md = parse_metadata meta_plain;
                nonce = nonce_succ (ms_nonce st);
                payload_start = METADATA_SIZE + TAG_SIZE;
                payload_end = payload_start + unat (md_payload_len md) + TAG_SIZE
            in (case (if md_payload_len md > 0 \<and> length buf \<ge> payload_end
                  then mieru_open P (ms_key st) (nonce_succ nonce) (slice payload_start payload_end buf)
                  else Some []) of
                None \<Rightarrow> ([], Returned)
              | Some payload \<Rightarrow>
                  let st' = st\<lparr>ms_nonce := (if md_payload_len md > 0 then nonce_succ (nonce_succ (ms_nonce st))
                    else nonce_succ (ms_nonce st))\<rparr>
                  in if length buf < payload_end then ([], Crashed)
                     else (case server_drain P st' (drop payload_end buf) of
                       (out, r) \<Rightarrow> (if payload \<noteq> [] then payload # out else out, r))))
     else ([], Waiting st buf))"
  by auto
termination
  by (relation "measure (\<lambda>(_, _, buf). length buf)") (auto simp: METADATA_SIZE_def TAG_SIZE_def)

declare server_drain.simps [simp del]

fun server_read_pump :: "mieru_prims \<Rightarrow> segment_state \<Rightarrow> bytes \<Rightarrow> bytes list \<Rightarrow> (io_error + bytes) list" where
  "server_read_pump P st buf [] = [Inr []]"
| "server_read_pump P st buf (r # rs) =
    (if r = [] then [Inr []]
     else case server_drain P st (buf @ r) of
       (out, Waiting st' buf') \<Rightarrow> map Inr out @ server_read_pump P st' buf' rs
     | (out, _) \<Rightarrow> map Inr out)"

text \<open>The writing tasks: every message with the minute in which it is encrypted.\<close>

fun write_pump :: "mieru_prims \<Rightarrow> byte \<Rightarrow> segment_state \<Rightarrow> (u64 \<times> bytes) list \<Rightarrow> bytes list \<times> segment_state" where
  "write_pump P proto_type st [] = ([], st)"
| "write_pump P proto_type st ((em, data) # ds) =
    (if data = [] then write_pump P proto_type st ds
     else case encrypt_segment P em proto_type data False st of
       (seg, st') \<Rightarrow> (case write_pump P proto_type st' ds of (segs, st'') \<Rightarrow> (seg # segs, st'')))"

section \<open>Laws\<close>

lemma mieru_lawsE:
  assumes "mieru_laws P"
  shows "length (mp_hmac P k d) = 32"
    and "length (mieru_seal P k n p) = length p + 16"
    and "mieru_open P k n (mieru_seal P k n p) = Some p"
proof -
  obtain ct tag where s: "mp_seal P k n p = (ct, tag)" by fastforce
  moreover have "case mp_seal P k n p of (ct, tag) \<Rightarrow>
      length ct = length p \<and> length tag = 16 \<and> mp_open P k n ct tag = Some p"
    using assms by (simp add: mieru_laws_def)
  ultimately have "length ct = length p" "length tag = 16" "mp_open P k n ct tag = Some p" by auto
  then show "length (mieru_seal P k n p) = length p + 16" "mieru_open P k n (mieru_seal P k n p) = Some p"
    by (simp_all add: s mieru_seal_def mieru_open_def)
  show "length (mp_hmac P k d) = 32" using assms by (simp add: mieru_laws_def)
qed

lemma pbkdf2_block_length:
  assumes "mieru_laws P"
  shows "length (pbkdf2_block P pw salt rounds i) = 32"
proof -
  have "length (fst ((pbkdf2_round P pw ^^ k) (u, u))) = 32 \<and> length (snd ((pbkdf2_round P pw ^^ k) (u, u))) = 32"
    if "length u = 32" for k u
    using that by (induction k)
      (auto simp: pbkdf2_round_def hmac_sha256_def Let_def case_prod_beta mieru_lawsE(1) [OF assms])
  then show ?thesis
    by (simp add: pbkdf2_block_def Let_def hmac_sha256_def mieru_lawsE(1) [OF assms])
qed

lemma pbkdf2_loop_blocks:
  assumes "mieru_laws P" "length out = 32 * k" "i = word_of_nat (Suc k)"
  shows "pbkdf2_loop P pw salt rounds n i out =
    Some (out @ concat (map (\<lambda>j. pbkdf2_block P pw salt rounds (word_of_nat j)) [Suc k..<Suc (max k ((n + 31) div 32))]))"
  using assms(2,3)
proof (induction "n - length out" arbitrary: out k i rule: less_induct)
  case less
  show ?case
  proof (cases "length out < n")
    case True
    let ?b = "pbkdf2_block P pw salt rounds i"
    have m: "max k ((n + 31) div 32) = (n + 31) div 32" "Suc k \<le> (n + 31) div 32"
      using True less(2) by auto
    have "pbkdf2_loop P pw salt rounds n i out = pbkdf2_loop P pw salt rounds n (i + 1) (out @ ?b)"
      using True by (subst pbkdf2_loop.simps) simp
    also have "\<dots> = Some ((out @ ?b) @ concat (map (\<lambda>j. pbkdf2_block P pw salt rounds (word_of_nat j))
        [Suc (Suc k)..<Suc (max (Suc k) ((n + 31) div 32))]))"
      using True less(2,3) by (intro less(1)) (simp_all add: pbkdf2_block_length [OF assms(1)])
    also have "[Suc k..<Suc (max k ((n + 31) div 32))] = Suc k # [Suc (Suc k)..<Suc (max (Suc k) ((n + 31) div 32))]"
      using m by (simp add: upt_conv_Cons)
    ultimately show ?thesis using less(3) by simp
  next
    case False
    then have "(n + 31) div 32 \<le> k" using less(2) by auto
    then show ?thesis using False by (subst pbkdf2_loop.simps) (simp add: max_def)
  qed
qed

text \<open>PBKDF2 as RFC 8018 has it: block \<open>i\<close> is the exclusive or of the \<open>rounds\<close> iterates of the
  MAC that start at the salt followed by the block index.\<close>

definition mac_iterate :: "mieru_prims \<Rightarrow> bytes \<Rightarrow> bytes \<Rightarrow> nat \<Rightarrow> nat \<Rightarrow> bytes" where
  "mac_iterate P pw salt i k = (mp_hmac P pw ^^ Suc k) (salt @ nat_be 4 i)"

definition rfc_block :: "mieru_prims \<Rightarrow> bytes \<Rightarrow> bytes \<Rightarrow> nat \<Rightarrow> nat \<Rightarrow> bytes" where
  "rfc_block P pw salt rounds i =
    foldl (map2 (XOR)) (mac_iterate P pw salt i 0) (map (mac_iterate P pw salt i) [1..<rounds])"

lemma pbkdf2_rounds:
  "(pbkdf2_round P pw ^^ k) (u, u) =
    ((mp_hmac P pw ^^ k) u, foldl (map2 (XOR)) u (map (\<lambda>j. (mp_hmac P pw ^^ j) u) [1..<Suc k]))"
  by (induction k) (simp_all add: pbkdf2_round_def hmac_sha256_def Let_def)

lemma nat_be_mod: "nat_be k (v mod 256 ^ k) = nat_be k v"
  using nat_be_be_nat [of "nat_be k v"] by (simp add: be_nat_nat_be)

lemma pbkdf2_block_rfc: "0 < rounds \<Longrightarrow> pbkdf2_block P pw salt rounds (word_of_nat i) = rfc_block P pw salt rounds i"
  using nat_be_mod [of 4 i]
  by (simp add: pbkdf2_block_def rfc_block_def mac_iterate_def [abs_def] pbkdf2_rounds hmac_sha256_def Let_def u32_be_def
      unat_of_nat funpow_swap1)

text \<open>Property C37: the key derivation returns. For every password, salt, positive number of rounds and
  length the loop of \<open>pbkdf2_sha256\<close> ends, and its result is PBKDF2 of the standard: the
  first bytes of the blocks 1, 2, ..., each the exclusive or of the iterated MACs.\<close>

theorem pbkdf2_returns:
  assumes "mieru_laws P" "0 < rounds"
  shows "pbkdf2_sha256 P pw salt rounds n =
    Some (take n (concat (map (rfc_block P pw salt rounds) [1..<Suc ((n + 31) div 32)])))"
  using pbkdf2_loop_blocks [OF assms(1), of "[]" 0 1 pw salt rounds n] pbkdf2_block_rfc [OF assms(2)]
  by (simp add: pbkdf2_sha256_def)

definition xor_prims :: mieru_prims where
  "xor_prims = \<lparr>mp_sha256 = (\<lambda>d. take 32 (d @ replicate 32 0)),
    mp_hmac = (\<lambda>k d. map (\<lambda>b. b XOR 0x36) (take 32 (d @ k @ replicate 32 0))),
    mp_seal = (\<lambda>k n p. (map (\<lambda>b. b XOR 0x5A) p, replicate 16 0)),
    mp_open = (\<lambda>k n ct tag. if tag = replicate 16 0 then Some (map (\<lambda>b. b XOR 0x5A) ct) else None)\<rparr>"

lemma xor_prims_laws: "mieru_laws xor_prims"
  by (auto simp: mieru_laws_def xor_prims_def o_def xor.assoc min_def)

theorem pbkdf2_returns_witness:
  "pbkdf2_sha256 xor_prims [1] [2] 64 32 = Some (take 32 (concat (map (rfc_block xor_prims [1] [2] 64) [1..<Suc ((32 + 31) div 32)])))"
  by (rule pbkdf2_returns [OF xor_prims_laws]) simp

section \<open>Opening never succeeds\<close>

lemma nat_be_add: "nat_be (a + b) v = nat_be a (v div 256 ^ b) @ nat_be b v"
  by (induction b arbitrary: v) (simp_all add: div_mult2_eq)

lemma nat_be_zero: "nat_be k 0 = replicate k 0"
  by (induction k) (simp_all add: replicate_append_same [symmetric])

lemma usize_prefix: "v < 2 ^ 32 \<Longrightarrow> take 4 (nat_be 8 v) = replicate 4 0"
  using nat_be_add [of 4 4 v] by (simp add: nat_be_zero)

text \<open>Property C38: the client and the server of this code never open a session. The segment length is
  written with eight bytes and read with four, which are zero: whatever the credentials,
  the nonces and the minutes on the two sides, the server refuses the opening of the
  client as too short and answers nothing. (The target's host name is shorter than two gigabytes.)\<close>

theorem mieru_never_opens:
  assumes "length (encode_addr (from_proxy_target target)) < 2 ^ 31"
  shows "accept_mieru P now key resp_nonce
      \<lparr>inp = fst (open_segment P now' key' nonce target) @ later, outp = w\<rparr> =
    (Inl (mieru_err ''mieru: short open session segment''),
     \<lparr>inp = drop 4 (fst (open_segment P now' key' nonce target)) @ later, outp = w\<rparr>)"
proof -
  let ?v = "4 + NONCE_SIZE + METADATA_SIZE + TAG_SIZE + length (encode_addr (from_proxy_target target)) + TAG_SIZE"
  obtain rest where seg: "fst (open_segment P now' key' nonce target) = nat_be 8 ?v @ rest"
    by (simp add: open_segment_def encrypt_segment_def segment_head_def)
  have "take 4 (nat_be 8 ?v) = replicate 4 0"
    using assms by (intro usize_prefix) (simp add: NONCE_SIZE_def METADATA_SIZE_def TAG_SIZE_def)
  then have "nat_be 8 ?v = replicate 4 0 @ drop 4 (nat_be 8 ?v)"
    by (metis append_take_drop_id)
  then obtain m where m: "nat_be 8 ?v = replicate 4 0 @ m" by blast
  have "be_u32 (replicate 4 0) = 0" by (simp add: be_u32_def be_nat_def numeral_eq_Suc)
  then show ?thesis
    unfolding seg m accept_mieru_def
    by (simp add: io_bind_read_append io_bind_def [of "read_exact 0"] read_exact_def open_request_def Let_def NONCE_SIZE_def)
qed

theorem mieru_never_opens_witness:
  "accept_mieru xor_prims 5 [1] [2]
      \<lparr>inp = fst (open_segment xor_prims 5 [1] (replicate 24 3) (Domain ''a.example'' 443)) @ [], outp = []\<rparr> =
    (Inl (mieru_err ''mieru: short open session segment''),
     \<lparr>inp = drop 4 (fst (open_segment xor_prims 5 [1] (replicate 24 3) (Domain ''a.example'' 443))) @ [], outp = []\<rparr>)"
  by (rule mieru_never_opens) simp

section \<open>Segments without their length\<close>

lemma parse_build_metadata:
  "parse_metadata (build_metadata pt em sid sq status n sfx) =
    \<lparr>md_proto_type = pt, md_epoch_minute = em, md_session_id = sid, md_seq = sq, md_status = status,
     md_payload_len = n, md_suffix_len = sfx\<rparr>"
proof -
  have l: "length (u32_be x) = 4" for x by (simp add: u32_be_def)
  have e: "u32_be x = [u32_be x ! 0, u32_be x ! 1, u32_be x ! 2, u32_be x ! 3]" for x
    using take_4_nth [of "u32_be x"] l [of x] by simp
  have b: "be_u32 [u32_be x ! 0, u32_be x ! 1, u32_be x ! 2, u32_be x ! 3] = x" for x
    using e [of x] by (metis be_u32_u32_be)
  show ?thesis
    using b be_u16_nth [of n] by (simp add: parse_metadata_def build_metadata_def nth_append l)
qed

lemma length_build_metadata: "length (build_metadata pt em sid sq status n sfx) = 32"
  by (simp add: build_metadata_def u32_be_def u16_be_def)

lemma length_segment_meta: "mieru_laws P \<Longrightarrow> length (segment_meta P em pt n st) = 48"
  by (simp add: segment_meta_def mieru_lawsE(2) length_build_metadata)

text \<open>The sealed part of a segment: what \<open>encrypt_segment\<close> writes behind the length.\<close>

definition segment_body :: "mieru_prims \<Rightarrow> u64 \<Rightarrow> byte \<Rightarrow> bytes \<Rightarrow> segment_state \<Rightarrow> bytes" where
  "segment_body P em pt payload st = drop 8 (fst (encrypt_segment P em pt payload False st))"

lemma segment_body_parts:
  "payload \<noteq> [] \<Longrightarrow> segment_body P em pt payload st =
    segment_meta P em pt (length payload) st @ mieru_seal P (ms_key st) (nonce_succ (ms_nonce st)) payload"
  by (simp add: segment_body_def encrypt_segment_def segment_head_def)

lemma decrypt_segment_body:
  assumes "mieru_laws P" "payload \<noteq> []" "length payload < 65536"
    and "ms_key r = ms_key w" "ms_nonce r = ms_nonce w"
  shows "\<exists>md. decrypt_segment P (segment_body P em pt payload w @ rest) False r =
      Some (md, payload, r\<lparr>ms_nonce := ms_nonce (snd (encrypt_segment P em pt payload False w))\<rparr>)
    \<and> unat (md_payload_len md) = length payload"
proof -
  let ?m = "segment_meta P em pt (length payload) w"
  let ?p = "mieru_seal P (ms_key w) (nonce_succ (ms_nonce w)) payload"
  let ?md = "build_metadata pt (ucast em) 0 (ms_seq w) 0 (word_of_nat (length payload)) 0"
  have len: "length ?m = 48" "length ?p = length payload + 16"
    using assms(1) by (simp_all add: length_segment_meta mieru_lawsE(2))
  have n: "unat (word_of_nat (length payload) :: u16) = length payload"
    using assms(3) by (simp add: unat_of_nat)
  then have pos: "(0 :: u16) < word_of_nat (length payload)"
    using assms(2) by (metis length_0_conv unat_0 word_gt_0)
  have md: "mieru_open P (ms_key w) (ms_nonce w) ?m = Some ?md"
    using assms(1) by (simp add: segment_meta_def mieru_lawsE(3))
  have pl: "mieru_open P (ms_key w) (nonce_succ (ms_nonce w)) ?p = Some payload"
    using assms(1) by (simp add: mieru_lawsE(3))
  have sl: "slice 0 48 (?m @ ?p @ rest) = ?m" "slice 48 (48 + length payload + 16) (?m @ ?p @ rest) = ?p"
    using len by (simp_all add: slice_def)
  show ?thesis
    unfolding segment_body_parts [OF assms(2)]
    using assms(2,4,5) len sl md pl n pos
    by (simp add: decrypt_segment_def Let_def METADATA_SIZE_def TAG_SIZE_def parse_build_metadata encrypt_segment_def)
qed

fun bodies :: "mieru_prims \<Rightarrow> byte \<Rightarrow> segment_state \<Rightarrow> (u64 \<times> bytes) list \<Rightarrow> bytes" where
  "bodies P pt st [] = []"
| "bodies P pt st ((em, d) # ds) =
    (if d = [] then bodies P pt st ds
     else segment_body P em pt d st @ bodies P pt (snd (encrypt_segment P em pt d False st)) ds)"

text \<open>\<open>bodies\<close> is what the writing task writes, less the length in front of every segment.\<close>

lemma bodies_write_pump: "bodies P pt st ds = concat (map (drop 8) (fst (write_pump P pt st ds)))"
  by (induction ds arbitrary: st) (auto simp: segment_body_def case_prod_beta)

lemma client_drain_bodies:
  assumes "mieru_laws P" "\<forall>(em, d) \<in> set ds. length d < 65536" "length rest < 48"
    and "ms_key r = ms_key w" "ms_nonce r = ms_nonce w"
  shows "\<exists>r'. client_drain P r (bodies P pt w ds @ rest) = (filter (\<lambda>d. d \<noteq> []) (map snd ds), r', rest)
    \<and> ms_key r' = ms_key w \<and> ms_nonce r' = ms_nonce (snd (write_pump P pt w ds))"
  using assms(2,4,5)
proof (induction ds arbitrary: r w)
  case Nil
  then show ?case using assms(3) by (subst client_drain.simps) (simp add: METADATA_SIZE_def TAG_SIZE_def)
next
  case (Cons x ds)
  obtain em d where x: "x = (em, d)" by fastforce
  show ?case
  proof (cases "d = []")
    case True
    then show ?thesis using Cons x by simp
  next
    case False
    let ?w = "snd (encrypt_segment P em pt d False w)"
    let ?r = "r\<lparr>ms_nonce := ms_nonce ?w\<rparr>"
    let ?rest = "bodies P pt ?w ds @ rest"
    obtain md where md: "decrypt_segment P (segment_body P em pt d w @ ?rest) False r = Some (md, d, ?r)"
        "unat (md_payload_len md) = length d"
      using decrypt_segment_body [OF assms(1) False, of r w em pt ?rest] Cons(2-4) x by auto
    have key: "ms_key ?w = ms_key w" by (simp add: encrypt_segment_def)
    then obtain r' where r': "client_drain P ?r ?rest = (filter (\<lambda>d. d \<noteq> []) (map snd ds), r', rest)"
        "ms_key r' = ms_key ?w" "ms_nonce r' = ms_nonce (snd (write_pump P pt ?w ds))"
      using Cons(1) [of ?r ?w] Cons(2-4) by auto
    have len: "length (segment_body P em pt d w) = 64 + length d"
      using assms(1) False by (simp add: segment_body_parts length_segment_meta mieru_lawsE(2))
    have "client_drain P r (segment_body P em pt d w @ ?rest) = (d # filter (\<lambda>d. d \<noteq> []) (map snd ds), r', rest)"
      using False len md r'(1)
      by (subst client_drain.simps) (simp add: METADATA_SIZE_def TAG_SIZE_def Let_def)
    then show ?thesis using x False r'(2,3) key by (simp add: case_prod_beta)
  qed
qed

text \<open>The sealed segments round trip. With the length prefixes taken out, what the
  writing task makes of any messages of less than 64 KiB is taken apart by the reading task
  of the client into exactly these messages, in order, and the two ends
  stay in step.\<close>

theorem mieru_segments_roundtrip:
  assumes "mieru_laws P" "\<forall>(em, d) \<in> set ds. length d < 65536"
    and "ms_key r = ms_key w" "ms_nonce r = ms_nonce w"
  shows "\<exists>r'. client_drain P r (concat (map (drop 8) (fst (write_pump P pt w ds)))) =
      (filter (\<lambda>d. d \<noteq> []) (map snd ds), r', [])
    \<and> ms_key r' = ms_key w \<and> ms_nonce r' = ms_nonce (snd (write_pump P pt w ds))"
  using client_drain_bodies [OF assms(1,2) _ assms(3,4), of "[]" pt] by (simp add: bodies_write_pump)

theorem mieru_segments_roundtrip_witness:
  "\<exists>r'. client_drain xor_prims \<lparr>ms_key = [], ms_nonce = replicate 24 7, ms_seq = 0\<rparr>
        (concat (map (drop 8) (fst (write_pump xor_prims 1 \<lparr>ms_key = [], ms_nonce = replicate 24 7, ms_seq = 4\<rparr>
          [(5, [1, 2]), (5, []), (6, [3])])))) =
      (filter (\<lambda>d. d \<noteq> []) (map snd [(5 :: u64, [1, 2]), (5, []), (6, [3])]), r', [])
    \<and> ms_key r' = ms_key \<lparr>ms_key = [], ms_nonce = replicate 24 7, ms_seq = 4\<rparr>
    \<and> ms_nonce r' = ms_nonce (snd (write_pump xor_prims 1 \<lparr>ms_key = [], ms_nonce = replicate 24 7, ms_seq = 4\<rparr>
          [(5, [1, 2]), (5, []), (6, [3])]))"
  by (rule mieru_segments_roundtrip [OF xor_prims_laws]) simp_all

section \<open>Segments that arrive in pieces\<close>

text \<open>The reading task of the server panics when the metadata of a segment has arrived and
  opens, but the segment is not complete: it drains more bytes than it has, and
  the relay gets neither the segment nor an end of the stream.\<close>

lemma server_drain_crashes:
  assumes "length buf \<ge> 48"
    and "mieru_open P (ms_key st) (ms_nonce st) (take 48 buf) = Some meta"
    and "length buf < 64 + unat (md_payload_len (parse_metadata meta))"
  shows "server_read_pump P st [] (buf # later) = []"
  using assms by (subst server_read_pump.simps, subst server_drain.simps)
    (auto simp: METADATA_SIZE_def TAG_SIZE_def Let_def)

text \<open>The same read makes the client forget the segment: it takes what has arrived off its buffer
  and delivers nothing.\<close>

lemma client_drain_forgets:
  assumes "length buf \<ge> 48"
    and "mieru_open P (ms_key st) (ms_nonce st) (take 48 buf) = Some meta"
    and "length buf < 64 + unat (md_payload_len (parse_metadata meta))"
  shows "\<exists>st'. client_drain P st buf = ([], st', [])"
  using assms by (subst client_drain.simps)
    (simp add: decrypt_segment_def METADATA_SIZE_def TAG_SIZE_def Let_def slice_def client_drain.simps)

section \<open>The stream handed to the relay\<close>

text \<open>Both sides have their own copy of \<open>ChannelDuplex\<close>; it reads as the one of the
  other protocols does.\<close>

definition mieru_poll_read :: "nat \<Rightarrow> channel_duplex \<Rightarrow> poll \<times> channel_duplex" where
  "mieru_poll_read room d = duplex_poll_read room d"

definition mieru_poll_write :: "bytes \<Rightarrow> channel_duplex \<Rightarrow> (io_error + nat) \<times> channel_duplex" where
  "mieru_poll_write buf d =
    (if cd_rx_gone d then (Inl (mieru_err ''mieru: writer closed''), d)
     else (Inr (length buf), d\<lparr>cd_tx := cd_tx d @ [buf]\<rparr>))"

end
