(* ===== verification/Ip6Text.thy ===== *)
theory Ip6Text
  imports IpText
begin

text \<open>
  Printed IPv6 addresses parse back: \<open>Display\<close> and \<open>FromStr\<close> of \<open>core::net::Ipv6Addr\<close> as \<open>IpText\<close> models them, for addresses
  without a run of zero groups, with one, and for mapped IPv4 addresses.
\<close>

section \<open>Groups\<close>

lemma show_hex_induct [case_names step]:
  assumes "\<And>n. (16 \<le> n \<Longrightarrow> P (n div 16)) \<Longrightarrow> P n"
  shows "P (n :: nat)"
proof (induction n rule: less_induct)
  case (less n)
  show ?case by (rule assms) (simp add: less)
qed

lemma show_hex_digits: "\<forall>c \<in> set (show_hex n). digit_val 16 c \<noteq> None"
proof (induction n rule: show_hex_induct)
  case (step n)
  then show ?case
    using digit_val_hex_digit [of n] digit_val_hex_digit [of "n mod 16"] by (subst show_hex.simps) auto
qed

lemma show_hex_value: "foldl (\<lambda>a c. a * 16 + the (digit_val 16 c)) 0 (show_hex n) = n"
proof (induction n rule: show_hex_induct)
  case (step n)
  then show ?case
    using digit_val_hex_digit [of n] digit_val_hex_digit [of "n mod 16"] by (subst show_hex.simps) auto
qed

lemma show_hex_nonempty: "show_hex n \<noteq> []"
  by (subst show_hex.simps) simp

lemma show_hex_length: "n < 16 ^ Suc k \<Longrightarrow> length (show_hex n) \<le> Suc k"
proof (induction k arbitrary: n)
  case 0
  then show ?case by (subst show_hex.simps) simp
next
  case (Suc k)
  have "n div 16 < 16 ^ Suc k" using Suc.prems by (simp add: less_mult_imp_div_less)
  then show ?case using Suc.IH [of "n div 16"] by (subst show_hex.simps) simp
qed

lemma read_group_show:
  assumes "n < 65536" "r = [] \<or> digit_val 16 (hd r) = None"
  shows "read_group (show_hex n @ r) = Some (n, r)"
proof -
  have tw: "takeWhile (\<lambda>c. digit_val 16 c \<noteq> None) (show_hex n @ r) = show_hex n"
    using show_hex_digits [of n] assms(2) by (subst takeWhile_append2) (auto simp: takeWhile_eq_Nil_iff)
  show ?thesis
    unfolding read_group_def read_number_def Let_def tw
    using show_hex_nonempty [of n] show_hex_length [of n 3] assms(1) show_hex_value [of n] by auto
qed

lemma colon_no_hex [simp]: "digit_val 16 CHR '':'' = None" "digit_val 10 CHR '':'' = None"
  by code_simp+

lemma read_group_colon [simp]: "read_group [] = None" "read_group (CHR '':'' # r) = None"
  by (simp_all add: read_group_def read_number_def)

section \<open>What is not an IPv4 address\<close>

lemma read_octet_suffix: "read_octet s = Some (v, r) \<Longrightarrow> set r \<subseteq> set s"
  by (auto simp: read_octet_def read_number_def Let_def set_drop_subset [THEN subsetD] split: if_splits)

lemma read_ipv4_dot:
  assumes "CHR ''.'' \<notin> set s"
  shows "read_ipv4 s = None"
proof (cases "read_octet s")
  case (Some p)
  then obtain v r where p: "read_octet s = Some (v, r)" by (cases p) auto
  then have "CHR ''.'' \<notin> set r" using read_octet_suffix assms by blast
  then have "read_given_char CHR ''.'' r = None" by (cases r) (auto simp: read_given_char_def)
  then show ?thesis using p by (simp add: read_ipv4_def read_separator_def)
qed (simp add: read_ipv4_def read_separator_def)

lemma read_ipv4_colon [simp]: "read_ipv4 (CHR '':'' # s) = None"
  by (simp add: read_ipv4_def read_separator_def read_octet_def read_number_def)

lemma separated_no_ipv4: "CHR ''.'' \<notin> set s \<Longrightarrow> read_separator CHR '':'' i read_ipv4 s = None"
  by (cases s) (auto simp: read_separator_def read_given_char_def read_ipv4_dot)

lemma hex_no_dot: "CHR ''.'' \<notin> set (show_hex n)" "CHR '']'' \<notin> set (show_hex n)" "CHR ''['' \<notin> set (show_hex n)"
    "CHR ''/'' \<notin> set (show_hex n)"
  using show_hex_digits [of n] by (auto simp: digit_val_def)

lemma groups_chars:
  "CHR ''.'' \<notin> set (show_groups gs)" "CHR '']'' \<notin> set (show_groups gs)" "CHR ''['' \<notin> set (show_groups gs)"
  "CHR ''/'' \<notin> set (show_groups gs)"
  by (induction gs rule: show_groups.induct) (simp_all add: hex_no_dot)

section \<open>Lists of groups\<close>

text \<open>Where a list of groups ends: at the end of the text, or before the two colons.\<close>

definition groups_end :: "string \<Rightarrow> bool" where
  "groups_end r \<longleftrightarrow> r = [] \<or> (\<exists>x. r = CHR '':'' # CHR '':'' # x)"

lemma groups_end_stops:
  "groups_end r \<Longrightarrow> read_separator CHR '':'' i read_group r = None"
  by (auto simp: groups_end_def read_separator_def read_given_char_def)

lemma groups_end_digit: "groups_end r \<Longrightarrow> r = [] \<or> digit_val 16 (hd r) = None"
  by (auto simp: groups_end_def)

lemma read_groups_end:
  assumes "groups_end r" "CHR ''.'' \<notin> set r"
  shows "read_groups left i r = ([], False, r)"
  using assms by (cases left) (simp_all add: separated_no_ipv4 groups_end_stops)

text \<open>What the reader has before the group with index \<open>i\<close>: a colon, except at the beginning.\<close>

definition sep_groups :: "nat \<Rightarrow> nat list \<Rightarrow> string" where
  "sep_groups i gs = (if gs = [] then [] else (if 0 < i then '':'' else []) @ show_groups gs)"

lemma sep_groups_Cons: "sep_groups i (g # gs) = (if 0 < i then '':'' else []) @ show_hex g @ sep_groups (Suc i) gs"
  by (cases gs) (auto simp: sep_groups_def)

lemma sep_groups_dot: "CHR ''.'' \<notin> set (sep_groups i gs)"
  using groups_chars(1) by (auto simp: sep_groups_def)

lemma read_groups_show:
  assumes "\<forall>g \<in> set gs. g < 65536" "length gs \<le> left" "groups_end r" "CHR ''.'' \<notin> set r"
  shows "read_groups left i (sep_groups i gs @ r) = (gs, False, r)"
  using assms(1,2)
proof (induction gs arbitrary: left i)
  case Nil
  then show ?case using read_groups_end [OF assms(3,4)] by (simp add: sep_groups_def)
next
  case (Cons g gs)
  obtain l where l: "left = Suc l" using Cons.prems(2) by (cases left) auto
  let ?t = "sep_groups (Suc i) gs @ r"
  have "CHR ''.'' \<notin> set (sep_groups i (g # gs) @ r)" using sep_groups_dot assms(4) by simp
  then have no4: "read_separator CHR '':'' i read_ipv4 (sep_groups i (g # gs) @ r) = None" by (rule separated_no_ipv4)
  have "?t = [] \<or> digit_val 16 (hd ?t) = None" using groups_end_digit [OF assms(3)] by (simp add: sep_groups_def)
  then have "read_group (show_hex g @ ?t) = Some (g, ?t)" using Cons.prems(1) by (intro read_group_show) simp_all
  then have "read_separator CHR '':'' i read_group (sep_groups i (g # gs) @ r) = Some (g, ?t)"
    by (cases "i = 0") (simp_all add: sep_groups_Cons read_separator_def read_given_char_def)
  moreover have "read_groups l (Suc i) ?t = (gs, False, r)" using Cons l by simp
  ultimately show ?case unfolding l read_groups.simps no4 by simp
qed

section \<open>The longest run of zeros\<close>

definition is_run :: "nat list \<Rightarrow> nat \<times> nat \<Rightarrow> bool" where
  "is_run segs r \<longleftrightarrow> fst r + snd r \<le> length segs \<and> (\<forall>i. fst r \<le> i \<and> i < fst r + snd r \<longrightarrow> segs ! i = 0)"

definition run_step :: "(nat \<times> nat) \<times> (nat \<times> nat) \<Rightarrow> nat \<times> nat \<Rightarrow> (nat \<times> nat) \<times> (nat \<times> nat)" where
  "run_step = (\<lambda>(longest, current) (i, g).
      if g = 0 then
        (let cur = (if snd current = 0 then (i, 1) else (fst current, snd current + 1))
         in (if snd cur > snd longest then cur else longest, cur))
      else (longest, (0, 0)))"

lemma is_run_snoc: "is_run segs r \<Longrightarrow> is_run (segs @ [g]) r"
  by (auto simp: is_run_def nth_append)

lemma runs_found:
  defines "f segs \<equiv> foldl run_step ((0, 0), (0, 0)) (zip [0..<length segs] segs)"
  shows "is_run segs (fst (f segs)) \<and> is_run segs (snd (f segs))
    \<and> (snd (snd (f segs)) = 0 \<or> fst (snd (f segs)) + snd (snd (f segs)) = length segs)"
proof (induction segs rule: rev_induct)
  case (snoc g segs)
  obtain l c where lc: "f segs = (l, c)" by (cases "f segs")
  have n: "f (segs @ [g]) = run_step (l, c) (length segs, g)" using lc by (simp add: f_def)
  have l: "is_run (segs @ [g]) l" using snoc lc is_run_snoc by simp
  show ?case
  proof (cases "g = 0")
    case True
    let ?c = "if snd c = 0 then (length segs, 1) else (fst c, snd c + 1)"
    have "is_run (segs @ [g]) ?c" using snoc lc True by (auto simp: is_run_def nth_append less_Suc_eq)
    then show ?thesis using n l snoc lc True by (auto simp: run_step_def Let_def)
  next
    case False
    then show ?thesis using n l by (simp add: run_step_def is_run_def)
  qed
qed (simp add: f_def is_run_def)

lemma zero_run_is_run: "is_run segs (zero_run segs)"
  using runs_found [of segs] unfolding zero_run_def run_step_def by simp

lemma zero_run_split:
  assumes "zero_run segs = (s, l)"
  shows "segs = take s segs @ replicate l 0 @ drop (s + l) segs" "s + l \<le> length segs"
proof -
  have r: "s + l \<le> length segs" "\<forall>i. s \<le> i \<and> i < s + l \<longrightarrow> segs ! i = 0"
    using zero_run_is_run [of segs] assms by (simp_all add: is_run_def)
  have "take l (drop s segs) = replicate l 0" using r by (intro nth_equalityI) auto
  then show "segs = take s segs @ replicate l 0 @ drop (s + l) segs"
    by (metis add.commute append_take_drop_id drop_drop)
  show "s + l \<le> length segs" by (rule r(1))
qed

section \<open>The round trip\<close>

lemma segments_bound: "\<forall>g \<in> set (ipv6_segments a). g < 65536" "length (ipv6_segments a) = 8"
  by (auto simp: ipv6_segments_def)

lemma groups_ipv6_segments: "groups_ipv6 (ipv6_segments a) = a"
proof -
  define n where "n = unat a"
  have n: "n < 65536 ^ 8" using unsigned_less [of a] by (simp add: n_def)
  have step: "n div 65536 ^ Suc k * 65536 + n div 65536 ^ k mod 65536 = n div 65536 ^ k" for k
    by (metis div_mult2_eq div_mult_mod_eq power_Suc2)
  have top: "n div 65536 ^ 8 = 0" using n by simp
  have "foldl (\<lambda>a g. a * 65536 + g) (n div 65536 ^ k) (map (\<lambda>i. n div 65536 ^ (7 - i) mod 65536) [8 - k..<8]) = n" if "k \<le> 8" for k
    using that
  proof (induction k)
    case (Suc k)
    have "8 - k = Suc (7 - k)" using Suc.prems by simp
    then have u: "[8 - Suc k..<8] = (7 - k) # [8 - k..<8]" using Suc.prems by (simp add: upt_conv_Cons)
    have "7 - (7 - k) = k" using Suc.prems by simp
    then show ?case using Suc u step [of k] by simp
  qed simp
  from this [of 8] top have "foldl (\<lambda>a g. a * 65536 + g) 0 (ipv6_segments a) = n"
    by (simp add: ipv6_segments_def n_def)
  then show ?thesis by (simp add: groups_ipv6_def n_def)
qed

lemma read_ipv6_groups:
  assumes "\<forall>g \<in> set gs. g < 65536" "length gs = 8"
  shows "read_ipv6 (show_groups gs) = Some (groups_ipv6 gs, [])"
proof -
  have "read_groups 8 0 (sep_groups 0 gs @ []) = (gs, False, [])"
    by (rule read_groups_show) (use assms in \<open>auto simp: groups_end_def\<close>)
  moreover have "sep_groups 0 gs = show_groups gs" using assms(2) by (auto simp: sep_groups_def)
  ultimately show ?thesis using assms(2) by (simp add: read_ipv6_def)
qed

lemma read_ipv6_compressed:
  assumes "\<forall>g \<in> set (hs @ ts). g < 65536" "length hs + length ts < 8"
  shows "read_ipv6 (show_groups hs @ ''::'' @ show_groups ts) =
    Some (groups_ipv6 (hs @ replicate (8 - length hs - length ts) 0 @ ts), [])"
proof -
  have s: "sep_groups 0 gs = show_groups gs" for gs by (simp add: sep_groups_def)
  have h: "read_groups 8 0 (sep_groups 0 hs @ ''::'' @ show_groups ts) = (hs, False, ''::'' @ show_groups ts)"
    by (rule read_groups_show) (use assms groups_chars in \<open>auto simp: groups_end_def\<close>)
  have t: "read_groups (8 - (length hs + 1)) 0 (sep_groups 0 ts @ []) = (ts, False, [])"
    by (rule read_groups_show) (use assms in \<open>auto simp: groups_end_def\<close>)
  show ?thesis
    using h t assms(2) unfolding s by (simp add: read_ipv6_def read_given_char_def)
qed

lemma read_ipv6_mapped:
  assumes "unat a div 2 ^ 32 = 0xFFFF"
  shows "read_ipv6 (''::ffff:'' @ show_ipv4 (ucast a)) = Some (a, [])"
proof -
  let ?v = "ucast a :: u32"
  define lo where "lo = unat ?v"
  have a: "unat a = 0xFFFF * 2 ^ 32 + lo"
  proof -
    have "lo = unat a mod 2 ^ 32" by (simp add: lo_def unsigned_ucast_eq take_bit_eq_mod)
    then show ?thesis using div_mult_mod_eq [of "unat a" "2 ^ 32"] unfolding assms by presburger
  qed
  have e: "read_groups 8 0 (''::ffff:'' @ show_ipv4 ?v) = ([], False, ''::ffff:'' @ show_ipv4 ?v)"
    by (simp add: numeral_eq_Suc read_separator_def)
  have f: "show_hex 0xFFFF = ''ffff''" by code_simp
  have 4: "read_ipv4 (''ffff:'' @ show_ipv4 ?v) = None"
    by (simp add: read_ipv4_def read_separator_def read_octet_def read_number_def digit_val_def)
  have g: "read_group (''ffff:'' @ show_ipv4 ?v) = Some (0xFFFF, '':'' @ show_ipv4 ?v)"
    using read_group_show [of "0xFFFF" "'':'' @ show_ipv4 ?v"] by (simp add: f)
  have 5: "read_groups (Suc 5) (Suc 0) ('':'' @ show_ipv4 ?v) = ([lo div 65536, lo mod 65536], True, [])"
    using read_ipv4_show [of ?v] unfolding read_groups.simps by (simp add: read_separator_def read_given_char_def lo_def)
  have "read_groups (Suc 6) 0 (''ffff:'' @ show_ipv4 ?v) = ([0xFFFF, lo div 65536, lo mod 65536], True, [])"
    unfolding read_groups.simps(2) [of 6] using 4 g 5 by (simp add: read_separator_def)
  then have t: "read_groups 7 0 (''ffff:'' @ show_ipv4 ?v) = ([0xFFFF, lo div 65536, lo mod 65536], True, [])" by simp
  have z: "replicate 5 (0 :: nat) = [0, 0, 0, 0, 0]" by (simp add: numeral_eq_Suc)
  have "groups_ipv6 ([] @ replicate 5 0 @ [0xFFFF, lo div 65536, lo mod 65536]) = word_of_nat (unat a)"
    unfolding groups_ipv6_def a z by simp
  then show ?thesis using e t by (simp add: read_ipv6_def read_given_char_def)
qed

lemma read_ipv6_show: "read_ipv6 (show_ipv6 a) = Some (a, [])"
proof (cases "unat a div 2 ^ 32 = 0xFFFF")
  case False
  obtain s l where z: "zero_run (ipv6_segments a) = (s, l)" by (cases "zero_run (ipv6_segments a)")
  show ?thesis
  proof (cases "l > 1")
    case True
    note sp = zero_run_split [OF z] and b = segments_bound [of a]
    let ?hs = "take s (ipv6_segments a)" and ?ts = "drop (s + l) (ipv6_segments a)"
    have "\<forall>g \<in> set (?hs @ ?ts). g < 65536" using b(1) by (auto dest: in_set_takeD in_set_dropD)
    then have "read_ipv6 (show_groups ?hs @ ''::'' @ show_groups ?ts) =
        Some (groups_ipv6 (?hs @ replicate (8 - length ?hs - length ?ts) 0 @ ?ts), [])"
      by (rule read_ipv6_compressed) (use sp(2) b(2) True in simp)
    moreover have "8 - length ?hs - length ?ts = l" using sp(2) b(2) by simp
    ultimately show ?thesis using sp(1) groups_ipv6_segments [of a] z True False by (simp add: show_ipv6_def Let_def)
  next
    case False
    then show ?thesis
      using read_ipv6_groups [OF segments_bound] groups_ipv6_segments [of a] z \<open>unat a div 2 ^ 32 \<noteq> 0xFFFF\<close>
      by (simp add: show_ipv6_def Let_def)
  qed
qed (use read_ipv6_mapped in \<open>simp add: show_ipv6_def del: append_Cons append_Nil\<close>)

lemma show_ipv6_not_ipv4: "read_ipv4 (show_ipv6 a) = None"
proof (cases "unat a div 2 ^ 32 = 0xFFFF")
  case False
  then have "CHR ''.'' \<notin> set (show_ipv6 a)" using groups_chars(1) by (simp add: show_ipv6_def Let_def split: prod.split)
  then show ?thesis by (rule read_ipv4_dot)
qed (simp add: show_ipv6_def)

lemma parse_ip_show_ipv6: "parse_ip (show_ipv6 a) = Some (IpV6 a)"
  by (simp add: parse_ip_def show_ipv6_not_ipv4 read_ipv6_show)

lemma show_ipv6_chars: "set (show_ipv6 a) \<inter> {CHR ''['', CHR '']'', CHR ''/''} = {}"
proof -
  have "set (show_ipv4 b) \<inter> {CHR ''['', CHR '']'', CHR ''/''} = {}" for b
    using show_ipv4_plain [of b] by (auto simp: list_all_iff plain_def digit_val_def)
  then show ?thesis using groups_chars(2-4) by (auto simp: show_ipv6_def Let_def split: prod.split)
qed

end
