(* ===== verification/Geo.thy ===== *)
theory Geo
  imports Matching Ip6Text
begin

text \<open>
  \<open>crates/omni-core/src/matching/geo.rs\<close>: the registry of the geo lists and the
  reader of the protocol buffer files they are loaded from. The files are data
  of the environment; regular expressions are a parameter. \<open>usize\<close> has 64 bits
  and wraps, and slicing with a start behind the end is a panic.
\<close>

section \<open>The protocol buffer reader\<close>

fun rs_ok :: "('a \<Rightarrow> 'b) \<Rightarrow> ('e + 'a) rs \<Rightarrow> ('e + 'b) rs" where
  "rs_ok f (Ret (Inr x)) = Ret (Inr (f x))"
| "rs_ok f (Ret (Inl e)) = Ret (Inl e)"
| "rs_ok f Panic = Panic"

lemma rs_ok_Inr_iff: "rs_ok f m = Ret (Inr y) \<longleftrightarrow> (\<exists>x. m = Ret (Inr x) \<and> y = f x)"
  by (cases "(f, m)" rule: rs_ok.cases) auto

function varint_loop :: "bytes \<Rightarrow> nat \<Rightarrow> nat \<Rightarrow> u64 \<Rightarrow> string + u64 \<times> nat" where
  "varint_loop buf pos shift result =
    (if pos < length buf then
       (let b = buf ! pos; result' = result OR push_bit shift (ucast (b AND 0x7F))
        in if b AND 0x80 = 0 then Inr (result', pos + 1)
           else if shift + 7 > 63 then Inl ''pb: varint overflow''
           else varint_loop buf (pos + 1) (shift + 7) result')
     else Inl ''pb: eof'')"
  by auto
termination
  by (relation "measure (\<lambda>(buf, pos, _). length buf - pos)") auto

declare varint_loop.simps [simp del]

definition pb_varint :: "bytes \<Rightarrow> nat \<Rightarrow> string + u64 \<times> nat" where
  "pb_varint buf pos = varint_loop buf pos 0 0"

definition pb_key :: "bytes \<Rightarrow> nat \<Rightarrow> string + (nat \<times> nat) \<times> nat" where
  "pb_key buf pos =
    (case pb_varint buf pos of
       Inl e \<Rightarrow> Inl e
     | Inr (key, pos') \<Rightarrow> Inr ((unat key div 8 mod 2 ^ 32, unat key mod 8), pos'))"

definition pb_bytes :: "bytes \<Rightarrow> nat \<Rightarrow> (string + bytes \<times> nat) rs" where
  "pb_bytes buf pos =
    (case pb_varint buf pos of
       Inl e \<Rightarrow> Ret (Inl e)
     | Inr (len, pos') \<Rightarrow>
         let e = (pos' + unat len) mod 2 ^ 64 in
         if e > length buf then Ret (Inl ''pb: truncated'')
         else rs_bind (slice_rs buf pos' e) (\<lambda>out. Ret (Inr (out, e))))"

definition pb_fixed :: "nat \<Rightarrow> bytes \<Rightarrow> nat \<Rightarrow> string + nat" where
  "pb_fixed n buf pos = (if pos + n > length buf then Inl ''pb: truncated'' else Inr (pos + n))"

definition skip_field :: "nat \<Rightarrow> bytes \<Rightarrow> nat \<Rightarrow> (string + nat) rs" where
  "skip_field wire buf pos =
    (if wire = 0 then rs_ok snd (Ret (pb_varint buf pos))
     else if wire = 2 then rs_ok snd (pb_bytes buf pos)
     else if wire = 5 then Ret (pb_fixed 4 buf pos)
     else if wire = 1 then Ret (pb_fixed 8 buf pos)
     else Ret (Inl ''pb: bad wire type''))"

text \<open>One round of the loops over the fields of a message: a field that the message
  uses is read, with wire type 2 as bytes and 0 as an integer; any other is
  skipped.\<close>

datatype pb_field = FBytes nat bytes | FVarint nat u64 | FSkip

definition read_wanted :: "nat \<Rightarrow> nat \<Rightarrow> bytes \<Rightarrow> nat \<Rightarrow> (string + pb_field \<times> nat) rs" where
  "read_wanted tag wire buf pos =
    (if wire = 2 then rs_ok (apfst (FBytes tag)) (pb_bytes buf pos)
     else rs_ok (apfst (FVarint tag)) (Ret (pb_varint buf pos)))"

definition read_field :: "(nat \<Rightarrow> nat \<Rightarrow> bool) \<Rightarrow> bytes \<Rightarrow> nat \<Rightarrow> (string + pb_field \<times> nat) rs" where
  "read_field wanted buf pos =
    (case pb_key buf pos of
       Inl e \<Rightarrow> Ret (Inl e)
     | Inr ((tag, wire), pos') \<Rightarrow>
         if wanted tag wire then read_wanted tag wire buf pos'
         else rs_ok (Pair FSkip) (skip_field wire buf pos'))"

lemma varint_loop_pos: "varint_loop buf pos sh r = Inr (v, p) \<Longrightarrow> pos < p \<and> p \<le> length buf"
proof (induction buf pos sh r rule: varint_loop.induct)
  case (1 buf pos sh r)
  from 1(2) show ?case
    by (subst (asm) varint_loop.simps) (auto simp: Let_def split: if_splits dest!: 1(1) [OF _ refl refl])
qed

lemma pb_varint_pos: "pb_varint buf pos = Inr (v, p) \<Longrightarrow> pos < p \<and> p \<le> length buf"
  by (simp add: pb_varint_def varint_loop_pos)

lemma pb_bytes_pos: "pb_bytes buf pos = Ret (Inr (b, p)) \<Longrightarrow> pos < p \<and> p \<le> length buf"
  by (auto simp: pb_bytes_def Let_def rs_bind_Ret_iff slice_rs_def split: sum.splits if_splits dest!: pb_varint_pos)

lemma skip_field_pos: "skip_field w buf pos = Ret (Inr p) \<Longrightarrow> pos < p \<and> p \<le> length buf"
  by (auto simp: skip_field_def pb_fixed_def rs_ok_Inr_iff split: if_splits dest!: pb_varint_pos pb_bytes_pos)

lemma read_field_pos:
  assumes "read_field wanted buf pos = Ret (Inr (f, p))"
  shows "pos < p \<and> p \<le> length buf"
proof -
  obtain tag wire pos' where k: "pb_key buf pos = Inr ((tag, wire), pos')"
    using assms by (auto simp: read_field_def split: sum.splits)
  then have "pos < pos'" by (auto simp: pb_key_def split: sum.splits dest: pb_varint_pos)
  moreover have "pos' < p \<and> p \<le> length buf"
    using assms k by (auto simp: read_field_def read_wanted_def rs_ok_Inr_iff split: if_splits
        dest!: pb_varint_pos pb_bytes_pos skip_field_pos)
  ultimately show ?thesis by simp
qed

function pb_loop ::
    "(nat \<Rightarrow> nat \<Rightarrow> bool) \<Rightarrow> ('s \<Rightarrow> pb_field \<Rightarrow> 's rs) \<Rightarrow> bytes \<Rightarrow> nat \<Rightarrow> 's \<Rightarrow> (string + 's) rs" where
  "pb_loop wanted upd buf pos s =
    (if pos < length buf then
       (case read_field wanted buf pos of
          Panic \<Rightarrow> Panic
        | Ret (Inl e) \<Rightarrow> Ret (Inl e)
        | Ret (Inr (f, pos')) \<Rightarrow>
            (case upd s f of
               Panic \<Rightarrow> Panic
             | Ret s' \<Rightarrow> pb_loop wanted upd buf pos' s'))
     else Ret (Inr s))"
  by auto
termination
  by (relation "measure (\<lambda>(_, _, buf, pos, _). length buf - pos)") (auto dest!: read_field_pos)

declare pb_loop.simps [simp del]

definition pb_message ::
    "(nat \<Rightarrow> nat \<Rightarrow> bool) \<Rightarrow> ('s \<Rightarrow> pb_field \<Rightarrow> 's rs) \<Rightarrow> 's \<Rightarrow> bytes \<Rightarrow> (string + 's) rs" where
  "pb_message wanted upd s buf = pb_loop wanted upd buf 0 s"

section \<open>The messages of a geo file\<close>

text \<open>An inner message that cannot be read counts as absent (\<open>.ok()?\<close>).\<close>

definition cidr_text :: "bytes \<Rightarrow> nat \<Rightarrow> string option" where
  "cidr_text ip pfx =
    (if length ip = 4 then Some (show_ipv4 (be_u32 ip) @ ''/'' @ show_nat pfx)
     else if length ip = 16 then Some (show_ipv6 (be_u128 ip) @ ''/'' @ show_nat pfx)
     else None)"

fun cidr_upd :: "bytes \<times> nat \<Rightarrow> pb_field \<Rightarrow> (bytes \<times> nat) rs" where
  "cidr_upd (ip, pfx) (FBytes t b) = Ret (b, pfx)"
| "cidr_upd (ip, pfx) (FVarint t v) = Ret (ip, unat v mod 2 ^ 32)"
| "cidr_upd s FSkip = Ret s"

definition parse_pb_cidr :: "bytes \<Rightarrow> string option rs" where
  "parse_pb_cidr buf =
    rs_bind (pb_message (\<lambda>t w. (t, w) = (1, 2) \<or> (t, w) = (2, 0)) cidr_upd ([], 0) buf) (\<lambda>r.
      Ret (case r of Inl e \<Rightarrow> None | Inr (ip, pfx) \<Rightarrow> cidr_text ip pfx))"

definition site_pattern :: "(string \<Rightarrow> string + 're) \<Rightarrow> u64 \<Rightarrow> string \<Rightarrow> 're domain_pattern option" where
  "site_pattern regex_new dtype v =
    (if v = [] then None
     else if dtype = 0 then Some (Keyword (to_ascii_lowercase v))
     else if dtype = 1 then (case regex_new v of Inl e \<Rightarrow> None | Inr re \<Rightarrow> Some (Regex re))
     else if dtype = 2 then Some (Suffix (to_ascii_lowercase v))
     else if dtype = 3 then Some (Full (to_ascii_lowercase v))
     else None)"

fun site_upd :: "u64 \<times> string \<Rightarrow> pb_field \<Rightarrow> (u64 \<times> string) rs" where
  "site_upd (d, v) (FVarint t x) = Ret (x, v)"
| "site_upd (d, v) (FBytes t b) = Ret (d, from_utf8_lossy b)"
| "site_upd s FSkip = Ret s"

definition parse_geosite_domain :: "(string \<Rightarrow> string + 're) \<Rightarrow> bytes \<Rightarrow> 're domain_pattern option rs" where
  "parse_geosite_domain regex_new buf =
    rs_bind (pb_message (\<lambda>t w. (t, w) = (1, 0) \<or> (t, w) = (2, 2)) site_upd (0, []) buf) (\<lambda>r.
      Ret (case r of Inl e \<Rightarrow> None | Inr (d, v) \<Rightarrow> site_pattern regex_new d v))"

record 're geo_entry =
  ge_code :: string
  ge_pats :: "'re domain_pattern list"
  ge_cidrs :: "string list"

fun entry_upd :: "(string \<Rightarrow> string + 're) \<Rightarrow> 're geo_entry \<Rightarrow> pb_field \<Rightarrow> 're geo_entry rs" where
  "entry_upd regex_new s (FBytes t b) =
    (if t = 1 then Ret (s\<lparr>ge_code := from_utf8_lossy b\<rparr>)
     else if t = 2 then
       rs_bind (parse_pb_cidr b) (\<lambda>r.
         Ret (case r of None \<Rightarrow> s | Some c \<Rightarrow> s\<lparr>ge_cidrs := ge_cidrs s @ [c]\<rparr>))
     else rs_bind (parse_geosite_domain regex_new b) (\<lambda>r.
         Ret (case r of None \<Rightarrow> s | Some p \<Rightarrow> s\<lparr>ge_pats := ge_pats s @ [p]\<rparr>)))"
| "entry_upd regex_new s (FVarint t v) = Ret s"
| "entry_upd regex_new s FSkip = Ret s"

definition entry_init :: "'re geo_entry" where
  "entry_init = \<lparr>ge_code = [], ge_pats = [], ge_cidrs = []\<rparr>"

definition parse_geo_entry :: "(string \<Rightarrow> string + 're) \<Rightarrow> bytes \<Rightarrow> 're geo_entry option rs" where
  "parse_geo_entry regex_new entry =
    rs_bind (pb_message (\<lambda>t w. w = 2 \<and> t \<in> {1, 2, 3}) (entry_upd regex_new) entry_init entry) (\<lambda>r.
      Ret (case r of
          Inl e \<Rightarrow> None
        | Inr s \<Rightarrow> if ge_code s = [] then None else Some s))"

type_synonym 're geo_lists = "(string \<times> 're domain_pattern list) list \<times> (string \<times> string list) list"

text \<open>An entry with a domain pattern is a site, any other a country.\<close>

fun dat_upd :: "(string \<Rightarrow> string + 're) \<Rightarrow> 're geo_lists \<Rightarrow> pb_field \<Rightarrow> 're geo_lists rs" where
  "dat_upd regex_new (sites, countries) (FBytes t b) =
    rs_bind (parse_geo_entry regex_new b) (\<lambda>r.
      Ret (case r of
          None \<Rightarrow> (sites, countries)
        | Some e \<Rightarrow>
            if ge_pats e \<noteq> [] then (sites @ [(ge_code e, ge_pats e)], countries)
            else (sites, countries @ [(ge_code e, ge_cidrs e)])))"
| "dat_upd regex_new s (FVarint t v) = Ret s"
| "dat_upd regex_new s FSkip = Ret s"

definition parse_v2ray_dat :: "(string \<Rightarrow> string + 're) \<Rightarrow> bytes \<Rightarrow> (string + 're geo_lists) rs" where
  "parse_v2ray_dat regex_new data =
    pb_message (\<lambda>t w. t = 1 \<and> w = 2) (dat_upd regex_new) ([], []) data"

section \<open>The registry\<close>

record 're geo_registry =
  gr_domains :: "string \<rightharpoonup> 're domain_matcher"
  gr_ips :: "string \<rightharpoonup> ip_matcher"

definition registry_new :: "'re geo_registry" where
  "registry_new = \<lparr>gr_domains = Map.empty, gr_ips = Map.empty\<rparr>"

definition install_domains :: "string \<Rightarrow> 're domain_pattern list \<Rightarrow> 're geo_registry \<Rightarrow> 're geo_registry" where
  "install_domains site patterns g =
    g\<lparr>gr_domains := (gr_domains g)(to_ascii_lowercase site \<mapsto> foldl domain_insert domain_new patterns)\<rparr>"

definition install_cidrs :: "string \<Rightarrow> string list \<Rightarrow> 're geo_registry \<Rightarrow> string + 're geo_registry" where
  "install_cidrs country cidrs g =
    (case from_cidrs cidrs of
       Inl e \<Rightarrow> Inl e
     | Inr m \<Rightarrow> Inr (g\<lparr>gr_ips := (gr_ips g)(to_ascii_lowercase country \<mapsto> m)\<rparr>))"

fun install_countries :: "(string \<times> string list) list \<Rightarrow> 're geo_registry \<Rightarrow> (string + unit) \<times> 're geo_registry" where
  "install_countries [] g = (Inr (), g)"
| "install_countries ((code, cidrs) # cs) g =
    (case install_cidrs code cidrs g of
       Inl e \<Rightarrow> (Inl e, g)
     | Inr g' \<Rightarrow> install_countries cs g')"

text \<open>\<open>load_dat\<close> on the contents of the file.\<close>

definition load_dat ::
    "(string \<Rightarrow> string + 're) \<Rightarrow> bytes \<Rightarrow> 're geo_registry \<Rightarrow> ((string + nat \<times> nat) \<times> 're geo_registry) rs" where
  "load_dat regex_new data g =
    rs_bind (parse_v2ray_dat regex_new data) (\<lambda>r.
      Ret (case r of
          Inl e \<Rightarrow> (Inl e, g)
        | Inr (sites, countries) \<Rightarrow>
            let g1 = foldl (\<lambda>g (code, pats). install_domains code pats g) g sites in
            (case install_countries countries g1 of
               (Inl e, g2) \<Rightarrow> (Inl e, g2)
             | (Inr _, g2) \<Rightarrow> (Inr (length sites, length countries), g2))))"

text \<open>\<open>load_list_file\<close> on the text of the file: \<open>str::lines\<close>, then one entry for each
  line that is neither empty nor a comment.\<close>

definition strip_cr :: "string \<Rightarrow> string" where
  "strip_cr l = (if l \<noteq> [] \<and> last l = CHR 0x0D then butlast l else l)"

definition str_lines :: "string \<Rightarrow> string list" where
  "str_lines s =
    (let ls = split_char CHR 0x0A s
     in map strip_cr (butlast ls) @ (if last ls = [] then [] else [last ls]))"

definition list_lines :: "string \<Rightarrow> string list" where
  "list_lines text = filter (\<lambda>l. l \<noteq> [] \<and> \<not> prefix ''#'' l) (map trim (str_lines text))"

definition list_pattern :: "(string \<Rightarrow> string + 're) \<Rightarrow> string \<Rightarrow> string + 're domain_pattern" where
  "list_pattern regex_new line =
    (case (case split_once CHR '' '' line of Some (a, b) \<Rightarrow> (trim a, trim b) | None \<Rightarrow> (''full'', line)) of
       (t, v) \<Rightarrow>
         if t = ''domain'' \<or> t = ''suffix'' then Inr (Suffix v)
         else if t = ''keyword'' then Inr (Keyword v)
         else if t = ''regex'' then
           (case regex_new v of Inl e \<Rightarrow> Inl (''regex.compile: '' @ e) | Inr re \<Rightarrow> Inr (Regex re))
         else Inr (Full v))"

fun list_patterns :: "(string \<Rightarrow> string + 're) \<Rightarrow> string list \<Rightarrow> string + 're domain_pattern list" where
  "list_patterns regex_new [] = Inr []"
| "list_patterns regex_new (l # ls) =
    (case list_pattern regex_new l of
       Inl e \<Rightarrow> Inl e
     | Inr p \<Rightarrow> (case list_patterns regex_new ls of Inl e \<Rightarrow> Inl e | Inr ps \<Rightarrow> Inr (p # ps)))"

definition load_list_file ::
    "(string \<Rightarrow> string + 're) \<Rightarrow> string \<Rightarrow> string \<Rightarrow> string \<Rightarrow> 're geo_registry \<Rightarrow> string + nat \<times> 're geo_registry" where
  "load_list_file regex_new text kind code g =
    (let ls = list_lines text in
     if kind = ''geosite'' then
       (case list_patterns regex_new ls of
          Inl e \<Rightarrow> Inl e
        | Inr ps \<Rightarrow> Inr (length ls, install_domains code ps g))
     else if kind = ''geoip'' then
       (case install_cidrs code ls g of Inl e \<Rightarrow> Inl e | Inr g' \<Rightarrow> Inr (length ls, g'))
     else Inl (''geo: unknown list kind '' @ [CHR 0x27] @ kind @ [CHR 0x27]))"

definition registry_lookup :: "('re \<Rightarrow> string \<Rightarrow> bool) \<Rightarrow> 're geo_registry \<Rightarrow> geo_lookup" where
  "registry_lookup is_match g =
    \<lparr>geoip_contains = \<lambda>code ip.
       (case gr_ips g (to_ascii_lowercase code) of Some m \<Rightarrow> ip_matches m ip | None \<Rightarrow> False),
     geosite_matches = \<lambda>code domain.
       (case gr_domains g (to_ascii_lowercase code) of Some m \<Rightarrow> domain_matches is_match m domain | None \<Rightarrow> False)\<rparr>"

section \<open>The wire format\<close>

text \<open>Protocol buffers, as a writer produces them: integers in groups of seven bits, least
  significant first, and fields as a key followed by the value.\<close>

fun leb :: "nat \<Rightarrow> bytes" where
  "leb n = (if n < 128 then [word_of_nat n] else word_of_nat (n mod 128 + 128) # leb (n div 128))"

declare leb.simps [simp del]

fun pb_encode :: "pb_field \<Rightarrow> bytes" where
  "pb_encode (FBytes t b) = leb (t * 8 + 2) @ leb (length b) @ b"
| "pb_encode (FVarint t v) = leb (t * 8) @ leb (unat v)"
| "pb_encode FSkip = []"

lemma take_bit_7_small: "x < 128 \<Longrightarrow> take_bit 7 (word_of_nat x :: u64) = word_of_nat x"
proof -
  assume x: "x < 128"
  then have "unat (word_of_nat x :: u64) = x" by (simp add: unat_of_nat)
  then have "unat (take_bit 7 (word_of_nat x :: u64)) = unat (word_of_nat x :: u64)"
    using x by (simp only: unsigned_take_bit_eq) (simp add: take_bit_eq_mod)
  then show ?thesis by (simp only: word_unat_eq_iff)
qed

lemma word_split_7:
  assumes "x < 128"
  shows "(word_of_nat (x + 128 * y) :: u64) = word_of_nat x OR push_bit 7 (word_of_nat y)"
proof -
  have "(word_of_nat (x + 128 * y) :: u64) = word_of_nat x + push_bit 7 (word_of_nat y)"
    by (simp add: push_bit_eq_mult)
  also have "\<dots> = word_of_nat x OR push_bit 7 (word_of_nat y)"
  proof (rule disjunctive_add)
    fix n
    have "bit (word_of_nat x :: u64) n \<Longrightarrow> n < 7"
      by (metis assms bit_take_bit_iff take_bit_7_small)
    then show "\<not> bit (word_of_nat x :: u64) n \<or> \<not> bit (push_bit 7 (word_of_nat y :: u64)) n"
      by (auto simp: bit_push_bit_iff)
  qed
  finally show ?thesis .
qed

lemma unat_and_7F: "unat (b AND 0x7F :: byte) = unat b mod 128"
proof -
  have "b AND 0x7F = take_bit 7 b"
    by (simp add: take_bit_eq_mask mask_eq_exp_minus_1)
  then show ?thesis by (simp only: unsigned_take_bit_eq) (simp add: take_bit_eq_mod)
qed

lemma and_80_eq_0: "(b :: byte) AND 0x80 = 0 \<longleftrightarrow> unat b < 128"
proof -
  have "b AND 2 ^ 7 = 0 \<longleftrightarrow> \<not> bit b 7" by (rule and_exp_eq_0_iff_not_bit)
  moreover have "bit b 7 \<longleftrightarrow> odd (unat b div 128)"
    using bit_iff_odd [of "unat b" 7] by (simp add: bit_unsigned_iff)
  moreover have "unat b div 128 = 0 \<or> unat b div 128 = 1"
    using less_mult_imp_div_less [of "unat b" 2 128] by auto
  ultimately show ?thesis by auto
qed

lemma ucast_and_7F: "(ucast (b AND 0x7F :: byte) :: u64) = word_of_nat (unat b mod 128)"
proof -
  have "unat (ucast (b AND 0x7F) :: u64) = unat b mod 128"
    using less_trans [OF mod_less_divisor [of 128 "unat b"], of "2 ^ 64"]
    by (simp add: unsigned_ucast_eq unat_and_7F take_bit_eq_mod)
  moreover have "unat (word_of_nat (unat b mod 128) :: u64) = unat b mod 128"
    using less_trans [OF mod_less_divisor [of 128 "unat b"], of "2 ^ 64"] by (simp add: unat_of_nat)
  ultimately show ?thesis by (simp only: word_unat_eq_iff)
qed

lemma varint_loop_leb:
  assumes "n < 2 ^ (64 - shift)" "shift < 64"
  shows "varint_loop (pre @ leb n @ rest) (length pre) shift r =
    Inr (r OR push_bit shift (word_of_nat n), length pre + length (leb n))"
  using assms
proof (induction n arbitrary: pre shift r rule: leb.induct)
  case (1 n)
  show ?case
  proof (cases "n < 128")
    case True
    then have l: "leb n = [word_of_nat n]" by (simp add: leb.simps)
    have "(word_of_nat n :: byte) AND 0x80 = 0" "(ucast ((word_of_nat n :: byte) AND 0x7F) :: u64) = word_of_nat n"
      using True by (simp_all add: and_80_eq_0 ucast_and_7F unat_of_nat)
    then show ?thesis
      by (subst varint_loop.simps) (simp add: l nth_append Let_def)
  next
    case False
    let ?b = "word_of_nat (n mod 128 + 128) :: byte"
    have l: "leb n = ?b # leb (n div 128)" using False by (simp add: leb.simps [of n])
    have ub: "unat ?b = n mod 128 + 128"
      using mod_less_divisor [of 128 n] unfolding unat_of_nat_byte by simp
    have b: "?b AND 0x80 \<noteq> 0" using and_80_eq_0 [of ?b] ub by simp
    have v: "(ucast (?b AND 0x7F) :: u64) = word_of_nat (n mod 128)" using ub by (simp add: ucast_and_7F)
    have "2 ^ 7 \<le> n" using False by simp
    then have "(2 :: nat) ^ 7 < 2 ^ (64 - shift)" using 1(2) by linarith
    then have sh: "shift + 7 < 64" by (simp add: power_strict_increasing_iff del: power_numeral)
    have lt: "n div 128 < 2 ^ (64 - (shift + 7))"
    proof -
      have "(2 :: nat) ^ (64 - shift) = 2 ^ ((64 - (shift + 7)) + 7)"
        by (rule arg_cong [of _ _ "(^) 2"]) (use sh in linarith)
      also have "\<dots> = 2 ^ (64 - (shift + 7)) * 128" by (simp only: power_add) simp
      finally show ?thesis using 1(2) by (simp only: less_mult_imp_div_less)
    qed
    let ?r = "r OR push_bit shift (word_of_nat (n mod 128))"
    have step: "varint_loop (pre @ leb n @ rest) (length pre) shift r =
        varint_loop ((pre @ [?b]) @ leb (n div 128) @ rest) (length (pre @ [?b])) (shift + 7) ?r"
      using b v sh by (subst varint_loop.simps) (simp add: l nth_append Let_def)
    have "n = n mod 128 + 128 * (n div 128)" by simp
    then have "(word_of_nat n :: u64) = word_of_nat (n mod 128) OR push_bit 7 (word_of_nat (n div 128))"
      using word_split_7 [of "n mod 128" "n div 128"] by (metis mod_less_divisor zero_less_numeral)
    then have "?r OR push_bit (shift + 7) (word_of_nat (n div 128)) = r OR push_bit shift (word_of_nat n)"
      by (simp add: push_bit_or or.assoc)
    then show ?thesis
      unfolding step using 1(1) [OF False lt sh, of "pre @ [?b]" ?r] by (simp add: l)
  qed
qed

lemma pb_varint_leb:
  "n < 2 ^ 64 \<Longrightarrow> pb_varint (pre @ leb n @ rest) (length pre) = Inr (word_of_nat n, length pre + length (leb n))"
  using varint_loop_leb [of n 0 pre rest 0] by (simp add: pb_varint_def)

text \<open>What a loop sees of a field.\<close>

fun seen :: "(nat \<Rightarrow> nat \<Rightarrow> bool) \<Rightarrow> pb_field \<Rightarrow> pb_field" where
  "seen wanted (FBytes t b) = (if wanted t 2 then FBytes t b else FSkip)"
| "seen wanted (FVarint t v) = (if wanted t 0 then FVarint t v else FSkip)"
| "seen wanted FSkip = FSkip"

fun field_ok :: "pb_field \<Rightarrow> bool" where
  "field_ok (FBytes t b) \<longleftrightarrow> t < 2 ^ 29"
| "field_ok (FVarint t v) \<longleftrightarrow> t < 2 ^ 29"
| "field_ok FSkip \<longleftrightarrow> False"

fun rs_fold :: "('s \<Rightarrow> 'f \<Rightarrow> 's rs) \<Rightarrow> 's \<Rightarrow> 'f list \<Rightarrow> 's rs" where
  "rs_fold upd s [] = Ret s"
| "rs_fold upd s (f # fs) = rs_bind (upd s f) (\<lambda>s'. rs_fold upd s' fs)"

lemma pb_key_leb:
  assumes "t < 2 ^ 29" "w < 8"
  shows "pb_key (pre @ leb (t * 8 + w) @ rest) (length pre) =
    Inr ((t, w), length pre + length (leb (t * 8 + w)))"
proof -
  have lt: "t * 8 + w < 2 ^ 64" using assms by simp
  then have u: "unat (word_of_nat (t * 8 + w) :: u64) = t * 8 + w" unfolding unat_of_nat by simp
  have "(t * 8 + w) div 8 mod 2 ^ 32 = t" "(t * 8 + w) mod 8 = w" using assms by simp_all
  then show ?thesis
    unfolding pb_key_def pb_varint_leb [OF lt] by (simp add: u del: of_nat_add of_nat_mult)
qed

lemma pb_bytes_leb:
  assumes "length (pre @ leb (length b) @ b @ rest) < 2 ^ 64"
  shows "pb_bytes (pre @ leb (length b) @ b @ rest) (length pre) =
    Ret (Inr (b, length pre + length (leb (length b)) + length b))"
proof -
  have lt: "length b < 2 ^ 64" using assms by simp
  then have "unat (word_of_nat (length b) :: u64) = length b" by (simp add: unat_of_nat)
  then show ?thesis
    unfolding pb_bytes_def pb_varint_leb [OF lt]
    using assms by (simp add: Let_def slice_rs_def)
qed

lemma pb_varint_u64: "pb_varint (pre @ leb (unat v) @ rest) (length pre) = Inr (v, length pre + length (leb (unat v)))"
  using pb_varint_leb [of "unat v"] unat_lt_word [of v] by simp

lemma read_field_encode:
  assumes "field_ok f" "length (pre @ pb_encode f @ rest) < 2 ^ 64"
  shows "read_field wanted (pre @ pb_encode f @ rest) (length pre) =
    Ret (Inr (seen wanted f, length pre + length (pb_encode f)))"
proof (cases f)
  case (FBytes t b)
  let ?k = "leb (t * 8 + 2)"
  have k: "pb_key (pre @ ?k @ leb (length b) @ b @ rest) (length pre) = Inr ((t, 2), length (pre @ ?k))"
    using pb_key_leb [of t 2 pre] assms(1) FBytes by simp
  have "pb_bytes ((pre @ ?k) @ leb (length b) @ b @ rest) (length (pre @ ?k)) =
      Ret (Inr (b, length (pre @ ?k) + length (leb (length b)) + length b))"
    using assms(2) FBytes by (intro pb_bytes_leb) simp
  then show ?thesis
    using k FBytes by (auto simp: read_field_def read_wanted_def skip_field_def)
next
  case (FVarint t v)
  let ?k = "leb (t * 8)"
  have k: "pb_key (pre @ ?k @ leb (unat v) @ rest) (length pre) = Inr ((t, 0), length (pre @ ?k))"
    using pb_key_leb [of t 0 pre] assms(1) FVarint by simp
  have "pb_varint ((pre @ ?k) @ leb (unat v) @ rest) (length (pre @ ?k)) =
      Inr (v, length (pre @ ?k) + length (leb (unat v)))"
    by (rule pb_varint_u64)
  then show ?thesis
    using k FVarint by (auto simp: read_field_def read_wanted_def skip_field_def)
qed (use assms in simp)

lemma leb_nonempty [simp]: "leb n \<noteq> []"
  by (simp add: leb.simps)

lemma pb_encode_nonempty: "field_ok f \<Longrightarrow> pb_encode f \<noteq> []"
  by (cases f) auto

lemma pb_loop_encoded:
  assumes "list_all field_ok fs" "length (pre @ concat (map pb_encode fs)) < 2 ^ 64"
  shows "pb_loop wanted upd (pre @ concat (map pb_encode fs)) (length pre) s =
    rs_bind (rs_fold upd s (map (seen wanted) fs)) (\<lambda>s'. Ret (Inr s'))"
  using assms
proof (induction fs arbitrary: pre s)
  case Nil
  then show ?case by (subst pb_loop.simps) simp
next
  case (Cons f fs)
  let ?rest = "concat (map pb_encode fs)"
  have f: "read_field wanted (pre @ pb_encode f @ ?rest) (length pre) =
      Ret (Inr (seen wanted f, length (pre @ pb_encode f)))"
    using read_field_encode [of f pre ?rest wanted] Cons(2,3) by simp
  have IH: "pb_loop wanted upd ((pre @ pb_encode f) @ ?rest) (length (pre @ pb_encode f)) s' =
      rs_bind (rs_fold upd s' (map (seen wanted) fs)) (\<lambda>s'. Ret (Inr s'))" for s'
    using Cons(2,3) by (intro Cons(1)) auto
  have "length pre < length (pre @ pb_encode f @ ?rest)"
    using pb_encode_nonempty [of f] Cons(2) by (cases "pb_encode f") auto
  then show ?case
    using f IH by (cases "upd s (seen wanted f)") (subst pb_loop.simps, simp)+
qed

lemma pb_message_encoded:
  assumes "list_all field_ok fs" "length (concat (map pb_encode fs)) < 2 ^ 64"
  shows "pb_message wanted upd s (concat (map pb_encode fs)) =
    rs_bind (rs_fold upd s (map (seen wanted) fs)) (\<lambda>s'. Ret (Inr s'))"
  using pb_loop_encoded [of fs "[]" wanted upd s] assms by (simp add: pb_message_def)

section \<open>When the reader panics\<close>

text \<open>Reading a length-delimited field panics exactly when its declared length
  carries the position past the 64-bit range; otherwise it delivers the field or an error.\<close>

theorem pb_bytes_panics_iff:
  assumes "length buf < 2 ^ 64"
  shows "pb_bytes buf pos = Panic \<longleftrightarrow>
    (\<exists>len pos'. pb_varint buf pos = Inr (len, pos') \<and> 2 ^ 64 \<le> pos' + unat len)"
proof (cases "pb_varint buf pos")
  case (Inr z)
  obtain len pos' where z: "z = (len, pos')" by fastforce
  have p: "pos' \<le> length buf" using pb_varint_pos Inr z by blast
  have l: "unat len < 2 ^ 64" using unat_lt_word [of len] by simp
  show ?thesis
  proof (cases "2 ^ 64 \<le> pos' + unat len")
    case True
    then have "(pos' + unat len) mod 2 ^ 64 = pos' + unat len - 2 ^ 64"
      using p l assms by (simp add: mod_if)
    then have "(pos' + unat len) mod 2 ^ 64 < pos'" using l p True by linarith
    then show ?thesis
      using Inr z True p by (simp add: pb_bytes_def Let_def slice_rs_def)
  next
    case False
    then show ?thesis using Inr z by (auto simp: pb_bytes_def Let_def slice_rs_def)
  qed
qed (simp add: pb_bytes_def)

theorem pb_bytes_panics_iff_witness:
  "pb_bytes (leb (2 ^ 64 - 1)) 0 = Panic"
proof -
  have n: "2 ^ 64 - 1 < (2 :: nat) ^ 64" by simp
  have len: "length (leb (2 ^ 64 - 1)) < 2 ^ 64" by code_simp
  have u: "unat (word_of_nat (2 ^ 64 - 1) :: u64) = 2 ^ 64 - 1" using n unfolding unat_of_nat by simp
  have v: "pb_varint (leb (2 ^ 64 - 1)) 0 = Inr (word_of_nat (2 ^ 64 - 1), length (leb (2 ^ 64 - 1)))"
    using pb_varint_leb [OF n, of "[]" "[]"] by simp
  have "1 \<le> length (leb (2 ^ 64 - 1))" by code_simp
  then have "2 ^ 64 \<le> length (leb (2 ^ 64 - 1)) + unat (word_of_nat (2 ^ 64 - 1) :: u64)" unfolding u by simp
  then show ?thesis using pb_bytes_panics_iff [OF len, of 0] v by blast
qed

section \<open>Country files\<close>

text \<open>A network of a country: an address and the length of its prefix. What it is as the bytes of a file and as
  text, and which addresses are in it.\<close>

type_synonym net = "ip_addr \<times> nat"

fun ip_octets :: "ip_addr \<Rightarrow> bytes" where
  "ip_octets (IpV4 a) = octets4 a"
| "ip_octets (IpV6 a) = octets6 a"

fun ip_text :: "ip_addr \<Rightarrow> string" where
  "ip_text (IpV4 a) = show_ipv4 a"
| "ip_text (IpV6 a) = show_ipv6 a"

fun ip_bits :: "ip_addr \<Rightarrow> nat" where
  "ip_bits (IpV4 a) = 32"
| "ip_bits (IpV6 a) = 128"

definition net_ok :: "net \<Rightarrow> bool" where
  "net_ok n \<longleftrightarrow> snd n \<le> ip_bits (fst n)"

fun net_contains :: "net \<Rightarrow> ip_addr \<Rightarrow> bool" where
  "net_contains (IpV4 n, l) (IpV4 a) \<longleftrightarrow> in_net 32 (unat a) (unat n) l"
| "net_contains (IpV6 n, l) (IpV6 a) \<longleftrightarrow> in_net 128 (unat a) (unat n) l"
| "net_contains _ _ \<longleftrightarrow> False"

definition net_text :: "net \<Rightarrow> string" where
  "net_text n = ip_text (fst n) @ ''/'' @ show_nat (snd n)"

definition encode_net :: "net \<Rightarrow> bytes" where
  "encode_net n = concat (map pb_encode [FBytes 1 (ip_octets (fst n)), FVarint 2 (word_of_nat (snd n))])"

definition encode_country :: "string \<times> net list \<Rightarrow> bytes" where
  "encode_country c =
    concat (map pb_encode (FBytes 1 (as_bytes (fst c)) # map (\<lambda>n. FBytes 2 (encode_net n)) (snd c)))"

definition encode_dat :: "(string \<times> net list) list \<Rightarrow> bytes" where
  "encode_dat cs = concat (map pb_encode (map (\<lambda>c. FBytes 1 (encode_country c)) cs))"

definition country_ok :: "string \<times> net list \<Rightarrow> bool" where
  "country_ok c \<longleftrightarrow> fst c \<noteq> [] \<and> utf8_valid (as_bytes (fst c)) \<and> list_all net_ok (snd c)"

lemma length_pb_encode_bytes: "length b \<le> length (pb_encode (FBytes t b))"
  by simp

lemma length_concat_member: "x \<in> set xs \<Longrightarrow> length (f x) \<le> length (concat (map f xs))"
  by (induction xs) auto

lemma length_field_member:
  assumes "FBytes t b \<in> set fs"
  shows "length b \<le> length (concat (map pb_encode fs))"
  using length_concat_member [OF assms, of pb_encode] length_pb_encode_bytes [of b t] by linarith

lemma length_leb_le: "length (leb n) \<le> Suc n"
proof (induction n rule: leb.induct)
  case (1 n)
  show ?case
  proof (cases "n < 128")
    case False
    then have "n div 128 < n" by simp
    then show ?thesis using 1 [OF False] False by (simp add: leb.simps [of n])
  qed (simp add: leb.simps)
qed

lemma ip_octets_text: "length (ip_octets a) \<le> 16" "cidr_text (ip_octets a) l = Some (ip_text a @ ''/'' @ show_nat l)"
  by (cases a; simp add: cidr_text_def)+

lemma parse_pb_cidr_net:
  assumes "net_ok n"
  shows "parse_pb_cidr (encode_net n) = Ret (Some (net_text n))"
proof -
  let ?fs = "[FBytes 1 (ip_octets (fst n)), FVarint 2 (word_of_nat (snd n))]"
  have l: "snd n \<le> 128" using assms by (cases "fst n") (simp_all add: net_ok_def)
  have u: "unat (word_of_nat (snd n) :: u64) = snd n" using l by (simp add: unat_of_nat)
  have "length (concat (map pb_encode ?fs)) \<le> 300"
    using length_leb_le [of 10] length_leb_le [of "length (ip_octets (fst n))"] length_leb_le [of 16] length_leb_le [of "snd n"] l
      ip_octets_text(1) [of "fst n"]
    by (simp add: u)
  then have "pb_message (\<lambda>t w. (t, w) = (1, 2) \<or> (t, w) = (2, 0)) cidr_upd ([], 0) (encode_net n) =
      Ret (Inr (ip_octets (fst n), snd n))"
    unfolding encode_net_def using l by (subst pb_message_encoded) (simp_all add: u)
  then show ?thesis by (simp add: parse_pb_cidr_def net_text_def ip_octets_text)
qed

lemma rs_fold_append:
  "rs_fold upd s (fs @ gs) = rs_bind (rs_fold upd s fs) (\<lambda>s'. rs_fold upd s' gs)"
proof (induction fs arbitrary: s)
  case (Cons f fs)
  then show ?case by (cases "upd s f") auto
qed simp

lemma rs_fold_nets:
  "list_all net_ok ns \<Longrightarrow>
    rs_fold (entry_upd re) s (map (\<lambda>n. FBytes 2 (encode_net n)) ns) =
      Ret (s\<lparr>ge_cidrs := ge_cidrs s @ map net_text ns\<rparr>)"
  by (induction ns arbitrary: s) (simp_all add: parse_pb_cidr_net)

lemma parse_geo_entry_country:
  assumes "country_ok c" "length (encode_country c) < 2 ^ 64"
  shows "parse_geo_entry re (encode_country c) =
    Ret (Some \<lparr>ge_code = fst c, ge_pats = [], ge_cidrs = map net_text (snd c)\<rparr>)"
proof -
  let ?fs = "FBytes 1 (as_bytes (fst c)) # map (\<lambda>n. FBytes 2 (encode_net n)) (snd c)"
  have ok: "list_all field_ok ?fs" by (simp add: list_all_iff)
  have seen: "map (seen (\<lambda>t w. w = 2 \<and> t \<in> {1, 2, 3})) ?fs = ?fs" by simp
  have "rs_fold (entry_upd re) entry_init ?fs =
      Ret \<lparr>ge_code = fst c, ge_pats = [], ge_cidrs = map net_text (snd c)\<rparr>"
    using assms(1) rs_fold_nets [of "snd c" re]
    by (simp add: entry_init_def country_ok_def from_utf8_lossy_def utf8_lossy_id)
  then have "pb_message (\<lambda>t w. w = 2 \<and> t \<in> {1, 2, 3}) (entry_upd re) entry_init (encode_country c) =
      Ret (Inr \<lparr>ge_code = fst c, ge_pats = [], ge_cidrs = map net_text (snd c)\<rparr>)"
    unfolding encode_country_def pb_message_encoded [OF ok assms(2) [unfolded encode_country_def]]
    by (simp only: seen rs_bind.simps)
  then show ?thesis using assms(1) by (simp add: parse_geo_entry_def country_ok_def)
qed

lemma rs_fold_countries:
  "list_all country_ok cs \<Longrightarrow> \<forall>c \<in> set cs. length (encode_country c) < 2 ^ 64 \<Longrightarrow>
    rs_fold (dat_upd re) (sites, countries) (map (\<lambda>c. FBytes 1 (encode_country c)) cs) =
      Ret (sites, countries @ map (\<lambda>c. (fst c, map net_text (snd c))) cs)"
  by (induction cs arbitrary: countries) (simp_all add: parse_geo_entry_country)

lemma parse_dat_countries:
  assumes "list_all country_ok cs" "length (encode_dat cs) < 2 ^ 64"
  shows "parse_v2ray_dat re (encode_dat cs) =
    Ret (Inr ([], map (\<lambda>c. (fst c, map net_text (snd c))) cs))"
proof -
  let ?fs = "map (\<lambda>c. FBytes 1 (encode_country c)) cs"
  have ok: "list_all field_ok ?fs" by (simp add: list_all_iff)
  have seen: "map (seen (\<lambda>t w. t = 1 \<and> w = 2)) ?fs = ?fs" by simp
  have small: "\<forall>c \<in> set cs. length (encode_country c) < 2 ^ 64"
  proof
    fix c
    assume "c \<in> set cs"
    then have "FBytes 1 (encode_country c) \<in> set ?fs" by simp
    from length_field_member [OF this] assms(2) show "length (encode_country c) < 2 ^ 64"
      unfolding encode_dat_def by (rule le_less_trans)
  qed
  show ?thesis
    unfolding parse_v2ray_dat_def encode_dat_def pb_message_encoded [OF ok assms(2) [unfolded encode_dat_def]] seen
      rs_fold_countries [OF assms(1) small, of re "[]" "[]"] by simp
qed

lemma slash_not_in_ip: "CHR ''/'' \<notin> set (ip_text a)"
proof -
  have "\<not> plain (CHR ''/'')" by code_simp
  then show ?thesis using show_ipv4_plain show_ipv6_chars by (cases a) (auto simp: list_all_iff)
qed

lemma cidr_parts_net: "net_ok n \<Longrightarrow> cidr_parts (net_text n) = (ip_text (fst n), Inr (snd n))"
  using split_once_first [OF slash_not_in_ip, of "fst n" "show_nat (snd n)"] parse_uint_show_nat [of "snd n" 255]
  by (cases "fst n") (simp_all add: cidr_parts_def net_text_def net_ok_def)

lemma cidr_contains_net: "net_ok n \<Longrightarrow> cidr_contains (net_text n) x \<longleftrightarrow> net_contains n x"
  by (cases "(n, x)" rule: net_contains.cases) (simp_all add: cidr_parts_net parse_ip_show_ipv4 parse_ip_show_ipv6)

lemma add_cidrs_nets: "list_all net_ok ns \<Longrightarrow> \<exists>m'. add_cidrs m (map net_text ns) = Inr m'"
proof (induction ns arbitrary: m)
  case (Cons n ns)
  have "\<exists>m'. add_cidr m (net_text n) = Inr m'"
    using Cons.prems by (cases "fst n") (simp_all add: add_cidr_def cidr_parts_net parse_ip_show_ipv4 parse_ip_show_ipv6, simp_all add: net_ok_def)
  then show ?case using Cons by auto
qed simp

text \<open>What the registry answers for a country.\<close>

definition country_matcher :: "ip_matcher \<Rightarrow> string \<times> net list \<Rightarrow> bool" where
  "country_matcher m c \<longleftrightarrow> (\<forall>x. ip_matches m x \<longleftrightarrow> list_ex (\<lambda>n. net_contains n x) (snd c))"

definition country_loaded :: "'re geo_registry \<Rightarrow> string \<times> net list \<Rightarrow> bool" where
  "country_loaded g c \<longleftrightarrow> (\<exists>m. gr_ips g (to_ascii_lowercase (fst c)) = Some m \<and> country_matcher m c)"

lemma install_country:
  assumes "country_ok c"
  shows "\<exists>m. install_cidrs (fst c) (map net_text (snd c)) g =
      Inr (g\<lparr>gr_ips := (gr_ips g)(to_ascii_lowercase (fst c) \<mapsto> m)\<rparr>) \<and> country_matcher m c"
proof -
  obtain m where m: "from_cidrs (map net_text (snd c)) = Inr m"
    using add_cidrs_nets assms by (auto simp: country_ok_def from_cidrs_def)
  moreover have "country_matcher m c"
    unfolding country_matcher_def
  proof
    fix x
    show "ip_matches m x \<longleftrightarrow> list_ex (\<lambda>n. net_contains n x) (snd c)"
      using from_cidrs_matches(1) [OF m, of x] assms
      by (auto simp: country_ok_def list_all_iff list_ex_iff cidr_contains_net simp del: cidr_contains.simps ip_matches.simps)
  qed
  ultimately show ?thesis by (auto simp: install_cidrs_def)
qed

text \<open>Of several countries with one code, the last replaces the others.\<close>

definition last_of_code :: "(string \<times> net list) list \<Rightarrow> string \<times> net list \<Rightarrow> bool" where
  "last_of_code cs c \<longleftrightarrow> (\<exists>pre post. cs = pre @ c # post \<and> to_ascii_lowercase (fst c) \<notin> set (map (to_ascii_lowercase \<circ> fst) post))"

lemma last_of_code_Cons:
  "last_of_code (c # cs) d \<longleftrightarrow> last_of_code cs d \<or> d = c \<and> to_ascii_lowercase (fst c) \<notin> set (map (to_ascii_lowercase \<circ> fst) cs)"
  unfolding last_of_code_def by (auto simp: Cons_eq_append_conv)

lemma install_countries_loaded:
  assumes "list_all country_ok cs"
  shows "\<exists>g'. install_countries (map (\<lambda>c. (fst c, map net_text (snd c))) cs) g = (Inr (), g')
    \<and> (\<forall>c. last_of_code cs c \<longrightarrow> country_loaded g' c)
    \<and> (\<forall>k. k \<notin> set (map (to_ascii_lowercase \<circ> fst) cs) \<longrightarrow> gr_ips g' k = gr_ips g k)"
  using assms
proof (induction cs arbitrary: g)
  case (Cons c cs)
  obtain m where m: "install_cidrs (fst c) (map net_text (snd c)) g =
      Inr (g\<lparr>gr_ips := (gr_ips g)(to_ascii_lowercase (fst c) \<mapsto> m)\<rparr>)" "country_matcher m c"
    using install_country [of c g] Cons(2) by auto
  let ?g = "g\<lparr>gr_ips := (gr_ips g)(to_ascii_lowercase (fst c) \<mapsto> m)\<rparr>"
  obtain g' where g': "install_countries (map (\<lambda>c. (fst c, map net_text (snd c))) cs) ?g = (Inr (), g')"
      "\<forall>c. last_of_code cs c \<longrightarrow> country_loaded g' c"
      "\<forall>k. k \<notin> set (map (to_ascii_lowercase \<circ> fst) cs) \<longrightarrow> gr_ips g' k = gr_ips ?g k"
    using Cons(1) [of ?g] Cons(2) by auto
  have "country_loaded g' c" if "to_ascii_lowercase (fst c) \<notin> set (map (to_ascii_lowercase \<circ> fst) cs)"
    using g'(3) that m(2) by (simp add: country_loaded_def)
  then show ?case using g' m(1) by (auto simp: last_of_code_Cons fun_upd_other)
qed (simp add: last_of_code_def)

text \<open>Property C29: a country file loads completely. For a protocol buffer file with any countries, whose codes are UTF-8 and not empty, and
  any IPv4 and IPv6 networks, whose prefixes are not longer than their addresses, loading reports the
  number of countries, and from then on an address of either family is in a country, asked for
  in any case, exactly when one of the country's networks contains it. Of several entries whose codes agree up to case the last one counts, and the
  countries that the file does not mention stay as they were.\<close>

theorem geoip_file_loads:
  assumes "list_all country_ok cs" "length (encode_dat cs) < 2 ^ 64"
  shows "\<exists>g'. load_dat re (encode_dat cs) g = Ret (Inr (0, length cs), g')
    \<and> (\<forall>c code x. last_of_code cs c \<longrightarrow> to_ascii_lowercase code = to_ascii_lowercase (fst c) \<longrightarrow>
        (geoip_contains (registry_lookup is_match g') code x \<longleftrightarrow> list_ex (\<lambda>n. net_contains n x) (snd c)))
    \<and> (\<forall>code x. to_ascii_lowercase code \<notin> set (map (to_ascii_lowercase \<circ> fst) cs) \<longrightarrow>
        geoip_contains (registry_lookup is_match g') code x = geoip_contains (registry_lookup is_match g) code x)"
proof -
  obtain g' where g': "install_countries (map (\<lambda>c. (fst c, map net_text (snd c))) cs) g = (Inr (), g')"
      "\<forall>c. last_of_code cs c \<longrightarrow> country_loaded g' c"
      "\<forall>k. k \<notin> set (map (to_ascii_lowercase \<circ> fst) cs) \<longrightarrow> gr_ips g' k = gr_ips g k"
    using install_countries_loaded [OF assms(1), of g] by blast
  have "load_dat re (encode_dat cs) g = Ret (Inr (0, length cs), g')"
    using parse_dat_countries [OF assms, of re] g'(1) by (simp add: load_dat_def)
  moreover have "geoip_contains (registry_lookup is_match g') code x \<longleftrightarrow> list_ex (\<lambda>n. net_contains n x) (snd c)"
    if c: "last_of_code cs c" "to_ascii_lowercase code = to_ascii_lowercase (fst c)" for c code x
  proof -
    have "country_loaded g' c" using c(1) g'(2) by blast
    then obtain m where "gr_ips g' (to_ascii_lowercase code) = Some m" "country_matcher m c"
      using c(2) by (auto simp: country_loaded_def)
    then show ?thesis by (simp add: registry_lookup_def country_matcher_def del: ip_matches.simps)
  qed
  moreover have "geoip_contains (registry_lookup is_match g') code x = geoip_contains (registry_lookup is_match g) code x"
    if "to_ascii_lowercase code \<notin> set (map (to_ascii_lowercase \<circ> fst) cs)" for code x
    using that g'(3) by (simp add: registry_lookup_def)
  ultimately show ?thesis by blast
qed

definition no_regexes :: "string \<Rightarrow> string + unit" where
  "no_regexes s = Inl s"

definition sample_countries :: "(string \<times> net list) list" where
  "sample_countries = [(''CN'', [(IpV4 0x01000100, 24)]),
    (''us'', [(IpV4 0x08080000, 16), (IpV6 0x20014860000000000000000000000000, 32)])]"

theorem geoip_file_loads_witness:
  "\<exists>g'. load_dat no_regexes (encode_dat sample_countries) registry_new = Ret (Inr (0, 2), g')
    \<and> geoip_contains (registry_lookup (\<lambda>(_ :: unit) _. False) g') ''US'' (IpV4 0x08080808)
    \<and> geoip_contains (registry_lookup (\<lambda>(_ :: unit) _. False) g') ''US'' (IpV6 0x20014860000000000000000000008888)
    \<and> \<not> geoip_contains (registry_lookup (\<lambda>(_ :: unit) _. False) g') ''US'' (IpV6 1)"
  (is "\<exists>g'. ?load g' \<and> ?q g' \<and> ?r g' \<and> ?s g'")
proof -
  have ok: "list_all country_ok sample_countries"
    by (simp add: sample_countries_def country_ok_def net_ok_def as_bytes_def utf8_valid.simps utf8_next_def)
  have l: "length (encode_dat sample_countries) < 2 ^ 64" by code_simp
  have low: "to_ascii_lowercase ''US'' = to_ascii_lowercase ''us''" by code_simp
  let ?us = "(''us'', [(IpV4 0x08080000, 16), (IpV6 0x20014860000000000000000000000000, 32)])"
  have c: "last_of_code sample_countries ?us" by (simp add: sample_countries_def last_of_code_Cons)
  obtain g' where g: "load_dat no_regexes (encode_dat sample_countries) registry_new = Ret (Inr (0, length sample_countries), g')"
    and q: "\<forall>c code x. last_of_code sample_countries c \<longrightarrow> to_ascii_lowercase code = to_ascii_lowercase (fst c) \<longrightarrow>
        (geoip_contains (registry_lookup (\<lambda>_ _. False) g') code x \<longleftrightarrow> list_ex (\<lambda>n. net_contains n x) (snd c))"
    using geoip_file_loads [OF ok l, of no_regexes registry_new "\<lambda>_ _. False"] by blast
  have us: "geoip_contains (registry_lookup (\<lambda>_ _. False) g') ''US'' x \<longleftrightarrow> list_ex (\<lambda>n. net_contains n x) (snd ?us)" for x
    using q [rule_format, OF c, of "''US''" x] low by simp
  have "?q g'" "?r g'" "?s g'" by (simp_all add: us in_net_def)
  then show ?thesis using g by (auto simp: sample_countries_def)
qed

section \<open>Site files\<close>

text \<open>A domain message has its kind in field 1 and its value in field 2. The code expects
  the domain messages of an entry in field 3.\<close>

type_synonym site_domain = "u64 \<times> string"

definition encode_domain :: "site_domain \<Rightarrow> bytes" where
  "encode_domain d = concat (map pb_encode [FVarint 1 (fst d), FBytes 2 (as_bytes (snd d))])"

definition encode_site :: "nat \<Rightarrow> string \<times> site_domain list \<Rightarrow> bytes" where
  "encode_site field s =
    concat (map pb_encode (FBytes 1 (as_bytes (fst s)) # map (\<lambda>d. FBytes field (encode_domain d)) (snd s)))"

definition domain_ok :: "site_domain \<Rightarrow> bool" where
  "domain_ok d \<longleftrightarrow> utf8_valid (as_bytes (snd d))"

definition site_ok :: "string \<times> site_domain list \<Rightarrow> bool" where
  "site_ok s \<longleftrightarrow> fst s \<noteq> [] \<and> utf8_valid (as_bytes (fst s)) \<and> list_all domain_ok (snd s)"

lemma parse_domain_encoded:
  assumes "domain_ok d" "length (encode_domain d) < 2 ^ 64"
  shows "parse_geosite_domain re (encode_domain d) = Ret (site_pattern re (fst d) (snd d))"
proof -
  let ?fs = "[FVarint 1 (fst d), FBytes 2 (as_bytes (snd d))]"
  have ok: "list_all field_ok ?fs" by simp
  have "pb_message (\<lambda>t w. (t, w) = (1, 0) \<or> (t, w) = (2, 2)) site_upd (0, []) (encode_domain d) =
      Ret (Inr d)"
    unfolding encode_domain_def pb_message_encoded [OF ok assms(2) [unfolded encode_domain_def]]
    using assms(1) by (simp add: domain_ok_def from_utf8_lossy_def utf8_lossy_id)
  then show ?thesis by (simp add: parse_geosite_domain_def case_prod_beta)
qed

lemma parse_cidr_domain:
  assumes "length (encode_domain d) < 2 ^ 64"
  shows "parse_pb_cidr (encode_domain d) = Ret None"
proof -
  let ?fs = "[FVarint 1 (fst d), FBytes 2 (as_bytes (snd d))]"
  have ok: "list_all field_ok ?fs" by simp
  have "pb_message (\<lambda>t w. (t, w) = (1, 2) \<or> (t, w) = (2, 0)) cidr_upd ([], 0) (encode_domain d) =
      Ret (Inr ([], 0))"
    unfolding encode_domain_def pb_message_encoded [OF ok assms [unfolded encode_domain_def]] by simp
  then show ?thesis by (simp add: parse_pb_cidr_def cidr_text_def)
qed

lemma rs_fold_domains_3:
  "list_all domain_ok ds \<Longrightarrow> \<forall>d \<in> set ds. length (encode_domain d) < 2 ^ 64 \<Longrightarrow>
    rs_fold (entry_upd re) s (map (\<lambda>d. FBytes 3 (encode_domain d)) ds) =
      Ret (s\<lparr>ge_pats := ge_pats s @ List.map_filter (\<lambda>d. site_pattern re (fst d) (snd d)) ds\<rparr>)"
  by (induction ds arbitrary: s)
    (simp_all add: parse_domain_encoded List.map_filter_simps split: option.splits)

lemma rs_fold_domains_2:
  "\<forall>d \<in> set ds. length (encode_domain d) < 2 ^ 64 \<Longrightarrow>
    rs_fold (entry_upd re) s (map (\<lambda>d. FBytes 2 (encode_domain d)) ds) = Ret s"
  by (induction ds arbitrary: s) (simp_all add: parse_cidr_domain)

lemma site_domains_small:
  assumes "length (encode_site n s) < 2 ^ 64"
  shows "\<forall>d \<in> set (snd s). length (encode_domain d) < 2 ^ 64"
proof
  fix d
  assume "d \<in> set (snd s)"
  then have "FBytes n (encode_domain d) \<in> set (FBytes 1 (as_bytes (fst s)) # map (\<lambda>d. FBytes n (encode_domain d)) (snd s))"
    by simp
  from length_field_member [OF this] assms show "length (encode_domain d) < 2 ^ 64"
    unfolding encode_site_def by (rule le_less_trans)
qed

lemma parse_site_entry:
  assumes "site_ok s" "length (encode_site n s) < 2 ^ 64" "n = 2 \<or> n = 3"
  shows "parse_geo_entry re (encode_site n s) =
    Ret (Some \<lparr>ge_code = fst s,
      ge_pats = (if n = 3 then List.map_filter (\<lambda>d. site_pattern re (fst d) (snd d)) (snd s) else []),
      ge_cidrs = []\<rparr>)" (is "_ = Ret (Some ?e)")
proof -
  let ?fs = "FBytes 1 (as_bytes (fst s)) # map (\<lambda>d. FBytes n (encode_domain d)) (snd s)"
  have ok: "list_all field_ok ?fs" using assms(3) by (auto simp: list_all_iff)
  have seen: "map (seen (\<lambda>t w. w = 2 \<and> t \<in> {1, 2, 3})) ?fs = ?fs" using assms(3) by auto
  have "rs_fold (entry_upd re) entry_init ?fs = Ret ?e"
    using assms(1,3) rs_fold_domains_2 [OF site_domains_small [OF assms(2)], of re]
      rs_fold_domains_3 [OF _ site_domains_small [OF assms(2)], of re]
    by (auto simp: entry_init_def site_ok_def from_utf8_lossy_def utf8_lossy_id)
  then have "pb_message (\<lambda>t w. w = 2 \<and> t \<in> {1, 2, 3}) (entry_upd re) entry_init (encode_site n s) = Ret (Inr ?e)"
    unfolding encode_site_def pb_message_encoded [OF ok assms(2) [unfolded encode_site_def]]
    by (simp only: seen rs_bind.simps)
  then show ?thesis using assms(1) by (simp add: parse_geo_entry_def site_ok_def)
qed

text \<open>The domain lists of an entry are read from field 3 only. An entry with its
  domains there yields exactly the patterns the messages describe; the same entry with its domains in field 2,
  where geosite files have them, yields none and counts as a country
  without networks.\<close>

theorem geosite_entry_fields:
  assumes "site_ok s" "length (encode_site n s) < 2 ^ 64" "n = 2 \<or> n = 3"
  shows "parse_geo_entry re (encode_site n s) =
    Ret (Some \<lparr>ge_code = fst s,
      ge_pats = (if n = 3 then List.map_filter (\<lambda>d. site_pattern re (fst d) (snd d)) (snd s) else []),
      ge_cidrs = []\<rparr>)"
  using parse_site_entry [OF assms] .

theorem geosite_entry_fields_witness:
  "parse_geo_entry no_regexes (encode_site 2 (''ads'', [(2, ''ad.example'')])) =
    Ret (Some \<lparr>ge_code = ''ads'', ge_pats = [], ge_cidrs = []\<rparr>)"
proof -
  have ok: "site_ok (''ads'', [(2, ''ad.example'')])"
    by (simp add: site_ok_def domain_ok_def as_bytes_def utf8_valid.simps utf8_next_def)
  have l: "length (encode_site 2 (''ads'', [(2, ''ad.example'')])) < 2 ^ 64" by code_simp
  from geosite_entry_fields [OF ok l, of no_regexes] show ?thesis by simp
qed

section \<open>List files\<close>

lemma list_patterns_map: "list_patterns re ls = Inr ps \<Longrightarrow> map (list_pattern re) ls = map Inr ps"
  by (induction ls arbitrary: ps) (auto split: sum.splits)

text \<open>A domain list matches what one of its lines describes, and an address list what one
  of its lines contains.\<close>

lemma load_geosite_list:
  assumes "load_list_file re text ''geosite'' code g = Inr (n, g')"
  shows "n = length (list_lines text)
    \<and> (geosite_matches (registry_lookup im g') code d \<longleftrightarrow>
        (\<exists>l \<in> set (list_lines text). \<exists>p. list_pattern re l = Inr p \<and> pattern_matches im (lower_pattern p) d))"
proof -
  obtain ps where ps: "list_patterns re (list_lines text) = Inr ps" "n = length (list_lines text)"
      "g' = install_domains code ps g"
    using assms by (auto simp: load_list_file_def Let_def split: sum.splits)
  then have "map (list_pattern re) (list_lines text) = map Inr ps" by (simp add: list_patterns_map)
  then have img: "list_pattern re ` set (list_lines text) = Inr ` set ps" by (metis list.set_map)
  have "(\<exists>l \<in> set (list_lines text). \<exists>p. list_pattern re l = Inr p \<and> P p) \<longleftrightarrow> (\<exists>p \<in> set ps. P p)" for P
  proof -
    have "(\<exists>l \<in> set (list_lines text). \<exists>p. list_pattern re l = Inr p \<and> P p) \<longleftrightarrow>
        (\<exists>p. Inr p \<in> list_pattern re ` set (list_lines text) \<and> P p)"
      by (simp only: image_iff) (blast intro: sym)
    then show ?thesis unfolding img by auto
  qed
  then show ?thesis
    using ps by (simp add: registry_lookup_def install_domains_def domain_matches_fold)
qed

end
