(* ===== verification/Sniff.thy ===== *)
theory Sniff
  imports IpText IoStream
begin

text \<open>
  \<open>crates/omni-transport/src/routing.rs\<close> and
  \<open>crates/omni-core/src/pipeline/inspector.rs\<close>: the host of a connection is read
  off its first bytes, from the server name of a TLS ClientHello or the Host
  header of an HTTP request. Indexing out of range, and slicing a string inside a
  character, are panics.
\<close>

section \<open>Server names\<close>

definition u16_rs :: "bytes \<Rightarrow> nat \<Rightarrow> nat rs" where
  "u16_rs buf i =
    rs_bind (index_rs buf i) (\<lambda>a. rs_bind (index_rs buf (i + 1)) (\<lambda>b. Ret (unat (be_u16 a b))))"

text \<open>The entries of the server name list, from \<open>r\<close> to \<open>list_end\<close>.\<close>

function sni_names :: "bytes \<Rightarrow> nat \<Rightarrow> nat \<Rightarrow> string option rs" where
  "sni_names buf r list_end =
    (if r + 3 \<le> list_end then
       (case (index_rs buf r, u16_rs buf (r + 1)) of
          (Ret name_type, Ret nlen) \<Rightarrow>
            if name_type = 0 \<and> r + 3 + nlen \<le> list_end
            then rs_bind (slice_rs buf (r + 3) (r + 3 + nlen)) (\<lambda>s. Ret (from_utf8 s))
            else sni_names buf (r + 3 + nlen) list_end
        | _ \<Rightarrow> Panic)
     else Ret None)"
  by auto
termination
  by (relation "measure (\<lambda>(_, r, e). e - r)") auto

definition sni_ext_body :: "bytes \<Rightarrow> nat \<Rightarrow> nat \<Rightarrow> string option rs" where
  "sni_ext_body buf body_start elen =
    (if body_start + 5 > body_start + elen \<or> body_start + elen > length buf then Ret None
     else rs_bind (u16_rs buf body_start) (\<lambda>list_len.
       sni_names buf (body_start + 2) (min (body_start + 2 + list_len) (body_start + elen))))"

function sni_exts :: "bytes \<Rightarrow> nat \<Rightarrow> nat \<Rightarrow> string option rs" where
  "sni_exts buf q ext_end =
    (if q + 4 \<le> ext_end then
       (case (u16_rs buf q, u16_rs buf (q + 2)) of
          (Ret etype, Ret elen) \<Rightarrow>
            if etype = 0 then sni_ext_body buf (q + 4) elen
            else sni_exts buf (q + 4 + elen) ext_end
        | _ \<Rightarrow> Panic)
     else Ret None)"
  by auto
termination
  by (relation "measure (\<lambda>(_, q, e). e - q)") auto

declare sni_names.simps [simp del] sni_exts.simps [simp del]

definition sni_after_suites :: "bytes \<Rightarrow> nat \<Rightarrow> string option rs" where
  "sni_after_suites buf q =
    (if q \<ge> length buf then Ret None
     else rs_bind (index_rs buf q) (\<lambda>cm_len.
       let q' = q + 1 + unat cm_len in
       if q' + 2 > length buf then Ret None
       else rs_bind (u16_rs buf q') (\<lambda>ext_len.
         sni_exts buf (q' + 2) (min (q' + 2 + ext_len) (length buf)))))"

definition parse_sni :: "bytes \<Rightarrow> string option rs" where
  "parse_sni buf =
    (if length buf < 43 then Ret None
     else rs_bind (u16_rs buf 3) (\<lambda>rec_len.
       if length buf < 5 + rec_len then Ret None
       else rs_bind (index_rs buf 5) (\<lambda>hs_type.
         if hs_type \<noteq> 0x01 then Ret None
         else rs_bind (u16_rs buf 43) (\<lambda>sid_len.
           let q = 45 + sid_len in
           if q + 2 > length buf then Ret None
           else rs_bind (u16_rs buf q) (\<lambda>cs_len. sni_after_suites buf (q + 2 + cs_len))))))"

section \<open>Host headers\<close>

definition http_methods :: "bytes list" where
  "http_methods =
    map as_bytes [''GET '', ''POST'', ''PUT '', ''DELE'', ''HEAD'', ''OPTI'', ''PATC'', ''CONN'']"

definition looks_like_http :: "bytes \<Rightarrow> bool" where
  "looks_like_http buf \<longleftrightarrow> list_ex (\<lambda>m. prefix m buf) http_methods"

fun split_crlf :: "string \<Rightarrow> string list" where
  "split_crlf [] = [[]]"
| "split_crlf [x] = [[x]]"
| "split_crlf (x # y # s) =
    (if x = CHR 0x0D \<and> y = CHR 0x0A then [] # split_crlf s
     else (case split_crlf (y # s) of [] \<Rightarrow> [[x]] | l # ls \<Rightarrow> (x # l) # ls))"

definition is_char_boundary :: "string \<Rightarrow> nat \<Rightarrow> bool" where
  "is_char_boundary s i \<longleftrightarrow>
    i = length s \<or> i < length s \<and> (of_char (s ! i) < (128 :: nat) \<or> (192 :: nat) \<le> of_char (s ! i))"

definition strip_prefix_ci :: "string \<Rightarrow> string \<Rightarrow> string option rs" where
  "strip_prefix_ci s p =
    (if length s \<ge> length p then
       if is_char_boundary s (length p) then
         Ret (if eq_ignore_ascii_case (take (length p) s) p then Some (drop (length p) s) else None)
       else Panic
     else Ret None)"

definition find_char :: "char \<Rightarrow> string \<Rightarrow> nat option" where
  "find_char c s = (if c \<in> set s then Some (length (takeWhile (\<lambda>x. x \<noteq> c) s)) else None)"

definition strip_port :: "string \<Rightarrow> string" where
  "strip_port host =
    (case find_char CHR ''['' host of
       Some start \<Rightarrow>
         (case find_char CHR '']'' (drop start host) of
            Some e \<Rightarrow> slice (start + 1) (start + e) host
          | None \<Rightarrow> host)
     | None \<Rightarrow>
         (case split_once CHR '':'' host of
            Some (h, p) \<Rightarrow> if parse_port p \<noteq> None then h else host
          | None \<Rightarrow> host))"

fun host_lines :: "string list \<Rightarrow> string option rs" where
  "host_lines [] = Ret None"
| "host_lines (l # ls) =
    (if l = [] then Ret None
     else (case strip_prefix_ci l ''host:'' of
         Panic \<Rightarrow> Panic
       | Ret None \<Rightarrow> host_lines ls
       | Ret (Some rest) \<Rightarrow>
           if trim rest \<noteq> [] then Ret (Some (strip_port (trim rest))) else host_lines ls))"

definition parse_http_host_header :: "bytes \<Rightarrow> string option rs" where
  "parse_http_host_header buf =
    (case from_utf8 buf of
       None \<Rightarrow> Ret None
     | Some text \<Rightarrow> host_lines (drop 1 (split_crlf text)))"

section \<open>Inspecting a stream\<close>

record sniff_outcome =
  so_host :: "string option"
  so_protocol :: string
  so_consumed :: bytes

definition is_tls_record :: "bytes \<Rightarrow> bool" where
  "is_tls_record buf \<longleftrightarrow> length buf \<ge> 5 \<and> buf ! 0 = 0x16 \<and> buf ! 1 = 0x03"

definition classify_http :: "bytes \<Rightarrow> sniff_outcome option rs" where
  "classify_http buf =
    (if looks_like_http buf then
       rs_bind (parse_http_host_header buf) (\<lambda>h.
         Ret (map_option (\<lambda>host. \<lparr>so_host = Some host, so_protocol = ''http'', so_consumed = buf\<rparr>) h))
     else Ret None)"

definition try_classify :: "bytes \<Rightarrow> sniff_outcome option rs" where
  "try_classify buf =
    (if is_tls_record buf then
       rs_bind (parse_sni buf) (\<lambda>h.
         case h of
           Some host \<Rightarrow> Ret (Some \<lparr>so_host = Some host, so_protocol = ''tls'', so_consumed = buf\<rparr>)
         | None \<Rightarrow> classify_http buf)
     else classify_http buf)"

text \<open>What the reads of a connection return: some bytes, or nothing before the timeout.
  The end of the list is the end of the connection (or an error).\<close>

datatype read_event = Got bytes | Quiet

fun event_bytes :: "read_event list \<Rightarrow> bytes" where
  "event_bytes [] = []"
| "event_bytes (Got c # es) = c @ event_bytes es"
| "event_bytes (Quiet # es) = event_bytes es"

definition unknown_outcome :: "bytes \<Rightarrow> sniff_outcome" where
  "unknown_outcome buf = \<lparr>so_host = None, so_protocol = ''unknown'', so_consumed = buf\<rparr>"

fun inspect_loop :: "bytes \<Rightarrow> read_event list \<Rightarrow> (sniff_outcome \<times> read_event list) rs" where
  "inspect_loop buf es =
    rs_bind (try_classify buf) (\<lambda>found.
      case found of
        Some out \<Rightarrow> Ret (out, es)
      | None \<Rightarrow>
          (case es of
             [] \<Rightarrow> Ret (unknown_outcome buf, [])
           | Quiet # es' \<Rightarrow> Ret (unknown_outcome buf, es')
           | Got c # es' \<Rightarrow>
               if c = [] then Ret (unknown_outcome buf, es')
               else if length (buf @ c) > 8 * 1024 then Ret (unknown_outcome (buf @ c), es')
               else inspect_loop (buf @ c) es'))"

declare inspect_loop.simps [simp del]

definition inspect_stream :: "read_event list \<Rightarrow> (sniff_outcome \<times> read_event list) rs" where
  "inspect_stream es = inspect_loop [] es"

text \<open>The older \<open>sniff\<close> of \<open>routing.rs\<close> has no timeout, tries once more before it gives up, and drops
  what it has read. Its reads give bytes or fail.\<close>

record sniff_result =
  sr_host :: "string option"
  sr_protocol :: string

definition sniff_http :: "bytes \<Rightarrow> sniff_result option rs" where
  "sniff_http buf =
    (if looks_like_http buf then
       rs_bind (parse_http_host_header buf) (\<lambda>h.
         Ret (map_option (\<lambda>host. \<lparr>sr_host = Some host, sr_protocol = ''http''\<rparr>) h))
     else Ret None)"

definition try_sniff :: "bytes \<Rightarrow> sniff_result option rs" where
  "try_sniff buf =
    (if is_tls_record buf then
       rs_bind (parse_sni buf) (\<lambda>h.
         case h of
           Some host \<Rightarrow> Ret (Some \<lparr>sr_host = Some host, sr_protocol = ''tls''\<rparr>)
         | None \<Rightarrow> sniff_http buf)
     else sniff_http buf)"

definition unknown_sniff :: sniff_result where
  "unknown_sniff = \<lparr>sr_host = None, sr_protocol = ''unknown''\<rparr>"

fun sniff_loop :: "bytes \<Rightarrow> (io_error + bytes) list \<Rightarrow> (io_error + sniff_result) rs" where
  "sniff_loop buf rs =
    rs_bind (try_sniff buf) (\<lambda>found.
      case found of
        Some res \<Rightarrow> Ret (Inr res)
      | None \<Rightarrow>
          if length buf > 8 * 1024 then Ret (Inr unknown_sniff)
          else (case rs of
             [] \<Rightarrow> Ret (Inr unknown_sniff)
           | Inl e # rs' \<Rightarrow> Ret (Inl e)
           | Inr c # rs' \<Rightarrow> if c = [] then Ret (Inr unknown_sniff) else sniff_loop (buf @ c) rs'))"

declare sniff_loop.simps [simp del]

definition sniff :: "(io_error + bytes) list \<Rightarrow> (io_error + sniff_result) rs" where
  "sniff rs = sniff_loop [] rs"

section \<open>Nothing is lost\<close>

lemma classify_http_consumed: "classify_http buf = Ret (Some out) \<Longrightarrow> so_consumed out = buf"
  by (cases "parse_http_host_header buf") (auto simp: classify_http_def split: if_splits)

lemma try_classify_consumed: "try_classify buf = Ret (Some out) \<Longrightarrow> so_consumed out = buf"
  by (cases "parse_sni buf")
    (auto simp: try_classify_def classify_http_consumed split: if_splits option.splits)

lemma inspect_loop_bytes:
  "inspect_loop buf es = Ret (out, es') \<Longrightarrow> so_consumed out @ event_bytes es' = buf @ event_bytes es"
proof (induction es arbitrary: buf)
  case Nil
  then show ?case
    by (subst (asm) inspect_loop.simps)
      (auto simp: unknown_outcome_def dest: try_classify_consumed elim!: rs_bind.elims split: option.splits)
next
  case (Cons e es)
  obtain found where f: "try_classify buf = Ret found"
    using Cons(2) by (subst (asm) inspect_loop.simps) (auto elim: rs_bind.elims)
  show ?case
  proof (cases found)
    case (Some o')
    then show ?thesis
      using Cons(2) f try_classify_consumed [of buf o'] by (subst (asm) inspect_loop.simps) auto
  next
    case None
    show ?thesis
    proof (cases e)
      case (Got c)
      then show ?thesis
        using Cons(2) f None Cons(1) [of "buf @ c"]
        by (subst (asm) inspect_loop.simps) (auto simp: unknown_outcome_def split: if_splits)
    next
      case Quiet
      then show ?thesis
        using Cons(2) f None by (subst (asm) inspect_loop.simps) (auto simp: unknown_outcome_def)
    qed
  qed
qed

text \<open>Both inspections find the same host in the same bytes.\<close>

definition result_of :: "sniff_outcome \<Rightarrow> sniff_result" where
  "result_of out = \<lparr>sr_host = so_host out, sr_protocol = so_protocol out\<rparr>"

lemma try_sniff_classify: "try_sniff buf = rs_bind (try_classify buf) (\<lambda>r. Ret (map_option result_of r))"
proof -
  have "sniff_http buf = rs_bind (classify_http buf) (\<lambda>r. Ret (map_option result_of r))"
    by (cases "parse_http_host_header buf")
      (auto simp: sniff_http_def classify_http_def result_of_def option.map_comp comp_def)
  then show ?thesis
    by (cases "parse_sni buf") (auto simp: try_sniff_def try_classify_def result_of_def split: option.splits)
qed

lemma sniff_finds:
  "try_classify buf = Ret (Some out) \<Longrightarrow> sniff_loop buf rs = Ret (Inr (result_of out))"
  by (subst sniff_loop.simps) (simp add: try_sniff_classify)

section \<open>When the server name parser panics\<close>

lemma u16_rs_in_range: "i + 1 < length buf \<Longrightarrow> u16_rs buf i = Ret (unat (be_u16 (buf ! i) (buf ! (i + 1))))"
  by (simp add: u16_rs_def)

lemma sni_names_no_panic: "e \<le> length buf \<Longrightarrow> sni_names buf r e \<noteq> Panic"
proof (induction buf r e rule: sni_names.induct)
  case (1 buf r e)
  show ?case
  proof (cases "r + 3 \<le> e")
    case True
    then have i: "index_rs buf r = Ret (buf ! r)"
        "u16_rs buf (r + 1) = Ret (unat (be_u16 (buf ! (r + 1)) (buf ! (r + 2))))"
      using 1(2) by (auto simp: u16_rs_in_range)
    show ?thesis
      using 1 True i by (subst sni_names.simps) (auto simp: slice_rs_def rs_bind_Panic_iff)
  qed (simp add: sni_names.simps)
qed

lemma sni_ext_body_no_panic: "sni_ext_body buf b n \<noteq> Panic"
  using sni_names_no_panic
  by (auto simp: sni_ext_body_def rs_bind_Panic_iff u16_rs_def index_rs_def min_def)

lemma sni_exts_no_panic: "e \<le> length buf \<Longrightarrow> sni_exts buf q e \<noteq> Panic"
proof (induction buf q e rule: sni_exts.induct)
  case (1 buf q e)
  show ?case
  proof (cases "q + 4 \<le> e")
    case True
    then have i: "u16_rs buf q = Ret (unat (be_u16 (buf ! q) (buf ! (q + 1))))"
        "u16_rs buf (q + 2) = Ret (unat (be_u16 (buf ! (q + 2)) (buf ! (q + 2 + 1))))"
      using 1(2) by (auto simp: u16_rs_in_range)
    show ?thesis
      using 1 True i by (subst sni_exts.simps) (auto simp: sni_ext_body_no_panic)
  qed (simp add: sni_exts.simps)
qed

lemma sni_after_suites_no_panic: "sni_after_suites buf q \<noteq> Panic"
  using sni_exts_no_panic
  by (auto simp: sni_after_suites_def rs_bind_Panic_iff u16_rs_def index_rs_def Let_def)

text \<open>Property C39: the server name parser indexes out of range exactly when the buffer holds
  43 or 44 bytes of a ClientHello record that claims to be complete; on every
  other input, of any content, it returns.\<close>

theorem parse_sni_panics_iff:
  "parse_sni buf = Panic \<longleftrightarrow>
    (length buf = 43 \<or> length buf = 44) \<and> 5 + unat (be_u16 (buf ! 3) (buf ! 4)) \<le> length buf \<and> buf ! 5 = 0x01"
  using sni_after_suites_no_panic
  by (auto simp: parse_sni_def rs_bind_Panic_iff u16_rs_def index_rs_def Let_def)

section \<open>Server names are missed\<close>

lemma parse_sni_session_id:
  assumes "length buf < 47 + 256 * unat (buf ! 43)"
  shows "parse_sni buf = Ret None \<or> parse_sni buf = Panic"
proof (cases "length buf < 45")
  case True
  then show ?thesis
    using sni_after_suites_no_panic
    by (auto simp: parse_sni_def rs_bind_Panic_iff u16_rs_def index_rs_def Let_def)
next
  case False
  have "unat (be_u16 (buf ! 43) (buf ! 44)) = be_nat [buf ! 43, buf ! 44]"
    using be_nat_lt [of "[buf ! 43, buf ! 44]"] by (simp add: be_u16_def unat_of_nat)
  then have "256 * unat (buf ! 43) \<le> unat (be_u16 (buf ! 43) (buf ! 44))"
    by (simp add: be_nat_def)
  then show ?thesis
    using False assms by (simp add: parse_sni_def u16_rs_in_range Let_def)
qed

lemma tls_not_http: "is_tls_record buf \<Longrightarrow> \<not> looks_like_http buf"
  by (cases buf) (auto simp: is_tls_record_def looks_like_http_def http_methods_def as_bytes_def)

lemma not_http_prefix: "buf ! 0 = 0x16 \<Longrightarrow> \<not> looks_like_http buf"
  by (cases buf) (auto simp: looks_like_http_def http_methods_def as_bytes_def)

lemma try_classify_session_id:
  assumes "buf ! 0 = 0x16" "length buf \<le> 43 \<or> buf ! 43 = 32" "length buf \<le> 8 * 1024" "try_classify buf = Ret found"
  shows "found = None"
proof -
  have "parse_sni buf = Ret None \<or> parse_sni buf = Panic"
  proof (cases "length buf \<le> 43")
    case True
    then show ?thesis by (auto simp: parse_sni_def u16_rs_def index_rs_def)
  next
    case False
    then show ?thesis using parse_sni_session_id [of buf] assms(2,3) by simp
  qed
  then show ?thesis
    using assms(1,4) not_http_prefix [of buf] by (auto simp: try_classify_def classify_http_def split: if_splits)
qed

lemma inspect_session_id:
  assumes "inspect_loop buf es = Ret (out, es')" "length buf \<le> 8 * 1024"
    and "(buf @ event_bytes es) ! 0 = 0x16" "(buf @ event_bytes es) ! 43 = 32"
  shows "so_host out = None"
  using assms
proof (induction es arbitrary: buf)
  case Nil
  then show ?case
    using try_classify_session_id [of buf] by (subst (asm) inspect_loop.simps)
      (auto simp: unknown_outcome_def elim!: rs_bind.elims split: option.splits)
next
  case (Cons e es)
  obtain found where f: "try_classify buf = Ret found"
    using Cons(2) by (subst (asm) inspect_loop.simps) (auto elim: rs_bind.elims)
  have "found = None"
  proof (cases "buf = []")
    case True
    then show ?thesis using f by (auto simp: try_classify_def classify_http_def is_tls_record_def
          looks_like_http_def http_methods_def as_bytes_def)
  next
    case False
    then show ?thesis
      using Cons(3-5) f by (intro try_classify_session_id [of buf]) (auto simp: nth_append split: if_splits)
  qed
  then show ?case
    using Cons f
    by (subst (asm) (2) inspect_loop.simps)
      (auto simp: unknown_outcome_def split: read_event.splits if_splits)
qed

text \<open>A TLS connection whose ClientHello carries the usual session id of 32 bytes
  is never recognised, whatever server name it carries and however its bytes
  arrive: the parser reads the one-byte length of the session id as two bytes.\<close>

theorem tls_session_id_hides_sni:
  assumes "inspect_stream es = Ret (out, es')" "event_bytes es ! 0 = 0x16" "event_bytes es ! 43 = 32"
  shows "so_host out = None"
  using inspect_session_id [of "[]" es out es'] assms by (simp add: inspect_stream_def)

theorem tls_session_id_hides_sni_witness:
  "\<exists>out es'. inspect_stream [Got (0x16 # replicate 42 0 @ [32])] = Ret (out, es') \<and> so_host out = None"
proof -
  let ?b = "0x16 # replicate 42 0 @ [32 :: byte]"
  have "try_classify [] = Ret None"
    by (simp add: try_classify_def classify_http_def is_tls_record_def looks_like_http_def http_methods_def as_bytes_def)
  moreover have "\<not> is_tls_record ?b" by (simp add: is_tls_record_def nth_append)
  then have "try_classify ?b = Ret None"
    using not_http_prefix [of ?b] by (simp add: try_classify_def classify_http_def)
  ultimately have r: "inspect_stream [Got ?b] = Ret (unknown_outcome ?b, [])"
    by (simp add: inspect_stream_def inspect_loop.simps)
  from tls_session_id_hides_sni [OF this] show ?thesis
    using r by (simp add: nth_append)
qed

section \<open>Host headers and the reads they arrive in\<close>

abbreviation (input) CRLF :: string where
  "CRLF \<equiv> [CHR 0x0D, CHR 0x0A]"

definition ascii_char :: "char \<Rightarrow> bool" where
  "ascii_char c \<longleftrightarrow> of_char c < (128 :: nat)"

text \<open>Visible ASCII that is neither a separator of a port nor a bracket.\<close>

definition host_char :: "char \<Rightarrow> bool" where
  "host_char c \<longleftrightarrow> (33 :: nat) \<le> of_char c \<and> of_char c < (127 :: nat) \<and> c \<noteq> CHR '':'' \<and> c \<noteq> CHR ''[''"

lemma split_crlf_line: "CHR 0x0D \<notin> set a \<Longrightarrow> split_crlf (a @ CRLF @ b) = a # split_crlf b"
proof (induction a)
  case (Cons x a)
  then show ?case by (cases a) auto
qed simp

lemma split_crlf_last: "CHR 0x0D \<notin> set a \<Longrightarrow> split_crlf a = [a]"
proof (induction a)
  case (Cons x a)
  then show ?case by (cases a) auto
qed simp

lemma white_space_shape:
  "list_all (\<lambda>w. w \<noteq> [] \<and> \<not> host_char (hd w) \<and> \<not> host_char (last w)) white_space"
  "list_all (\<lambda>w. hd w = CHR '' '' \<longrightarrow> w = '' '') white_space"
  "list_ex (\<lambda>w. w = '' '') white_space"
  by code_simp+

lemma white_space_ends:
  "w \<in> set white_space \<Longrightarrow> w \<noteq> [] \<and> \<not> host_char (hd w) \<and> \<not> host_char (last w)"
  using white_space_shape(1) by (simp add: list_all_iff)

lemma strip_one_host:
  assumes "host_char c"
  shows "strip_one (c # s) = None"
proof -
  have "\<not> prefix w (c # s)" if "w \<in> set white_space" for w
    using white_space_ends [OF that] assms by (cases w) auto
  then show ?thesis by (simp add: strip_one_def find_None_iff)
qed

lemma strip_one_end_host:
  assumes "host_char c"
  shows "strip_one_end (s @ [c]) = None"
proof -
  have "\<not> suffix w (s @ [c])" if "w \<in> set white_space" for w
  proof
    assume "suffix w (s @ [c])"
    then have "last w = c"
      using white_space_ends [OF that] by (metis last_appendR last_snoc suffix_def)
    then show False using white_space_ends [OF that] assms by simp
  qed
  then show ?thesis by (simp add: strip_one_end_def find_None_iff)
qed

lemma strip_one_space: "strip_one (CHR '' '' # s) = Some s"
proof -
  have only: "w = '' ''" if w: "w \<in> set white_space" "prefix w (CHR '' '' # s)" for w
  proof -
    obtain x y where "w = x # y" using white_space_ends [OF w(1)] by (metis neq_Nil_conv)
    then have "hd w = CHR '' ''" using w(2) by simp
    then show ?thesis using white_space_shape(2) w(1) by (auto simp: list_all_iff)
  qed
  have "'' '' \<in> set white_space" using white_space_shape(3) by (auto simp: list_ex_iff)
  then have "List.find (\<lambda>w. prefix w (CHR '' '' # s)) white_space \<noteq> None"
    by (auto simp: find_None_iff)
  then obtain w where w: "List.find (\<lambda>w. prefix w (CHR '' '' # s)) white_space = Some w" by blast
  then have "w \<in> set white_space" "prefix w (CHR '' '' # s)" by (auto simp: find_Some_iff)
  then have "w = '' ''" by (rule only)
  then show ?thesis using w by (simp add: strip_one_def)
qed

lemma trim_host:
  assumes "h \<noteq> []" "list_all host_char h"
  shows "trim ('' '' @ h) = h"
proof -
  obtain c s where c: "h = c # s" "host_char c" using assms by (cases h) auto
  obtain t d where d: "h = t @ [d]" "host_char d"
    using assms by (cases h rule: rev_cases) auto
  have "trim_start ('' '' @ h) = h"
    using strip_one_space [of h] strip_one_host [OF c(2)] c(1)
    by (subst trim_start.simps) (simp add: trim_start.simps [of "c # s"])
  moreover have "trim_end h = h"
    using strip_one_end_host [OF d(2)] d(1) by (subst trim_end.simps) simp
  ultimately show ?thesis by (simp add: trim_def)
qed

lemma strip_port_host: "list_all host_char h \<Longrightarrow> strip_port h = h"
  by (auto simp: strip_port_def find_char_def split_once_def list_all_iff host_char_def)

lemma host_name: "eq_ignore_ascii_case ''Host:'' ''host:''"
  by code_simp

lemma host_line:
  assumes "h \<noteq> []" "list_all host_char h"
  shows "host_lines ((''Host: '' @ h) # ls) = Ret (Some h)"
proof -
  have "strip_prefix_ci (''Host: '' @ h) ''host:'' = Ret (Some ('' '' @ h))"
    using host_name by (simp add: strip_prefix_ci_def is_char_boundary_def)
  then show ?thesis
    using assms trim_host [OF assms] strip_port_host [OF assms(2)] by simp
qed

lemma ascii_bytes:
  assumes "list_all ascii_char t"
  shows "from_utf8 (as_bytes t) = Some t"
proof -
  have "\<forall>b \<in> set (as_bytes t). b < 0x80"
    using assms by (auto simp: as_bytes_def list_all_iff ascii_char_def word_less_nat_alt unat_of_nat)
  then show ?thesis by (intro from_utf8_as_bytes utf8_valid_ascii)
qed

lemma host_char_ascii: "list_all host_char h \<Longrightarrow> list_all ascii_char h \<and> CHR 0x0D \<notin> set h"
proof -
  assume h: "list_all host_char h"
  have "ascii_char c" if "host_char c" for c using that by (simp add: host_char_def ascii_char_def)
  moreover have "\<not> host_char (CHR 0x0D)" by code_simp
  ultimately show ?thesis using h unfolding list_all_iff by blast
qed

lemma parse_host_header:
  assumes "CHR 0x0D \<notin> set req" "list_all ascii_char req" "h \<noteq> []" "list_all host_char h"
    and "tail = [] \<or> (\<exists>t. tail = CRLF @ t)" "list_all ascii_char tail"
  shows "parse_http_host_header (as_bytes (req @ CRLF @ ''Host: '' @ h @ tail)) = Ret (Some h)"
proof -
  let ?t = "req @ CRLF @ ''Host: '' @ h @ tail"
  have "list_all ascii_char ?t"
    using assms host_char_ascii [OF assms(4)] by (simp add: ascii_char_def)
  then have "from_utf8 (as_bytes ?t) = Some ?t" by (rule ascii_bytes)
  moreover have "\<exists>ls. split_crlf ((''Host: '' @ h) @ tail) = (''Host: '' @ h) # ls"
  proof (cases "tail = []")
    case True
    then show ?thesis
      using split_crlf_last [of "''Host: '' @ h"] host_char_ascii [OF assms(4)] by auto
  next
    case False
    then obtain t where "tail = CRLF @ t" using assms(5) by blast
    then show ?thesis
      using split_crlf_line [of "''Host: '' @ h" t] host_char_ascii [OF assms(4)] by auto
  qed
  then obtain ls where "split_crlf ?t = req # (''Host: '' @ h) # ls"
    using split_crlf_line [OF assms(1), of "''Host: '' @ h @ tail"] by auto
  ultimately show ?thesis
    using host_line [OF assms(3,4), of ls] by (simp add: parse_http_host_header_def del: host_lines.simps)
qed

lemma looks_like_http_append: "looks_like_http a \<Longrightarrow> looks_like_http (a @ b)"
  by (auto simp: looks_like_http_def list_ex_iff intro: prefix_prefix)

lemma try_classify_http:
  assumes "looks_like_http b" "parse_http_host_header b = Ret (Some h)"
  shows "try_classify b = Ret (Some \<lparr>so_host = Some h, so_protocol = ''http'', so_consumed = b\<rparr>)"
  using assms tls_not_http [of b] by (auto simp: try_classify_def classify_http_def)

lemma inspect_first:
  assumes "try_classify b = Ret (Some out)" "b \<noteq> []" "length b \<le> 8 * 1024"
  shows "inspect_stream (Got b # es) = Ret (out, es)"
proof -
  have "try_classify [] = Ret None"
    by (simp add: try_classify_def classify_http_def is_tls_record_def looks_like_http_def http_methods_def as_bytes_def)
  then show ?thesis
    using assms by (simp add: inspect_stream_def inspect_loop.simps)
qed

text \<open>The host of an HTTP request is taken from the first read that reaches into
  the value of its Host line, and it is what that read delivers of it: when the
  line is complete the host of the request, and when the read ends inside the
  name only its beginning. Routing then goes by the shortened name.\<close>

theorem http_host_from_first_read:
  assumes "looks_like_http (as_bytes req)" "CHR 0x0D \<notin> set req" "list_all ascii_char req"
    and "h \<noteq> []" "list_all host_char h"
    and "tail = [] \<or> (\<exists>t. tail = CRLF @ t)" "list_all ascii_char tail"
    and "length req + length h + length tail \<le> 8000"
  shows "inspect_stream (Got (as_bytes (req @ CRLF @ ''Host: '' @ h @ tail)) # es) =
    Ret (\<lparr>so_host = Some h, so_protocol = ''http'',
        so_consumed = as_bytes (req @ CRLF @ ''Host: '' @ h @ tail)\<rparr>, es)"
proof -
  let ?b = "as_bytes (req @ CRLF @ ''Host: '' @ h @ tail)"
  have http: "looks_like_http ?b"
    by (subst as_bytes_append) (rule looks_like_http_append [OF assms(1)])
  have "?b \<noteq> []" "length ?b \<le> 8 * 1024" using assms(8) by (simp_all only: as_bytes_eq_Nil length_as_bytes) simp_all
  with try_classify_http [OF http parse_host_header [OF assms(2-7)]] show ?thesis
    by (rule inspect_first)
qed

theorem http_host_from_first_read_witness:
  "inspect_stream [Got (as_bytes (''GET / HTTP/1.1'' @ CRLF @ ''Host: '' @ ''internal.exam'' @ [])),
      Got (as_bytes (''ple.com'' @ CRLF @ CRLF))] =
    Ret (\<lparr>so_host = Some ''internal.exam'', so_protocol = ''http'',
        so_consumed = as_bytes (''GET / HTTP/1.1'' @ CRLF @ ''Host: '' @ ''internal.exam'' @ [])\<rparr>,
      [Got (as_bytes (''ple.com'' @ CRLF @ CRLF))])"
  by (rule http_host_from_first_read)
    (simp_all add: looks_like_http_def http_methods_def as_bytes_def ascii_char_def host_char_def)

end
