(* ===== verification/Pipeline.thy ===== *)
theory Pipeline
  imports Sniff Router
begin

text \<open>
  \<open>crates/omni-core/src/pipeline/executor.rs\<close>, \<open>run_tcp_route\<close> of
  \<open>listener_executor.rs\<close> and the counters of \<open>observability/mod.rs\<close>: what happens
  to an accepted TCP connection. Its first bytes are inspected, the router
  decides by the host found there, and the bytes are relayed. Connecting through
  an outbound is a parameter: it gives an error or what the remote end will send.
  \<open>copy_bidirectional\<close> of tokio copies each side to the other until both have ended;
  the writes of a connected pair do not fail.
\<close>

section \<open>Counters\<close>

record counters =
  connections_total :: u64
  bytes_up :: u64
  bytes_down :: u64

definition add_conn :: "counters \<Rightarrow> counters" where
  "add_conn c = c\<lparr>connections_total := connections_total c + 1\<rparr>"

definition add_up :: "nat \<Rightarrow> counters \<Rightarrow> counters" where
  "add_up n c = c\<lparr>bytes_up := bytes_up c + word_of_nat n\<rparr>"

definition add_down :: "nat \<Rightarrow> counters \<Rightarrow> counters" where
  "add_down n c = c\<lparr>bytes_down := bytes_down c + word_of_nat n\<rparr>"

definition counters_snapshot :: "counters \<Rightarrow> string \<rightharpoonup> u64" where
  "counters_snapshot c =
    [''connections'' \<mapsto> connections_total c, ''bytes_up'' \<mapsto> bytes_up c, ''bytes_down'' \<mapsto> bytes_down c]"

section \<open>Relaying a connection\<close>

record 're pipeline_shared =
  ps_inbound_tag :: string
  ps_counters :: counters
  ps_router :: "'re router"

definition resolve_action ::
    "('re \<Rightarrow> string \<Rightarrow> bool) \<Rightarrow> 're pipeline_shared \<Rightarrow> proxy_target \<Rightarrow> string option \<Rightarrow> string \<Rightarrow> route_action" where
  "resolve_action is_match sh target sniffed_host inbound_tag =
    route is_match (ps_router sh) target sniffed_host inbound_tag"

text \<open>How a connection ended: the result of the task, what the client received, and
  which remote was reached through which outbound and what it received.\<close>

record tcp_end =
  te_result :: "io_error + unit"
  te_to_client :: bytes
  te_remote :: "(connector \<times> proxy_target \<times> bytes) option"

definition execute_tcp ::
    "(connector \<Rightarrow> proxy_target \<Rightarrow> io_error + bytes) \<Rightarrow> route_action \<Rightarrow> read_event list \<Rightarrow> proxy_target \<Rightarrow> bytes
     \<Rightarrow> counters \<Rightarrow> tcp_end \<times> counters" where
  "execute_tcp connect action client target pre_read cnt =
    (case action of
       Reject \<Rightarrow> (\<lparr>te_result = Inr (), te_to_client = [], te_remote = None\<rparr>, cnt)
     | Hijack resp \<Rightarrow> (\<lparr>te_result = Inr (), te_to_client = resp, te_remote = None\<rparr>, cnt)
     | Proxy c \<Rightarrow>
         (case connect c target of
            Inl e \<Rightarrow> (\<lparr>te_result = Inl e, te_to_client = [], te_remote = None\<rparr>, cnt)
          | Inr reply \<Rightarrow>
              let up = event_bytes client in
              (\<lparr>te_result = Inr (), te_to_client = reply, te_remote = Some (c, target, pre_read @ up)\<rparr>,
               add_down (length reply) (add_up (length up) cnt))))"

definition domain_of :: "proxy_target \<Rightarrow> string option" where
  "domain_of t = (case t of Domain h p \<Rightarrow> Some h | Tcp a \<Rightarrow> None)"

definition run_tcp_route ::
    "('re \<Rightarrow> string \<Rightarrow> bool) \<Rightarrow> (connector \<Rightarrow> proxy_target \<Rightarrow> io_error + bytes) \<Rightarrow> 're pipeline_shared
     \<Rightarrow> read_event list \<Rightarrow> proxy_target \<Rightarrow> bytes \<Rightarrow> (tcp_end \<times> counters) rs" where
  "run_tcp_route is_match connect sh stream target pre_read =
    rs_bind (inspect_stream stream) (\<lambda>(sniffed, stream').
      let host_owned = or_else (so_host sniffed) (domain_of target);
          action = resolve_action is_match sh target host_owned (ps_inbound_tag sh);
          pre = pre_read @ so_consumed sniffed
      in Ret (execute_tcp connect action stream' target pre (ps_counters sh)))"

section \<open>Properties\<close>

lemma inspect_stream_bytes:
  "inspect_stream es = Ret (out, es') \<Longrightarrow> so_consumed out @ event_bytes es' = event_bytes es"
  using inspect_loop_bytes [of "[]"] by (simp add: inspect_stream_def)

lemma relay_transparent:
  assumes "inspect_stream stream = Ret (sniffed, stream')"
    and "route is_match (ps_router sh) target (or_else (so_host sniffed) (domain_of target)) (ps_inbound_tag sh) = Proxy c"
    and "connect c target = Inr reply"
  shows "run_tcp_route is_match connect sh stream target pre_read =
    Ret (\<lparr>te_result = Inr (), te_to_client = reply, te_remote = Some (c, target, pre_read @ event_bytes stream)\<rparr>,
      add_down (length reply) (add_up (length (event_bytes stream) - length (so_consumed sniffed)) (ps_counters sh)))"
proof -
  have b: "event_bytes stream = so_consumed sniffed @ event_bytes stream'"
    using inspect_stream_bytes [OF assms(1)] by simp
  then show ?thesis
    using assms by (simp add: run_tcp_route_def resolve_action_def execute_tcp_def Let_def)
qed

text \<open>Property C11: a relayed connection is transparent. Whatever the inspection found and however
  the bytes of the client arrived, the outbound chosen for the inspected host
  (the domain of the target when there is none) is asked for the target, the
  remote receives exactly the bytes the client sent, in order, and the client exactly
  those the remote sent. The upload counter misses the inspected bytes.\<close>

theorem tcp_relay_transparent:
  assumes "inspect_stream stream = Ret (sniffed, stream')"
    and "route is_match (ps_router sh) target (or_else (so_host sniffed) (domain_of target)) (ps_inbound_tag sh) = Proxy c"
    and "connect c target = Inr reply"
  shows "run_tcp_route is_match connect sh stream target pre_read =
    Ret (\<lparr>te_result = Inr (), te_to_client = reply, te_remote = Some (c, target, pre_read @ event_bytes stream)\<rparr>,
      add_down (length reply) (add_up (length (event_bytes stream) - length (so_consumed sniffed)) (ps_counters sh)))"
  by (rule relay_transparent [where connect = connect, OF assms])

definition sample_shared :: "unit pipeline_shared" where
  "sample_shared =
    \<lparr>ps_inbound_tag = ''in'',
     ps_counters = \<lparr>connections_total = 1, bytes_up = 0, bytes_down = 0\<rparr>,
     ps_router = \<lparr>entries = [], connectors = [''out'' \<mapsto> DirectOutbound], default_tag = Some ''out'', geo = no_geo\<rparr>\<rparr>"

theorem tcp_relay_transparent_witness:
  "run_tcp_route (\<lambda>_ _. False) (\<lambda>_ _. Inr [9]) sample_shared [Got [1, 2], Quiet, Got [3]] (Domain ''a'' 80) [] =
    Ret (\<lparr>te_result = Inr (), te_to_client = [9],
        te_remote = Some (DirectOutbound, Domain ''a'' 80, [] @ event_bytes [Got [1, 2], Quiet, Got [3]])\<rparr>,
      add_down (length [9 :: byte]) (add_up (length (event_bytes [Got [1, 2], Quiet, Got [3]]) - length [1 :: byte, 2])
        (ps_counters sample_shared)))"
proof -
  have c: "try_classify [] = Ret None" "try_classify [1, 2] = Ret None"
    by (simp_all add: try_classify_def classify_http_def is_tls_record_def looks_like_http_def http_methods_def as_bytes_def)
  have i: "inspect_stream [Got [1, 2], Quiet, Got [3]] = Ret (unknown_outcome [1, 2], [Got [3]])"
    by (simp add: inspect_stream_def inspect_loop.simps c)
  have "route (\<lambda>_ _. False) (ps_router sample_shared) (Domain ''a'' 80)
      (or_else (so_host (unknown_outcome [1, 2])) (domain_of (Domain ''a'' 80))) (ps_inbound_tag sample_shared)
      = Proxy DirectOutbound"
    by (simp add: route_def sample_shared_def Let_def)
  from tcp_relay_transparent [OF i this, of "\<lambda>_ _. Inr [9]" "[9]" "[]"] show ?thesis
    by (simp add: unknown_outcome_def)
qed

text \<open>The counters are otherwise unchanged: a connection that is rejected, hijacked or
  cannot be connected counts nothing.\<close>

lemma tcp_not_relayed:
  assumes "inspect_stream stream = Ret (sniffed, stream')"
    and "\<nexists>c reply. resolve_action is_match sh target (or_else (so_host sniffed) (domain_of target)) (ps_inbound_tag sh)
        = Proxy c \<and> connect c target = Inr reply"
  shows "\<exists>t. run_tcp_route is_match connect sh stream target pre_read = Ret (t, ps_counters sh) \<and> te_remote t = None"
  using assms
  by (auto simp: run_tcp_route_def execute_tcp_def Let_def split: route_action.splits sum.splits)

end
