(* ===== verification/OnlineTracker.thy ===== *)
theory OnlineTracker
  imports Prelude
begin

text \<open>
  \<open>crates/omni-core/src/observability/online_tracker.rs\<close>: how many users are
  online. The map of connection counts is a concurrent one: an entry is locked
  while it is changed, but going offline takes three steps with the lock
  released in between (count down, lower the total, remove the entry when it
  is not positive), and the steps of different tasks interleave.
\<close>

section \<open>Steps\<close>

record tracker =
  by_user :: "string \<rightharpoonup> int"
  tr_total :: u64

definition tracker_new :: tracker where
  "tracker_new = \<lparr>by_user = Map.empty, tr_total = 0\<rparr>"

text \<open>\<open>mark_online\<close> keeps the entry locked until the total is raised.\<close>

definition mark_online :: "string \<Rightarrow> tracker \<Rightarrow> tracker" where
  "mark_online u t =
    (let prev = (case by_user t u of Some c \<Rightarrow> c + 1 | None \<Rightarrow> 1)
     in \<lparr>by_user = (by_user t)(u \<mapsto> prev), tr_total = (if prev = 1 then tr_total t + 1 else tr_total t)\<rparr>)"

text \<open>The first step of \<open>mark_offline\<close>: the new map and whether the task goes on.\<close>

definition count_down :: "string \<Rightarrow> tracker \<Rightarrow> tracker \<times> bool" where
  "count_down u t =
    (case by_user t u of
       None \<Rightarrow> (t, False)
     | Some c \<Rightarrow> (t\<lparr>by_user := (by_user t)(u \<mapsto> c - 1)\<rparr>, c - 1 \<le> 0))"

definition lower_total :: "tracker \<Rightarrow> tracker" where
  "lower_total t = t\<lparr>tr_total := tr_total t - 1\<rparr>"

definition remove_if_idle :: "string \<Rightarrow> tracker \<Rightarrow> tracker" where
  "remove_if_idle u t =
    (case by_user t u of
       Some c \<Rightarrow> if c \<le> 0 then t\<lparr>by_user := (by_user t)(u := None)\<rparr> else t
     | None \<Rightarrow> t)"

definition mark_offline :: "string \<Rightarrow> tracker \<Rightarrow> tracker" where
  "mark_offline u t =
    (case count_down u t of
       (t', True) \<Rightarrow> remove_if_idle u (lower_total t')
     | (t', False) \<Rightarrow> t')"

definition tracker_snapshot :: "tracker \<Rightarrow> string \<rightharpoonup> int" where
  "tracker_snapshot t = by_user t"

definition online_total :: "tracker \<Rightarrow> u64" where
  "online_total t = tr_total t"

section \<open>Interleavings\<close>

text \<open>The state of all tasks: the tracker, for every user the connections that are marked
  online, the tasks that are about to lower the total and those that are about
  to remove an entry. A connection is marked offline once, after it was marked online.\<close>

record tasks =
  ts_tracker :: tracker
  ts_live :: "string list"
  ts_lowering :: "string list"
  ts_removing :: "string list"

inductive task_step :: "tasks \<Rightarrow> tasks \<Rightarrow> bool" where
  online: "task_step s (s\<lparr>ts_tracker := mark_online u (ts_tracker s), ts_live := u # ts_live s\<rparr>)"
| down: "u \<in> set (ts_live s) \<Longrightarrow> count_down u (ts_tracker s) = (t, False) \<Longrightarrow>
    task_step s (s\<lparr>ts_tracker := t, ts_live := remove1 u (ts_live s)\<rparr>)"
| down_last: "u \<in> set (ts_live s) \<Longrightarrow> count_down u (ts_tracker s) = (t, True) \<Longrightarrow>
    task_step s (s\<lparr>ts_tracker := t, ts_live := remove1 u (ts_live s), ts_lowering := u # ts_lowering s\<rparr>)"
| lower: "u \<in> set (ts_lowering s) \<Longrightarrow>
    task_step s (s\<lparr>ts_tracker := lower_total (ts_tracker s), ts_lowering := remove1 u (ts_lowering s),
      ts_removing := u # ts_removing s\<rparr>)"
| remove: "u \<in> set (ts_removing s) \<Longrightarrow>
    task_step s (s\<lparr>ts_tracker := remove_if_idle u (ts_tracker s), ts_removing := remove1 u (ts_removing s)\<rparr>)"

inductive tasks_reachable :: "tasks \<Rightarrow> bool" where
  start: "tasks_reachable \<lparr>ts_tracker = tracker_new, ts_live = [], ts_lowering = [], ts_removing = []\<rparr>"
| step: "tasks_reachable s \<Longrightarrow> task_step s s' \<Longrightarrow> tasks_reachable s'"

text \<open>Every count is the number of live connections of its user, and the total is the
  number of users with a live connection, plus the tasks that have yet to lower it.\<close>

definition user_count :: "tracker \<Rightarrow> string \<Rightarrow> int" where
  "user_count t u = (case by_user t u of None \<Rightarrow> 0 | Some c \<Rightarrow> c)"

definition counts_ok :: "tracker \<Rightarrow> string list \<Rightarrow> bool" where
  "counts_ok t live \<longleftrightarrow> (\<forall>u. user_count t u = int (count_list live u))"

definition tasks_inv :: "tasks \<Rightarrow> bool" where
  "tasks_inv s \<longleftrightarrow>
    counts_ok (ts_tracker s) (ts_live s)
    \<and> tr_total (ts_tracker s) = word_of_nat (card (set (ts_live s)) + length (ts_lowering s))"

lemma mark_online_count:
  "user_count (mark_online u t) v = user_count t v + (if v = u then 1 else 0)"
  "tr_total (mark_online u t) = (if user_count t u = 0 then tr_total t + 1 else tr_total t)"
  by (auto simp: mark_online_def user_count_def Let_def split: option.splits)

lemma counts_ok_online:
  assumes "counts_ok t live"
  shows "counts_ok (mark_online u t) (u # live)"
    and "tr_total (mark_online u t) = (if u \<in> set live then tr_total t else tr_total t + 1)"
proof -
  show "counts_ok (mark_online u t) (u # live)"
    using assms by (simp add: counts_ok_def mark_online_count)
  have "user_count t u = 0 \<longleftrightarrow> u \<notin> set live"
    using assms count_list_0_iff [of live u] by (simp add: counts_ok_def)
  then show "tr_total (mark_online u t) = (if u \<in> set live then tr_total t else tr_total t + 1)"
    by (simp add: mark_online_count)
qed

lemma count_down_positive:
  assumes "0 < user_count t u" "count_down u t = (t', b)"
  shows "user_count t' v = user_count t v - (if v = u then 1 else 0)" "tr_total t' = tr_total t"
    "b \<longleftrightarrow> user_count t u = 1"
proof -
  obtain c where "by_user t u = Some c" using assms(1) by (auto simp: user_count_def split: option.splits)
  then show "user_count t' v = user_count t v - (if v = u then 1 else 0)" "tr_total t' = tr_total t"
      "b \<longleftrightarrow> user_count t u = 1"
    using assms by (auto simp: count_down_def user_count_def)
qed

lemma count_list_remove1_other: "v \<noteq> u \<Longrightarrow> count_list (remove1 u xs) v = count_list xs v"
  by (induction xs) auto

lemma counts_ok_down:
  assumes "counts_ok t live" "u \<in> set live" "count_down u t = (t', b)"
  shows "counts_ok t' (remove1 u live)" "tr_total t' = tr_total t" "b \<longleftrightarrow> u \<notin> set (remove1 u live)"
proof -
  have pos: "0 < count_list live u" using assms(2) count_list_0_iff [of live u] by auto
  then have u: "0 < user_count t u" using assms(1) by (simp add: counts_ok_def)
  have self: "count_list (remove1 u live) u = count_list live u - 1" by simp
  show "tr_total t' = tr_total t" by (rule count_down_positive(2) [OF u assms(3)])
  have "user_count t' v = int (count_list (remove1 u live) v)" for v
    using count_down_positive(1) [OF u assms(3), of v] assms(1) pos self count_list_remove1_other [of v u live]
    by (cases "v = u") (auto simp: counts_ok_def)
  then show "counts_ok t' (remove1 u live)" by (simp add: counts_ok_def)
  have "b \<longleftrightarrow> count_list live u = 1"
    using count_down_positive(3) [OF u assms(3)] assms(1) by (simp add: counts_ok_def)
  then show "b \<longleftrightarrow> u \<notin> set (remove1 u live)"
    using pos self count_list_0_iff [of "remove1 u live" u] by auto
qed

lemma counts_ok_remove:
  assumes "counts_ok t live"
  shows "counts_ok (remove_if_idle u t) live" "tr_total (remove_if_idle u t) = tr_total t"
proof -
  have "0 \<le> user_count t v" for v using assms by (simp add: counts_ok_def)
  then have "user_count (remove_if_idle u t) v = user_count t v" for v
    by (auto simp: remove_if_idle_def user_count_def split: option.splits)
      (metis option.simps(5) order_antisym user_count_def)
  then show "counts_ok (remove_if_idle u t) live" using assms by (simp add: counts_ok_def)
  show "tr_total (remove_if_idle u t) = tr_total t"
    by (simp add: remove_if_idle_def split: option.splits)
qed

lemma set_remove1_still: "u \<in> set (remove1 u xs) \<Longrightarrow> set (remove1 u xs) = set xs"
  by (induction xs) auto

lemma set_remove1_gone: "u \<in> set xs \<Longrightarrow> u \<notin> set (remove1 u xs) \<Longrightarrow> set (remove1 u xs) = set xs - {u}"
  by (induction xs) (auto split: if_splits)

lemma task_step_inv:
  assumes "task_step s s'" "tasks_inv s"
  shows "tasks_inv s'"
  using assms(1)
proof cases
  case (online u)
  have ok: "counts_ok (ts_tracker s) (ts_live s)" using assms(2) by (simp add: tasks_inv_def)
  show ?thesis
    using assms(2) counts_ok_online [OF ok, of u] by (simp add: tasks_inv_def online insert_absorb)
next
  case (down u t)
  have ok: "counts_ok (ts_tracker s) (ts_live s)" using assms(2) by (simp add: tasks_inv_def)
  note d = counts_ok_down [OF ok down(2,3)]
  have "set (remove1 u (ts_live s)) = set (ts_live s)" using d(3) by (intro set_remove1_still) simp
  then show ?thesis using assms(2) d(1,2) by (simp add: tasks_inv_def down(1))
next
  case (down_last u t)
  have ok: "counts_ok (ts_tracker s) (ts_live s)" using assms(2) by (simp add: tasks_inv_def)
  note d = counts_ok_down [OF ok down_last(2,3)]
  have "set (remove1 u (ts_live s)) = set (ts_live s) - {u}"
    using d(3) by (intro set_remove1_gone down_last(2)) simp
  then have "card (set (ts_live s)) = Suc (card (set (remove1 u (ts_live s))))"
    using down_last(2) by (metis List.finite_set card.remove)
  then show ?thesis using assms(2) d(1,2) by (simp add: tasks_inv_def down_last(1))
next
  case (lower u)
  then have "length (ts_lowering s) = Suc (length (remove1 u (ts_lowering s)))"
    using length_pos_if_in_set [OF lower(2)] by (simp add: length_remove1)
  then show ?thesis
    using assms(2) by (simp add: tasks_inv_def lower(1) lower_total_def counts_ok_def user_count_def)
next
  case (remove u)
  have ok: "counts_ok (ts_tracker s) (ts_live s)" using assms(2) by (simp add: tasks_inv_def)
  show ?thesis
    using assms(2) counts_ok_remove [OF ok, of u] by (simp add: tasks_inv_def remove(1))
qed

lemma tasks_reachable_inv: "tasks_reachable s \<Longrightarrow> tasks_inv s"
proof (induction rule: tasks_reachable.induct)
  case start
  then show ?case by (simp add: tasks_inv_def counts_ok_def user_count_def tracker_new_def)
next
  case (step s s')
  then show ?case using task_step_inv by blast
qed

text \<open>Property C15: for every interleaving of connections that come and go, the tracker
  counts for each user exactly its live connections, and when no task is in the
  middle of going offline the total is the number of users that are online.\<close>

theorem online_tracker_counts:
  assumes "tasks_reachable s"
  shows "user_count (ts_tracker s) u = int (count_list (ts_live s) u)
    \<and> (ts_lowering s = [] \<longrightarrow> online_total (ts_tracker s) = word_of_nat (card (set (ts_live s))))"
  using tasks_reachable_inv [OF assms] by (auto simp: tasks_inv_def counts_ok_def online_total_def)

theorem online_tracker_counts_witness:
  "\<exists>s. tasks_reachable s \<and> ts_live s = [''a''] \<and> online_total (ts_tracker s) = 1"
proof -
  let ?s0 = "\<lparr>ts_tracker = tracker_new, ts_live = [], ts_lowering = [], ts_removing = []\<rparr>"
  let ?s = "?s0\<lparr>ts_tracker := mark_online ''a'' (ts_tracker ?s0), ts_live := ''a'' # ts_live ?s0\<rparr>"
  have r: "tasks_reachable ?s"
    by (rule tasks_reachable.step [OF tasks_reachable.start task_step.online])
  from online_tracker_counts [OF r, of "''a''"] show ?thesis
    using r by (intro exI [of _ ?s]) simp
qed

text \<open>Run without interruption, \<open>mark_offline\<close> undoes \<open>mark_online\<close>.\<close>

lemma offline_after_online:
  assumes "user_count t u = 0" "by_user t u = None"
  shows "mark_offline u (mark_online u t) = t"
  using assms
  by (simp add: mark_online_def mark_offline_def count_down_def lower_total_def remove_if_idle_def
      user_count_def fun_upd_idem)

end
