(* ===== verification/Connectors.thy ===== *)
theory Connectors
  imports AnyTlsPeer Router
begin

text \<open>
  The connecting side of \<open>outbound_artifacts.rs\<close> and \<open>crates/omni-transport/src/dial.rs\<close>:
  resolving and dialling a server, the layers of \<open>dial_with_transport\<close>, the pooled session of the
  AnyTLS and Hysteria2 connectors with its one retry, and the CONNECT handshake of the
  HTTP connector. Name resolution, TCP, TLS, the multiplexer and the HTTP transports are
  parameters, and so is base64.
\<close>

section \<open>Dialling\<close>

definition dialer_resolve :: "(string \<Rightarrow> u16 \<Rightarrow> io_error + socket_addr list) \<Rightarrow> proxy_target \<Rightarrow> io_error + socket_addr" where
  "dialer_resolve resolver target =
    (case target of
       Tcp a \<Rightarrow> Inr a
     | Domain h p \<Rightarrow>
         (case resolver h p of
            Inl e \<Rightarrow> Inl e
          | Inr [] \<Rightarrow> Inl (IoError NotFound ''dns: no address records found'')
          | Inr (a # _) \<Rightarrow> Inr a))"

definition resolve_server_addr ::
    "(string \<Rightarrow> u16 \<Rightarrow> io_error + socket_addr list) \<Rightarrow> string \<Rightarrow> u16 \<Rightarrow> io_error + socket_addr" where
  "resolve_server_addr resolver server port = dialer_resolve resolver (Domain server port)"

definition server_name_for :: "string \<Rightarrow> string option \<Rightarrow> string" where
  "server_name_for host override =
    takeWhile (\<lambda>c. c \<noteq> CHR '':'') (case override of Some n \<Rightarrow> n | None \<Rightarrow> host)"

text \<open>The layers a connection goes through, from the TCP connection outwards.\<close>

datatype out_layer =
    OutTcp socket_addr
  | OutTls string bool "string list"
  | OutMux
  | OutWs "string option" "string option" proxy_target
  | OutGrpc string "string option" proxy_target
  | OutXhttp "string option" "string option" proxy_target
  | OutH2 string string
  | OutNaive string

text \<open>The network: how an attempt to connect or to shake hands ends, within its time or not, what the TLS library says of a
  configuration and of a server name (\<open>None\<close>: valid), and whether a layer over the connection comes up.\<close>

datatype attempt_end = Completed | Refused io_error | Expired

record net_env =
  ne_resolver :: "string \<Rightarrow> u16 \<Rightarrow> io_error + socket_addr list"
  ne_connect :: "socket_addr \<Rightarrow> attempt_end"
  ne_tls_config :: "tls_client_spec \<Rightarrow> string option"
  ne_bad_name :: "string \<Rightarrow> string option"
  ne_tls :: "tls_client_spec \<Rightarrow> string \<Rightarrow> attempt_end"
  ne_upgrade :: "out_layer \<Rightarrow> io_error option"

definition within_time :: "string \<Rightarrow> attempt_end \<Rightarrow> io_error option" where
  "within_time msg r = (case r of Completed \<Rightarrow> None | Refused e \<Rightarrow> Some e | Expired \<Rightarrow> Some (IoError TimedOut msg))"

definition dial_tcp :: "net_env \<Rightarrow> proxy_target \<Rightarrow> io_error + socket_addr" where
  "dial_tcp ne target =
    (case dialer_resolve (ne_resolver ne) target of
       Inl e \<Rightarrow> Inl e
     | Inr a \<Rightarrow> (case within_time ''dial: timeout'' (ne_connect ne a) of Some e \<Rightarrow> Inl e | None \<Rightarrow> Inr a))"

definition bind_udp_for :: "net_env \<Rightarrow> proxy_target \<Rightarrow> io_error + string" where
  "bind_udp_for ne target =
    map_sum id (\<lambda>a. case sa_ip a of IpV4 _ \<Rightarrow> ''0.0.0.0:0'' | IpV6 _ \<Rightarrow> ''[::]:0'') (dialer_resolve (ne_resolver ne) target)"

text \<open>Resolving the server and connecting to it, as \<open>dial_underlay\<close> and the Shadowsocks, mieru and HTTP connectors do.\<close>

definition connect_server :: "net_env \<Rightarrow> string \<Rightarrow> u16 \<Rightarrow> io_error + socket_addr" where
  "connect_server ne server port =
    (case resolve_server_addr (ne_resolver ne) server port of
       Inl e \<Rightarrow> Inl e
     | Inr a \<Rightarrow> (case within_time ''dial: timeout'' (ne_connect ne a) of Some e \<Rightarrow> Inl e | None \<Rightarrow> Inr a))"

definition dial_tls :: "net_env \<Rightarrow> string \<Rightarrow> tls_client_spec \<Rightarrow> io_error + out_layer" where
  "dial_tls ne server spec =
    (case ne_tls_config ne spec of
       Some e \<Rightarrow> Inl (io_err e)
     | None \<Rightarrow>
         let name = server_name_for server (cs_sni_override spec) in
         (case ne_bad_name ne name of
            Some e \<Rightarrow> Inl (IoError InvalidData (''tls: bad server name '' @ [CHR 0x27] @ name @ [CHR 0x27] @ '': '' @ e))
          | None \<Rightarrow>
              (case within_time ''tls: handshake timeout'' (ne_tls ne spec name) of
                 Some e \<Rightarrow> Inl e
               | None \<Rightarrow> Inr (OutTls name (cs_skip_verify spec) (cs_alpn spec)))))"

definition dial_underlay :: "net_env \<Rightarrow> string \<Rightarrow> u16 \<Rightarrow> tls_client_spec option \<Rightarrow> io_error + out_layer list" where
  "dial_underlay ne server port tls =
    (case connect_server ne server port of
       Inl e \<Rightarrow> Inl e
     | Inr a \<Rightarrow>
         (case tls of
            None \<Rightarrow> Inr [OutTcp a]
          | Some spec \<Rightarrow> map_sum id (\<lambda>l. [OutTcp a, l]) (dial_tls ne server spec)))"

definition transport_layer :: "string \<Rightarrow> u16 \<Rightarrow> transport_spec \<Rightarrow> io_error + out_layer" where
  "transport_layer server port t =
    (let k = ts_kind t; target = Domain server port in
     if k = ''ws'' \<or> k = ''websocket'' then Inr (OutWs (ts_host t) (ts_path t) target)
     else if k = ''grpc'' then
       Inr (OutGrpc (case ts_service_name t of Some s \<Rightarrow> s | None \<Rightarrow> ''GunService'') (ts_host t) target)
     else if k = ''xhttp'' then Inr (OutXhttp (ts_path t) (ts_host t) target)
     else if k = ''h2'' then
       Inr (OutH2 (case ts_host t of Some h \<Rightarrow> h | None \<Rightarrow> server) (case ts_path t of Some q \<Rightarrow> q | None \<Rightarrow> ''/''))
     else Inl (IoError Unsupported (''transport '' @ [CHR 0x27] @ k @ [CHR 0x27] @ '' not yet implemented'')))"

text \<open>With a pool, the stream of a multiplexed session takes the place of the connection; \<open>pool\<close> stands for
  \<open>MuxPool::dial\<close>, which gets the connection it may need and may use an older one instead.\<close>

definition dial_with_transport ::
    "net_env \<Rightarrow> string \<Rightarrow> u16 \<Rightarrow> tls_client_spec option \<Rightarrow> transport_spec option
     \<Rightarrow> ((io_error + out_layer list) \<Rightarrow> io_error + out_layer list) option \<Rightarrow> io_error + out_layer list" where
  "dial_with_transport ne server port tls transport pool =
    (case (case pool of
             None \<Rightarrow> dial_underlay ne server port tls
           | Some dial \<Rightarrow> map_sum id (\<lambda>ls. ls @ [OutMux]) (dial (dial_underlay ne server port tls))) of
       Inl e \<Rightarrow> Inl e
     | Inr lower \<Rightarrow>
         (case transport of
            None \<Rightarrow> Inr lower
          | Some t \<Rightarrow>
              (case transport_layer server port t of
                 Inl e \<Rightarrow> Inl e
               | Inr l \<Rightarrow> (case ne_upgrade ne l of Some e \<Rightarrow> Inl e | None \<Rightarrow> Inr (lower @ [l])))))"

section \<open>Pooled sessions\<close>

record 's session_slot =
  sl_session :: "'s option"
  sl_dials :: nat

text \<open>\<open>dial n\<close> is the outcome of the \<open>n\<close>-th attempt to connect a new session.\<close>

definition get_session :: "(nat \<Rightarrow> io_error + 's) \<Rightarrow> 's session_slot \<Rightarrow> (io_error + 's) \<times> 's session_slot" where
  "get_session dial sl =
    (case sl_session sl of
       Some s \<Rightarrow> (Inr s, sl)
     | None \<Rightarrow>
         (case dial (sl_dials sl) of
            Inl e \<Rightarrow> (Inl e, sl\<lparr>sl_dials := Suc (sl_dials sl)\<rparr>)
          | Inr s \<Rightarrow> (Inr s, \<lparr>sl_session = Some s, sl_dials = Suc (sl_dials sl)\<rparr>)))"

text \<open>Eviction gives up when another task holds the lock of the slot.\<close>

definition evict_session :: "bool \<Rightarrow> 's session_slot \<Rightarrow> 's session_slot" where
  "evict_session lock_free sl = (if lock_free then sl\<lparr>sl_session := None\<rparr> else sl)"

text \<open>The loop over the attempts; its end is the \<open>unreachable!\<close> of the code. Opening a stream
  changes the session, which the slot shares.\<close>

fun pooled_attempts ::
    "(nat \<Rightarrow> io_error + 's) \<Rightarrow> (proxy_target \<Rightarrow> 's \<Rightarrow> (io_error + 'st) \<times> 's) \<Rightarrow> bool \<Rightarrow> proxy_target
     \<Rightarrow> nat list \<Rightarrow> 's session_slot \<Rightarrow> (io_error + 'st) rs \<times> 's session_slot" where
  "pooled_attempts dial opn lock_free target [] sl = (Panic, sl)"
| "pooled_attempts dial opn lock_free target (attempt # as) sl =
    (case get_session dial sl of
       (Inl e, sl1) \<Rightarrow> (Ret (Inl e), sl1)
     | (Inr s, sl1) \<Rightarrow>
         (case opn target s of
            (Inr st, s') \<Rightarrow> (Ret (Inr st), sl1\<lparr>sl_session := Some s'\<rparr>)
          | (Inl e, s') \<Rightarrow>
              if attempt = 0
              then pooled_attempts dial opn lock_free target as (evict_session lock_free (sl1\<lparr>sl_session := Some s'\<rparr>))
              else (Ret (Inl e), sl1\<lparr>sl_session := Some s'\<rparr>)))"

definition connect_pooled ::
    "(nat \<Rightarrow> io_error + 's) \<Rightarrow> (proxy_target \<Rightarrow> 's \<Rightarrow> (io_error + 'st) \<times> 's) \<Rightarrow> bool \<Rightarrow> proxy_target
     \<Rightarrow> 's session_slot \<Rightarrow> (io_error + 'st) rs \<times> 's session_slot" where
  "connect_pooled dial opn lock_free target sl = pooled_attempts dial opn lock_free target [0, 1] sl"

lemma connect_pooled_returns: "fst (connect_pooled dial opn lock_free target sl) \<noteq> Panic"
  by (simp add: connect_pooled_def split: prod.splits sum.splits)

text \<open>What the connector relies on: a session that was just connected is alive, and a live session opens
  streams to the targets it can name and stays alive.\<close>

locale session_pool =
  fixes dial :: "nat \<Rightarrow> io_error + 's"
    and opn :: "proxy_target \<Rightarrow> 's \<Rightarrow> (io_error + 'st) \<times> 's"
    and alive :: "'s \<Rightarrow> bool"
    and reachable :: "proxy_target \<Rightarrow> bool"
  assumes dialled: "dial n = Inr s \<Longrightarrow> alive s"
    and opens: "alive s \<Longrightarrow> reachable t \<Longrightarrow> \<exists>st s'. opn t s = (Inr st, s') \<and> alive s'"
begin

lemma reuses:
  assumes "sl_session sl = Some s" "alive s" "reachable t"
  shows "\<exists>st sl'. connect_pooled dial opn lf t sl = (Ret (Inr st), sl') \<and> sl_dials sl' = sl_dials sl"
  using opens [OF assms(2,3)] assms(1) by (auto simp: connect_pooled_def get_session_def)

lemma attempt_fresh:
  assumes "sl_session sl = None" "dial (sl_dials sl) = Inr s" "reachable t"
  shows "\<exists>st sl'. pooled_attempts dial opn lf t (a # as) sl = (Ret (Inr st), sl')
    \<and> sl_dials sl' = Suc (sl_dials sl)"
  using opens [OF dialled [OF assms(2)] assms(3)] assms by (auto simp: get_session_def)

lemma recovers:
  assumes "dial (sl_dials sl) = Inr s" "reachable t"
  shows "\<exists>st sl'. connect_pooled dial opn True t sl = (Ret (Inr st), sl') \<and> sl_dials sl' \<le> Suc (sl_dials sl)"
proof (cases "sl_session sl")
  case None
  then show ?thesis
    using attempt_fresh [OF None assms, of True 0 "[1]"] by (auto simp: connect_pooled_def)
next
  case (Some s0)
  obtain r s' where o: "opn t s0 = (r, s')" by fastforce
  show ?thesis
  proof (cases r)
    case (Inr st)
    then show ?thesis using Some o by (simp add: connect_pooled_def get_session_def)
  next
    case (Inl e)
    then show ?thesis
      using Some o attempt_fresh [of "sl\<lparr>sl_session := None\<rparr>" s t True 1 "[]"] assms
      by (fastforce simp: connect_pooled_def get_session_def evict_session_def)
  qed
qed

end

text \<open>The AnyTLS connector: a new session is a connection to the server over which the settings are
  sent; a session is alive while its writing task runs.\<close>

definition anytls_dial ::
    "(bytes \<Rightarrow> bytes) \<Rightarrow> string \<Rightarrow> string \<Rightarrow> (nat \<Rightarrow> io_error + unit) \<Rightarrow> nat \<Rightarrow> io_error + client_session" where
  "anytls_dial sha256 version password underlay n =
    map_sum id (\<lambda>_. connect_session sha256 version password) (underlay n)"

definition anytls_connect_tcp ::
    "(bytes \<Rightarrow> bytes) \<Rightarrow> string \<Rightarrow> string \<Rightarrow> (nat \<Rightarrow> io_error + unit) \<Rightarrow> bool \<Rightarrow> proxy_target
     \<Rightarrow> client_session session_slot \<Rightarrow> (io_error + astream) rs \<times> client_session session_slot" where
  "anytls_connect_tcp sha256 version password underlay lock_free target sl =
    connect_pooled (anytls_dial sha256 version password underlay) open_stream_to lock_free target sl"

definition session_alive :: "client_session \<Rightarrow> bool" where
  "session_alive cl \<longleftrightarrow> \<not> w_gone (cl_writer cl)"

lemma writer_alive: "w_gone (writer_push f w) = w_gone w" "w_gone (writer_step w) = w_gone w"
  by (simp_all add: writer_push_def writer_step_def split: list.splits)

lemma open_alive: "session_alive cl \<Longrightarrow> \<exists>st cl'. open_stream_to t cl = (Inr st, cl') \<and> session_alive cl'"
  by (simp add: session_alive_def open_stream_to_def send_wait_def Let_def writer_alive)

lemma dialled_alive: "anytls_dial sha256 version password underlay n = Inr s \<Longrightarrow> session_alive s"
  by (cases "underlay n") (auto simp: anytls_dial_def session_alive_def connect_session_def writer_alive)

interpretation anytls_pool: session_pool "anytls_dial sha256 version password underlay" open_stream_to session_alive "\<lambda>_. True"
  for sha256 version password underlay
  by unfold_locales (auto dest: dialled_alive open_alive)

text \<open>Property C31: the AnyTLS connector recovers from a dead session. Whatever session is pooled, or none, if
  the server can be reached once and no other task holds the slot, a connection
  request gives a stream, with at most one new connection.\<close>

theorem anytls_connector_recovers:
  assumes "underlay (sl_dials sl) = Inr ()"
  shows "\<exists>st sl'. anytls_connect_tcp sha256 version password underlay True target sl = (Ret (Inr st), sl')
    \<and> sl_dials sl' \<le> Suc (sl_dials sl)"
  unfolding anytls_connect_tcp_def
  by (rule anytls_pool.recovers) (simp_all add: anytls_dial_def assms)

theorem anytls_connector_recovers_witness:
  "\<exists>st sl'. anytls_connect_tcp (\<lambda>_. replicate 32 0) ''1'' ''pw'' (\<lambda>n. if n = 3 then Inr () else Inl early_eof) True
      (Domain ''a.b'' 443)
      \<lparr>sl_session = Some ((connect_session (\<lambda>_. replicate 32 0) ''1'' ''pw'')
          \<lparr>cl_writer := \<lparr>w_queue = [], w_wire = [], w_gone = True, w_log = []\<rparr>\<rparr>), sl_dials = 3\<rparr> = (Ret (Inr st), sl')
    \<and> sl_dials sl' \<le> Suc (sl_dials \<lparr>sl_session = Some ((connect_session (\<lambda>_. replicate 32 0) ''1'' ''pw'')
          \<lparr>cl_writer := \<lparr>w_queue = [], w_wire = [], w_gone = True, w_log = []\<rparr>\<rparr>), sl_dials = 3\<rparr>)"
  by (rule anytls_connector_recovers) simp

text \<open>When the lock is taken, the dead session stays in the slot and the retry fails on it as well.\<close>

lemma anytls_connector_stuck:
  assumes "sl_session sl = Some cl" "\<not> session_alive cl"
  shows "\<exists>sl'. anytls_connect_tcp sha256 version password underlay False target sl = (Ret (Inl session_gone), sl')
    \<and> sl_dials sl' = sl_dials sl"
proof -
  have d: "\<exists>cl'. open_stream_to target cl = (Inl session_gone, cl') \<and> \<not> session_alive cl'"
    if "\<not> session_alive cl" for cl
    using that by (simp add: session_alive_def open_stream_to_def send_wait_def Let_def)
  obtain c1 where 1: "open_stream_to target cl = (Inl session_gone, c1)" "\<not> session_alive c1"
    using d [OF assms(2)] by blast
  obtain c2 where 2: "open_stream_to target c1 = (Inl session_gone, c2)"
    using d [OF 1(2)] by blast
  show ?thesis
    using assms(1) 1(1) 2 by (simp add: anytls_connect_tcp_def connect_pooled_def get_session_def evict_session_def)
qed

section \<open>CONNECT through an HTTP proxy\<close>

definition show_socket_addr :: "socket_addr \<Rightarrow> string" where
  "show_socket_addr a =
    (case sa_ip a of
       IpV4 i \<Rightarrow> show_ipv4 i @ '':'' @ show_nat (unat (sa_port a))
     | IpV6 i \<Rightarrow> ''['' @ show_ipv6 i @ '']:'' @ show_nat (unat (sa_port a)))"

definition show_ip :: "ip_addr \<Rightarrow> string" where
  "show_ip a = (case a of IpV4 i \<Rightarrow> show_ipv4 i | IpV6 i \<Rightarrow> show_ipv6 i)"

definition target_host :: "proxy_target \<Rightarrow> string" where
  "target_host t = (case t of Tcp a \<Rightarrow> show_ip (sa_ip a) | Domain h _ \<Rightarrow> h)"

definition show_target :: "proxy_target \<Rightarrow> string" where
  "show_target t =
    (case t of Tcp a \<Rightarrow> show_socket_addr a | Domain h p \<Rightarrow> h @ '':'' @ show_nat (unat p))"

definition crlf_text :: string where
  "crlf_text = [CHR 0x0D, CHR 0x0A]"

definition connect_request :: "(string \<Rightarrow> string) \<Rightarrow> proxy_target \<Rightarrow> string option \<Rightarrow> string option \<Rightarrow> string" where
  "connect_request base64 target user pass =
    (let a = show_target target in
     ''CONNECT '' @ a @ '' HTTP/1.1'' @ crlf_text @ ''Host: '' @ a @ crlf_text
     @ (case user of
          None \<Rightarrow> []
        | Some u \<Rightarrow> ''Proxy-Authorization: Basic ''
            @ base64 (u @ '':'' @ (case pass of Some p \<Rightarrow> p | None \<Rightarrow> [])) @ crlf_text)
     @ crlf_text)"

fun has_head_end :: "bytes \<Rightarrow> bool" where
  "has_head_end (a # b # c # d # bs) =
    ([a, b, c, d] = [0x0D, 0x0A, 0x0D, 0x0A] \<or> has_head_end (b # c # d # bs))"
| "has_head_end _ = False"

text \<open>The response head over the successive reads: the buffer when the head is complete, and the
  reads that are still to come.\<close>

fun read_response_head :: "bytes \<Rightarrow> bytes list \<Rightarrow> io_error + bytes \<times> bytes list" where
  "read_response_head buf [] = Inl (IoError UnexpectedEof ''http proxy: closed during CONNECT'')"
| "read_response_head buf (r # rs) =
    (if r = [] then Inl (IoError UnexpectedEof ''http proxy: closed during CONNECT'')
     else if has_head_end (buf @ r) then Inr (buf @ r, rs)
     else if length (buf @ r) > 32 * 1024 then Inl (IoError InvalidData ''http proxy: oversized response'')
     else read_response_head (buf @ r) rs)"

definition first_line :: "string \<Rightarrow> string" where
  "first_line s =
    (let l = takeWhile (\<lambda>c. c \<noteq> CHR 0x0A) s
     in if l \<noteq> [] \<and> last l = CHR 0x0D \<and> CHR 0x0A \<in> set s then butlast l else l)"

function take_word :: "string \<Rightarrow> string \<times> string" where
  "take_word s =
    (if s = [] \<or> strip_one s \<noteq> None then ([], s)
     else (case take_word (tl s) of (w, r) \<Rightarrow> (hd s # w, r)))"
  by auto
termination
  by (relation "measure length") auto

declare take_word.simps [simp del]

definition second_word :: "string \<Rightarrow> string option" where
  "second_word l =
    (let r = snd (take_word (trim_start l)); w = fst (take_word (trim_start r))
     in if w = [] then None else Some w)"

definition response_status :: "bytes \<Rightarrow> string" where
  "response_status buf =
    (case second_word (first_line (from_utf8_lossy buf)) of Some w \<Rightarrow> w | None \<Rightarrow> ''500'')"

definition http_connect_handshake ::
    "(string \<Rightarrow> string) \<Rightarrow> proxy_target \<Rightarrow> string option \<Rightarrow> string option \<Rightarrow> bytes list
     \<Rightarrow> bytes \<times> (io_error + bytes list)" where
  "http_connect_handshake base64 target user pass reads =
    (as_bytes (connect_request base64 target user pass),
     case read_response_head [] reads of
       Inl e \<Rightarrow> Inl e
     | Inr (buf, later) \<Rightarrow>
         if response_status buf \<noteq> ''200''
         then Inl (IoError ConnectionRefused (''http proxy: CONNECT refused ('' @ response_status buf @ '')''))
         else Inr later)"

text \<open>The answer is decided by the reads up to the one that completes the head. What this read holds behind
  the head, the first bytes of the tunnel, is dropped with the buffer.\<close>

lemma read_response_head_Inr:
  assumes "read_response_head buf rs = Inr (b, later)" "\<not> has_head_end buf"
  shows "\<exists>used r. rs = used @ r # later \<and> b = buf @ concat used @ r \<and> has_head_end b
    \<and> \<not> has_head_end (buf @ concat used)"
  using assms
proof (induction buf rs rule: read_response_head.induct)
  case (2 buf r rs)
  show ?case
  proof (cases "has_head_end (buf @ r)")
    case True
    then show ?thesis using 2(2,3) by (auto intro!: exI [of _ "[]"] split: if_splits)
  next
    case False
    then have step: "read_response_head (buf @ r) rs = Inr (b, later)"
      "r \<noteq> []" "\<not> length (buf @ r) > 32 * 1024"
      using 2(2) by (auto split: if_splits)
    obtain used r' where "rs = used @ r' # later" "b = (buf @ r) @ concat used @ r'" "has_head_end b"
        "\<not> has_head_end ((buf @ r) @ concat used)"
      using 2(1) [OF step(2) False step(3) step(1) False] by blast
    then show ?thesis by (intro exI [of _ "r # used"] exI [of _ r']) simp
  qed
qed simp

end
