(* ===== verification/NodeBuilder.thy ===== *)
theory NodeBuilder
  imports SocksProto Trojan Router Shadowsocks
begin

text \<open>
  \<open>crates/omni-core/src/runtime/assembly/node_builder.rs\<close> and the choice of the
  certificate in \<open>crates/omni-transport/src/tls/mod.rs\<close>: the inbound nodes of the
  configuration become listener plans. SHA-224, the file system and the
  generation of a self-signed certificate are parameters (\<open>build_env\<close>); a generated
  certificate differs from call to call, so the generator gets the number of
  the node and which of the two calls it is.
\<close>

section \<open>Certificates\<close>

record server_cert_material =
  cert_pem :: bytes
  key_pem_bytes :: bytes

record tls_spec_view =
  tv_cert_mode :: "string option"
  tv_cert_domain :: "string option"
  tv_cert_file :: "string option"
  tv_key_file :: "string option"
  tv_cert_content :: "string option"
  tv_key_content :: "string option"

record build_env =
  be_sha224 :: "bytes \<Rightarrow> bytes"
  be_read_file :: "string \<Rightarrow> string + bytes"
  be_self_signed :: "nat \<times> bool \<Rightarrow> string \<Rightarrow> string + server_cert_material"

definition unwrap_or_default :: "string option \<Rightarrow> string" where
  "unwrap_or_default x = (case x of Some s \<Rightarrow> s | None \<Rightarrow> [])"

definition read_pem :: "build_env \<Rightarrow> string \<Rightarrow> string + bytes" where
  "read_pem env path =
    (case be_read_file env path of
       Inl e \<Rightarrow> Inl (''cert: failed to read '' @ path @ '': '' @ e)
     | Inr b \<Rightarrow> Inr b)"

definition resolve_tls_pems ::
    "build_env \<Rightarrow> nat \<times> bool \<Rightarrow> tls_spec_view \<Rightarrow> bool \<Rightarrow> string + server_cert_material" where
  "resolve_tls_pems env call spec email_present =
    (let other = Inl (''cert: unsupported cert_mode: '' @ unwrap_or_default (tv_cert_mode spec)) in
     if tv_cert_mode spec = Some ''file'' then
       let cf = unwrap_or_default (tv_cert_file spec); kf = unwrap_or_default (tv_key_file spec) in
       if cf = [] \<or> kf = [] then Inl ''cert_mode=file requires cert_file and key_file paths''
       else (case read_pem env cf of Inl e \<Rightarrow> Inl e | Inr c \<Rightarrow>
             case read_pem env kf of Inl e \<Rightarrow> Inl e | Inr k \<Rightarrow>
               Inr \<lparr>cert_pem = c, key_pem_bytes = k\<rparr>)
     else if tv_cert_mode spec = Some ''content'' then
       let c = unwrap_or_default (tv_cert_content spec); k = unwrap_or_default (tv_key_content spec) in
       if c = [] then Inl ''cert_mode=content requires cert_content''
       else if k = [] then Inl ''cert_mode=content requires key_content''
       else Inr \<lparr>cert_pem = as_bytes c, key_pem_bytes = as_bytes k\<rparr>
     else if tv_cert_mode spec = Some ''self'' then
       let domain = unwrap_or_default (tv_cert_domain spec) in
       if domain = [] then Inl ''cert_mode=self requires cert_domain''
       else (case be_self_signed env call domain of Inl e \<Rightarrow> Inl (''cert.generate: '' @ e) | Inr m \<Rightarrow> Inr m)
     else if tv_cert_mode spec = Some ''acme'' then
       if \<not> email_present then Inl ''acme.email must not be empty''
       else Inl ''acme: no DNS provider configured in this build''
     else other)"

section \<open>Plans\<close>

record tls_server_setup =
  material_cert :: bytes
  material_key :: bytes
  setup_alpn :: "string list"

datatype inbound_proto =
    InSocks socks_inbound_config
  | InTrojan string
  | InShadowsocks ss_config
  | InVless "bytes list"
  | InVmess "bytes list"
  | InHysteria2 string "tls_server_setup option"
  | InAnytls string
  | InNaive
  | InMieru string string

record ws_inbound_spec =
  wi_path :: "string option"
  wi_host :: "string option"
  wi_max_streams :: "u32 option"

datatype wrap_transport =
    WrapNone
  | WrapWs ws_inbound_spec
  | WrapHttpUp "string option" "string option"
  | WrapGrpc string
  | WrapH2 "string option" "string option"

record node_plan =
  np_tag :: string
  np_proto :: inbound_proto
  np_listen_addrs :: "socket_addr list"
  np_tls :: "tls_server_setup option"
  np_wrap :: wrap_transport
  np_accept_proxy_protocol :: bool
  np_accept_udp_proxy_protocol :: bool
  np_udp_enabled :: bool
  np_inbound_mux :: "mux_kind option"

section \<open>Listening addresses\<close>

definition strip_brackets :: "string \<Rightarrow> string" where
  "strip_brackets s =
    rev (dropWhile (\<lambda>c. c = CHR '']'') (rev (dropWhile (\<lambda>c. c = CHR ''['') s)))"

definition quoted :: "string \<Rightarrow> string" where
  "quoted s = [CHR 0x27] @ s @ [CHR 0x27]"

definition listen_ip :: "node_config_wire \<Rightarrow> string + ip_addr" where
  "listen_ip node =
    (case nd_listen node of
       Some s \<Rightarrow>
         if s \<noteq> [] then
           (case parse_ip (strip_brackets s) of
              Some ip \<Rightarrow> Inr ip
            | None \<Rightarrow> Inl (''invalid listen address '' @ quoted s @ '': invalid IP address syntax''))
         else Inr (IpV4 0)
     | None \<Rightarrow> Inr (IpV4 0))"

definition ports_of_range :: "port_range_wire \<Rightarrow> u16 list" where
  "ports_of_range r = map word_of_nat [unat (pr_from r)..<Suc (unat (pr_to r))]"

fun expand_ranges :: "port_range_wire list \<Rightarrow> string + u16 list" where
  "expand_ranges [] = Inr []"
| "expand_ranges (r # rs) =
    (if pr_to r < pr_from r
     then Inl (''invalid port range '' @ show_nat (unat (pr_from r)) @ ''-'' @ show_nat (unat (pr_to r)))
     else (case expand_ranges rs of Inl e \<Rightarrow> Inl e | Inr ps \<Rightarrow> Inr (ports_of_range r @ ps)))"

definition opt_list :: "'a list option \<Rightarrow> 'a list" where
  "opt_list x = (case x of Some xs \<Rightarrow> xs | None \<Rightarrow> [])"

definition expand_listen_addrs :: "node_config_wire \<Rightarrow> string + socket_addr list" where
  "expand_listen_addrs node =
    (case listen_ip node of
       Inl e \<Rightarrow> Inl e
     | Inr ip \<Rightarrow>
         (case expand_ranges (opt_list (nd_port_ranges node)) of
            Inl e \<Rightarrow> Inl e
          | Inr rs \<Rightarrow>
              let ports = (case nd_port node of Some p \<Rightarrow> [p] | None \<Rightarrow> []) @ opt_list (nd_ports node) @ rs
              in if ports = [] then Inl ''missing listen_port''
                 else Inr (map (SocketAddr ip) ports)))"

section \<open>Building\<close>

definition require_field :: "string \<Rightarrow> string \<Rightarrow> node_config_wire \<Rightarrow> string + string" where
  "require_field proto field node =
    (case str_field (nd_protocol node) field of
       Some v \<Rightarrow> Inr v
     | None \<Rightarrow> Inl (proto @ '' inbound requires a non-empty '' @ quoted field))"

definition users_of :: "node_config_wire \<Rightarrow> string list" where
  "users_of node =
    (case get_key ''users'' (nd_protocol node) of
       Some (JArray arr) \<Rightarrow> List.map_filter as_str arr
     | _ \<Rightarrow> [])"

definition uuid_field :: "node_config_wire \<Rightarrow> string list" where
  "uuid_field node = (case str_field (nd_protocol node) ''uuid'' of Some u \<Rightarrow> [u] | None \<Rightarrow> [])"

fun parse_uuids :: "(string \<Rightarrow> string) \<Rightarrow> string list \<Rightarrow> string + bytes list" where
  "parse_uuids err [] = Inr []"
| "parse_uuids err (u # us) =
    (case parse_uuid u of
       None \<Rightarrow> Inl (err u)
     | Some b \<Rightarrow> (case parse_uuids err us of Inl e \<Rightarrow> Inl e | Inr bs \<Rightarrow> Inr (b # bs)))"

definition user_list :: "string \<Rightarrow> (string \<Rightarrow> string) \<Rightarrow> string list \<Rightarrow> string + bytes list" where
  "user_list proto err raw =
    (case parse_uuids err raw of
       Inl e \<Rightarrow> Inl e
     | Inr bs \<Rightarrow> if bs = [] then Inl (proto @ '' inbound requires at least one user uuid'') else Inr bs)"

definition spec_view :: "tls_inbound_spec_wire option \<Rightarrow> tls_spec_view" where
  "spec_view t =
    (case t of
       Some s \<Rightarrow> \<lparr>tv_cert_mode = cert_mode s, tv_cert_domain = cert_domain s, tv_cert_file = cert_file s,
         tv_key_file = key_file s, tv_cert_content = cert_content s, tv_key_content = key_content s\<rparr>
     | None \<Rightarrow> \<lparr>tv_cert_mode = None, tv_cert_domain = None, tv_cert_file = None, tv_key_file = None,
         tv_cert_content = None, tv_key_content = None\<rparr>)"

definition tls_setup ::
    "build_env \<Rightarrow> nat \<times> bool \<Rightarrow> string list \<Rightarrow> node_config_wire \<Rightarrow> string + tls_server_setup option" where
  "tls_setup env call alpn node =
    (case nd_tls node of
       None \<Rightarrow> Inr None
     | Some ts \<Rightarrow>
         if tls_enabled ts \<or> cert_mode ts \<noteq> None then
           (case resolve_tls_pems env call (spec_view (nd_tls node)) False of
              Inl e \<Rightarrow> Inl e
            | Inr m \<Rightarrow> Inr (Some \<lparr>material_cert = cert_pem m, material_key = key_pem_bytes m, setup_alpn = alpn\<rparr>))
         else Inr None)"

definition sum_bind :: "'e + 'a \<Rightarrow> ('a \<Rightarrow> 'e + 'b) \<Rightarrow> 'e + 'b" where
  "sum_bind x f = (case x of Inl e \<Rightarrow> Inl e | Inr y \<Rightarrow> f y)"

definition build_proto :: "build_env \<Rightarrow> nat \<Rightarrow> node_config_wire \<Rightarrow> string + inbound_proto" where
  "build_proto env i node =
    (let ty = nd_type node in
     if ty = ''socks'' \<or> ty = ''socks5'' then Inr (InSocks \<lparr>username = None, password = None\<rparr>)
     else if ty = ''trojan'' then
       sum_bind (require_field ''trojan'' ''password'' node) (\<lambda>p. Inr (InTrojan (password_hash (be_sha224 env) p)))
     else if ty = ''shadowsocks'' \<or> ty = ''ss'' then
       sum_bind (require_field ''shadowsocks'' ''method'' node) (\<lambda>m.
       sum_bind (require_field ''shadowsocks'' ''password'' node) (\<lambda>p.
         Inr (InShadowsocks \<lparr>cfg_method = m, cfg_password = p\<rparr>)))
     else if ty = ''vmess'' then
       sum_bind (user_list ''vmess'' (\<lambda>u. ''vmess: invalid UUID '' @ quoted u) (users_of node @ uuid_field node)) (Inr \<circ> InVmess)
     else if ty = ''hysteria2'' \<or> ty = ''hy2'' then
       sum_bind (require_field ''hysteria2'' ''password'' node) (\<lambda>p.
       sum_bind (tls_setup env (i, True) [''h3''] node) (\<lambda>t. Inr (InHysteria2 p t)))
     else if ty = ''naive'' then Inr InNaive
     else if ty = ''mieru'' then
       sum_bind (require_field ''mieru'' ''username'' node) (\<lambda>u.
       sum_bind (require_field ''mieru'' ''password'' node) (\<lambda>p. Inr (InMieru u p)))
     else if ty = ''anytls'' then
       sum_bind (require_field ''anytls'' ''password'' node) (Inr \<circ> InAnytls)
     else if ty = ''vless'' then
       sum_bind (user_list ''vless'' (\<lambda>u. ''vmess: invalid UUID in extra['' @ [CHR 0x22] @ ''users'' @ [CHR 0x22] @ ''] array: '' @ u)
         (uuid_field node @ users_of node)) (Inr \<circ> InVless)
     else Inl (''inbound protocol '' @ quoted ty @ '' not yet implemented''))"

definition wrap_of :: "node_config_wire \<Rightarrow> wrap_transport" where
  "wrap_of node =
    (case nd_ws node of
       Some ws \<Rightarrow> WrapWs \<lparr>wi_path = ws_path ws, wi_host = ws_host ws, wi_max_streams = ws_max_concurrent_streams ws\<rparr>
     | None \<Rightarrow>
    (case nd_httpup node of
       Some h \<Rightarrow> WrapHttpUp (httpup_path h) (httpup_host h)
     | None \<Rightarrow>
    (case nd_grpc node of
       Some g \<Rightarrow> WrapGrpc (case grpc_service_name g of Some s \<Rightarrow> s | None \<Rightarrow> ''GunService'')
     | None \<Rightarrow>
    (case nd_h2 node of
       Some h \<Rightarrow> WrapH2 (h2_path h) (h2_host h)
     | None \<Rightarrow> WrapNone))))"

definition inbound_mux_of :: "node_config_wire \<Rightarrow> string + mux_kind option" where
  "inbound_mux_of node =
    (if nd_mux_enabled node then
       let kind = (case Option.bind (nd_mux node) mux_kind_wire of Some k \<Rightarrow> k | None \<Rightarrow> ''smux'') in
       (case parse_mux_kind kind of
          Some k \<Rightarrow> Inr (Some k)
        | None \<Rightarrow> Inl (''mux kind '' @ quoted kind @ '' not yet supported''))
     else Inr None)"

definition plan_of :: "build_env \<Rightarrow> nat \<Rightarrow> node_config_wire \<Rightarrow> string + node_plan" where
  "plan_of env i node =
    sum_bind (expand_listen_addrs node) (\<lambda>addrs.
    sum_bind (build_proto env i node) (\<lambda>proto.
    sum_bind (tls_setup env (i, False) (opt_list (Option.bind (nd_tls node) tls_alpn)) node) (\<lambda>tls.
    sum_bind (inbound_mux_of node) (\<lambda>mux.
      Inr \<lparr>np_tag = (if nd_tag node = [] then ''in-'' @ show_nat i else nd_tag node),
        np_proto = proto, np_listen_addrs = addrs, np_tls = tls, np_wrap = wrap_of node,
        np_accept_proxy_protocol = (nd_accept_proxy_protocol node \<or> nd_enable_proxy_protocol node),
        np_accept_udp_proxy_protocol = (nd_accept_udp_proxy_protocol node \<or> nd_enable_udp_proxy_protocol node),
        np_udp_enabled = True, np_inbound_mux = mux\<rparr>))))"

fun build_plans_from :: "build_env \<Rightarrow> nat \<Rightarrow> node_config_wire list \<Rightarrow> string + node_plan list" where
  "build_plans_from env i [] = Inr []"
| "build_plans_from env i (n # ns) =
    sum_bind (plan_of env i n) (\<lambda>p. sum_bind (build_plans_from env (Suc i) ns) (\<lambda>ps. Inr (p # ps)))"

definition build_node_plans :: "build_env \<Rightarrow> runtime_config_wire \<Rightarrow> string + node_plan list" where
  "build_node_plans env wire = build_plans_from env 0 (nodes wire)"

section \<open>One plan per node\<close>

lemma sum_bind_Inr_iff: "sum_bind x f = Inr z \<longleftrightarrow> (\<exists>y. x = Inr y \<and> f y = Inr z)"
  by (cases x) (simp_all add: sum_bind_def)

lemma build_plans_from_Inr:
  "build_plans_from env i ns = Inr ps \<longleftrightarrow>
    length ps = length ns \<and> (\<forall>j < length ns. plan_of env (i + j) (ns ! j) = Inr (ps ! j))"
proof (induction ns arbitrary: i ps)
  case (Cons n ns)
  have "build_plans_from env i (n # ns) = Inr ps \<longleftrightarrow>
    (\<exists>p qs. ps = p # qs \<and> plan_of env i n = Inr p \<and> build_plans_from env (Suc i) ns = Inr qs)"
    by (auto simp: sum_bind_Inr_iff)
  then show ?case
    by (cases ps) (auto simp: Cons less_Suc_eq_0_disj)
qed auto

lemma plan_of_Inr:
  assumes "plan_of env i node = Inr p"
  shows "expand_listen_addrs node = Inr (np_listen_addrs p)" "build_proto env i node = Inr (np_proto p)"
    "np_wrap p = wrap_of node" "inbound_mux_of node = Inr (np_inbound_mux p)"
  using assms by (auto simp: plan_of_def sum_bind_Inr_iff)

lemma built_plan:
  assumes "build_node_plans env wire = Inr plans" "i < length (nodes wire)"
  shows "plan_of env i (nodes wire ! i) = Inr (plans ! i)"
  using assms build_plans_from_Inr [of env 0] by (simp add: build_node_plans_def)

section \<open>Ports\<close>

lemma set_ports_of_range:
  "pr_from r \<le> pr_to r \<Longrightarrow> p \<in> set (ports_of_range r) \<longleftrightarrow> pr_from r \<le> p \<and> p \<le> pr_to r"
proof -
  have "p \<in> set (ports_of_range r) \<longleftrightarrow> unat (pr_from r) \<le> unat p \<and> unat p \<le> unat (pr_to r)"
  proof
    assume "p \<in> set (ports_of_range r)"
    then obtain k where k: "p = word_of_nat k" "unat (pr_from r) \<le> k" "k \<le> unat (pr_to r)"
      by (auto simp: ports_of_range_def)
    moreover have "unat p = k"
      using k le_less_trans [OF k(3) unat_u16_lt] by (simp add: unat_of_nat)
    ultimately show "unat (pr_from r) \<le> unat p \<and> unat p \<le> unat (pr_to r)" by simp
  next
    assume "unat (pr_from r) \<le> unat p \<and> unat p \<le> unat (pr_to r)"
    then have "unat p \<in> set [unat (pr_from r)..<Suc (unat (pr_to r))]" by auto
    moreover have "p = word_of_nat (unat p)" by simp
    ultimately show "p \<in> set (ports_of_range r)"
      unfolding ports_of_range_def set_map by (metis image_eqI)
  qed
  then show ?thesis by (simp add: word_le_nat_alt)
qed

lemma expand_ranges_Inr:
  "expand_ranges rs = Inr ps \<Longrightarrow>
    p \<in> set ps \<longleftrightarrow> (\<exists>r \<in> set rs. pr_from r \<le> p \<and> p \<le> pr_to r)"
proof (induction rs arbitrary: ps)
  case (Cons r rs)
  then obtain qs where "ps = ports_of_range r @ qs" "expand_ranges rs = Inr qs" "pr_from r \<le> pr_to r"
    by (auto split: if_splits sum.splits)
  then show ?case using Cons(1) [of qs] set_ports_of_range [of r p] by auto
qed simp

lemma expand_listen_addrs_set:
  assumes "expand_listen_addrs node = Inr addrs"
  shows "SocketAddr ip p \<in> set addrs \<longleftrightarrow> listen_ip node = Inr ip
    \<and> (nd_port node = Some p \<or> p \<in> set (opt_list (nd_ports node))
       \<or> (\<exists>r \<in> set (opt_list (nd_port_ranges node)). pr_from r \<le> p \<and> p \<le> pr_to r))"
proof -
  obtain ip' rs where o: "listen_ip node = Inr ip'" "expand_ranges (opt_list (nd_port_ranges node)) = Inr rs"
    and a: "addrs = map (SocketAddr ip') ((case nd_port node of Some p \<Rightarrow> [p] | None \<Rightarrow> []) @ opt_list (nd_ports node) @ rs)"
    using assms by (auto simp: expand_listen_addrs_def Let_def split: sum.splits if_splits)
  show ?thesis
    using expand_ranges_Inr [OF o(2), of p] unfolding a o by (auto split: option.splits)
qed

text \<open>Property C28: the listeners of a node. When the plans are built, there is one per node, and
  it listens on the configured address at exactly the ports that the node names:
  its port, its list of ports and every port between the ends of its ranges. Every
  plan has at least one address.\<close>

theorem plan_listens:
  assumes "build_node_plans env wire = Inr plans" "i < length (nodes wire)"
  shows "length plans = length (nodes wire) \<and> np_listen_addrs (plans ! i) \<noteq> []
    \<and> (SocketAddr ip p \<in> set (np_listen_addrs (plans ! i)) \<longleftrightarrow> listen_ip (nodes wire ! i) = Inr ip
       \<and> (nd_port (nodes wire ! i) = Some p \<or> p \<in> set (opt_list (nd_ports (nodes wire ! i)))
          \<or> (\<exists>r \<in> set (opt_list (nd_port_ranges (nodes wire ! i))). pr_from r \<le> p \<and> p \<le> pr_to r)))"
proof -
  have e: "expand_listen_addrs (nodes wire ! i) = Inr (np_listen_addrs (plans ! i))"
    using plan_of_Inr(1) [OF built_plan [OF assms]] .
  moreover have "length plans = length (nodes wire)"
    using assms(1) build_plans_from_Inr by (simp add: build_node_plans_def)
  moreover have "np_listen_addrs (plans ! i) \<noteq> []"
    using e by (auto simp: expand_listen_addrs_def Let_def split: sum.splits if_splits)
  ultimately show ?thesis using expand_listen_addrs_set [OF e, of ip p] by blast
qed

definition plain_node :: "string \<Rightarrow> json_map \<Rightarrow> port_range_wire list \<Rightarrow> node_config_wire" where
  "plain_node ty fs prs =
    \<lparr>nd_type = ty, nd_tag = [], nd_listen = None, nd_port = Some 1080, nd_ports = None,
     nd_port_ranges = Some prs, nd_outbound_type = [], nd_accept_proxy_protocol = False, nd_enable_proxy_protocol = False,
     nd_accept_udp_proxy_protocol = False, nd_enable_udp_proxy_protocol = False, nd_mux_enabled = False,
     nd_mux = None, nd_quic_congestion_control = None, nd_tls = None, nd_ws = None, nd_h2 = None, nd_grpc = None, nd_httpup = None,
     nd_xhttp = None, nd_quic = None, nd_ss_invalid_access = None, nd_ss_ip_user_cache = None, nd_protocol = fs\<rparr>"

definition sample_env :: build_env where
  "sample_env = \<lparr>be_sha224 = (\<lambda>_. replicate 28 0x5A), be_read_file = (\<lambda>_. Inl ''not found''),
    be_self_signed = (\<lambda>_ _. Inl ''no key'')\<rparr>"

definition sample_nodes :: runtime_config_wire where
  "sample_nodes = default_wire\<lparr>nodes := [plain_node ''socks''
      [(''username'', JString ''u''), (''password'', JString ''p'')] [\<lparr>pr_from = 2000, pr_to = 2003\<rparr>]]\<rparr>"

definition sample_plan :: node_plan where
  "sample_plan = \<lparr>np_tag = ''in-0'', np_proto = InSocks \<lparr>username = None, password = None\<rparr>,
      np_listen_addrs = map (SocketAddr (IpV4 0)) [1080, 2000, 2001, 2002, 2003], np_tls = None, np_wrap = WrapNone,
      np_accept_proxy_protocol = False, np_accept_udp_proxy_protocol = False, np_udp_enabled = True,
      np_inbound_mux = None\<rparr>"

lemma sample_nodes_built: "build_node_plans sample_env sample_nodes = Inr [sample_plan]"
proof -
  have "show_nat 0 = ''0''" by code_simp
  then show ?thesis
  by (simp add: sample_plan_def build_node_plans_def sample_nodes_def plain_node_def plan_of_def expand_listen_addrs_def listen_ip_def
      ports_of_range_def opt_list_def build_proto_def tls_setup_def inbound_mux_of_def wrap_of_def sum_bind_def
      upt_conv_Cons)
qed

theorem plan_listens_witness:
  "build_node_plans sample_env sample_nodes = Inr [sample_plan]
    \<and> SocketAddr (IpV4 0) 2002 \<in> set (np_listen_addrs ([sample_plan] ! 0))"
  using plan_listens [OF sample_nodes_built, of 0 "IpV4 0" 2002] sample_nodes_built
  by (simp add: sample_nodes_def plain_node_def listen_ip_def opt_list_def)

section \<open>SOCKS inbounds\<close>

text \<open>A SOCKS inbound asks nobody for credentials. Whatever user name and password its node configures, the plan
  accepts a client that offers no authentication, for any target it names.\<close>

theorem socks_inbound_open:
  assumes "build_node_plans env wire = Inr plans" "i < length (nodes wire)"
    and "nd_type (nodes wire ! i) = ''socks'' \<or> nd_type (nodes wire ! i) = ''socks5''"
    and "0x00 \<in> set ms" "length ms \<le> 255" "wf_addr a"
  shows "\<exists>cfg. np_proto (plans ! i) = InSocks cfg
    \<and> handshake cfg \<lparr>inp = [VER, word_of_nat (length ms)] @ ms @ [VER, command_to_u8 Connect, rsv] @ encode_addr a @ r, outp = []\<rparr>
      = (Inr (AcceptedTcp (to_proxy_target a)), \<lparr>inp = r, outp = [VER, 0x00, VER, REP_SUCCEEDED, 0x00] @ encode_addr a\<rparr>)"
proof -
  let ?cfg = "\<lparr>username = None, password = None\<rparr>"
  let ?req = "[VER, 0x01, rsv] @ encode_addr a @ r"
  have "build_proto env i (nodes wire ! i) = Inr (InSocks ?cfg)"
    using assms(3) by (auto simp: build_proto_def)
  then have p: "np_proto (plans ! i) = InSocks ?cfg"
    using plan_of_Inr(2) [OF built_plan [OF assms(1,2)]] by simp
  have "0 < length ms" using assms(4) by (cases ms) auto
  then have greet: "read_greeting \<lparr>inp = [VER, word_of_nat (length ms)] @ ms @ ?req, outp = []\<rparr> =
    (Inr ms, \<lparr>inp = ?req, outp = []\<rparr>)"
    using read_greeting_run [OF _ assms(5)] by blast
  have "handshake ?cfg \<lparr>inp = [VER, word_of_nat (length ms)] @ ms @ ?req, outp = []\<rparr>
      = (Inr (AcceptedTcp (to_proxy_target a)), \<lparr>inp = r, outp = [VER, 0x00, VER, REP_SUCCEEDED, 0x00] @ encode_addr a\<rparr>)"
    using greet assms(4) serve_request_connect [OF assms(6), of rsv r]
    by (simp add: handshake_def io_bind_def Let_def write_method_choice_def)
  then show ?thesis using p by simp
qed

theorem socks_inbound_open_witness:
  "\<exists>cfg. np_proto ([sample_plan] ! 0) = InSocks cfg
    \<and> handshake cfg \<lparr>inp = [VER, word_of_nat (length [0x00 :: byte])] @ [0x00] @ [VER, command_to_u8 Connect, 0x00]
        @ encode_addr (DomainName ''a.b'' 443) @ [0x16], outp = []\<rparr>
      = (Inr (AcceptedTcp (to_proxy_target (DomainName ''a.b'' 443))),
         \<lparr>inp = [0x16], outp = [VER, 0x00, VER, REP_SUCCEEDED, 0x00] @ encode_addr (DomainName ''a.b'' 443)\<rparr>)"
proof -
  have "wf_addr (DomainName ''a.b'' 443)" by code_simp
  then show ?thesis
    by (intro socks_inbound_open [OF sample_nodes_built]) (simp_all add: sample_nodes_def plain_node_def)
qed

section \<open>Validation and building\<close>

text \<open>A TLS section that passed validation and names a certificate mode fails at building only where
  a file cannot be read or a certificate cannot be generated; an enabled section without a
  mode passes validation and always fails here.\<close>

lemma validated_tls_resolves:
  assumes "validate_tls ts = Inr ()" "cert_mode ts = Some m" "m \<noteq> []"
    and "\<And>path. \<exists>b. be_read_file env path = Inr b" "\<And>k d. \<exists>b. be_self_signed env k d = Inr b"
  shows "\<exists>b. resolve_tls_pems env call (spec_view (Some ts)) False = Inr b"
proof -
  obtain f g where f: "\<And>path. be_read_file env path = Inr (f path)" and g: "\<And>k d. be_self_signed env k d = Inr (g k d)"
    using assms(4,5) by metis
  have "validate_cert_mode ts = Inr ()"
    using assms(1) by (auto simp: validate_tls_def and_then_def split: sum.splits)
  then show ?thesis
    using assms(2,3) f g
    by (auto simp: validate_cert_mode_def resolve_tls_pems_def spec_view_def opt_empty_def unwrap_or_default_def
        read_pem_def Let_def split: if_splits option.splits)
qed

lemma enabled_without_mode_fails:
  assumes "nd_tls node = Some ts" "tls_enabled ts" "cert_mode ts = None"
  shows "tls_setup env call alpn node = Inl ''cert: unsupported cert_mode: ''"
  using assms by (simp add: tls_setup_def resolve_tls_pems_def spec_view_def unwrap_or_default_def)

end
