(* ===== verification/Listener.thy ===== *)
theory Listener
  imports NodeBuilder Pipeline Vless Vmess Mieru
begin

text \<open>
  \<open>crates/omni-core/src/runtime/assembly/listener_executor.rs\<close>: what happens to a
  connection that a listener accepted. \<open>stream_path\<close> is the choice of the
  transport layers in \<open>handle_stream\<close> (TLS, WebSocket, HTTP upgrade, HTTP/2 and the
  multiplexers are third-party code), \<open>accept_proto\<close> the protocol handshake on the
  resulting stream, \<open>serve\<close> the handshake followed by the TCP pipeline, and
  \<open>run_proto_pipeline\<close> the variant for the streams of a multiplexed transport.
\<close>

section \<open>Transport layers\<close>

datatype layer =
    LayerBare
  | LayerWs ws_inbound_spec
  | LayerHttpUp "string option" "string option"
  | LayerGrpc string
  | LayerH2 "string option"
  | LayerConnect

text \<open>What follows the layers: every CONNECT request is routed by its authority; \<open>run_proto_pipeline\<close> on
  every HTTP/2 or multiplexed stream; the protocol on the stream itself; an error.\<close>

datatype next_stage =
    NaiveRoutes
  | StreamPipelines
  | MuxPipelines mux_kind
  | Direct inbound_proto
  | RefuseStream io_error

record stream_path =
  pt_proxy_header :: bool
  pt_tls :: "tls_server_setup option"
  pt_layer :: layer
  pt_counted :: bool
  pt_next :: next_stage

definition bare_layer :: "node_plan \<Rightarrow> layer rs" where
  "bare_layer plan =
    (case np_wrap plan of
       WrapNone \<Rightarrow> Ret LayerBare
     | WrapWs spec \<Rightarrow> Ret (LayerWs spec)
     | WrapHttpUp p h \<Rightarrow> Ret (LayerHttpUp p h)
     | _ \<Rightarrow> Panic)"

definition is_anytls :: "inbound_proto \<Rightarrow> bool" where
  "is_anytls p = (case p of InAnytls _ \<Rightarrow> True | _ \<Rightarrow> False)"

definition after_layers :: "node_plan \<Rightarrow> next_stage" where
  "after_layers plan =
    (if is_anytls (np_proto plan) \<and> np_wrap plan \<noteq> WrapNone
     then RefuseStream (io_err ''anytls requires bare TLS transport'')
     else (case np_inbound_mux plan of
         Some k \<Rightarrow> MuxPipelines k
       | None \<Rightarrow> Direct (np_proto plan)))"

text \<open>\<open>unreachable!\<close> is a panic.\<close>

definition handle_stream :: "node_plan \<Rightarrow> stream_path rs" where
  "handle_stream plan =
    (if np_proto plan = InNaive
     then Ret \<lparr>pt_proxy_header = False, pt_tls = np_tls plan, pt_layer = LayerConnect, pt_counted = True,
       pt_next = NaiveRoutes\<rparr>
     else (case np_wrap plan of
         WrapGrpc service \<Rightarrow>
           Ret \<lparr>pt_proxy_header = np_accept_proxy_protocol plan, pt_tls = np_tls plan, pt_layer = LayerGrpc service,
             pt_counted = False, pt_next = StreamPipelines\<rparr>
       | WrapH2 path _ \<Rightarrow>
           Ret \<lparr>pt_proxy_header = np_accept_proxy_protocol plan, pt_tls = np_tls plan, pt_layer = LayerH2 path,
             pt_counted = False, pt_next = StreamPipelines\<rparr>
       | _ \<Rightarrow>
           rs_bind (bare_layer plan) (\<lambda>l.
             Ret \<lparr>pt_proxy_header = np_accept_proxy_protocol plan, pt_tls = np_tls plan, pt_layer = l,
               pt_counted = True, pt_next = after_layers plan\<rparr>)))"

section \<open>Targets of CONNECT requests\<close>

definition port_or_443 :: "string \<Rightarrow> u16" where
  "port_or_443 s = (case parse_port s of Some p \<Rightarrow> p | None \<Rightarrow> 443)"

definition host_target :: "string \<Rightarrow> u16 \<Rightarrow> proxy_target" where
  "host_target h p = (case parse_ip h of Some ip \<Rightarrow> Tcp (SocketAddr ip p) | None \<Rightarrow> Domain h p)"

definition parse_naive_authority :: "string \<Rightarrow> proxy_target" where
  "parse_naive_authority authority =
    (let a = dropWhile (\<lambda>c. c = CHR ''['') authority in
     case find_char CHR '']'' a of
       Some idx \<Rightarrow>
         host_target (take idx a) (port_or_443 (dropWhile (\<lambda>c. c = CHR '':'') (drop (idx + 1) a)))
     | None \<Rightarrow>
         (case rsplit_once CHR '':'' a of
            Some (h, p) \<Rightarrow> host_target h (port_or_443 p)
          | None \<Rightarrow> Domain a 443))"

section \<open>Accepting a protocol\<close>

text \<open>The primitives the protocols need, the time, the random nonce of a mieru server, and
  how the bytes behind a handshake arrive.\<close>

record listener_env =
  le_open :: open_fn
  le_vmess :: vm_prims
  le_mieru :: mieru_prims
  le_now :: u64
  le_nonce :: bytes
  le_arrive :: "bytes \<Rightarrow> read_event list"

text \<open>An accepted stream: the target with the bytes the relay will read and the error that ends them, if any;
  a datagram association; or the start of an AnyTLS session.\<close>

datatype accepted_stream =
    AccTcp proxy_target bytes "io_error option"
  | AccSocksUdp
  | AccTrojanUdp bytes
  | AccVlessUdp bytes
  | AccAnytls string bytes

fun relay_view :: "(io_error + bytes) list \<Rightarrow> bytes \<times> io_error option" where
  "relay_view [] = ([], None)"
| "relay_view (Inl e # ms) = ([], Some e)"
| "relay_view (Inr d # ms) = (if d = [] then ([], None) else apfst ((@) d) (relay_view ms))"

definition acc_messages :: "proxy_target \<Rightarrow> (io_error + bytes) list \<Rightarrow> accepted_stream" where
  "acc_messages t ms = (case relay_view ms of (b, e) \<Rightarrow> AccTcp t b e)"

definition arrived_reads :: "read_event list \<Rightarrow> bytes list" where
  "arrived_reads es = List.map_filter (\<lambda>e. case e of Got c \<Rightarrow> Some c | Quiet \<Rightarrow> None) es"

definition accept_proto ::
    "listener_env \<Rightarrow> inbound_proto \<Rightarrow> conn \<Rightarrow> (io_error + accepted_stream) rs option" where
  "accept_proto env proto c =
    (case proto of
       InMieru u p \<Rightarrow>
         map_option (\<lambda>(r, c'). Ret (map_sum id (\<lambda>(target, rd, wr).
             acc_messages target (server_read_pump (le_mieru env) rd [] (arrived_reads (le_arrive env (inp c'))))) r))
           (accept_session_mieru (le_mieru env) (le_now env) \<lparr>mc_username = u, mc_password = p\<rparr> (le_nonce env) c)
     | InNaive \<Rightarrow> Some (Ret (Inl (io_err ''naive handled by dedicated CONNECT path'')))
     | InAnytls pw \<Rightarrow> Some (Ret (Inr (AccAnytls pw (inp c))))
     | InSocks cfg \<Rightarrow>
         (case handshake cfg c of
            (Inl e, _) \<Rightarrow> Some (Ret (Inl e))
          | (Inr (AcceptedTcp target), c') \<Rightarrow> Some (Ret (Inr (AccTcp target (inp c') None)))
          | (Inr AcceptedUdpAssociate, c') \<Rightarrow> Some (Ret (Inr AccSocksUdp)))
     | InTrojan hash \<Rightarrow>
         (case trojan_handshake hash c of
            (Inl e, _) \<Rightarrow> Some (Ret (Inl e))
          | (Inr (TrojanTcp target), c') \<Rightarrow> Some (Ret (Inr (AccTcp target (inp c') None)))
          | (Inr TrojanUdp, c') \<Rightarrow> Some (Ret (Inr (AccTrojanUdp (inp c')))))
     | InVmess users \<Rightarrow>
         (case vm_handshake (le_vmess env) (le_now env) users c of
            (Inl e, _) \<Rightarrow> Some (Ret (Inl e))
          | (Inr acc, c') \<Rightarrow>
              Some (Ret (Inr (acc_messages (va_target acc)
                (vm_read_task (le_vmess env) (chunk_reader_new (inp c') (va_reader acc)))))))
     | InHysteria2 _ _ \<Rightarrow> Some (Ret (Inl (io_err ''hysteria2 inbound must run on the QUIC listener path'')))
     | InShadowsocks cfg \<Rightarrow>
         Some (rs_bind (accept_tcp cfg c) (\<lambda>r.
           case r of
             Inl e \<Rightarrow> Ret (Inl e)
           | Inr (reader, writer) \<Rightarrow>
               (case read_target (le_open env) reader of
                  (Inl e, _) \<Rightarrow> Ret (Inl e)
                | (Inr target, reader') \<Rightarrow> Ret (Inr (acc_messages target (ss_read_task (le_open env) reader'))))))
     | InVless uuids \<Rightarrow>
         (case vless_handshake uuids c of
            (Inl e, _) \<Rightarrow> Some (Ret (Inl e))
          | (Inr (VlessTcp target), c') \<Rightarrow> Some (Ret (Inr (AccTcp target (inp c') None)))
          | (Inr VlessUdp, c') \<Rightarrow> Some (Ret (Inr (AccVlessUdp (inp c'))))))"

section \<open>Serving a connection\<close>

text \<open>A relay whose client stream ends with an error is not followed further.\<close>

datatype served =
    Relayed tcp_end counters
  | Broken proxy_target io_error
  | Datagrams accepted_stream
  | Session string bytes
  | Failed io_error

definition serve_accepted ::
    "('re \<Rightarrow> string \<Rightarrow> bool) \<Rightarrow> (connector \<Rightarrow> proxy_target \<Rightarrow> io_error + bytes) \<Rightarrow> 're pipeline_shared
     \<Rightarrow> (bytes \<Rightarrow> read_event list) \<Rightarrow> accepted_stream \<Rightarrow> served rs" where
  "serve_accepted is_match connect sh arrive acc =
    (case acc of
       AccTcp target b None \<Rightarrow>
         rs_bind (run_tcp_route is_match connect sh (arrive b) target []) (\<lambda>(te, cnt). Ret (Relayed te cnt))
     | AccTcp target b (Some e) \<Rightarrow> Ret (Broken target e)
     | AccAnytls pw b \<Rightarrow> Ret (Session pw b)
     | _ \<Rightarrow> Ret (Datagrams acc))"

definition serve ::
    "listener_env \<Rightarrow> ('re \<Rightarrow> string \<Rightarrow> bool) \<Rightarrow> (connector \<Rightarrow> proxy_target \<Rightarrow> io_error + bytes)
     \<Rightarrow> 're pipeline_shared \<Rightarrow> inbound_proto \<Rightarrow> conn \<Rightarrow> served rs option" where
  "serve env is_match connect sh proto c =
    map_option (\<lambda>r. rs_bind r (\<lambda>x.
      case x of
        Inl e \<Rightarrow> Ret (Failed e)
      | Inr acc \<Rightarrow> serve_accepted is_match connect sh (le_arrive env) acc)) (accept_proto env proto c)"

text \<open>Streams of a multiplexed transport: the same handshakes, but no datagrams and no sessions.\<close>

definition run_proto_pipeline ::
    "listener_env \<Rightarrow> ('re \<Rightarrow> string \<Rightarrow> bool) \<Rightarrow> (connector \<Rightarrow> proxy_target \<Rightarrow> io_error + bytes)
     \<Rightarrow> 're pipeline_shared \<Rightarrow> inbound_proto \<Rightarrow> conn \<Rightarrow> served rs option" where
  "run_proto_pipeline env is_match connect sh proto c =
    (case proto of
       InHysteria2 _ _ \<Rightarrow> Some (Ret (Failed (io_err ''hysteria2 runs on the QUIC path only'')))
     | InAnytls _ \<Rightarrow> Some (Ret (Failed (io_err ''anytls handled by dedicated session path'')))
     | InMieru _ _ \<Rightarrow> Some (Ret (Failed (io_err ''mieru handled by dedicated session path'')))
     | InNaive \<Rightarrow> Some (Ret (Failed (io_err ''naive handled by dedicated CONNECT path'')))
     | _ \<Rightarrow>
         map_option (\<lambda>r. rs_bind r (\<lambda>x.
           case x of
             Inl e \<Rightarrow> Ret (Failed e)
           | Inr AccSocksUdp \<Rightarrow> Ret (Failed (IoError Unsupported ''socks UDP not supported on multiplexed transports''))
           | Inr (AccTrojanUdp _) \<Rightarrow> Ret (Failed (io_err ''trojan UDP not supported on multiplexed transports''))
           | Inr (AccVlessUdp _) \<Rightarrow> Ret (Failed (IoError Unsupported ''vless UDP not supported on multiplexed transports''))
           | Inr acc \<Rightarrow> serve_accepted is_match connect sh (le_arrive env) acc)) (accept_proto env proto c))"

section \<open>Layers\<close>

text \<open>The \<open>unreachable!\<close> of \<open>handle_stream\<close> is never reached, whatever the plan, and an AnyTLS session never
  runs under another layer. Connections over gRPC and HTTP/2 are not counted.\<close>

lemma handle_stream_returns: "\<exists>path. handle_stream plan = Ret path"
  by (cases "np_wrap plan") (auto simp: handle_stream_def bare_layer_def)

lemma anytls_bare:
  assumes "handle_stream plan = Ret path" "pt_next path = Direct (InAnytls pw)"
  shows "pt_layer path = LayerBare"
  using assms
  by (cases "np_wrap plan")
    (auto simp: handle_stream_def bare_layer_def after_layers_def is_anytls_def split: if_splits option.splits)

lemma counted_iff:
  assumes "handle_stream plan = Ret path" "np_proto plan \<noteq> InNaive"
  shows "pt_counted path \<longleftrightarrow> (\<nexists>s. np_wrap plan = WrapGrpc s) \<and> (\<nexists>q h. np_wrap plan = WrapH2 q h)"
  using assms by (cases "np_wrap plan") (auto simp: handle_stream_def bare_layer_def)

section \<open>Inbounds on a plain stream\<close>

text \<open>What an inbound promises whose protocol is a head in front of the application's bytes: after a proper head for a
  target it accepts the connection for this target and leaves the bytes behind the head alone.\<close>

locale plain_inbound =
  fixes proto :: inbound_proto
    and head :: "proxy_target \<Rightarrow> bytes"
    and ok :: "proxy_target \<Rightarrow> bool"
  assumes accepts: "ok t \<Longrightarrow>
    accept_proto env proto \<lparr>inp = head t @ data, outp = []\<rparr> = Some (Ret (Inr (AccTcp t data None)))"
begin

lemma relays:
  assumes "ok t" "event_bytes (le_arrive env data) = data"
    and "inspect_stream (le_arrive env data) = Ret (sniffed, rest)"
    and "route is_match (ps_router sh) t (or_else (so_host sniffed) (domain_of t)) (ps_inbound_tag sh) = Proxy c"
    and "connect c t = Inr reply"
  shows "serve env is_match connect sh proto \<lparr>inp = head t @ data, outp = []\<rparr> =
    Some (Ret (Relayed \<lparr>te_result = Inr (), te_to_client = reply, te_remote = Some (c, t, data)\<rparr>
      (add_down (length reply) (add_up (length data - length (so_consumed sniffed)) (ps_counters sh)))))"
  using assms(2) relay_transparent [where connect = connect, OF assms(3-5), of "[]"]
  by (simp add: serve_def accepts [OF assms(1)] serve_accepted_def)

text \<open>The streams of a multiplexed transport take the other function, to the same end.\<close>

lemma pipeline_serves:
  assumes "ok t" "\<And>u q. proto \<noteq> InMieru u q"
  shows "run_proto_pipeline env is_match connect sh proto \<lparr>inp = head t @ data, outp = []\<rparr> =
    serve env is_match connect sh proto \<lparr>inp = head t @ data, outp = []\<rparr>"
proof (cases proto)
  case (InMieru u q)
  then show ?thesis using assms(2) by blast
qed (use accepts [OF assms(1), of env data] in \<open>simp_all add: run_proto_pipeline_def serve_def accept_proto_def\<close>)

end

lemma socks_open_accepts:
  assumes "wf_addr (from_proxy_target t)"
  shows "accept_proto env (InSocks \<lparr>username = None, password = None\<rparr>)
      \<lparr>inp = ([VER, 1, 0, VER, 0x01, 0] @ encode_addr (from_proxy_target t)) @ data, outp = []\<rparr> =
    Some (Ret (Inr (AccTcp t data None)))"
proof -
  have "read_greeting \<lparr>inp = [VER, 1] @ [0] @ [VER, 0x01, 0] @ encode_addr (from_proxy_target t) @ data, outp = []\<rparr> =
    (Inr [0], \<lparr>inp = [VER, 0x01, 0] @ encode_addr (from_proxy_target t) @ data, outp = []\<rparr>)"
    using read_greeting_run [of "[0]"] by simp
  then show ?thesis
    using serve_request_connect [OF assms, of 0 data]
    by (simp add: accept_proto_def handshake_def io_bind_def Let_def write_method_choice_def to_from_proxy_target)
qed

lemma trojan_accepts:
  assumes "length h = 56" "utf8_valid (as_bytes h)" "wf_addr (from_proxy_target t)"
  shows "accept_proto env (InTrojan h) \<lparr>inp = encode_request_head Trojan.CMD_CONNECT t h @ data, outp = []\<rparr> =
    Some (Ret (Inr (AccTcp t data None)))"
  using read_request_head_encode [OF assms, of "Some h" Trojan.CMD_CONNECT data "[]"]
  by (simp add: accept_proto_def trojan_handshake_def io_bind_def)

lemma vless_accepts:
  assumes "length u = 16" "u \<in> set us" "wf_target t"
  shows "accept_proto env (InVless us) \<lparr>inp = encode_request u Vless.CMD_TCP t [] @ data, outp = []\<rparr> =
    Some (Ret (Inr (AccTcp t data None)))"
  using assms(2) vless_read_head_encode [OF assms(1,3), of Vless.CMD_TCP data "[]"]
  by (simp add: accept_proto_def vless_handshake_def io_bind_def write_response_def)

interpretation open_socks: plain_inbound "InSocks \<lparr>username = None, password = None\<rparr>"
    "\<lambda>t. [VER, 1, 0, VER, 0x01, 0] @ encode_addr (from_proxy_target t)" "\<lambda>t. wf_addr (from_proxy_target t)"
  by unfold_locales (rule socks_open_accepts)

interpretation trojan_in: plain_inbound "InTrojan h" "\<lambda>t. encode_request_head Trojan.CMD_CONNECT t h"
    "\<lambda>t. length h = 56 \<and> utf8_valid (as_bytes h) \<and> wf_addr (from_proxy_target t)" for h
  by unfold_locales (simp add: trojan_accepts)

interpretation vless_in: plain_inbound "InVless us" "\<lambda>t. encode_request u Vless.CMD_TCP t []"
    "\<lambda>t. length u = 16 \<and> u \<in> set us \<and> wf_target t" for us u
  by unfold_locales (simp add: vless_accepts)

text \<open>A Trojan inbound relays. From the configuration to the remote end: when the plans are built
  and node \<open>i\<close> is a Trojan node with a password, then whatever a client with this password sends behind
  its request reaches, byte for byte and however it arrives, the target of the request
  through the outbound that the router chooses, and what the remote answers reaches
  the client.\<close>

theorem trojan_inbound_relays:
  assumes "build_node_plans benv wire = Inr plans" "i < length (nodes wire)"
    and "nd_type (nodes wire ! i) = ''trojan''" "str_field (nd_protocol (nodes wire ! i)) ''password'' = Some pw"
    and "\<And>x. length (be_sha224 benv x) = 28" "wf_addr (from_proxy_target target)"
    and "event_bytes (le_arrive env data) = data"
    and "inspect_stream (le_arrive env data) = Ret (sniffed, rest)"
    and "route is_match (ps_router sh) target (or_else (so_host sniffed) (domain_of target)) (ps_inbound_tag sh) = Proxy c"
    and "connect c target = Inr reply"
  shows "serve env is_match connect sh (np_proto (plans ! i))
      \<lparr>inp = outp (snd (trojan_connect_tcp (be_sha224 benv) pw target \<lparr>inp = [], outp = []\<rparr>)) @ data, outp = []\<rparr> =
    Some (Ret (Relayed \<lparr>te_result = Inr (), te_to_client = reply, te_remote = Some (c, target, data)\<rparr>
      (add_down (length reply) (add_up (length data - length (so_consumed sniffed)) (ps_counters sh)))))"
proof -
  have "build_proto benv i (nodes wire ! i) = Inr (InTrojan (password_hash (be_sha224 benv) pw))"
    using assms(3,4) by (simp add: build_proto_def require_field_def sum_bind_def)
  then have "np_proto (plans ! i) = InTrojan (password_hash (be_sha224 benv) pw)"
    using plan_of_Inr(2) [OF built_plan [OF assms(1,2)]] by simp
  then show ?thesis
    using trojan_in.relays [where connect = connect, OF _ assms(7-10)] password_hash_ok [of "be_sha224 benv" pw, OF assms(5)] assms(6)
    by (simp add: trojan_connect_tcp_def)
qed

definition trojan_wire :: runtime_config_wire where
  "trojan_wire = default_wire\<lparr>nodes := [plain_node ''trojan'' [(''password'', JString ''pw'')] []]\<rparr>"

definition sample_listener_env :: listener_env where
  "sample_listener_env = \<lparr>le_open = (\<lambda>_ _ _ _ _. None), le_vmess = mask_prims, le_mieru = xor_prims, le_now = 0,
    le_nonce = [], le_arrive = (\<lambda>b. [Got (take 1 b), Got (drop 1 b)])\<rparr>"

lemma sample_arrives: "le_arrive sample_listener_env [1, 2] = [Got [1], Got [2]]"
  by (simp add: sample_listener_env_def)

lemma sample_inspects:
  "inspect_stream (le_arrive sample_listener_env [1, 2]) = Ret (unknown_outcome [1, 2], [])"
proof -
  have c: "try_classify [] = Ret None" "try_classify [1] = Ret None" "try_classify [1, 2] = Ret None"
    by (simp_all add: try_classify_def classify_http_def is_tls_record_def looks_like_http_def http_methods_def as_bytes_def)
  show ?thesis unfolding sample_arrives by (simp add: inspect_stream_def inspect_loop.simps c)
qed

lemma sample_routes:
  "route (\<lambda>_ _. False) (ps_router sample_shared) (Domain ''a.b'' 443)
      (or_else (so_host (unknown_outcome [1, 2])) (domain_of (Domain ''a.b'' 443))) (ps_inbound_tag sample_shared)
    = Proxy DirectOutbound"
  by (simp add: route_def sample_shared_def Let_def)

lemma trojan_wire_built: "\<exists>plans. build_node_plans sample_env trojan_wire = Inr plans"
  by (simp add: build_node_plans_def trojan_wire_def plain_node_def plan_of_def expand_listen_addrs_def listen_ip_def
      opt_list_def build_proto_def tls_setup_def inbound_mux_of_def wrap_of_def sum_bind_def require_field_def
      str_field_def get_key_def)

theorem trojan_inbound_relays_witness:
  "\<exists>plans. build_node_plans sample_env trojan_wire = Inr plans
    \<and> serve sample_listener_env (\<lambda>_ _. False) (\<lambda>_ _. Inr [9]) sample_shared (np_proto (plans ! 0))
      \<lparr>inp = outp (snd (trojan_connect_tcp (be_sha224 sample_env) ''pw'' (Domain ''a.b'' 443) \<lparr>inp = [], outp = []\<rparr>)) @ [1, 2],
       outp = []\<rparr> =
    Some (Ret (Relayed \<lparr>te_result = Inr (), te_to_client = [9], te_remote = Some (DirectOutbound, Domain ''a.b'' 443, [1, 2])\<rparr>
      (add_down (length [9 :: byte]) (add_up (length [1 :: byte, 2] - length (so_consumed (unknown_outcome [1, 2]))) (ps_counters sample_shared)))))"
proof -
  obtain plans where p: "build_node_plans sample_env trojan_wire = Inr plans" using trojan_wire_built by blast
  have w: "wf_addr (from_proxy_target (Domain ''a.b'' 443))" by code_simp
  show ?thesis
  proof (intro exI conjI)
    show "build_node_plans sample_env trojan_wire = Inr plans" by (rule p)
  qed (rule trojan_inbound_relays [where connect = "\<lambda>_ _. Inr [9]", OF p _ _ _ _ w _ sample_inspects sample_routes];
      simp add: trojan_wire_def plain_node_def str_field_def get_key_def sample_env_def sample_arrives)
qed

section \<open>Authorities\<close>

text \<open>An authority \<open>host:port\<close> names this host and port; brackets around an IPv6 address are removed.\<close>

lemma naive_authority_host:
  assumes "set h \<inter> {CHR '':'', CHR ''['', CHR '']''} = {}" "h \<noteq> []"
  shows "parse_naive_authority (h @ CHR '':'' # show_nat (unat p)) = host_target h p"
proof -
  let ?s = "show_nat (unat p)"
  have d: "CHR '']'' \<notin> set ?s" "CHR '':'' \<notin> set ?s"
    using show_nat_digits [of "unat p"] colon_not_in_show_nat [of "unat p"] by (auto simp: digit_val_def)
  have a: "dropWhile (\<lambda>c. c = CHR ''['') (h @ CHR '':'' # ?s) = h @ CHR '':'' # ?s"
    using assms by (cases h) auto
  have f: "find_char CHR '']'' (h @ CHR '':'' # ?s) = None"
    using assms d by (auto simp: find_char_def)
  have p: "port_or_443 ?s = p" by (simp add: port_or_443_def parse_port_show)
  show ?thesis
    using rsplit_once_last [OF d(2), of h] unfolding parse_naive_authority_def Let_def a f by (simp add: p)
qed

end
