(* ===== verification/UdpRelay.thy ===== *)
theory UdpRelay
  imports SocksProto Trojan Vless Router
begin

text \<open>
  Datagrams between an inbound and an outbound: the UDP pump of the SOCKS inbound
  (\<open>pipeline/executor.rs\<close>, \<open>handle_socks_udp\<close>), the direct outbound, the tasks of
  \<open>handle_trojan_udp\<close> and \<open>handle_vless_udp\<close> (\<open>listener_executor.rs\<close>) and the Trojan and
  VLESS clients that bridge datagrams over a stream. The channels between
  the tasks keep the order of the packets and lose none.
\<close>

record udp_packet =
  up_source :: "socket_addr option"
  up_target :: proxy_target
  up_data :: bytes

section \<open>The SOCKS pump\<close>

text \<open>The two tasks share the address of the peer. An event is one round of a task: a datagram on the socket (and
  whether the channel to the outbound accepts its packet), a packet of the outbound
  (and whether the socket sends it), or the error or the closed channel that ends a task.\<close>

datatype pump_event =
    FromSocket socket_addr bytes bool
  | FromRemote udp_packet bool
  | SocketFailed
  | RemoteClosed

record socks_pump =
  pm_peer :: "socket_addr option"
  pm_to_remote :: "udp_packet list"
  pm_sent :: "(bytes \<times> socket_addr) list"
  pm_up_done :: bool
  pm_down_done :: bool

definition pump_init :: socks_pump where
  "pump_init = \<lparr>pm_peer = None, pm_to_remote = [], pm_sent = [], pm_up_done = False, pm_down_done = False\<rparr>"

text \<open>\<open>format!("{}:{}", h, p).parse()\<close>: an IPv4 address, or an IPv6 address in brackets (without
  a scope).\<close>

definition addr_of_host :: "string \<Rightarrow> u16 \<Rightarrow> socket_addr" where
  "addr_of_host h p =
    (case parse_ip h of
       Some (IpV4 a) \<Rightarrow> SocketAddr (IpV4 a) p
     | _ \<Rightarrow>
         (if h \<noteq> [] \<and> hd h = CHR ''['' \<and> last h = CHR '']'' then
            (case parse_ip (butlast (tl h)) of
               Some (IpV6 a) \<Rightarrow> SocketAddr (IpV6 a) p
             | _ \<Rightarrow> SocketAddr (IpV4 0) 0)
          else SocketAddr (IpV4 0) 0))"

definition reply_source :: "udp_packet \<Rightarrow> socket_addr" where
  "reply_source pkt =
    (case up_source pkt of
       Some a \<Rightarrow> a
     | None \<Rightarrow> (case up_target pkt of Tcp a \<Rightarrow> a | Domain h p \<Rightarrow> addr_of_host h p))"

definition socks_frame :: "udp_packet \<Rightarrow> bytes" where
  "socks_frame pkt = encode_udp_packet (from_proxy_target (up_target pkt)) (up_data pkt)"

fun pump_step :: "socks_pump \<Rightarrow> pump_event \<Rightarrow> socks_pump" where
  "pump_step s (FromSocket from buf accepted) =
    (if pm_up_done s then s
     else
       let s1 = s\<lparr>pm_peer := Some from\<rparr> in
       (case parse_udp_packet buf of
          Inl _ \<Rightarrow> s1
        | Inr (addr, data) \<Rightarrow>
            if accepted
            then s1\<lparr>pm_to_remote := pm_to_remote s1 @ [\<lparr>up_source = None, up_target = to_proxy_target addr, up_data = data\<rparr>]\<rparr>
            else s1\<lparr>pm_up_done := True\<rparr>))"
| "pump_step s (FromRemote pkt was_sent) =
    (if pm_down_done s then s
     else
       let dst = (case pm_peer s of Some a \<Rightarrow> a | None \<Rightarrow> reply_source pkt) in
       if was_sent then s\<lparr>pm_sent := pm_sent s @ [(socks_frame pkt, dst)]\<rparr>
       else s\<lparr>pm_down_done := True\<rparr>)"
| "pump_step s SocketFailed = s\<lparr>pm_up_done := True\<rparr>"
| "pump_step s RemoteClosed = s\<lparr>pm_down_done := True\<rparr>"

text \<open>\<open>handle_socks_udp\<close>: the reply with the port of the relay is written before the outbound is chosen.\<close>

definition socks_udp_reply :: "u16 \<Rightarrow> bytes" where
  "socks_udp_reply port = [5, 0, 0, 1] @ [0, 0, 0, 0] @ u16_be port"

definition handle_socks_udp :: "'re router \<Rightarrow> connector list \<Rightarrow> u16 \<Rightarrow> bytes \<times> (io_error + connector)" where
  "handle_socks_udp r vals port = (socks_udp_reply port, first_udp_connector r vals)"

text \<open>\<open>handle_trojan_udp\<close> and \<open>handle_vless_udp\<close> choose the outbound and open its datagram side before the two tasks start; without
  one the connection is closed.\<close>

definition open_udp_outbound :: "(connector \<Rightarrow> io_error + 'h) \<Rightarrow> 're router \<Rightarrow> connector list \<Rightarrow> io_error + 'h" where
  "open_udp_outbound connect_udp r vals =
    (case first_udp_connector r vals of Inl e \<Rightarrow> Inl e | Inr c \<Rightarrow> connect_udp c)"

section \<open>The direct outbound\<close>

definition direct_incoming :: "socket_addr \<Rightarrow> bytes \<Rightarrow> udp_packet" where
  "direct_incoming src d = \<lparr>up_source = Some src, up_target = Tcp src, up_data = d\<rparr>"

definition direct_outgoing ::
    "(string \<Rightarrow> u16 \<Rightarrow> io_error + socket_addr list) \<Rightarrow> udp_packet \<Rightarrow> (bytes \<times> socket_addr) option" where
  "direct_outgoing lookup_host pkt =
    (case up_target pkt of
       Tcp a \<Rightarrow> Some (up_data pkt, a)
     | Domain h p \<Rightarrow>
         (case lookup_host h p of
            Inr (a # _) \<Rightarrow> Some (up_data pkt, a)
          | _ \<Rightarrow> None))"

section \<open>Trojan\<close>

definition trojan_frames :: "udp_packet list \<Rightarrow> bytes" where
  "trojan_frames ps = concat (map (\<lambda>p. udp_encode (from_proxy_target (up_target p)) (up_data p)) ps)"

text \<open>The sending task of \<open>bridge_udp\<close> and the downlink task of \<open>handle_trojan_udp\<close> write one frame per packet.\<close>

definition bridge_send :: "udp_packet list \<Rightarrow> unit io" where
  "bridge_send ps = write_all (trojan_frames ps)"

definition trojan_downlink :: "udp_packet list \<Rightarrow> unit io" where
  "trojan_downlink ps = write_all (trojan_frames ps)"

definition packet_of :: "socks5_addr \<times> bytes \<Rightarrow> udp_packet" where
  "packet_of = (\<lambda>(a, d). \<lparr>up_source = None, up_target = to_proxy_target a, up_data = d\<rparr>)"

text \<open>The receiving task of \<open>bridge_udp\<close>: the packets that are complete, then the next read (no more reads: it
  waits; an empty read ends the loop).\<close>

fun bridge_recv :: "udp_decoder \<Rightarrow> bytes list \<Rightarrow> udp_packet list" where
  "bridge_recv d reads =
    (case packets d of
       (fs, d', Some e) \<Rightarrow> map packet_of fs
     | (fs, d', None) \<Rightarrow>
         map packet_of fs @ (case reads of [] \<Rightarrow> [] | c # cs \<Rightarrow> if c = [] then [] else bridge_recv (feed c d') cs))"

declare bridge_recv.simps [simp del]

section \<open>VLESS\<close>

lemma frame_addr_len_pos: "b \<noteq> [] \<Longrightarrow> 0 < frame_addr_len b"
  by (simp add: frame_addr_len_def)

lemma vless_next_shrinks:
  assumes "vless_next_packet buf eof = (Some (Inr f), buf')"
  shows "length buf' < length buf"
  using assms by (auto simp: vless_next_packet_def Let_def split: if_splits option.splits)

function vless_packets :: "bytes \<Rightarrow> (proxy_target \<times> bytes) list \<times> bytes \<times> bool" where
  "vless_packets buf =
    (case vless_next_packet buf False of
       (None, buf') \<Rightarrow> ([], buf', True)
     | (Some (Inl e), buf') \<Rightarrow> ([], buf', False)
     | (Some (Inr f), buf') \<Rightarrow> (case vless_packets buf' of (fs, r, go) \<Rightarrow> (f # fs, r, go)))"
  by auto
termination
  by (relation "measure length") (auto dest: vless_next_shrinks [OF sym])

declare vless_packets.simps [simp del]

fun vless_uplink :: "bytes \<Rightarrow> bytes list \<Rightarrow> udp_packet list" where
  "vless_uplink buf [] = []"
| "vless_uplink buf (c # cs) =
    (if c = [] then []
     else (case vless_packets (buf @ c) of
         (fs, r, go) \<Rightarrow>
           map (\<lambda>(t, d). \<lparr>up_source = None, up_target = t, up_data = d\<rparr>) fs @ (if go then vless_uplink r cs else [])))"

definition vless_downlink :: "udp_packet list \<Rightarrow> unit io" where
  "vless_downlink ps = write_all (concat (map (\<lambda>p. vless_udp_encode (up_target p) (up_data p)) ps))"

definition vless_connect_udp :: "string \<Rightarrow> unit io" where
  "vless_connect_udp uuid =
    (case uuid_bytes uuid of
       Inl e \<Rightarrow> io_throw e
     | Inr u \<Rightarrow> io_bind (write_all (encode_request u Vless.CMD_UDP (Domain ''0.0.0.0'' 0) [])) (\<lambda>_. read_response))"

text \<open>The tasks of the client, behind its request.\<close>

definition vless_client_send :: "udp_packet list \<Rightarrow> unit io" where
  "vless_client_send ps = write_all (concat (map (\<lambda>p. vless_udp_encode (up_target p) (up_data p)) ps))"

definition vless_client_recv :: "bytes list \<Rightarrow> udp_packet list" where
  "vless_client_recv reads = vless_uplink [] reads"

section \<open>What the SOCKS pump does\<close>

text \<open>The packets that the datagrams of a run carry, and where the replies of a run go.\<close>

fun forwarded :: "pump_event list \<Rightarrow> udp_packet list" where
  "forwarded [] = []"
| "forwarded (FromSocket from buf ok # es) =
    (case parse_udp_packet buf of Inl _ \<Rightarrow> [] | Inr f \<Rightarrow> [packet_of f]) @ forwarded es"
| "forwarded (FromRemote pkt ok # es) = forwarded es"
| "forwarded (SocketFailed # es) = []"
| "forwarded (RemoteClosed # es) = forwarded es"

fun replies :: "socket_addr option \<Rightarrow> pump_event list \<Rightarrow> (bytes \<times> socket_addr) list" where
  "replies peer [] = []"
| "replies peer (FromSocket from buf ok # es) = replies (Some from) es"
| "replies peer (FromRemote pkt ok # es) =
    (socks_frame pkt, case peer of Some a \<Rightarrow> a | None \<Rightarrow> reply_source pkt) # replies peer es"
| "replies peer (SocketFailed # es) = replies peer es"
| "replies peer (RemoteClosed # es) = []"

fun event_ok :: "pump_event \<Rightarrow> bool" where
  "event_ok (FromSocket from buf ok) = ok"
| "event_ok (FromRemote pkt ok) = ok"
| "event_ok SocketFailed = False"
| "event_ok RemoteClosed = False"

lemma pump_run:
  assumes "\<not> pm_up_done s" "\<not> pm_down_done s" "list_all event_ok es"
  shows "pm_to_remote (foldl pump_step s es) = pm_to_remote s @ forwarded es
    \<and> pm_sent (foldl pump_step s es) = pm_sent s @ replies (pm_peer s) es"
  using assms
proof (induction es arbitrary: s)
  case (Cons e es)
  show ?case
  proof (cases e)
    case (FromSocket src buf ok)
    have "\<not> pm_up_done (pump_step s e)" "\<not> pm_down_done (pump_step s e)" "pm_peer (pump_step s e) = Some src"
      using Cons(2-4) FromSocket by (auto simp: Let_def split: sum.splits)
    then show ?thesis
      using Cons(1) [of "pump_step s e"] Cons(2-4) FromSocket
      by (auto simp: Let_def packet_of_def split: sum.splits)
  next
    case (FromRemote pkt ok)
    have "\<not> pm_up_done (pump_step s e)" "\<not> pm_down_done (pump_step s e)" "pm_peer (pump_step s e) = pm_peer s"
      using Cons(2-4) FromRemote by (auto simp: Let_def)
    then show ?thesis
      using Cons(1) [of "pump_step s e"] Cons(2-4) FromRemote by (simp add: Let_def)
  qed (use Cons in simp_all)
qed simp

text \<open>Property C30: the SOCKS relay carries datagrams both ways. In every interleaving of its two tasks, while neither ends, the outbound
  gets exactly the packets that the datagrams on the socket encode, in order, whoever sent
  them; every packet of the outbound is sent, as a SOCKS datagram that names its origin,
  to the sender of the last datagram before it, even when that datagram was not
  from the client or could not be parsed.\<close>

theorem socks_udp_relays:
  assumes "list_all event_ok es"
  shows "pm_to_remote (foldl pump_step pump_init es) = forwarded es
    \<and> pm_sent (foldl pump_step pump_init es) = replies None es"
  using pump_run [of pump_init es] assms by (simp add: pump_init_def)

theorem socks_udp_relays_witness:
  "pm_sent (foldl pump_step pump_init
      [FromSocket (SocketAddr (IpV4 1) 7) (encode_udp_packet (V4 [8, 8, 8, 8] 53) [1]) True,
       FromSocket (SocketAddr (IpV4 2) 9) [] True,
       FromRemote \<lparr>up_source = None, up_target = Tcp (SocketAddr (IpV4 3) 53), up_data = [4]\<rparr> True]) =
    [(socks_frame \<lparr>up_source = None, up_target = Tcp (SocketAddr (IpV4 3) 53), up_data = [4]\<rparr>, SocketAddr (IpV4 2) 9)]"
  using socks_udp_relays [of "[FromSocket (SocketAddr (IpV4 1) 7) (encode_udp_packet (V4 [8, 8, 8, 8] 53) [1]) True,
       FromSocket (SocketAddr (IpV4 2) 9) [] True,
       FromRemote \<lparr>up_source = None, up_target = Tcp (SocketAddr (IpV4 3) 53), up_data = [4]\<rparr> True]"]
  by simp

section \<open>Datagrams over a Trojan stream\<close>

lemma packets_new: "packets decoder_new = ([], decoder_new, None)"
  by (subst packets.simps) (simp add: next_packet_def decoder_new_def try_parse_def decode_def)

lemma bridge_recv_uplink:
  assumes "[] \<notin> set cs"
  shows "bridge_recv d cs =
    (case packets d of (fs, d', Some e) \<Rightarrow> map packet_of fs
     | (fs, d', None) \<Rightarrow> map packet_of fs @ map (\<lambda>(t, x). \<lparr>up_source = None, up_target = t, up_data = x\<rparr>) (fst (uplink d' cs)))"
  using assms
proof (induction cs arbitrary: d)
  case Nil
  show ?case by (subst bridge_recv.simps) (simp split: prod.splits option.splits)
next
  case (Cons c cs)
  obtain fs d' e where p: "packets d = (fs, d', e)" by (metis surj_pair)
  obtain gs d2 e2 where q: "packets (feed c d') = (gs, d2, e2)" by (metis surj_pair)
  have m: "map (\<lambda>(t, x). \<lparr>up_source = None, up_target = t, up_data = x\<rparr>) (map (\<lambda>(a, x). (to_proxy_target a, x)) gs) = map packet_of gs"
    by (simp add: packet_of_def case_prod_beta)
  show ?case
    using Cons(1) [of "feed c d'"] Cons(2) p q m
    by (subst bridge_recv.simps) (auto split: option.splits prod.splits)
qed

definition packet_ok :: "udp_packet \<Rightarrow> bool" where
  "packet_ok p \<longleftrightarrow> up_source p = None \<and> frame_ok (from_proxy_target (up_target p), up_data p)"

lemma uplink_frames:
  assumes "list_all packet_ok ps" "concat cs = trojan_frames ps" "[] \<notin> set cs"
  shows "uplink decoder_new cs = (map (\<lambda>p. (up_target p, up_data p)) ps, None)"
proof -
  let ?fs = "map (\<lambda>p. (from_proxy_target (up_target p), up_data p)) ps"
  have "list_all frame_ok ?fs" using assms(1) by (auto simp: list_all_iff packet_ok_def)
  moreover have "concat cs = concat (map (case_prod udp_encode) ?fs)"
    using assms(2) by (simp add: trojan_frames_def o_def)
  ultimately have "fst (pump try_parse [] cs) = ?fs" "snd (snd (pump try_parse [] cs)) = None"
    using trojan_udp.pump_encoded by blast+
  then show ?thesis
    using uplink_pump [OF assms(3), of decoder_new]
    by (auto simp: decoder_new_def o_def to_from_proxy_target split: prod.splits)
qed

text \<open>Property C12: datagrams cross a Trojan stream in both directions. What the client's bridge sends for any packets reaches the outbound
  of the server as these packets, and what the server's downlink sends for any packets comes out of the client's bridge as
  these packets, in order and however the bytes of the two directions are cut into reads.\<close>

theorem trojan_udp_bridge:
  assumes "list_all packet_ok ps" "list_all packet_ok qs"
    and "concat cs = outp (snd (bridge_send ps \<lparr>inp = [], outp = []\<rparr>))" "[] \<notin> set cs"
    and "concat ds = outp (snd (trojan_downlink qs \<lparr>inp = [], outp = []\<rparr>))" "[] \<notin> set ds"
  shows "uplink decoder_new cs = (map (\<lambda>p. (up_target p, up_data p)) ps, None)
    \<and> bridge_recv decoder_new ds = qs"
proof
  show "uplink decoder_new cs = (map (\<lambda>p. (up_target p, up_data p)) ps, None)"
    using uplink_frames [OF assms(1) _ assms(4)] assms(3) by (simp add: bridge_send_def)
  have "uplink decoder_new ds = (map (\<lambda>p. (up_target p, up_data p)) qs, None)"
    using uplink_frames [OF assms(2) _ assms(6)] assms(5) by (simp add: trojan_downlink_def)
  moreover have "map (\<lambda>p. \<lparr>up_source = None, up_target = up_target p, up_data = up_data p\<rparr>) qs = qs"
    using assms(2) by (intro map_idI) (auto simp: list_all_iff packet_ok_def)
  ultimately show "bridge_recv decoder_new ds = qs"
    using bridge_recv_uplink [OF assms(6), of decoder_new] by (simp add: packets_new o_def)
qed

theorem trojan_udp_bridge_witness:
  "bridge_recv decoder_new
    [trojan_frames [\<lparr>up_source = None, up_target = Domain ''a'' 53, up_data = [1, 2]\<rparr>]] =
    [\<lparr>up_source = None, up_target = Domain ''a'' 53, up_data = [1, 2]\<rparr>]"
proof -
  let ?p = "\<lparr>up_source = None, up_target = Domain ''a'' 53, up_data = [1, 2]\<rparr> :: udp_packet"
  have "packet_ok ?p" by code_simp
  moreover have "trojan_frames [?p] \<noteq> []" by code_simp
  ultimately show ?thesis
    using trojan_udp_bridge [of "[?p]" "[?p]" "[trojan_frames [?p]]" "[trojan_frames [?p]]"]
    by (simp add: bridge_send_def trojan_downlink_def)
qed

end
