(* ===== verification/Outbounds.thy ===== *)
theory Outbounds
  imports Connectors Listener UdpRelay
begin

text \<open>
  The connectors of \<open>outbound_artifacts.rs\<close>: every \<open>connect_tcp\<close> and \<open>connect_udp\<close> dials its server
  through the layers of \<open>Connectors\<close> and runs the client of its protocol on the
  connection. A result names the layers under the stream that the relay gets. The
  AnyTLS and Hysteria2 connectors pool a session (\<open>Connectors\<close>, \<open>HysteriaConn\<close>).
\<close>

record out_env =
  oe_net :: net_env
  oe_pool :: "(io_error + out_layer list) \<Rightarrow> io_error + out_layer list"
  oe_lookup :: "string \<Rightarrow> u16 \<Rightarrow> io_error + socket_addr list"
  oe_sha224 :: "bytes \<Rightarrow> bytes"
  oe_vmess :: vm_prims
  oe_mieru :: mieru_prims
  oe_seal :: seal_fn
  oe_base64 :: "string \<Rightarrow> string"
  oe_now :: u64
  oe_random :: vm_random
  oe_fresh :: bytes

section \<open>Connecting\<close>

definition over_layers :: "io_error + out_layer list \<Rightarrow> unit io \<Rightarrow> out_layer list io" where
  "over_layers dialled client =
    (case dialled of
       Inl e \<Rightarrow> io_throw e
     | Inr ls \<Rightarrow> io_bind client (\<lambda>_. io_ret ls))"

definition pool_for :: "out_env \<Rightarrow> mux_kind option \<Rightarrow> ((io_error + out_layer list) \<Rightarrow> io_error + out_layer list) option" where
  "pool_for oe mux = map_option (\<lambda>_. oe_pool oe) mux"

definition direct_connect_tcp :: "out_env \<Rightarrow> proxy_target \<Rightarrow> io_error + out_layer list" where
  "direct_connect_tcp oe target = map_sum id (\<lambda>a. [OutTcp a]) (dial_tcp (oe_net oe) target)"

definition reject_connect_tcp :: "io_error + out_layer list" where
  "reject_connect_tcp = Inl (IoError PermissionDenied ''rejected'')"

definition trojan_connector_tcp ::
    "out_env \<Rightarrow> string \<Rightarrow> u16 \<Rightarrow> string \<Rightarrow> tls_client_spec option \<Rightarrow> transport_spec option \<Rightarrow> mux_kind option
     \<Rightarrow> proxy_target \<Rightarrow> out_layer list io" where
  "trojan_connector_tcp oe srv p pw tls transport mux target =
    over_layers (dial_with_transport (oe_net oe) srv p tls transport (pool_for oe mux))
      (trojan_connect_tcp (oe_sha224 oe) pw target)"

definition trojan_connector_udp ::
    "out_env \<Rightarrow> string \<Rightarrow> u16 \<Rightarrow> string \<Rightarrow> tls_client_spec option \<Rightarrow> out_layer list io" where
  "trojan_connector_udp oe srv p pw tls =
    over_layers (dial_with_transport (oe_net oe) srv p tls None None) (trojan_udp_start (oe_sha224 oe) pw)"

definition vless_connector_tcp ::
    "out_env \<Rightarrow> string \<Rightarrow> u16 \<Rightarrow> string \<Rightarrow> tls_client_spec option \<Rightarrow> transport_spec option \<Rightarrow> mux_kind option
     \<Rightarrow> proxy_target \<Rightarrow> out_layer list io" where
  "vless_connector_tcp oe srv p uuid tls transport mux target =
    over_layers (dial_with_transport (oe_net oe) srv p tls transport (pool_for oe mux))
      (vless_connect_tcp uuid target)"

definition vless_connector_udp ::
    "out_env \<Rightarrow> string \<Rightarrow> u16 \<Rightarrow> string \<Rightarrow> tls_client_spec option \<Rightarrow> out_layer list io" where
  "vless_connector_udp oe srv p uuid tls =
    over_layers (dial_with_transport (oe_net oe) srv p tls None None) (vless_connect_udp uuid)"

definition ss_connector_tcp ::
    "out_env \<Rightarrow> string \<Rightarrow> u16 \<Rightarrow> ss_config \<Rightarrow> proxy_target \<Rightarrow> conn \<Rightarrow> (io_error + out_layer list \<times> ss_conn) rs" where
  "ss_connector_tcp oe srv p cfg target c =
    (case connect_server (oe_net oe) srv p of
       Inl e \<Rightarrow> Ret (Inl e)
     | Inr a \<Rightarrow> rs_bind (Shadowsocks.connect_tcp (oe_seal oe) cfg (oe_fresh oe) target c)
         (\<lambda>r. Ret (map_sum id (Pair [OutTcp a]) r)))"

definition vmess_connector_tcp ::
    "out_env \<Rightarrow> string \<Rightarrow> u16 \<Rightarrow> string \<Rightarrow> string \<Rightarrow> tls_client_spec option \<Rightarrow> mux_kind option \<Rightarrow> proxy_target \<Rightarrow> conn
     \<Rightarrow> (io_error + out_layer list \<times> chunk_state \<times> chunk_state) rs \<times> conn" where
  "vmess_connector_tcp oe srv p uuid security tls mux target c =
    (case dial_underlay (oe_net oe) srv p tls of
       Inl e \<Rightarrow> (Ret (Inl e), c)
     | Inr ls \<Rightarrow>
         apfst (\<lambda>x. rs_bind x (\<lambda>r. Ret (map_sum id (Pair ls) r)))
           (vm_connect (oe_vmess oe) uuid security (oe_now oe) (oe_random oe) target c))"

definition mieru_connector_tcp ::
    "out_env \<Rightarrow> string \<Rightarrow> u16 \<Rightarrow> mieru_config \<Rightarrow> proxy_target \<Rightarrow> bytes list
     \<Rightarrow> (bytes \<times> (io_error + out_layer list \<times> segment_state \<times> segment_state)) option" where
  "mieru_connector_tcp oe srv p cfg target reads =
    (case connect_server (oe_net oe) srv p of
       Inl e \<Rightarrow> Some ([], Inl e)
     | Inr a \<Rightarrow> map_option (apsnd (map_sum id (Pair [OutTcp a])))
         (connect_mieru (oe_mieru oe) (oe_now oe) cfg (oe_fresh oe) target reads))"

text \<open>The authority of the request is written as the \<open>Display\<close> of the target does it.\<close>

definition naive_connector_tcp ::
    "out_env \<Rightarrow> string \<Rightarrow> u16 \<Rightarrow> bool \<Rightarrow> string option \<Rightarrow> proxy_target \<Rightarrow> io_error + out_layer list" where
  "naive_connector_tcp oe srv p insecure sni target =
    (case dial_with_transport (oe_net oe) srv p
        (Some \<lparr>cs_skip_verify = insecure, cs_alpn = [''h2''], cs_sni_override = sni\<rparr>) None None of
       Inl e \<Rightarrow> Inl e
     | Inr ls \<Rightarrow>
         let l = OutNaive (show_target target) in
         (case ne_upgrade (oe_net oe) l of Some e \<Rightarrow> Inl e | None \<Rightarrow> Inr (ls @ [l])))"

definition resolve_sock_addr :: "out_env \<Rightarrow> string \<Rightarrow> u16 \<Rightarrow> io_error + socket_addr" where
  "resolve_sock_addr oe h p =
    (case parse_ip h of
       Some a \<Rightarrow> Inr (SocketAddr a p)
     | None \<Rightarrow>
         (case oe_lookup oe h p of
            Inl e \<Rightarrow> Inl e
          | Inr [] \<Rightarrow> Inl (io_err ''dns: no address records found'')
          | Inr (a # _) \<Rightarrow> Inr a))"

text \<open>No time limit of its own: an attempt that takes longer than the others allow still ends here, as it
  ends for the system.\<close>

definition dial_server :: "out_env \<Rightarrow> (socket_addr \<Rightarrow> io_error option) \<Rightarrow> socks_outbound_config \<Rightarrow> io_error + socket_addr" where
  "dial_server oe sys_connect cfg =
    (case resolve_sock_addr oe (SocksProto.server cfg) (SocksProto.server_port cfg) of
       Inl e \<Rightarrow> Inl e
     | Inr a \<Rightarrow> (case sys_connect a of Some e \<Rightarrow> Inl e | None \<Rightarrow> Inr a))"

definition socks_connector_tcp ::
    "out_env \<Rightarrow> (socket_addr \<Rightarrow> io_error option) \<Rightarrow> socks_outbound_config \<Rightarrow> proxy_target \<Rightarrow> out_layer list io" where
  "socks_connector_tcp oe sys_connect cfg target =
    over_layers (map_sum id (\<lambda>a. [OutTcp a]) (dial_server oe sys_connect cfg)) (SocksProto.connect_tcp cfg target)"

definition http_connector_tcp ::
    "out_env \<Rightarrow> string \<Rightarrow> u16 \<Rightarrow> string option \<Rightarrow> string option \<Rightarrow> proxy_target \<Rightarrow> bytes list
     \<Rightarrow> bytes \<times> (io_error + out_layer list \<times> bytes list)" where
  "http_connector_tcp oe srv p user pass target reads =
    (case connect_server (oe_net oe) srv p of
       Inl e \<Rightarrow> ([], Inl e)
     | Inr a \<Rightarrow> apsnd (map_sum id (Pair [OutTcp a])) (http_connect_handshake (oe_base64 oe) target user pass reads))"

section \<open>Layers under a stream\<close>

text \<open>Whatever the settings, a dialled connection starts with TCP to an address the resolver gave, and TLS is the next layer exactly
  when it is configured.\<close>

lemma dial_underlay_layers:
  assumes "dial_underlay ne srv p tls = Inr ls"
  shows "\<exists>a as ls'. ne_resolver ne srv p = Inr (a # as) \<and> ls = OutTcp a # ls' \<and> ne_connect ne a = Completed
    \<and> (tls = None \<longrightarrow> ls' = [])
    \<and> (\<forall>spec. tls = Some spec \<longrightarrow>
        ls' = [OutTls (server_name_for srv (cs_sni_override spec)) (cs_skip_verify spec) (cs_alpn spec)])"
  using assms
  by (auto simp: dial_underlay_def connect_server_def resolve_server_addr_def dialer_resolve_def within_time_def
      dial_tls_def Let_def split: sum.splits option.splits list.splits attempt_end.splits)

text \<open>The datagrams of the Trojan and VLESS connectors skip the transport and the multiplexer of their configuration.\<close>

lemma trojan_udp_layers:
  assumes "trojan_connector_udp oe srv p pw tls c = (Inr ls, c')"
  shows "dial_underlay (oe_net oe) srv p tls = Inr ls"
  using assms
  by (auto simp: trojan_connector_udp_def over_layers_def dial_with_transport_def trojan_udp_start_def io_bind_def
      split: sum.splits)

section \<open>A chain of two proxies\<close>

lemma parse_uuids_mem:
  assumes "parse_uuids err raw = Inr bs" "uuid \<in> set raw" "parse_uuid uuid = Some u"
  shows "u \<in> set bs"
  using assms by (induction raw arbitrary: bs) (auto split: option.splits sum.splits)

lemma vless_node_users:
  assumes "build_proto benv i node = Inr proto" "nd_type node = ''vless''"
    and "uuid \<in> set (uuid_field node @ users_of node)" "parse_uuid uuid = Some u"
  shows "\<exists>us. proto = InVless us \<and> u \<in> set us"
  using assms parse_uuids_mem [OF _ assms(3,4)]
  by (auto simp: build_proto_def sum_bind_Inr_iff user_list_def split: sum.splits if_splits)

lemma vless_node_answers:
  assumes "length u = 16" "u \<in> set us" "wf_target target"
  shows "vless_handshake us \<lparr>inp = encode_request u Vless.CMD_TCP target [] @ data, outp = []\<rparr> =
    (Inr (VlessTcp target), \<lparr>inp = data, outp = [0x00, 0x00]\<rparr>)"
  using assms(2) vless_read_head_encode [OF assms(1,3), of Vless.CMD_TCP data "[]"]
  by (simp add: vless_handshake_def io_bind_def write_response_def)

lemma vless_connector_run:
  assumes "parse_uuid uuid = Some u" "dial_with_transport (oe_net oe) srv p tls transport (pool_for oe mux) = Inr ls"
  shows "vless_connector_tcp oe srv p uuid tls transport mux target \<lparr>inp = [0x00, 0x00] @ reply, outp = []\<rparr> =
    (Inr ls, \<lparr>inp = reply, outp = encode_request u Vless.CMD_TCP target []\<rparr>)"
  using vless_connect_run [OF assms(1), of target reply "[]"]
  by (simp add: vless_connector_tcp_def over_layers_def assms(2) io_bind_def)

text \<open>Property C8: two proxies form a chain. One has a VLESS outbound, another a VLESS node that lists the
  UUID of this outbound; the configurations of both are accepted. When the connector can dial the server, then its
  handshake and the node's agree, the answer of the node leaves the connector's stream at the first byte of the
  remote, and what is sent behind the request reaches the target byte for byte.\<close>

theorem vless_chain_relays:
  assumes "build_connector ob = Inr (VlessConnector t srv p uuid' tls transport mux)"
    and "str_field (ob_rest ob) ''uuid'' = Some uuid" "parse_uuid uuid = Some u"
    and "dial_with_transport (oe_net oe) srv p tls transport (pool_for oe mux) = Inr ls"
    and "build_node_plans benv wire = Inr plans" "i < length (nodes wire)"
    and "nd_type (nodes wire ! i) = ''vless''" "uuid \<in> set (uuid_field (nodes wire ! i) @ users_of (nodes wire ! i))"
    and "wf_target target" "event_bytes (le_arrive env data) = data"
    and "inspect_stream (le_arrive env data) = Ret (sniffed, rest)"
    and "route is_match (ps_router sh) target (or_else (so_host sniffed) (domain_of target)) (ps_inbound_tag sh) = Proxy c"
    and "connect c target = Inr reply"
  shows "\<exists>us head answer. np_proto (plans ! i) = InVless us
    \<and> vless_handshake us \<lparr>inp = head @ data, outp = []\<rparr> = (Inr (VlessTcp target), \<lparr>inp = data, outp = answer\<rparr>)
    \<and> vless_connector_tcp oe srv p uuid' tls transport mux target \<lparr>inp = answer @ reply, outp = []\<rparr> =
        (Inr ls, \<lparr>inp = reply, outp = head\<rparr>)
    \<and> serve env is_match connect sh (np_proto (plans ! i)) \<lparr>inp = head @ data, outp = []\<rparr> =
        Some (Ret (Relayed \<lparr>te_result = Inr (), te_to_client = reply, te_remote = Some (c, target, data)\<rparr>
          (add_down (length reply) (add_up (length data - length (so_consumed sniffed)) (ps_counters sh)))))"
proof -
  have u: "length u = 16" by (rule parse_uuid_length [OF assms(3)])
  have uu: "uuid' = uuid"
    using assms(1,2) by (auto simp: build_connector_def Let_def or_default_def split: if_splits)
  obtain us where us: "np_proto (plans ! i) = InVless us" "u \<in> set us"
    using vless_node_users [OF plan_of_Inr(2) [OF built_plan [OF assms(5,6)]] assms(7,8,3)] by blast
  note h = vless_node_answers [OF u us(2) assms(9), of data] and k = vless_connector_run [OF assms(3,4), of target reply]
  have "length u = 16 \<and> u \<in> set us \<and> wf_target target" using u us(2) assms(9) by simp
  note r = vless_in.relays [where connect = connect, OF this assms(10-13)]
  show ?thesis unfolding us(1) uu using h k r by blast
qed

definition vless_uuid :: string where
  "vless_uuid = uuid_to_string (replicate 16 0xAB)"

definition vless_outbound :: outbound_spec_wire where
  "vless_outbound = \<lparr>ob_tag = ''up'', outbound_type = ''vless'',
    ob_target = Some \<lparr>t_server = Some ''s'', t_server_port = Some 443, t_ip_hint = None\<rparr>,
    ob_rest = [(''uuid'', JString vless_uuid)]\<rparr>"

definition vless_wire :: runtime_config_wire where
  "vless_wire = default_wire\<lparr>nodes := [plain_node ''vless'' [(''uuid'', JString vless_uuid)] []]\<rparr>"

definition sample_net :: net_env where
  "sample_net = \<lparr>ne_resolver = (\<lambda>_ p. Inr [SocketAddr (IpV4 7) p]), ne_connect = (\<lambda>_. Completed),
    ne_tls_config = (\<lambda>_. None), ne_bad_name = (\<lambda>_. None), ne_tls = (\<lambda>_ _. Completed), ne_upgrade = (\<lambda>_. None)\<rparr>"

definition sample_out_env :: out_env where
  "sample_out_env = \<lparr>oe_net = sample_net, oe_pool = id, oe_lookup = (\<lambda>_ _. Inr []), oe_sha224 = (\<lambda>_. replicate 28 0x5A),
    oe_vmess = mask_prims, oe_mieru = xor_prims, oe_seal = (\<lambda>_ _ _ _. None), oe_base64 = id, oe_now = 0,
    oe_random = \<lparr>vr_iv = [], vr_key = [], vr_response_v = 0, vr_rand4 = [], vr_nonce8 = []\<rparr>, oe_fresh = []\<rparr>"

lemma vless_wire_built: "\<exists>plans. build_node_plans sample_env vless_wire = Inr plans"
  using parse_uuid_to_string [of "replicate 16 0xAB"]
  by (simp add: build_node_plans_def vless_wire_def plain_node_def plan_of_def expand_listen_addrs_def listen_ip_def
      opt_list_def build_proto_def tls_setup_def inbound_mux_of_def wrap_of_def sum_bind_def user_list_def uuid_field_def
      users_of_def str_field_def get_key_def vless_uuid_def)

theorem vless_chain_relays_witness:
  "\<exists>plans. build_node_plans sample_env vless_wire = Inr plans
    \<and> (\<exists>us head answer. np_proto (plans ! 0) = InVless us
      \<and> vless_handshake us \<lparr>inp = head @ [1, 2], outp = []\<rparr> =
          (Inr (VlessTcp (Domain ''a.b'' 443)), \<lparr>inp = [1, 2], outp = answer\<rparr>)
      \<and> vless_connector_tcp sample_out_env ''s'' 443 vless_uuid None None None (Domain ''a.b'' 443) \<lparr>inp = answer @ [9], outp = []\<rparr> =
          (Inr [OutTcp (SocketAddr (IpV4 7) 443)], \<lparr>inp = [9], outp = head\<rparr>)
      \<and> serve sample_listener_env (\<lambda>_ _. False) (\<lambda>_ _. Inr [9]) sample_shared (np_proto (plans ! 0))
          \<lparr>inp = head @ [1, 2], outp = []\<rparr> =
        Some (Ret (Relayed \<lparr>te_result = Inr (), te_to_client = [9], te_remote = Some (DirectOutbound, Domain ''a.b'' 443, [1, 2])\<rparr>
          (add_down (length [9 :: byte]) (add_up (length [1 :: byte, 2] - length (so_consumed (unknown_outcome [1, 2]))) (ps_counters sample_shared))))))"
proof -
  obtain plans where p: "build_node_plans sample_env vless_wire = Inr plans" using vless_wire_built by blast
  have b: "build_connector vless_outbound = Inr (VlessConnector ''up'' ''s'' 443 vless_uuid None None None)"
    by (simp add: build_connector_def vless_outbound_def Let_def or_default_def str_field_def get_key_def
        parse_tls_client_spec_def parse_transport_spec_def mux_of_def)
  have k: "str_field (ob_rest vless_outbound) ''uuid'' = Some vless_uuid"
    by (simp add: vless_outbound_def str_field_def get_key_def)
  have u: "parse_uuid vless_uuid = Some (replicate 16 0xAB)"
    unfolding vless_uuid_def by (rule parse_uuid_to_string) simp
  have d: "dial_with_transport (oe_net sample_out_env) ''s'' 443 None None (pool_for sample_out_env None) =
      Inr [OutTcp (SocketAddr (IpV4 7) 443)]"
    by (simp add: dial_with_transport_def pool_for_def dial_underlay_def connect_server_def resolve_server_addr_def
        dialer_resolve_def sample_out_env_def sample_net_def within_time_def)
  have w: "wf_target (Domain ''a.b'' 443)" by code_simp
  show ?thesis
  proof (intro exI [of _ plans] conjI)
    show "build_node_plans sample_env vless_wire = Inr plans" by (rule p)
  qed (rule vless_chain_relays [where connect = "\<lambda>_ _. Inr [9]", OF b k u d p _ _ _ w _ sample_inspects sample_routes];
      simp add: vless_wire_def plain_node_def uuid_field_def str_field_def get_key_def sample_arrives)
qed

section \<open>A chain over VMess\<close>

lemma relay_view_messages: "\<forall>m \<in> set ms. m \<noteq> [] \<Longrightarrow> relay_view (map Inr ms @ [Inr []]) = (concat ms, None)"
  by (induction ms) auto

lemma concat_pieces: "concat (concat (map (chunks MAX_CHUNK) vs)) = concat vs"
  by (induction vs) (simp_all add: MAX_CHUNK_def)

lemma vm_pieces_view: "relay_view (map Inr (concat (map (chunks MAX_CHUNK) vs)) @ [Inr []]) = (concat vs, None)"
  by (subst relay_view_messages) (auto simp: concat_pieces dest: chunks_bounds)

lemma vm_body_carries:
  assumes "vm_laws P" "\<forall>i. length (rnd i) = 64"
  shows "\<exists>w. vm_write_task P rnd vs \<lparr>cw_out = [], cw_st = st, cw_draws = 0\<rparr> = (Inr (), w)
    \<and> vm_read_task P (chunk_reader_new (cw_out w) st) = map Inr (concat (map (chunks MAX_CHUNK) vs)) @ [Inr []]"
proof -
  obtain b w where w: "vm_write_task P rnd vs \<lparr>cw_out = [], cw_st = st, cw_draws = 0\<rparr> = (Inr (), w)" "cw_out w = b"
    and r: "\<And>r rest. vm_in_step r st (b @ rest) \<Longrightarrow>
      vm_read_task P r = map Inr (concat (map (chunks MAX_CHUNK) vs)) @ [Inr []]"
    using vm_write_task_delivers [OF assms, of vs "\<lparr>cw_out = [], cw_st = st, cw_draws = 0\<rparr>"] by auto
  then show ?thesis using r [of _ "[]"] by (auto simp: vm_in_step_def chunk_reader_new_def)
qed

lemma vmess_node_users:
  assumes "build_proto benv i node = Inr proto" "nd_type node = ''vmess''"
  shows "\<exists>us. proto = InVmess us \<and> us \<noteq> []"
  using assms by (auto simp: build_proto_def sum_bind_Inr_iff user_list_def split: sum.splits if_splits)

text \<open>Property C9: two proxies form a chain over VMess. One has a VMess outbound, another a VMess node; the
  configurations of both are accepted and their clocks differ by at most two minutes. When the connector can dial the server, then the
  handshakes agree; whatever is written to the stream of the connector, in any pieces, leaves it sealed in chunks and reaches
  the target of the request byte for byte; and whatever the node writes back is read by the connector as it was written.\<close>

theorem vmess_chain_relays:
  assumes "vm_laws (oe_vmess oe)" "le_vmess env = oe_vmess oe" "\<forall>k. length (rnd k) = 64"
    and "length (vr_iv (oe_random oe)) = 16" "length (vr_key (oe_random oe)) = 16"
    and "length (vr_rand4 (oe_random oe)) = 4" "length (vr_nonce8 (oe_random oe)) = 8"
    and "build_connector ob = Inr (VmessConnector t srv p uuid security tls mux)"
    and "parse_uuid uuid = Some u" "security_byte security = Inr sec" "dial_underlay (oe_net oe) srv p tls = Inr ls"
    and "build_node_plans benv wire = Inr plans" "i < length (nodes wire)" "nd_type (nodes wire ! i) = ''vmess''"
    and "\<bar>sint (le_now env - oe_now oe)\<bar> \<le> 120" "wf_target target"
    and "event_bytes (le_arrive env (concat vs)) = concat vs" "inspect_stream (le_arrive env (concat vs)) = Ret (sniffed, rest)"
    and "route is_match (ps_router sh) target (or_else (so_host sniffed) (domain_of target)) (ps_inbound_tag sh) = Proxy c"
    and "connect c target = Inr reply"
  shows "\<exists>us req resp up down w. np_proto (plans ! i) = InVmess us
    \<and> (\<forall>body. vm_handshake (oe_vmess oe) (le_now env) us \<lparr>inp = req @ body, outp = []\<rparr> =
        (Inr (VmAccepted target up down), \<lparr>inp = body, outp = resp\<rparr>))
    \<and> (\<forall>body. vmess_connector_tcp oe srv p uuid security tls mux target \<lparr>inp = resp @ body, outp = []\<rparr> =
        (Ret (Inr (ls, down, up)), \<lparr>inp = body, outp = req\<rparr>))
    \<and> vm_write_task (oe_vmess oe) rnd vs \<lparr>cw_out = [], cw_st = up, cw_draws = 0\<rparr> = (Inr (), w)
    \<and> serve env is_match connect sh (np_proto (plans ! i)) \<lparr>inp = req @ cw_out w, outp = []\<rparr> =
        Some (Ret (Relayed \<lparr>te_result = Inr (), te_to_client = reply, te_remote = Some (c, target, concat vs)\<rparr>
          (add_down (length reply) (add_up (length (concat vs) - length (so_consumed sniffed)) (ps_counters sh)))))
    \<and> (\<forall>ds. \<exists>w'. vm_write_task (oe_vmess oe) rnd ds \<lparr>cw_out = [], cw_st = down, cw_draws = 0\<rparr> = (Inr (), w')
        \<and> relay_view (vm_read_task (oe_vmess oe) (chunk_reader_new (cw_out w') down)) = (concat ds, None))"
proof -
  obtain us where us: "np_proto (plans ! i) = InVmess us" "us \<noteq> []"
    using vmess_node_users [OF plan_of_Inr(2) [OF built_plan [OF assms(12,13)]] assms(14)] by blast
  obtain req resp up down where h: "\<And>body. vm_handshake (oe_vmess oe) (le_now env) us \<lparr>inp = req @ body, outp = []\<rparr> =
        (Inr (VmAccepted target up down), \<lparr>inp = body, outp = resp\<rparr>)"
    and k: "\<And>body. vm_connect (oe_vmess oe) uuid security (oe_now oe) (oe_random oe) target \<lparr>inp = resp @ body, outp = []\<rparr> =
        (Ret (Inr (down, up)), \<lparr>inp = body, outp = req\<rparr>)"
    using vm_handshake_run [OF assms(1,9,10,4-7,16) us(2) assms(15)] by blast
  obtain w where w: "vm_write_task (oe_vmess oe) rnd vs \<lparr>cw_out = [], cw_st = up, cw_draws = 0\<rparr> = (Inr (), w)"
      "vm_read_task (oe_vmess oe) (chunk_reader_new (cw_out w) up) = map Inr (concat (map (chunks MAX_CHUNK) vs)) @ [Inr []]"
    using vm_body_carries [OF assms(1,3)] by blast
  have "accept_proto env (InVmess us) \<lparr>inp = req @ cw_out w, outp = []\<rparr> = Some (Ret (Inr (AccTcp target (concat vs) None)))"
    using w(2) by (simp add: accept_proto_def h assms(2) acc_messages_def vm_pieces_view)
  then have s: "serve env is_match connect sh (InVmess us) \<lparr>inp = req @ cw_out w, outp = []\<rparr> =
      Some (Ret (Relayed \<lparr>te_result = Inr (), te_to_client = reply, te_remote = Some (c, target, concat vs)\<rparr>
        (add_down (length reply) (add_up (length (concat vs) - length (so_consumed sniffed)) (ps_counters sh)))))"
    using assms(17) relay_transparent [where connect = connect, OF assms(18-20), of "[]"]
    by (simp add: serve_def serve_accepted_def)
  have d: "\<exists>w'. vm_write_task (oe_vmess oe) rnd ds \<lparr>cw_out = [], cw_st = down, cw_draws = 0\<rparr> = (Inr (), w')
      \<and> relay_view (vm_read_task (oe_vmess oe) (chunk_reader_new (cw_out w') down)) = (concat ds, None)" for ds
    using vm_body_carries [OF assms(1,3), of ds down] vm_pieces_view by metis
  have "vmess_connector_tcp oe srv p uuid security tls mux target \<lparr>inp = resp @ body, outp = []\<rparr> =
      (Ret (Inr (ls, down, up)), \<lparr>inp = body, outp = req\<rparr>)" for body
    by (simp add: vmess_connector_tcp_def assms(11) k)
  then show ?thesis using us(1) h w(1) s d by metis
qed

definition vmess_outbound :: outbound_spec_wire where
  "vmess_outbound = vless_outbound\<lparr>outbound_type := ''vmess''\<rparr>"

definition vmess_wire :: runtime_config_wire where
  "vmess_wire = default_wire\<lparr>nodes := [plain_node ''vmess'' [(''uuid'', JString vless_uuid)] []]\<rparr>"

definition vmess_out_env :: out_env where
  "vmess_out_env = sample_out_env\<lparr>oe_now := 1000, oe_random := \<lparr>vr_iv = replicate 16 1, vr_key = replicate 16 2, vr_response_v = 3,
    vr_rand4 = replicate 4 4, vr_nonce8 = replicate 8 5\<rparr>\<rparr>"

definition vmess_listener_env :: listener_env where
  "vmess_listener_env = sample_listener_env\<lparr>le_now := 1030\<rparr>"

lemma vmess_wire_built: "\<exists>plans. build_node_plans sample_env vmess_wire = Inr plans"
  using parse_uuid_to_string [of "replicate 16 0xAB"]
  by (simp add: build_node_plans_def vmess_wire_def plain_node_def plan_of_def expand_listen_addrs_def listen_ip_def
      opt_list_def build_proto_def tls_setup_def inbound_mux_of_def wrap_of_def sum_bind_def user_list_def uuid_field_def
      users_of_def str_field_def get_key_def vless_uuid_def)

theorem vmess_chain_relays_witness:
  "\<exists>plans. build_node_plans sample_env vmess_wire = Inr plans
    \<and> (\<exists>us req resp up down w. np_proto (plans ! 0) = InVmess us
      \<and> (\<forall>body. vm_handshake (oe_vmess vmess_out_env) (le_now vmess_listener_env) us \<lparr>inp = req @ body, outp = []\<rparr> =
          (Inr (VmAccepted (Domain ''a.b'' 443) up down), \<lparr>inp = body, outp = resp\<rparr>))
      \<and> (\<forall>body. vmess_connector_tcp vmess_out_env ''s'' 443 vless_uuid ''auto'' None None (Domain ''a.b'' 443)
            \<lparr>inp = resp @ body, outp = []\<rparr> =
          (Ret (Inr ([OutTcp (SocketAddr (IpV4 7) 443)], down, up)), \<lparr>inp = body, outp = req\<rparr>))
      \<and> vm_write_task (oe_vmess vmess_out_env) (\<lambda>_. replicate 64 9) [[1], [2]] \<lparr>cw_out = [], cw_st = up, cw_draws = 0\<rparr> = (Inr (), w)
      \<and> serve vmess_listener_env (\<lambda>_ _. False) (\<lambda>_ _. Inr [9]) sample_shared (np_proto (plans ! 0))
          \<lparr>inp = req @ cw_out w, outp = []\<rparr> =
        Some (Ret (Relayed \<lparr>te_result = Inr (), te_to_client = [9], te_remote = Some (DirectOutbound, Domain ''a.b'' 443, concat [[1], [2]])\<rparr>
          (add_down (length [9 :: byte]) (add_up (length (concat [[1 :: byte], [2]]) - length (so_consumed (unknown_outcome [1, 2])))
            (ps_counters sample_shared)))))
      \<and> (\<forall>ds. \<exists>w'. vm_write_task (oe_vmess vmess_out_env) (\<lambda>_. replicate 64 9) ds \<lparr>cw_out = [], cw_st = down, cw_draws = 0\<rparr> = (Inr (), w')
        \<and> relay_view (vm_read_task (oe_vmess vmess_out_env) (chunk_reader_new (cw_out w') down)) = (concat ds, None)))"
proof -
  obtain plans where p: "build_node_plans sample_env vmess_wire = Inr plans" using vmess_wire_built by blast
  have b: "build_connector vmess_outbound = Inr (VmessConnector ''up'' ''s'' 443 vless_uuid ''auto'' None None)"
    by (simp add: build_connector_def vmess_outbound_def vless_outbound_def Let_def or_default_def str_field_def get_key_def
        parse_tls_client_spec_def mux_of_def)
  have u: "parse_uuid vless_uuid = Some (replicate 16 0xAB)"
    unfolding vless_uuid_def by (rule parse_uuid_to_string) simp
  have s: "security_byte ''auto'' = Inr SEC_AES128_GCM" by code_simp
  have d: "dial_underlay (oe_net vmess_out_env) ''s'' 443 None = Inr [OutTcp (SocketAddr (IpV4 7) 443)]"
    by (simp add: dial_underlay_def connect_server_def resolve_server_addr_def dialer_resolve_def vmess_out_env_def
        sample_out_env_def sample_net_def within_time_def)
  have l: "vm_laws (oe_vmess vmess_out_env)" using mask_prims_laws by (simp add: vmess_out_env_def sample_out_env_def)
  have n: "0 < length (nodes vmess_wire)" "nd_type (nodes vmess_wire ! 0) = ''vmess''"
    by (simp_all add: vmess_wire_def plain_node_def)
  have w: "wf_target (Domain ''a.b'' 443)" by code_simp
  have i: "inspect_stream (le_arrive vmess_listener_env (concat [[1], [2]])) =
      inspect_stream (le_arrive sample_listener_env [1, 2])" by (simp add: vmess_listener_env_def)
  show ?thesis
  proof (intro exI [of _ plans] conjI)
    show "build_node_plans sample_env vmess_wire = Inr plans" by (rule p)
  qed (rule vmess_chain_relays [where connect = "\<lambda>_ _. Inr [9]" and ob = vmess_outbound,
        OF l _ _ _ _ _ _ b u s d p n _ w _ trans [OF i sample_inspects] sample_routes];
      simp add: vmess_out_env_def sample_out_env_def vmess_listener_env_def sample_listener_env_def)
qed

end
