(* ===== verification/HysteriaConn.thy ===== *)
theory HysteriaConn
  imports Hysteria2 Connectors UdpRelay Pipeline
begin

text \<open>
  The connections of \<open>crates/omni-proto/src/proto/hysteria2\<close>: the accept loop, the authentication loop and
  the stream tasks of the listener (\<open>inbound.rs\<close>), its dispatcher of datagrams, the client's \<open>open_tcp\<close> and
  \<open>connect_udp\<close> (\<open>outbound.rs\<close>), and the pooled connection of \<open>Hysteria2Connector\<close>. QUIC and HTTP/3 are third-party
  code: their results are the events of the loops; name resolution is a parameter.
\<close>

section \<open>The listener\<close>

text \<open>The accept loop: the outcome of each incoming handshake. A handshake that fails ends the loop with its error; the
  connections accepted so far go on in their tasks.\<close>

fun hy_listen :: "(io_error + 'c) list \<Rightarrow> 'c list \<times> io_error option" where
  "hy_listen [] = ([], None)"
| "hy_listen (Inl e # cs) = ([], Some e)"
| "hy_listen (Inr c # cs) = (case hy_listen cs of (done, e) \<Rightarrow> (c # done, e))"

text \<open>What \<open>h3.accept\<close> and \<open>resolve_request\<close> give: the end of the connection, an error, or a request and whether
  its response can be sent.\<close>

datatype h3_event = H3End | H3Error | H3Request auth_request bool

text \<open>The loop until a request is accepted: whether the connection is authenticated. \<open>to_str\<close> reads a header as text.\<close>

fun hy_auth_loop :: "(bytes \<Rightarrow> string option) \<Rightarrow> h3_event list \<Rightarrow> bool" where
  "hy_auth_loop to_str [] = False"
| "hy_auth_loop to_str (H3End # es) = False"
| "hy_auth_loop to_str (H3Error # es) = False"
| "hy_auth_loop to_str (H3Request req answered # es) =
    (if accepts_auth to_str req then answered else hy_auth_loop to_str es)"

text \<open>A stream task: the reads of a stream, then the handler of \<open>runtime/core.rs\<close> with the target.\<close>

definition hy_target :: "string \<Rightarrow> proxy_target" where
  "hy_target addr = (case parse_hy_addr addr of Some t \<Rightarrow> t | None \<Rightarrow> Domain [] 0)"

text \<open>What a connection serves: the targets of its streams and what is written to each stream before the relay.\<close>

definition hy_connection :: "(bytes \<Rightarrow> string option) \<Rightarrow> h3_event list \<Rightarrow> bytes list list \<Rightarrow> (proxy_target option \<times> bytes) list" where
  "hy_connection to_str es streams =
    (if hy_auth_loop to_str es
     then map (\<lambda>reads. case hy_read_request [] reads of
         HyServe addr out \<Rightarrow> (Some (hy_target addr), out)
       | HyRefuse out \<Rightarrow> (None, out)
       | HyClosed \<Rightarrow> (None, [])) streams
     else [])"

section \<open>Datagrams at the server\<close>

record hy_dispatcher =
  hd_sessions :: "u32 \<rightharpoonup> nat"
  hd_next :: nat
  hd_sent :: "(nat \<times> socket_addr \<times> bytes) list"

definition hy_dispatcher_new :: hy_dispatcher where
  "hy_dispatcher_new = \<lparr>hd_sessions = Map.empty, hd_next = 0, hd_sent = []\<rparr>"

text \<open>A socket is named by the number of sockets bound before it. \<open>bound\<close>: binding a new socket succeeds.\<close>

definition hy_session_socket :: "bool \<Rightarrow> u32 \<Rightarrow> hy_dispatcher \<Rightarrow> (nat \<times> hy_dispatcher) option" where
  "hy_session_socket bound sid d =
    (case hd_sessions d sid of
       Some k \<Rightarrow> Some (k, d)
     | None \<Rightarrow>
         if bound
         then Some (hd_next d, d\<lparr>hd_sessions := (hd_sessions d)(sid \<mapsto> hd_next d), hd_next := Suc (hd_next d)\<rparr>)
         else None)"

definition hy_dispatch ::
    "(string \<Rightarrow> socket_addr option) \<Rightarrow> hy_dispatcher \<Rightarrow> bytes \<times> bool \<Rightarrow> hy_dispatcher" where
  "hy_dispatch resolve d = (\<lambda>(dgram, bound).
    case parse_message dgram of
      Inl _ \<Rightarrow> d
    | Inr msg \<Rightarrow>
        if frag_count msg \<noteq> 1 then d
        else (case hy_session_socket bound (session_id msg) d of
            None \<Rightarrow> d
          | Some (k, d') \<Rightarrow>
              (case resolve (m_addr msg) of
                 None \<Rightarrow> d'
               | Some t \<Rightarrow> d'\<lparr>hd_sent := hd_sent d' @ [(k, t, m_data msg)]\<rparr>)))"

text \<open>The task of a session answers with what its socket receives.\<close>

definition hy_reply :: "u32 \<Rightarrow> socket_addr \<Rightarrow> bytes \<Rightarrow> bytes" where
  "hy_reply sid src d =
    serialize \<lparr>session_id = sid, packet_id = 0, frag_id = 0, frag_count = 1, m_addr = show_socket_addr src, m_data = d\<rparr>"

section \<open>The client\<close>

text \<open>\<open>open_tcp\<close>: the request, and what the first read of the answer means. \<open>answer\<close> is that read, or the error of the
  connection.\<close>

definition hy_err :: "string \<Rightarrow> io_error" where
  "hy_err msg = io_err (''hysteria2: '' @ msg)"

definition hy_open_tcp :: "(bytes \<Rightarrow> io_error + bytes option) \<Rightarrow> string \<Rightarrow> u16 \<Rightarrow> io_error + unit" where
  "hy_open_tcp answer host p =
    (case answer (encode_tcp_request (hy_addr_string host p)) of
       Inl e \<Rightarrow> Inl (hy_err (io_msg e))
     | Inr None \<Rightarrow> Inl (hy_err ''closed'')
     | Inr (Some b) \<Rightarrow>
         (case decode_tcp_response (take 512 b) of
            Inl e \<Rightarrow> Inl e
          | Inr (ok, msg) \<Rightarrow> if ok then Inr () else Inl (hy_err (''server refused TCP: '' @ msg))))"

text \<open>\<open>h3_auth\<close>: the request carries the password, when the header library takes it for a header value (\<open>header_value\<close>); the status
  decides.\<close>

definition hy_auth_request :: "(string \<Rightarrow> string + bytes) \<Rightarrow> string \<Rightarrow> io_error + auth_request" where
  "hy_auth_request header_value pw =
    (case header_value pw of
       Inl e \<Rightarrow> Inl (hy_err (''bad auth request: '' @ e))
     | Inr v \<Rightarrow> Inr \<lparr>is_post = True, uri_host = Some ''hysteria'', uri_path = ''/auth'', auth_header = Some v\<rparr>)"

definition h3_auth :: "(string \<Rightarrow> string + bytes) \<Rightarrow> (auth_request \<Rightarrow> io_error + nat) \<Rightarrow> string \<Rightarrow> io_error + unit" where
  "h3_auth header_value send_request pw =
    (case hy_auth_request header_value pw of
       Inl e \<Rightarrow> Inl e
     | Inr req \<Rightarrow>
         (case send_request req of
            Inl e \<Rightarrow> Inl (hy_err (io_msg e))
          | Inr status \<Rightarrow>
              if status \<noteq> 233 then Inl (hy_err (''authentication failed (status '' @ show_nat status @ '')'')) else Inr ()))"

text \<open>\<open>connect_udp\<close>: a session takes the next number of a process-wide cnt; the sending task numbers the packets.\<close>

fun hy_client_send :: "u32 \<Rightarrow> u16 \<Rightarrow> udp_packet list \<Rightarrow> bytes list" where
  "hy_client_send sid cnt [] = []"
| "hy_client_send sid cnt (p # ps) =
    serialize \<lparr>session_id = sid, packet_id = cnt + 1, frag_id = 0, frag_count = 1,
      m_addr = show_target (up_target p), m_data = up_data p\<rparr> # hy_client_send sid (cnt + 1) ps"

text \<open>The receiving tasks: every session of a connection has one, and all of them wait for datagrams of the same connection, which
  gives each datagram to one of them. A task discards what is not a whole packet of its own session. When the handle of its session is
  gone, it ends with the first packet it cannot deliver.\<close>

record hy_reader =
  hr_packets :: "udp_packet list"
  hr_closed :: bool
  hr_ended :: bool

definition hy_reader_new :: hy_reader where
  "hy_reader_new = \<lparr>hr_packets = [], hr_closed = False, hr_ended = False\<rparr>"

datatype hy_reader_event = HyRead u32 bytes | HyDropHandle u32

definition hy_reader_got :: "(string \<Rightarrow> socket_addr option) \<Rightarrow> u32 \<Rightarrow> bytes \<Rightarrow> udp_packet option" where
  "hy_reader_got resolve sid dgram =
    (case parse_message dgram of
       Inl _ \<Rightarrow> None
     | Inr msg \<Rightarrow>
         if session_id msg \<noteq> sid \<or> frag_count msg \<noteq> 1 then None
         else Some \<lparr>up_source = resolve (m_addr msg), up_target = Domain [] 0, up_data = m_data msg\<rparr>)"

fun hy_client_recv :: "(string \<Rightarrow> socket_addr option) \<Rightarrow> (u32 \<Rightarrow> hy_reader) \<Rightarrow> hy_reader_event \<Rightarrow> u32 \<Rightarrow> hy_reader" where
  "hy_client_recv resolve rd (HyRead sid dgram) =
    (if hr_ended (rd sid) then rd
     else (case hy_reader_got resolve sid dgram of
         None \<Rightarrow> rd
       | Some pkt \<Rightarrow>
           rd(sid := (if hr_closed (rd sid) then (rd sid)\<lparr>hr_ended := True\<rparr>
             else (rd sid)\<lparr>hr_packets := hr_packets (rd sid) @ [pkt]\<rparr>))))"
| "hy_client_recv resolve rd (HyDropHandle sid) = rd(sid := (rd sid)\<lparr>hr_closed := True\<rparr>)"

section \<open>The connector\<close>

text \<open>A connection is up until QUIC gives it up; \<open>answer\<close> is what the server sends on a new stream.\<close>

record hy_conn =
  hc_up :: bool
  hc_answer :: "bytes \<Rightarrow> io_error + bytes option"

definition hy_dial :: "(nat \<Rightarrow> io_error + hy_conn) \<Rightarrow> (string \<Rightarrow> string + bytes) \<Rightarrow> string \<Rightarrow> (nat \<Rightarrow> auth_request \<Rightarrow> io_error + nat) \<Rightarrow> nat \<Rightarrow> io_error + hy_conn" where
  "hy_dial quic header_value pw send_request n =
    (case quic n of
       Inl e \<Rightarrow> Inl e
     | Inr c \<Rightarrow> map_sum id (\<lambda>_. c) (h3_auth header_value (send_request n) pw))"

definition hy_open :: "proxy_target \<Rightarrow> hy_conn \<Rightarrow> (io_error + unit) \<times> hy_conn" where
  "hy_open target c =
    (if hc_up c then (hy_open_tcp (hc_answer c) (target_host target) (target_port target), c)
     else (Inl (hy_err ''connection lost''), c))"

definition hy_connect_tcp ::
    "(nat \<Rightarrow> io_error + hy_conn) \<Rightarrow> (string \<Rightarrow> string + bytes) \<Rightarrow> string \<Rightarrow> (nat \<Rightarrow> auth_request \<Rightarrow> io_error + nat) \<Rightarrow> bool \<Rightarrow> proxy_target
     \<Rightarrow> hy_conn session_slot \<Rightarrow> (io_error + unit) rs \<times> hy_conn session_slot" where
  "hy_connect_tcp quic header_value pw send_request lock_free target sl =
    connect_pooled (hy_dial quic header_value pw send_request) hy_open lock_free target sl"

text \<open>\<open>udp_handle\<close>: opening a datagram session on a connection cannot fail; it takes the next number.\<close>

definition hy_connect_udp :: "u32 \<Rightarrow> u32 \<times> u32" where
  "hy_connect_udp next_sid = (next_sid, next_sid + 1)"

definition hy_udp_handle ::
    "(nat \<Rightarrow> io_error + hy_conn) \<Rightarrow> (string \<Rightarrow> string + bytes) \<Rightarrow> string \<Rightarrow> (nat \<Rightarrow> auth_request \<Rightarrow> io_error + nat) \<Rightarrow> bool \<Rightarrow> u32
     \<Rightarrow> hy_conn session_slot \<Rightarrow> (io_error + u32 \<times> u32) rs \<times> hy_conn session_slot" where
  "hy_udp_handle quic header_value pw send_request lock_free next_sid sl =
    connect_pooled (hy_dial quic header_value pw send_request) (\<lambda>_ c. (Inr (hy_connect_udp next_sid), c)) lock_free (Domain [] 0) sl"

section \<open>Sessions of datagrams do not mix\<close>

definition hy_disp_inv :: "hy_dispatcher \<Rightarrow> bool" where
  "hy_disp_inv d \<longleftrightarrow>
    (\<forall>s k. hd_sessions d s = Some k \<longrightarrow> k < hd_next d)
    \<and> (\<forall>s s' k. hd_sessions d s = Some k \<longrightarrow> hd_sessions d s' = Some k \<longrightarrow> s = s')
    \<and> (\<forall>x \<in> set (hd_sent d). fst x < hd_next d)"

text \<open>What left through the socket of a session, and what its datagrams ask for.\<close>

definition on_session :: "u32 \<Rightarrow> hy_dispatcher \<Rightarrow> (socket_addr \<times> bytes) list" where
  "on_session sid d = map snd (filter (\<lambda>x. hd_sessions d sid = Some (fst x)) (hd_sent d))"

definition hy_wanted :: "(string \<Rightarrow> socket_addr option) \<Rightarrow> u32 \<Rightarrow> bytes \<Rightarrow> (socket_addr \<times> bytes) list" where
  "hy_wanted resolve sid dgram =
    (case parse_message dgram of
       Inl _ \<Rightarrow> []
     | Inr m \<Rightarrow>
         if frag_count m = 1 \<and> session_id m = sid
         then (case resolve (m_addr m) of Some t \<Rightarrow> [(t, m_data m)] | None \<Rightarrow> [])
         else [])"

lemma hy_session_socket_inv:
  assumes "hy_disp_inv d"
  obtains k d' where "hy_session_socket True sid d = Some (k, d')" "hy_disp_inv d'" "hd_sessions d' sid = Some k"
    "\<And>s. on_session s d' = on_session s d" "k < hd_next d'"
proof (cases "hd_sessions d sid")
  case (Some k)
  then show thesis using assms that [of k d] by (auto simp: hy_session_socket_def hy_disp_inv_def)
next
  case None
  let ?d = "d\<lparr>hd_sessions := (hd_sessions d)(sid \<mapsto> hd_next d), hd_next := Suc (hd_next d)\<rparr>"
  have "hy_disp_inv ?d"
    using assms by (fastforce simp: hy_disp_inv_def less_Suc_eq)
  moreover have "on_session s ?d = on_session s d" for s
    using assms None by (auto simp: on_session_def hy_disp_inv_def filter_empty_conv)
  ultimately show thesis using None that [of "hd_next d" ?d] by (simp add: hy_session_socket_def)
qed

lemma hy_send_inv:
  assumes "hy_disp_inv d" "hd_sessions d sid = Some k" "k < hd_next d"
  shows "hy_disp_inv (d\<lparr>hd_sent := hd_sent d @ [(k, x)]\<rparr>)"
    and "on_session s (d\<lparr>hd_sent := hd_sent d @ [(k, x)]\<rparr>) = on_session s d @ (if s = sid then [x] else [])"
  using assms by (auto simp: hy_disp_inv_def on_session_def)

lemma hy_dispatch_step:
  assumes "hy_disp_inv d"
  shows "hy_disp_inv (hy_dispatch resolve d (b, True))
    \<and> on_session s (hy_dispatch resolve d (b, True)) = on_session s d @ hy_wanted resolve s b"
proof (cases "parse_message b")
  case (Inl e)
  then show ?thesis using assms by (simp add: hy_dispatch_def hy_wanted_def)
next
  case (Inr m)
  show ?thesis
  proof (cases "frag_count m = 1")
    case False
    then show ?thesis using Inr assms by (simp add: hy_dispatch_def hy_wanted_def)
  next
    case True
    obtain k d' where k: "hy_session_socket True (session_id m) d = Some (k, d')" "hy_disp_inv d'"
        "hd_sessions d' (session_id m) = Some k" "\<And>s. on_session s d' = on_session s d" "k < hd_next d'"
      using hy_session_socket_inv [OF assms] by blast
    show ?thesis
      using Inr True k hy_send_inv [OF k(2,3,5)]
      by (cases "resolve (m_addr m)") (auto simp: hy_dispatch_def hy_wanted_def)
  qed
qed

lemma hy_dispatch_run:
  assumes "hy_disp_inv d"
  shows "hy_disp_inv (foldl (hy_dispatch resolve) d (map (\<lambda>b. (b, True)) bs))
    \<and> on_session s (foldl (hy_dispatch resolve) d (map (\<lambda>b. (b, True)) bs)) =
      on_session s d @ concat (map (hy_wanted resolve s) bs)"
  using assms
proof (induction bs arbitrary: d)
  case (Cons b bs)
  show ?case using Cons(1) [OF conjunct1 [OF hy_dispatch_step [OF Cons(2)]]] hy_dispatch_step [OF Cons(2)] by simp
qed simp

lemma hy_disp_inv_new: "hy_disp_inv hy_dispatcher_new" "on_session s hy_dispatcher_new = []"
  by (simp_all add: hy_disp_inv_def on_session_def hy_dispatcher_new_def)

definition for_session :: "u32 \<Rightarrow> bytes \<Rightarrow> bool" where
  "for_session sid b = (case parse_message b of Inl _ \<Rightarrow> False | Inr m \<Rightarrow> frag_count m = 1 \<and> session_id m = sid)"

lemma hy_wanted_filter:
  "concat (map (hy_wanted resolve sid) bs) = concat (map (hy_wanted resolve sid) (filter (for_session sid) bs))"
  by (induction bs) (auto simp: hy_wanted_def for_session_def split: sum.splits)

lemma hy_wanted_send:
  assumes "\<forall>p \<in> set ps. request_addr_ok (show_target (up_target p))"
    and "\<forall>p \<in> set ps. resolve (show_target (up_target p)) = Some (addr p)"
  shows "concat (map (hy_wanted resolve sid) (hy_client_send sid cnt ps)) = map (\<lambda>p. (addr p, up_data p)) ps"
  using assms by (induction ps arbitrary: cnt) (simp_all add: hy_wanted_def parse_serialize)

lemma parse_reply:
  assumes "request_addr_ok (show_socket_addr src)"
  shows "parse_message (hy_reply sid src d) =
    Inr \<lparr>session_id = sid, packet_id = 0, frag_id = 0, frag_count = 1, m_addr = show_socket_addr src, m_data = d\<rparr>"
  using assms by (simp add: hy_reply_def parse_serialize)

lemma reader_got_reply:
  "request_addr_ok (show_socket_addr src) \<Longrightarrow> hy_reader_got resolve sid (hy_reply s src d) =
    (if s = sid then Some \<lparr>up_source = resolve (show_socket_addr src), up_target = Domain [] 0, up_data = d\<rparr> else None)"
  by (auto simp: hy_reader_got_def parse_reply)

text \<open>What the task of a session reads, and what it has delivered after it, whatever the other tasks do.\<close>

definition reads_of :: "u32 \<Rightarrow> hy_reader_event list \<Rightarrow> bytes list" where
  "reads_of sid es = List.map_filter (\<lambda>e. case e of HyRead s b \<Rightarrow> if s = sid then Some b else None | _ \<Rightarrow> None) es"

lemma reads_of_simps [simp]:
  "reads_of sid [] = []"
  "reads_of sid (HyRead s b # es) = (if s = sid then [b] else []) @ reads_of sid es"
  "reads_of sid (HyDropHandle s # es) = reads_of sid es"
  by (simp_all add: reads_of_def map_filter_simps)

lemma recv_other: "e \<noteq> HyDropHandle sid \<Longrightarrow> reads_of sid [e] = [] \<Longrightarrow> hy_client_recv resolve rd e sid = rd sid"
  by (cases e) (auto split: option.split if_splits)

lemma recv_run:
  assumes "HyDropHandle sid \<notin> set es" "\<not> hr_closed (rd sid)" "\<not> hr_ended (rd sid)"
  shows "hr_packets (foldl (hy_client_recv resolve) rd es sid) =
    hr_packets (rd sid) @ List.map_filter (hy_reader_got resolve sid) (reads_of sid es)"
  using assms
proof (induction es arbitrary: rd)
  case (Cons e es)
  show ?case
  proof (cases "reads_of sid [e] = []")
    case True
    have "hy_client_recv resolve rd e sid = rd sid" using Cons.prems(1) True by (intro recv_other) auto
    moreover have "reads_of sid (e # es) = reads_of sid es" using True by (cases e) auto
    ultimately show ?thesis using Cons by simp
  next
    case False
    then obtain b where "e = HyRead sid b" by (cases e) (auto split: if_splits)
    then show ?thesis using Cons by (auto simp: map_filter_simps split: option.split)
  qed
qed (simp add: map_filter_simps)

lemma recv_replies:
  assumes "\<forall>(s, src, d) \<in> set rs. request_addr_ok (show_socket_addr src)"
  shows "List.map_filter (hy_reader_got resolve sid) (map (\<lambda>(s, src, d). hy_reply s src d) rs) =
    map (\<lambda>(s, src, d). \<lparr>up_source = resolve (show_socket_addr src), up_target = Domain [] 0, up_data = d\<rparr>)
      (filter (\<lambda>(s, src, d). s = sid) rs)"
  using assms by (induction rs) (auto simp: map_filter_simps reader_got_reply)

text \<open>Property C20: datagram sessions over one Hysteria2 connection do not mix. At the server: whatever datagrams the connection carries, of other
  sessions, fragments or garbage among them, when those of session \<open>sid\<close> are the ones that a client's sending task makes of its packets, then what
  leaves through the socket of this session is exactly the data of these packets, in order and each to the address of its target, and no two
  sessions share a socket. At the client: the receiving tasks of the sessions share the connection's datagrams; whatever the tasks of the other sessions take
  and whichever of their handles are dropped, a session with an open handle receives, of the replies that its own task takes, those of its own session, in order and each with its sender.
  (A reply that the task of another session takes is discarded there.) The conditions: sockets can be bound; the targets of the packets resolve; and the texts of the
  targets and of the senders are UTF-8 of 1 to 63 or of 256 to 2048 bytes, since the writer's integer encoding breaks the length of a text of 64 to 255 bytes.\<close>

theorem hy_udp_sessions:
  assumes "\<forall>p \<in> set ps. utf8_valid (as_bytes (show_target (up_target p)))
      \<and> (1 \<le> length (show_target (up_target p)) \<and> length (show_target (up_target p)) < 64
        \<or> 256 \<le> length (show_target (up_target p)) \<and> length (show_target (up_target p)) \<le> 2048)"
    and "\<forall>p \<in> set ps. resolve (show_target (up_target p)) = Some (addr p)"
    and "filter (for_session sid) bs = hy_client_send sid cnt ps"
    and "\<forall>(s, src, d) \<in> set rs. request_addr_ok (show_socket_addr src)"
    and "HyDropHandle sid \<notin> set es" "reads_of sid es = map (\<lambda>(s, src, d). hy_reply s src d) rs"
  shows "on_session sid (foldl (hy_dispatch resolve) hy_dispatcher_new (map (\<lambda>b. (b, True)) bs)) =
      map (\<lambda>p. (addr p, up_data p)) ps
    \<and> (\<forall>s s' k. hd_sessions (foldl (hy_dispatch resolve) hy_dispatcher_new (map (\<lambda>b. (b, True)) bs)) s = Some k
        \<longrightarrow> hd_sessions (foldl (hy_dispatch resolve) hy_dispatcher_new (map (\<lambda>b. (b, True)) bs)) s' = Some k \<longrightarrow> s = s')
    \<and> hr_packets (foldl (hy_client_recv resolve') (\<lambda>_. hy_reader_new) es sid) =
      map (\<lambda>(s, src, d). \<lparr>up_source = resolve' (show_socket_addr src), up_target = Domain [] 0, up_data = d\<rparr>)
        (filter (\<lambda>(s, src, d). s = sid) rs)"
proof (intro conjI)
  note run = hy_dispatch_run [OF hy_disp_inv_new(1), of resolve bs]
  have ok: "\<forall>p \<in> set ps. request_addr_ok (show_target (up_target p))"
    using assms(1) by (simp add: request_addr_ok_def)
  show "on_session sid (foldl (hy_dispatch resolve) hy_dispatcher_new (map (\<lambda>b. (b, True)) bs)) =
      map (\<lambda>p. (addr p, up_data p)) ps"
    using run [of sid] hy_wanted_filter [of resolve sid bs] hy_wanted_send [OF ok assms(2), of sid cnt] assms(3)
    by (simp add: hy_disp_inv_new(2))
  show "\<forall>s s' k. hd_sessions (foldl (hy_dispatch resolve) hy_dispatcher_new (map (\<lambda>b. (b, True)) bs)) s = Some k
      \<longrightarrow> hd_sessions (foldl (hy_dispatch resolve) hy_dispatcher_new (map (\<lambda>b. (b, True)) bs)) s' = Some k \<longrightarrow> s = s'"
    using run [of sid] unfolding hy_disp_inv_def by blast
  show "hr_packets (foldl (hy_client_recv resolve') (\<lambda>_. hy_reader_new) es sid) =
      map (\<lambda>(s, src, d). \<lparr>up_source = resolve' (show_socket_addr src), up_target = Domain [] 0, up_data = d\<rparr>)
        (filter (\<lambda>(s, src, d). s = sid) rs)"
    using recv_run [OF assms(5), of "\<lambda>_. hy_reader_new" resolve'] recv_replies [OF assms(4), of resolve' sid] assms(6)
    by (simp add: hy_reader_new_def)
qed

definition sample_resolve :: "string \<Rightarrow> socket_addr option" where
  "sample_resolve a = (if a = ''a:53'' then Some (SocketAddr (IpV4 9) 53) else None)"

definition sample_packet :: "byte \<Rightarrow> udp_packet" where
  "sample_packet b = \<lparr>up_source = None, up_target = Domain ''a'' 53, up_data = [b]\<rparr>"

text \<open>Two sessions and a piece of garbage on the way to the server; three replies on the way back, one for session 7 at each
  task and one for session 8 at the task of session 7.\<close>

definition sample_datagrams :: "bytes list" where
  "sample_datagrams = [0xFF] # hy_client_send 8 0 [sample_packet 2] @ hy_client_send 7 0 [sample_packet 1]"

definition sample_replies :: "hy_reader_event list" where
  "sample_replies = [HyRead 8 (hy_reply 7 (SocketAddr (IpV4 9) 53) [5]), HyDropHandle 8,
    HyRead 7 (hy_reply 8 (SocketAddr (IpV4 9) 53) [6]), HyRead 7 (hy_reply 7 (SocketAddr (IpV4 9) 53) [7])]"

theorem hy_udp_sessions_witness:
  "on_session 7 (foldl (hy_dispatch sample_resolve) hy_dispatcher_new (map (\<lambda>b. (b, True)) sample_datagrams)) =
      [(SocketAddr (IpV4 9) 53, [1])]
    \<and> map up_data (hr_packets (foldl (hy_client_recv sample_resolve) (\<lambda>_. hy_reader_new) sample_replies 7)) = [[7]]"
proof -
  let ?rs = "[(8 :: u32, SocketAddr (IpV4 9) 53, [6 :: byte]), (7, SocketAddr (IpV4 9) 53, [7])]"
  have t: "show_target (Domain ''a'' 53) = ''a:53''" by code_simp
  have u: "utf8_valid (as_bytes ''a:53'')" by code_simp
  have a: "request_addr_ok (show_socket_addr (SocketAddr (IpV4 9) 53))" by code_simp
  have f: "filter (for_session 7) sample_datagrams = hy_client_send 7 0 [sample_packet 1]" by code_simp
  have r: "HyDropHandle 7 \<notin> set sample_replies" "reads_of 7 sample_replies = map (\<lambda>(s, src, d). hy_reply s src d) ?rs"
    by (simp_all add: sample_replies_def)
  show ?thesis
    using hy_udp_sessions [of "[sample_packet 1]" sample_resolve "\<lambda>_. SocketAddr (IpV4 9) 53" 7 sample_datagrams 0 ?rs sample_replies sample_resolve]
      t u a f r by (simp add: sample_packet_def sample_resolve_def)
qed

section \<open>Authentication\<close>

text \<open>Whatever password the listener is configured with: a client of this program whose own password is not empty and survives as a header
  value is authenticated with its first request.\<close>

lemma hy_any_password_accepted:
  assumes "hy_auth_request header_value guess = Inr req" "\<And>v. header_value guess = Inr v \<Longrightarrow> to_str v = Some guess" "guess \<noteq> []"
  shows "hy_auth_loop to_str (H3Request req True # es)"
  using assms by (auto simp: hy_auth_request_def accepts_auth_def split: sum.splits)

text \<open>One handshake that fails ends the listener: later connections are not accepted.\<close>

lemma hy_listen_stops: "hy_listen (map Inr cs @ Inl e # later) = (cs, Some e)"
  by (induction cs) simp_all

section \<open>The pooled connection recovers\<close>

definition hy_server_answer :: "bytes \<Rightarrow> io_error + bytes option" where
  "hy_server_answer req =
    (case hy_read_request [] [req] of
       HyServe _ out \<Rightarrow> Inr (Some out)
     | HyRefuse out \<Rightarrow> Inr (Some out)
     | HyClosed \<Rightarrow> Inr None)"

definition hy_served :: "hy_conn \<Rightarrow> bool" where
  "hy_served c \<longleftrightarrow> hc_up c \<and> hc_answer c = hy_server_answer"

definition hy_reachable :: "proxy_target \<Rightarrow> bool" where
  "hy_reachable t \<longleftrightarrow> request_addr_ok (hy_addr_string (target_host t) (target_port t))"

definition server_conn :: hy_conn where
  "server_conn = \<lparr>hc_up = True, hc_answer = hy_server_answer\<rparr>"

lemma hy_open_served:
  assumes "hy_served c" "hy_reachable t"
  shows "hy_open t c = (Inr (), c)"
proof -
  have "hy_server_answer (encode_tcp_request (hy_addr_string (target_host t) (target_port t))) =
      Inr (Some (encode_tcp_response True []))"
    using decode_tcp_request_encode [of "hy_addr_string (target_host t) (target_port t)" "[]"] assms(2)
    by (simp add: hy_server_answer_def hy_reachable_def)
  moreover have "decode_tcp_response (take 512 (encode_tcp_response True [])) = Inr (True, [])" by code_simp
  ultimately show ?thesis using assms(1) by (simp add: hy_open_def hy_served_def hy_open_tcp_def)
qed

interpretation hy_pool: session_pool "hy_dial (\<lambda>n. map_sum id (\<lambda>_. server_conn) (quic n)) header_value pw send_request"
    hy_open hy_served hy_reachable for quic header_value pw send_request
proof
  show "hy_served s" if "hy_dial (\<lambda>n. map_sum id (\<lambda>_. server_conn) (quic n)) header_value pw send_request n = Inr s" for n s
    using that by (cases "quic n"; cases "h3_auth header_value (send_request n) pw") (auto simp: hy_dial_def hy_served_def server_conn_def)
qed (simp add: hy_open_served)

lemma hy_connector_recovers:
  assumes "quic (sl_dials sl) = Inr ()" "h3_auth header_value (send_request (sl_dials sl)) pw = Inr ()" "hy_reachable t"
  shows "\<exists>st sl'. hy_connect_tcp (\<lambda>n. map_sum id (\<lambda>_. server_conn) (quic n)) header_value pw send_request True t sl = (Ret (Inr st), sl')
    \<and> sl_dials sl' \<le> Suc (sl_dials sl)"
  unfolding hy_connect_tcp_def
  by (rule hy_pool.recovers) (simp_all add: hy_dial_def assms)

end
