(* ===== verification/StreamPoll.thy ===== *)
theory StreamPoll
  imports IoStream
begin

text \<open>
  Streams made of messages. WebSocket and HTTP/2 streams both implement \<open>AsyncRead\<close> by copying the
  payload of the next message and keeping what does not fit. A poll that is ready with no bytes means the end of
  the stream to its reader. The locale states what such a stream does for one poll and derives what a
  reader sees of the whole stream.
\<close>

section \<open>Polls\<close>

datatype 'a poll = Ready 'a | Pending

datatype arrival = Data bytes | Ended | Broken io_error | NotYet

datatype stream_end = AtEof | AtError io_error | Waiting

text \<open>A reader with a buffer of \<open>n\<close> bytes that polls until the end, an error or nothing is ready. The first argument bounds
  the number of polls.\<close>

fun read_all :: "(nat \<Rightarrow> 's \<Rightarrow> (io_error + bytes) poll \<times> 's) \<Rightarrow> nat \<Rightarrow> nat \<Rightarrow> 's \<Rightarrow> bytes \<times> stream_end option" where
  "read_all poll_read 0 n s = ([], None)"
| "read_all poll_read (Suc fuel) n s =
    (case poll_read n s of
       (Pending, s') \<Rightarrow> ([], Some Waiting)
     | (Ready (Inl e), s') \<Rightarrow> ([], Some (AtError e))
     | (Ready (Inr b), s') \<Rightarrow> if b = [] then ([], Some AtEof) else apfst ((@) b) (read_all poll_read fuel n s'))"

text \<open>What is there to read in a sequence of arrivals.\<close>

fun arrival_view :: "arrival list \<Rightarrow> bytes \<times> stream_end" where
  "arrival_view [] = ([], Waiting)"
| "arrival_view (Data b # as) = (if b = [] then ([], AtEof) else apfst ((@) b) (arrival_view as))"
| "arrival_view (Ended # as) = ([], AtEof)"
| "arrival_view (Broken e # as) = ([], AtError e)"
| "arrival_view (NotYet # as) = ([], Waiting)"

fun arrival_size :: "arrival \<Rightarrow> nat" where
  "arrival_size (Data b) = Suc (length b)"
| "arrival_size _ = 1"

definition first_poll :: "nat \<Rightarrow> arrival \<Rightarrow> (io_error + bytes) poll" where
  "first_poll n a =
    (case a of
       Data b \<Rightarrow> Ready (Inr (take n b))
     | Ended \<Rightarrow> Ready (Inr [])
     | Broken e \<Rightarrow> Ready (Inl e)
     | NotYet \<Rightarrow> Pending)"

locale message_stream =
  fixes poll_read :: "nat \<Rightarrow> 's \<Rightarrow> (io_error + bytes) poll \<times> 's"
    and buffered :: "'s \<Rightarrow> bytes"
    and arrivals :: "'s \<Rightarrow> arrival list"
    and live :: "'s \<Rightarrow> bool"
  assumes poll_buffered: "live s \<Longrightarrow> buffered s \<noteq> [] \<Longrightarrow>
      \<exists>s'. poll_read n s = (Ready (Inr (take n (buffered s))), s') \<and> live s'
        \<and> buffered s' = drop n (buffered s) \<and> arrivals s' = arrivals s"
    and poll_idle: "live s \<Longrightarrow> buffered s = [] \<Longrightarrow> arrivals s = [] \<Longrightarrow> fst (poll_read n s) = Pending"
    and poll_data: "live s \<Longrightarrow> buffered s = [] \<Longrightarrow> arrivals s = Data b # as \<Longrightarrow>
      \<exists>s'. poll_read n s = (Ready (Inr (take n b)), s') \<and> live s' \<and> buffered s' = drop n b \<and> arrivals s' = as"
    and poll_other: "live s \<Longrightarrow> buffered s = [] \<Longrightarrow> arrivals s = a # as \<Longrightarrow> (\<nexists>b. a = Data b) \<Longrightarrow>
      fst (poll_read n s) = first_poll n a"
begin

definition left :: "'s \<Rightarrow> nat" where
  "left s = length (buffered s) + sum_list (map arrival_size (arrivals s))"

lemma read_buffered:
  assumes "live s" "buffered s \<noteq> []" "0 < n"
    and "\<And>s'. live s' \<Longrightarrow> left s' < left s \<Longrightarrow>
      read_all poll_read fuel n s' = apfst ((@) (buffered s')) (apsnd Some (arrival_view (arrivals s')))"
  shows "read_all poll_read (Suc fuel) n s = apfst ((@) (buffered s)) (apsnd Some (arrival_view (arrivals s)))"
proof -
  obtain s' where s': "poll_read n s = (Ready (Inr (take n (buffered s))), s')" "live s'"
      "buffered s' = drop n (buffered s)" "arrivals s' = arrivals s"
    using poll_buffered [OF assms(1,2)] by blast
  have "take n (buffered s) \<noteq> []" using assms(2,3) by (cases n; cases "buffered s") auto
  moreover have "left s' < left s" using s'(3,4) assms(2,3) by (cases "buffered s") (auto simp: left_def)
  ultimately show ?thesis
    using s' assms(4) [of s'] by (cases "arrival_view (arrivals s)") (simp flip: append_assoc)
qed

lemma read_message:
  assumes "live s" "buffered s = []" "0 < n"
    and "\<And>s'. live s' \<Longrightarrow> left s' < left s \<Longrightarrow>
      read_all poll_read fuel n s' = apfst ((@) (buffered s')) (apsnd Some (arrival_view (arrivals s')))"
  shows "read_all poll_read (Suc fuel) n s = apsnd Some (arrival_view (arrivals s))"
proof (cases "arrivals s")
  case Nil
  then show ?thesis using poll_idle [OF assms(1,2), of n] by (cases "poll_read n s") simp
next
  case (Cons a as)
  show ?thesis
  proof (cases "\<exists>b. a = Data b")
    case True
    then obtain b where b: "a = Data b" by blast
    obtain s' where s': "poll_read n s = (Ready (Inr (take n b)), s')" "live s'" "buffered s' = drop n b" "arrivals s' = as"
      using poll_data [OF assms(1,2)] Cons b by blast
    have "left s' < left s" using s'(3,4) Cons b assms(2) by (simp add: left_def)
    then show ?thesis
      using s' assms(4) [of s'] Cons b assms(3)
      by (cases "arrival_view as"; cases b) (auto simp flip: append_assoc)
  next
    case False
    then show ?thesis
      using poll_other [OF assms(1,2) Cons False, of n] Cons
      by (cases a; cases "poll_read n s") (auto simp: first_poll_def)
  qed
qed

lemma read_all_view:
  assumes "live s" "0 < n" "left s < fuel"
  shows "read_all poll_read fuel n s = apfst ((@) (buffered s)) (apsnd Some (arrival_view (arrivals s)))"
  using assms
proof (induction fuel arbitrary: s)
  case (Suc fuel)
  have IH: "read_all poll_read fuel n s' = apfst ((@) (buffered s')) (apsnd Some (arrival_view (arrivals s')))"
    if "live s'" "left s' < left s" for s'
    using Suc(1) [OF that(1) Suc(3)] that(2) Suc(4) by simp
  show ?case
  proof (cases "buffered s = []")
    case True
    then show ?thesis using read_message [OF Suc(2) True Suc(3) IH] by (cases "arrival_view (arrivals s)") simp
  next
    case False
    then show ?thesis using read_buffered [OF Suc(2) False Suc(3) IH] by simp
  qed
qed simp

end

end
