(* ===== verification/WsTransport.thy ===== *)
theory WsTransport
  imports SsCrypto Connectors StreamPoll NodeBuilder
begin

text \<open>
  \<open>crates/omni-transport/src/ws/mod.rs\<close> and \<open>httpup/mod.rs\<close>: the SHA-1 of the WebSocket accept key, the upgrade handshakes
  of the two inbounds, the request of the WebSocket outbound, and the stream over WebSocket messages.
  The HTTP parser (\<open>httparse\<close>), base64 and the WebSocket framing (\<open>tungstenite\<close>) are third-party code: parameters and the
  sequence of polls of the message stream.
\<close>

section \<open>SHA-1\<close>

fun chunk_words :: "bytes \<Rightarrow> u32 list" where
  "chunk_words (a # b # c # d # r) = be_u32 [a, b, c, d] # chunk_words r"
| "chunk_words _ = []"

definition ws_schedule :: "bytes \<Rightarrow> u32 list" where
  "ws_schedule block =
    foldl (\<lambda>w i. w @ [word_rotl 1 (w ! (i - 3) XOR w ! (i - 8) XOR w ! (i - 14) XOR w ! (i - 16))])
      (chunk_words block) [16..<80]"

definition ws_block :: "sha1_state \<Rightarrow> bytes \<Rightarrow> sha1_state" where
  "ws_block st block =
    (case foldl (sha1_round (ws_schedule block)) st [0..<80] of (a, b, c, d, e) \<Rightarrow>
      case st of (a0, b0, c0, d0, e0) \<Rightarrow> (a0 + a, b0 + b, c0 + c, d0 + d, e0 + e))"

definition ws_update :: "sha1_state hasher \<Rightarrow> bytes \<Rightarrow> sha1_state hasher" where
  "ws_update h data = block_update ws_block h data"

definition ws_finalize :: "sha1_state hasher \<Rightarrow> bytes" where
  "ws_finalize h = sha1_output (block_finish ws_block u64_be h)"

definition ws_digest :: "bytes \<Rightarrow> bytes" where
  "ws_digest data = ws_finalize (ws_update (hasher_new sha1_iv) data)"

interpretation ws_sha1: block_hash ws_block sha1_iv u64_be
  by unfold_locales (simp add: u64_be_def)

definition WS_GUID :: string where
  "WS_GUID = ''258EAFA5-E914-47DA-95CA-C5AB0DC85B11''"

definition accept_key :: "(bytes \<Rightarrow> string) \<Rightarrow> string \<Rightarrow> string" where
  "accept_key base64 key = base64 (ws_digest (as_bytes key @ as_bytes WS_GUID))"

section \<open>Paths\<close>

definition trim_slashes :: "string \<Rightarrow> string" where
  "trim_slashes p = rev (dropWhile (\<lambda>c. c = CHR ''/'') (rev p))"

definition normalize_path :: "string \<Rightarrow> string" where
  "normalize_path p0 =
    (let p = takeWhile (\<lambda>c. c \<noteq> CHR ''?'') p0
     in if p = [] \<or> p = ''/'' then ''/'' else trim_slashes p)"

definition path_matches :: "string \<Rightarrow> string \<Rightarrow> bool" where
  "path_matches actual want =
    (let a = normalize_path actual; w = normalize_path want
     in a = w \<or> prefix (trim_slashes w @ ''/'') a)"

section \<open>Upgrade handshakes\<close>

text \<open>What the HTTP parser says of a request: an error, that it is incomplete (with the path if it got that
  far), or its path and its headers.\<close>

datatype http_parse = HttpError string | HttpPartial "string option" | HttpRequest "string option" "(string \<times> bytes) list"

fun read_upgrade_head :: "string \<Rightarrow> bytes \<Rightarrow> bytes list \<Rightarrow> io_error + bytes \<times> bytes list" where
  "read_upgrade_head name buf reads =
    (if has_head_end buf then Inr (buf, reads)
     else if length buf > 64 * 1024 then Inl (io_err (name @ '': oversized handshake''))
     else (case reads of
         [] \<Rightarrow> Inl (io_err (name @ '': closed during handshake''))
       | r # rs \<Rightarrow>
           if r = [] then Inl (io_err (name @ '': closed during handshake''))
           else read_upgrade_head name (buf @ r) rs))"

declare read_upgrade_head.simps [simp del]

fun head_length :: "bytes \<Rightarrow> nat option" where
  "head_length (a # b # c # d # bs) =
    (if [a, b, c, d] = [0x0D, 0x0A, 0x0D, 0x0A] then Some 4 else map_option Suc (head_length (b # c # d # bs)))"
| "head_length _ = None"

text \<open>The loop over the headers: the last key, and whether the last upgrade header names the protocol.\<close>

fun ws_headers :: "(string \<times> bytes) list \<Rightarrow> string option \<times> bool \<Rightarrow> string option \<times> bool" where
  "ws_headers [] r = r"
| "ws_headers ((n, v) # hs) (key, upgrade_ok) =
    ws_headers hs
      (if eq_ignore_ascii_case n ''sec-websocket-key'' then Some (from_utf8_lossy v) else key,
       if eq_ignore_ascii_case n ''upgrade'' then eq_ignore_ascii_case (from_utf8_lossy v) ''websocket'' else upgrade_ok)"

definition ws_response :: "string \<Rightarrow> string" where
  "ws_response key = ''HTTP/1.1 101 Switching Protocols'' @ crlf_text @ ''Upgrade: websocket'' @ crlf_text
    @ ''Connection: Upgrade'' @ crlf_text @ ''Sec-WebSocket-Accept: '' @ key @ crlf_text @ crlf_text"

definition ws_check_request ::
    "(bytes \<Rightarrow> http_parse) \<Rightarrow> string option \<Rightarrow> bytes \<Rightarrow> io_error + string" where
  "ws_check_request parse want head =
    (case parse head of
       HttpError e \<Rightarrow> Inl (invalid_data (''ws: '' @ e))
     | HttpPartial _ \<Rightarrow> Inl (io_err ''ws: incomplete request'')
     | HttpRequest path headers \<Rightarrow>
         if (case want of Some w \<Rightarrow> \<not> path_matches (case path of Some p \<Rightarrow> p | None \<Rightarrow> ''/'') w | None \<Rightarrow> False)
         then Inl (io_err ''ws: path mismatch'')
         else (case ws_headers headers (None, False) of
             (key, upgrade_ok) \<Rightarrow>
               if \<not> upgrade_ok then Inl (io_err ''ws: not an upgrade request'')
               else (case key of None \<Rightarrow> Inl (io_err ''ws: missing sec-websocket-key'') | Some k \<Rightarrow> Inr k)))"

text \<open>The bytes written to the client, and the reads that are left for the WebSocket stream.\<close>

definition ws_handshake_inbound ::
    "(bytes \<Rightarrow> http_parse) \<Rightarrow> (bytes \<Rightarrow> string) \<Rightarrow> ws_inbound_spec \<Rightarrow> bytes list \<Rightarrow> bytes \<times> (io_error + bytes list)" where
  "ws_handshake_inbound parse base64 spec reads =
    (case read_upgrade_head ''ws'' [] reads of
       Inl e \<Rightarrow> ([], Inl e)
     | Inr (buf, later) \<Rightarrow>
         (case head_length buf of
            None \<Rightarrow> ([], Inl (io_err ''ws: malformed request''))
          | Some n \<Rightarrow>
              (case ws_check_request parse (wi_path spec) (take n buf) of
                 Inl e \<Rightarrow> ([], Inl e)
               | Inr key \<Rightarrow> (as_bytes (ws_response (accept_key base64 key)) @ drop n buf, Inr later))))"

text \<open>The plain upgrade of \<open>httpup\<close> parses the whole buffer and does not look at the result beyond its path.\<close>

definition httpup_check :: "string option \<Rightarrow> http_parse \<Rightarrow> io_error option" where
  "httpup_check want r =
    (case r of
       HttpError e \<Rightarrow> Some (invalid_data (''httpup: '' @ e))
     | _ \<Rightarrow>
         let path = (case r of HttpRequest p _ \<Rightarrow> p | HttpPartial p \<Rightarrow> p | HttpError _ \<Rightarrow> None) in
         if (case path of Some p \<Rightarrow> p | None \<Rightarrow> []) = [] then Some (io_err ''httpup: missing path'')
         else (case want of
             None \<Rightarrow> None
           | Some w \<Rightarrow> if path_matches (case path of Some p \<Rightarrow> p | None \<Rightarrow> ''/'') w then None
               else Some (io_err ''httpup: path mismatch'')))"

definition httpup_response :: string where
  "httpup_response = ''HTTP/1.1 101 Switching Protocols'' @ crlf_text @ ''Upgrade: websocket'' @ crlf_text
    @ ''Connection: Upgrade'' @ crlf_text @ crlf_text"

definition httpup_handshake_inbound ::
    "(bytes \<Rightarrow> http_parse) \<Rightarrow> string option \<Rightarrow> bytes list \<Rightarrow> bytes \<times> (io_error + bytes list)" where
  "httpup_handshake_inbound parse want reads =
    (case read_upgrade_head ''httpup'' [] reads of
       Inl e \<Rightarrow> ([], Inl e)
     | Inr (buf, later) \<Rightarrow>
         (case httpup_check want (parse buf) of
            Some e \<Rightarrow> ([], Inl e)
          | None \<Rightarrow> (as_bytes httpup_response, Inr later)))"

text \<open>The request of the outbound: its URL and its host header.\<close>

definition ws_request :: "string option \<Rightarrow> string option \<Rightarrow> proxy_target \<Rightarrow> string \<times> string" where
  "ws_request host_header path target =
    (''ws://'' @ target_host target @ '':'' @ show_nat (unat (target_port target))
       @ (case path of Some p \<Rightarrow> p | None \<Rightarrow> ''/''),
     case host_header of Some h \<Rightarrow> h | None \<Rightarrow> target_host target)"

section \<open>The stream\<close>

datatype ws_message = WsBinary bytes | WsText string | WsClose | WsPing | WsPong | WsFrame

datatype ws_poll = WsMessage ws_message | WsError string | WsFinished | WsPending

record ws_stream =
  ws_incoming :: "ws_poll list"
  ws_read_buf :: bytes
  ws_write_buf :: bytes
  ws_sent :: "ws_message list"

definition ws_stream_new :: "ws_poll list \<Rightarrow> ws_stream" where
  "ws_stream_new ps = \<lparr>ws_incoming = ps, ws_read_buf = [], ws_write_buf = [], ws_sent = []\<rparr>"

definition ws_give :: "nat \<Rightarrow> ws_stream \<Rightarrow> (io_error + bytes) poll \<times> ws_stream" where
  "ws_give n s =
    (let k = min n (length (ws_read_buf s))
     in (Ready (Inr (take k (ws_read_buf s))), s\<lparr>ws_read_buf := drop k (ws_read_buf s)\<rparr>))"

definition ws_error :: "string \<Rightarrow> io_error" where
  "ws_error e = io_err (''ws: '' @ e)"

text \<open>Without a further event the inner stream is pending.\<close>

definition ws_poll_read :: "nat \<Rightarrow> ws_stream \<Rightarrow> (io_error + bytes) poll \<times> ws_stream" where
  "ws_poll_read n s =
    (if ws_read_buf s \<noteq> [] then ws_give n s
     else (case ws_incoming s of
         [] \<Rightarrow> (Pending, s)
       | ev # evs \<Rightarrow>
           let s' = s\<lparr>ws_incoming := evs\<rparr> in
           (case ev of
              WsMessage (WsBinary b) \<Rightarrow> ws_give n (s'\<lparr>ws_read_buf := ws_read_buf s' @ b\<rparr>)
            | WsMessage (WsText t) \<Rightarrow> ws_give n (s'\<lparr>ws_read_buf := ws_read_buf s' @ as_bytes t\<rparr>)
            | WsMessage WsClose \<Rightarrow> (Ready (Inr []), s')
            | WsMessage _ \<Rightarrow> ws_give n s'
            | WsError e \<Rightarrow> (Ready (Inl (ws_error e)), s')
            | WsFinished \<Rightarrow> (Ready (Inr []), s')
            | WsPending \<Rightarrow> (Pending, s'))))"

definition ws_poll_write :: "bytes \<Rightarrow> ws_stream \<Rightarrow> (io_error + nat) poll \<times> ws_stream" where
  "ws_poll_write b s = (Ready (Inr (length b)), s\<lparr>ws_write_buf := ws_write_buf s @ b\<rparr>)"

text \<open>What the sink of the WebSocket answers: ready, pending, or an error.\<close>

datatype sink_poll = SinkOk | SinkWait | SinkError string

definition sink_result :: "sink_poll \<Rightarrow> (io_error + unit) poll" where
  "sink_result p = (case p of SinkOk \<Rightarrow> Ready (Inr ()) | SinkWait \<Rightarrow> Pending | SinkError e \<Rightarrow> Ready (Inl (ws_error e)))"

definition ws_poll_flush ::
    "sink_poll \<Rightarrow> string option \<Rightarrow> sink_poll \<Rightarrow> ws_stream \<Rightarrow> (io_error + unit) poll \<times> ws_stream" where
  "ws_poll_flush ready send flush s =
    (if ws_write_buf s = [] then (sink_result flush, s)
     else (case ready of
         SinkError e \<Rightarrow> (Ready (Inl (ws_error e)), s\<lparr>ws_write_buf := []\<rparr>)
       | SinkWait \<Rightarrow> (Pending, s)
       | SinkOk \<Rightarrow>
           (case send of
              Some e \<Rightarrow> (Ready (Inl (ws_error e)), s\<lparr>ws_write_buf := []\<rparr>)
            | None \<Rightarrow>
                (sink_result flush,
                 s\<lparr>ws_write_buf := [], ws_sent := ws_sent s @ [WsBinary (ws_write_buf s)]\<rparr>))))"

definition ws_poll_shutdown :: "sink_poll \<Rightarrow> ws_stream \<Rightarrow> (io_error + unit) poll \<times> ws_stream" where
  "ws_poll_shutdown close s = (sink_result close, s)"

section \<open>The digest is SHA-1\<close>

lemma chunk_words_nth:
  "length b = 4 * k \<Longrightarrow> chunk_words b = map (\<lambda>i. be_u32 [b ! (i * 4), b ! (i * 4 + 1), b ! (i * 4 + 2), b ! (i * 4 + 3)]) [0..<k]"
proof (induction k arbitrary: b)
  case (Suc k)
  then have "length b = Suc (Suc (Suc (Suc (4 * k))))" by simp
  then obtain x y z w r where b: "b = x # y # z # w # r" "length r = 4 * k" by (auto simp: length_Suc_conv)
  have "[0..<Suc k] = 0 # map Suc [0..<k]" by (simp add: upt_conv_Cons map_Suc_upt del: upt_Suc)
  then show ?case using Suc(1) [OF b(2)] b(1) by (simp add: numeral_2_eq_2 numeral_3_eq_3)
qed simp

lemma chunk_words_block: "length b = 64 \<Longrightarrow> chunk_words b = be_words b"
  using chunk_words_nth [of b 16] by (simp add: be_words_def)

lemma blocks_length: "b \<in> set (blocks m) \<Longrightarrow> length b = 64"
proof (induction m rule: blocks.induct)
  case (1 m)
  show ?case
  proof (cases "length m < 64")
    case True
    then show ?thesis using 1(2) by (simp add: blocks_short)
  next
    case False
    then have "blocks m = take 64 m # blocks (drop 64 m)" by (subst blocks.simps) simp
    then show ?thesis using 1 False by auto
  qed
qed

lemma ws_block_sha1: "length b = 64 \<Longrightarrow> ws_block st b = sha1_block st b"
  by (simp only: ws_block_def sha1_block_def ws_schedule_def sha1_schedule_def chunk_words_block)

lemma hash_ref_cong:
  assumes "\<And>st b. length b = 64 \<Longrightarrow> f st b = g st b"
  shows "hash_ref f iv len_bytes m = hash_ref g iv len_bytes m"
  unfolding hash_ref_def by (rule foldl_cong) (auto intro: assms blocks_length)

text \<open>The digest of the WebSocket handshake is the SHA-1 that the key derivation of Shadowsocks computes:
  the two implementations agree on every input, and both are the one-shot hash of the padded message.\<close>

theorem ws_digest_is_sha1:
  "ws_digest m = sha1 m \<and> ws_digest m = sha1_output (hash_ref ws_block sha1_iv u64_be m)"
proof -
  have "ws_digest m = sha1_output (hash_ref ws_block sha1_iv u64_be m)"
    using ws_sha1.digest_ref [of "[m]"] by (simp add: ws_digest_def ws_finalize_def ws_update_def)
  moreover have "sha1 m = sha1_output (hash_ref sha1_block sha1_iv u64_be m)"
    using sha1.digest_ref [of "[m]"] by (simp add: sha1_def)
  ultimately show ?thesis using hash_ref_cong [OF ws_block_sha1] by simp
qed

section \<open>Handshakes\<close>

lemma read_upgrade_head_Inr:
  assumes "read_upgrade_head name buf reads = Inr (b, later)"
  shows "\<exists>used. reads = used @ later \<and> b = buf @ concat used \<and> has_head_end b"
  using assms
proof (induction name buf reads rule: read_upgrade_head.induct)
  case (1 name buf reads)
  show ?case
  proof (cases "has_head_end buf")
    case True
    then show ?thesis using 1(2) by (subst (asm) read_upgrade_head.simps) (auto intro: exI [of _ "[]"])
  next
    case False
    then obtain r rs where r: "reads = r # rs" "r \<noteq> []" "\<not> length buf > 64 * 1024"
        "read_upgrade_head name (buf @ r) rs = Inr (b, later)"
      using 1(2) by (subst (asm) read_upgrade_head.simps) (auto split: if_splits list.splits)
    then obtain used where "rs = used @ later" "b = (buf @ r) @ concat used" "has_head_end b"
      using 1(1) [OF False r(3,1,2,4)] by blast
    then show ?thesis using r(1) by (intro exI [of _ "r # used"]) simp
  qed
qed

lemma has_head_end_Cons: "has_head_end b \<Longrightarrow> has_head_end (a # b)"
  by (cases b rule: has_head_end.cases) auto

lemma head_length_Some: "head_length b = Some n \<Longrightarrow> n \<le> length b \<and> has_head_end (take n b)"
proof (induction b arbitrary: n rule: head_length.induct)
  case (1 a b c d bs)
  show ?case
  proof (cases "[a, b, c, d] = [0x0D, 0x0A, 0x0D, 0x0A]")
    case True
    then have "n = 4" using 1(2) by simp
    then show ?thesis using True by (simp add: eval_nat_numeral)
  next
    case False
    then obtain k where k: "head_length (b # c # d # bs) = Some k" "n = Suc k" using 1(2) by auto
    from 1(1) [OF False k(1)] have IH: "k \<le> length (b # c # d # bs)" "has_head_end (take k (b # c # d # bs))" by auto
    then have "has_head_end (take (Suc k) (a # b # c # d # bs))"
      using has_head_end_Cons [of "take k (b # c # d # bs)" a] by simp
    then show ?thesis using IH(1) k(2) by simp
  qed
qed auto

lemma has_head_end_length: "has_head_end b \<Longrightarrow> head_length b \<noteq> None"
  by (induction b rule: has_head_end.induct) auto

text \<open>What a client sends behind its upgrade request is sent back to it. When the WebSocket handshake accepts a request,
  the reads up to the end of the head consist of this head and the bytes behind it; those bytes follow the response to
  the client, and the stream of messages starts with the reads after them.\<close>

theorem ws_early_data_returned:
  assumes "ws_handshake_inbound parse base64 spec reads = (written, Inr later)"
  shows "\<exists>used head early key. reads = used @ later \<and> concat used = head @ early \<and> has_head_end head
    \<and> ws_check_request parse (wi_path spec) head = Inr key
    \<and> written = as_bytes (ws_response (accept_key base64 key)) @ early"
proof -
  obtain buf n key where b: "read_upgrade_head ''ws'' [] reads = Inr (buf, later)" "head_length buf = Some n"
      "ws_check_request parse (wi_path spec) (take n buf) = Inr key"
      "written = as_bytes (ws_response (accept_key base64 key)) @ drop n buf"
    using assms by (auto simp: ws_handshake_inbound_def split: sum.splits option.splits prod.splits)
  obtain used where "reads = used @ later" "buf = concat used"
    using read_upgrade_head_Inr [OF b(1)] by auto
  then show ?thesis
    using b(3,4) head_length_Some [OF b(2)]
    by (intro exI [of _ used] exI [of _ "take n buf"] exI [of _ "drop n buf"] exI [of _ key]) simp
qed

definition sample_upgrade :: bytes where
  "sample_upgrade = as_bytes (''GET / HTTP/1.1'' @ crlf_text @ crlf_text)"

definition sample_http :: "bytes \<Rightarrow> http_parse" where
  "sample_http b = HttpRequest (Some ''/'') [(''Upgrade'', as_bytes ''websocket''), (''Sec-WebSocket-Key'', as_bytes ''k'')]"

theorem ws_early_data_returned_witness:
  "\<exists>used head early key. [sample_upgrade @ [1, 2], [3]] = used @ [[3]] \<and> concat used = head @ early \<and> has_head_end head
    \<and> ws_check_request sample_http (wi_path \<lparr>wi_path = None, wi_host = None, wi_max_streams = None\<rparr>) head = Inr key
    \<and> fst (ws_handshake_inbound sample_http (\<lambda>_. ''x'') \<lparr>wi_path = None, wi_host = None, wi_max_streams = None\<rparr>
        [sample_upgrade @ [1, 2], [3]]) = as_bytes (ws_response (accept_key (\<lambda>_. ''x'') key)) @ early"
proof -
  let ?h = "ws_handshake_inbound sample_http (\<lambda>_. ''x'') \<lparr>wi_path = None, wi_host = None, wi_max_streams = None\<rparr>
        [sample_upgrade @ [1, 2], [3]]"
  have h: "has_head_end (sample_upgrade @ [1, 2])" "sample_upgrade @ [1, 2] \<noteq> []" by code_simp+
  have "read_upgrade_head ''ws'' [] [sample_upgrade @ [1, 2], [3]] = Inr (sample_upgrade @ [1, 2], [[3]])"
    by (subst read_upgrade_head.simps, simp add: h(2)) (subst read_upgrade_head.simps, simp add: h(1))
  moreover obtain n where "head_length (sample_upgrade @ [1, 2]) = Some n"
    using has_head_end_length [OF h(1)] by blast
  moreover have k: "ws_headers [(''Upgrade'', as_bytes ''websocket''), (''Sec-WebSocket-Key'', as_bytes ''k'')] (None, False) = (Some ''k'', True)"
    by code_simp
  moreover have "ws_check_request sample_http None head = Inr ''k''" for head
    unfolding ws_check_request_def sample_http_def http_parse.case k by simp
  ultimately have "snd ?h = Inr [[3]]"
    by (simp add: ws_handshake_inbound_def)
  then have "?h = (fst ?h, Inr [[3]])" by (cases ?h) simp
  from ws_early_data_returned [OF this] show ?thesis .
qed

section \<open>Reading and writing\<close>

fun ws_arrival :: "ws_poll \<Rightarrow> arrival" where
  "ws_arrival (WsMessage (WsBinary b)) = Data b"
| "ws_arrival (WsMessage (WsText t)) = Data (as_bytes t)"
| "ws_arrival (WsMessage WsClose) = Ended"
| "ws_arrival (WsMessage _) = Data []"
| "ws_arrival (WsError e) = Broken (ws_error e)"
| "ws_arrival WsFinished = Ended"
| "ws_arrival WsPending = NotYet"

lemma take_min: "take (min n (length xs)) xs = take n xs" "drop (min n (length xs)) xs = drop n xs"
  by (simp_all add: min_def)

lemma ws_poll_read_message:
  assumes "ws_read_buf s = []" "ws_incoming s = ev # evs" "ws_arrival ev = Data b"
  shows "ws_poll_read n s = (Ready (Inr (take n b)), s\<lparr>ws_incoming := evs, ws_read_buf := drop n b\<rparr>)"
  using assms by (cases ev rule: ws_arrival.cases) (simp_all add: ws_poll_read_def ws_give_def Let_def take_min)

interpretation ws_messages: message_stream ws_poll_read ws_read_buf "\<lambda>s. map ws_arrival (ws_incoming s)" "\<lambda>_. True"
proof
  fix s :: ws_stream and n
  assume "ws_read_buf s \<noteq> []"
  then show "\<exists>s'. ws_poll_read n s = (Ready (Inr (take n (ws_read_buf s))), s') \<and> True
      \<and> ws_read_buf s' = drop n (ws_read_buf s) \<and> map ws_arrival (ws_incoming s') = map ws_arrival (ws_incoming s)"
    by (simp add: ws_poll_read_def ws_give_def Let_def take_min)
next
  fix s :: ws_stream and n b as
  assume "ws_read_buf s = []" "map ws_arrival (ws_incoming s) = Data b # as"
  then show "\<exists>s'. ws_poll_read n s = (Ready (Inr (take n b)), s') \<and> True
      \<and> ws_read_buf s' = drop n b \<and> map ws_arrival (ws_incoming s') = as"
    using ws_poll_read_message by (fastforce simp: map_eq_Cons_conv)
next
  fix s :: ws_stream and n a as
  assume "ws_read_buf s = []" "map ws_arrival (ws_incoming s) = a # as" "\<nexists>b. a = Data b"
  then obtain ev evs where "ws_incoming s = ev # evs" "ws_arrival ev = a" by (auto simp: map_eq_Cons_conv)
  then show "fst (ws_poll_read n s) = first_poll n a"
    using \<open>ws_read_buf s = []\<close> \<open>\<nexists>b. a = Data b\<close>
    by (cases ev rule: ws_arrival.cases) (auto simp: ws_poll_read_def first_poll_def Let_def)
qed (simp_all add: ws_poll_read_def)

text \<open>Writing: each entry is what is written before a flush that succeeds.\<close>

definition ws_write_flush :: "ws_stream \<Rightarrow> bytes list \<Rightarrow> ws_stream" where
  "ws_write_flush s bs = snd (ws_poll_flush SinkOk None SinkOk (foldl (\<lambda>s b. snd (ws_poll_write b s)) s bs))"

lemma ws_writes: "foldl (\<lambda>s b. snd (ws_poll_write b s)) s bs = s\<lparr>ws_write_buf := ws_write_buf s @ concat bs\<rparr>"
  by (induction bs arbitrary: s) (simp_all add: ws_poll_write_def)

lemma ws_write_flushes:
  assumes "ws_write_buf s = []"
  shows "foldl ws_write_flush s bss =
    s\<lparr>ws_sent := ws_sent s @ map WsBinary (filter (\<lambda>b. b \<noteq> []) (map concat bss))\<rparr>"
  using assms by (induction bss arbitrary: s) (auto simp: ws_write_flush_def ws_writes ws_poll_flush_def)

lemma ws_binary_view:
  "arrival_view (map (ws_arrival \<circ> WsMessage \<circ> WsBinary) (filter (\<lambda>b. b \<noteq> []) bs) @ as) =
    apfst ((@) (concat bs)) (arrival_view as)"
  by (induction bs) (auto simp: case_prod_beta apfst_def map_prod_def)

lemma ws_binary_size:
  "sum_list (map (arrival_size \<circ> ws_arrival \<circ> WsMessage \<circ> WsBinary) (filter (\<lambda>b. b \<noteq> []) bs)) \<le> 2 * length (concat bs)"
  by (induction bs) (auto simp: neq_Nil_conv)

text \<open>Property C24: A WebSocket stream carries bytes. Whatever is written on one end, in pieces and with flushes in between,
  is what a reader of the other end gets, with any buffer, before it sees what follows on the stream: the data of
  later messages, the end, or an error. A control message that follows, a ping for example, ends
  the stream for the reader as if the peer had closed it. Twice as many polls as bytes, and one
  for every later message and its bytes, are enough.\<close>

theorem ws_stream_carries:
  assumes "0 < n"
    and "2 * length (concat (map concat bss)) + sum_list (map (arrival_size \<circ> ws_arrival) evs) < fuel"
  shows "read_all ws_poll_read fuel n
      (ws_stream_new (map WsMessage (ws_sent (foldl ws_write_flush (ws_stream_new []) bss)) @ evs)) =
      apfst ((@) (concat (map concat bss))) (apsnd Some (arrival_view (map ws_arrival evs)))"
proof -
  have sent: "ws_sent (foldl ws_write_flush (ws_stream_new []) bss) = map WsBinary (filter (\<lambda>b. b \<noteq> []) (map concat bss))"
    using ws_write_flushes [of "ws_stream_new []" bss] by (simp add: ws_stream_new_def)
  let ?s = "ws_stream_new (map WsMessage (map WsBinary (filter (\<lambda>b. b \<noteq> []) (map concat bss))) @ evs)"
  have "ws_messages.left ?s < fuel"
    using ws_binary_size [of "map concat bss"] assms(2) by (simp add: ws_messages.left_def ws_stream_new_def o_assoc)
  then show ?thesis
    using ws_messages.read_all_view [OF _ assms(1), of ?s fuel] ws_binary_view [of "map concat bss" "map ws_arrival evs"]
    unfolding sent
    by (cases "arrival_view (map ws_arrival evs)") (simp add: ws_stream_new_def o_assoc)
qed

theorem ws_stream_carries_witness:
  "read_all ws_poll_read 20 2
      (ws_stream_new (map WsMessage (ws_sent (foldl ws_write_flush (ws_stream_new []) [[[1], [2, 3]], [], [[4]]]))
        @ [WsMessage WsPing, WsMessage (WsBinary [5])])) = ([1, 2, 3, 4], Some AtEof)"
  using ws_stream_carries [of 2 "[[[1], [2, 3]], [], [[4]]]" "[WsMessage WsPing, WsMessage (WsBinary [5])]" 20] by simp

text \<open>A flush whose sink reports an error, and a shutdown, lose what was written and not yet sent.\<close>

lemma ws_unsent_lost:
  "ws_write_buf s \<noteq> [] \<Longrightarrow> ws_poll_flush (SinkError e) send flush s = (Ready (Inl (ws_error e)), s\<lparr>ws_write_buf := []\<rparr>)"
  "ws_sent (snd (ws_poll_shutdown close s)) = ws_sent s"
  by (simp_all add: ws_poll_flush_def ws_poll_shutdown_def)

end
