(* ===== verification/H2Transport.thy ===== *)
theory H2Transport
  imports WsTransport Listener Ip6Text
begin

text \<open>
  \<open>crates/omni-transport/src/h2/mod.rs\<close>, \<open>grpc/mod.rs\<close>, \<open>xhttp/mod.rs\<close> and the Naive protocol (\<open>proto/naive\<close>): the
  byte stream over an HTTP/2 stream, which requests the servers admit, and the requests of the clients. The HTTP/2
  library is third-party code: its results are the polls and the requests the definitions get.
\<close>

section \<open>The stream\<close>

datatype h2_poll = H2Data bytes | H2Error string | H2Finished | H2Pending

record h2_stream =
  h2_incoming :: "h2_poll list"
  h2_wbuf :: bytes
  h2_eof :: bool
  h2_sent :: "(bytes \<times> bool) list"

definition h2_stream_new :: "h2_poll list \<Rightarrow> h2_stream" where
  "h2_stream_new ps = \<lparr>h2_incoming = ps, h2_wbuf = [], h2_eof = False, h2_sent = []\<rparr>"

definition h2_err :: "string \<Rightarrow> io_error" where
  "h2_err msg = io_err (''h2: '' @ msg)"

definition h2_poll_read :: "nat \<Rightarrow> h2_stream \<Rightarrow> (io_error + bytes) poll \<times> h2_stream" where
  "h2_poll_read n s =
    (if h2_wbuf s \<noteq> [] then
       (let k = min n (length (h2_wbuf s))
        in (Ready (Inr (take k (h2_wbuf s))), s\<lparr>h2_wbuf := drop k (h2_wbuf s)\<rparr>))
     else if h2_eof s then (Ready (Inr []), s)
     else (case h2_incoming s of
         [] \<Rightarrow> (Pending, s)
       | ev # evs \<Rightarrow>
           let s' = s\<lparr>h2_incoming := evs\<rparr> in
           (case ev of
              H2Data chunk \<Rightarrow>
                let capped = min n (length chunk) in
                (Ready (Inr (take capped chunk)),
                 if capped < length chunk then s'\<lparr>h2_wbuf := h2_wbuf s' @ drop capped chunk\<rparr> else s')
            | H2Error e \<Rightarrow> (Ready (Inl (h2_err e)), s')
            | H2Finished \<Rightarrow> (Ready (Inr []), s'\<lparr>h2_eof := True\<rparr>)
            | H2Pending \<Rightarrow> (Pending, s'))))"

text \<open>What \<open>poll_capacity\<close> answers, and whether \<open>send_data\<close> then fails.\<close>

datatype capacity = CapGranted nat "string option" | CapError string | CapClosed | CapPending

definition h2_poll_write :: "capacity \<Rightarrow> bytes \<Rightarrow> h2_stream \<Rightarrow> (io_error + nat) poll \<times> h2_stream" where
  "h2_poll_write cap buf s =
    (case cap of
       CapGranted n None \<Rightarrow>
         (Ready (Inr (min n (length buf))), s\<lparr>h2_sent := h2_sent s @ [(take (min n (length buf)) buf, False)]\<rparr>)
     | CapGranted n (Some e) \<Rightarrow> (Ready (Inl (h2_err e)), s)
     | CapError e \<Rightarrow> (Ready (Inl (h2_err e)), s)
     | CapClosed \<Rightarrow> (Ready (Inl (h2_err ''capacity closed'')), s)
     | CapPending \<Rightarrow> (Pending, s))"

definition h2_poll_shutdown :: "h2_stream \<Rightarrow> h2_stream" where
  "h2_poll_shutdown s = s\<lparr>h2_sent := h2_sent s @ [([], True)]\<rparr>"

text \<open>\<open>write_all\<close> over a stream whose polls meet the given capacities; \<open>None\<close>: it still waits.\<close>

fun h2_write_all :: "capacity list \<Rightarrow> bytes \<Rightarrow> h2_stream \<Rightarrow> (io_error + unit) option \<times> h2_stream" where
  "h2_write_all caps [] s = (Some (Inr ()), s)"
| "h2_write_all [] (b # bs) s = (None, s)"
| "h2_write_all (cap # caps) (b # bs) s =
    (case h2_poll_write cap (b # bs) s of
       (Pending, s') \<Rightarrow> h2_write_all caps (b # bs) s'
     | (Ready (Inl e), s') \<Rightarrow> (Some (Inl e), s')
     | (Ready (Inr n), s') \<Rightarrow>
         if n = 0 then (Some (Inl (io_err ''failed to write whole buffer'')), s')
         else h2_write_all caps (drop n (b # bs)) s')"

section \<open>Requests\<close>

definition grpc_path_for :: "string \<Rightarrow> string" where
  "grpc_path_for service_name = ''/'' @ dropWhile (\<lambda>c. c = CHR ''/'') service_name @ ''/Tun''"

text \<open>\<open>serve_requests\<close>: the paths of the requests until accepting fails; a response per request, and whether a stream is
  handed to the pipeline (\<open>can_respond\<close>: the response can be sent).\<close>

definition h2_admits :: "string option \<Rightarrow> string \<Rightarrow> bool" where
  "h2_admits want path =
    (case want of
       None \<Rightarrow> True
     | Some p \<Rightarrow> prefix p path \<or> normalize_path path = normalize_path p)"

fun h2_serve_requests :: "string option \<Rightarrow> (string \<times> bool) option list \<Rightarrow> (nat \<times> bool) list" where
  "h2_serve_requests want [] = []"
| "h2_serve_requests want (None # rs) = []"
| "h2_serve_requests want (Some (path, can_respond) # rs) =
    (if h2_admits want path then (200, can_respond) else (404, False)) # h2_serve_requests want rs"

definition grpc_serve :: "string \<Rightarrow> (string \<times> bool) option list \<Rightarrow> (nat \<times> bool) list" where
  "grpc_serve service_name rs = h2_serve_requests (Some (grpc_path_for service_name)) rs"

definition xhttp_serve_inbound :: "string option \<Rightarrow> (string \<times> bool) option list \<Rightarrow> (nat \<times> bool) list" where
  "xhttp_serve_inbound want rs = h2_serve_requests want rs"

record h2_connect =
  cr_connect :: bool
  cr_authority :: "string option"
  cr_can_respond :: bool

text \<open>\<open>serve_connect\<close>: the status of a request and the authority that is handed on.\<close>

definition connect_decision :: "h2_connect \<Rightarrow> nat \<times> string option" where
  "connect_decision r =
    (if \<not> cr_connect r then (405, None)
     else (case cr_authority r of
         None \<Rightarrow> (400, None)
       | Some a \<Rightarrow> (200, if cr_can_respond r then Some a else None)))"

fun h2_serve_connect :: "h2_connect option list \<Rightarrow> (nat \<times> string option) list" where
  "h2_serve_connect [] = []"
| "h2_serve_connect (None # rs) = []"
| "h2_serve_connect (Some r # rs) = connect_decision r # h2_serve_connect rs"

text \<open>The clients: method, path, authority and content type of their request. The status of the response decides.\<close>

record h2_request =
  hr_method :: string
  hr_uri :: string
  hr_content_type :: string

definition h2_request_for :: "string \<Rightarrow> string \<Rightarrow> string \<Rightarrow> string \<Rightarrow> h2_request" where
  "h2_request_for method path authority content_type =
    \<lparr>hr_method = method, hr_uri = ''https://'' @ authority @ path, hr_content_type = content_type\<rparr>"

definition open_proxy_stream :: "(h2_request \<Rightarrow> string + nat) \<Rightarrow> h2_request \<Rightarrow> io_error + h2_stream" where
  "open_proxy_stream send_request req =
    (case send_request req of
       Inl e \<Rightarrow> Inl (h2_err e)
     | Inr status \<Rightarrow>
         if 200 \<le> status \<and> status < 300 then Inr (h2_stream_new [])
         else Inl (h2_err (''upstream responded '' @ show_nat status)))"

definition grpc_connect_outbound ::
    "(h2_request \<Rightarrow> string + nat) \<Rightarrow> string \<Rightarrow> string option \<Rightarrow> proxy_target \<Rightarrow> io_error + h2_stream" where
  "grpc_connect_outbound send_request service_name host_header target =
    open_proxy_stream send_request
      (h2_request_for ''POST'' (grpc_path_for service_name)
        (case host_header of Some h \<Rightarrow> h | None \<Rightarrow> target_host target) ''application/grpc'')"

definition xhttp_connect_outbound ::
    "(h2_request \<Rightarrow> string + nat) \<Rightarrow> string option \<Rightarrow> string option \<Rightarrow> proxy_target \<Rightarrow> io_error + h2_stream" where
  "xhttp_connect_outbound send_request path host target =
    open_proxy_stream send_request
      (h2_request_for ''POST'' (case path of Some p \<Rightarrow> p | None \<Rightarrow> ''/'')
        (case host of Some h \<Rightarrow> h | None \<Rightarrow> target_host target) [])"

definition naive_connect_tcp :: "(h2_request \<Rightarrow> string + nat) \<Rightarrow> proxy_target \<Rightarrow> io_error + h2_stream" where
  "naive_connect_tcp send_request target =
    open_proxy_stream send_request (h2_request_for ''CONNECT'' ''/'' (show_target target) [])"

text \<open>The Naive inbound: the targets of its CONNECT requests.\<close>

definition naive_serve :: "h2_connect option list \<Rightarrow> (nat \<times> proxy_target option) list" where
  "naive_serve rs = map (apsnd (map_option parse_naive_authority)) (h2_serve_connect rs)"

section \<open>What the stream carries\<close>

fun h2_arrival :: "h2_poll \<Rightarrow> arrival" where
  "h2_arrival (H2Data b) = Data b"
| "h2_arrival (H2Error e) = StreamPoll.Broken (h2_err e)"
| "h2_arrival H2Finished = Ended"
| "h2_arrival H2Pending = NotYet"

interpretation h2_messages: message_stream h2_poll_read h2_wbuf "\<lambda>s. map h2_arrival (h2_incoming s)" "\<lambda>s. \<not> h2_eof s"
proof
  fix s :: h2_stream and n
  assume "\<not> h2_eof s" "h2_wbuf s \<noteq> []"
  then show "\<exists>s'. h2_poll_read n s = (Ready (Inr (take n (h2_wbuf s))), s') \<and> \<not> h2_eof s'
      \<and> h2_wbuf s' = drop n (h2_wbuf s) \<and> map h2_arrival (h2_incoming s') = map h2_arrival (h2_incoming s)"
    by (simp add: h2_poll_read_def Let_def take_min)
next
  fix s :: h2_stream and n b as
  assume s: "\<not> h2_eof s" "h2_wbuf s = []" "map h2_arrival (h2_incoming s) = Data b # as"
  then obtain evs where "h2_incoming s = H2Data b # evs" "map h2_arrival evs = as"
    by (cases "h2_incoming s") (auto elim: h2_arrival.elims)
  then show "\<exists>s'. h2_poll_read n s = (Ready (Inr (take n b)), s') \<and> \<not> h2_eof s'
      \<and> h2_wbuf s' = drop n b \<and> map h2_arrival (h2_incoming s') = as"
    using s(1,2) by (simp add: h2_poll_read_def Let_def take_min min_def)
next
  fix s :: h2_stream and n a as
  assume "\<not> h2_eof s" "h2_wbuf s = []" "map h2_arrival (h2_incoming s) = a # as" "\<nexists>b. a = Data b"
  moreover from this(3) obtain ev evs where "h2_incoming s = ev # evs" "h2_arrival ev = a" by (auto simp: map_eq_Cons_conv)
  ultimately show "fst (h2_poll_read n s) = first_poll n a"
    by (cases ev) (auto simp: h2_poll_read_def first_poll_def Let_def)
qed (simp_all add: h2_poll_read_def)

lemma h2_write_all_sent:
  "h2_write_all caps b s = (Some (Inr ()), s') \<Longrightarrow>
    \<exists>cs. h2_sent s' = h2_sent s @ map (\<lambda>c. (c, False)) cs \<and> concat cs = b \<and> [] \<notin> set cs"
proof (induction caps b s rule: h2_write_all.induct)
  case (3 cap caps b bs s)
  show ?case
  proof (cases cap)
    case (CapGranted n e)
    have e: "e = None" and n: "n \<noteq> 0"
      using 3(3) CapGranted by (auto simp: h2_poll_write_def split: option.splits if_splits)
    define k where "k = min n (length (b # bs))"
    let ?s = "s\<lparr>h2_sent := h2_sent s @ [(take k (b # bs), False)]\<rparr>"
    have w: "h2_poll_write cap (b # bs) s = (Ready (Inr k), ?s)"
      using CapGranted e by (simp add: h2_poll_write_def k_def)
    have k: "k \<noteq> 0" using n by (simp add: k_def)
    have "h2_write_all caps (drop k (b # bs)) ?s = (Some (Inr ()), s')"
      using 3(3) w k by simp
    then obtain cs where "h2_sent s' = h2_sent ?s @ map (\<lambda>c. (c, False)) cs" "concat cs = drop k (b # bs)" "[] \<notin> set cs"
      using 3(1) [OF w [symmetric] refl refl k] by blast
    then show ?thesis using k
      by (intro exI [of _ "take k (b # bs) # cs"]) (auto simp del: take_Suc_Cons simp: append_take_drop_id)
  next
    case CapPending
    then show ?thesis using 3(2,3) by (simp add: h2_poll_write_def)
  qed (use 3(3) in \<open>simp_all add: h2_poll_write_def\<close>)
qed auto

lemma h2_data_view:
  "[] \<notin> set cs \<Longrightarrow> arrival_view (map (h2_arrival \<circ> H2Data) cs @ as) = apfst ((@) (concat cs)) (arrival_view as)"
  by (induction cs) (auto simp: case_prod_beta apfst_def map_prod_def)

lemma h2_data_size: "[] \<notin> set cs \<Longrightarrow> sum_list (map (arrival_size \<circ> h2_arrival \<circ> H2Data) cs) \<le> 2 * length (concat cs)"
proof (induction cs)
  case (Cons c cs)
  then have "1 \<le> length c" by (cases c) auto
  then show ?case using Cons by simp
qed simp

text \<open>Property C25: an HTTP/2 stream carries bytes. When \<open>write_all\<close> succeeds, whatever capacity its polls were granted, the frames it
  sent hold exactly the data; and however the library cuts these bytes into non-empty frames on the other side, a
  reader with any buffer gets exactly the data before what follows on the stream.\<close>

theorem h2_stream_carries:
  assumes "h2_write_all caps data (h2_stream_new []) = (Some (Inr ()), s')" "0 < n"
    and "concat cs = data" "[] \<notin> set cs"
    and "2 * length data + sum_list (map (arrival_size \<circ> h2_arrival) evs) < fuel"
  shows "concat (map fst (h2_sent s')) = data
    \<and> read_all h2_poll_read fuel n (h2_stream_new (map H2Data cs @ evs)) =
      apfst ((@) data) (apsnd Some (arrival_view (map h2_arrival evs)))"
proof
  show "concat (map fst (h2_sent s')) = data"
    using h2_write_all_sent [OF assms(1)] by (auto simp: h2_stream_new_def o_def)
  let ?s = "h2_stream_new (map H2Data cs @ evs)"
  have "h2_messages.left ?s < fuel"
    using h2_data_size [OF assms(4)] assms(3,5) by (simp add: h2_messages.left_def h2_stream_new_def o_assoc)
  then show "read_all h2_poll_read fuel n ?s = apfst ((@) data) (apsnd Some (arrival_view (map h2_arrival evs)))"
    using h2_messages.read_all_view [OF _ assms(2), of ?s fuel] h2_data_view [OF assms(4), of "map h2_arrival evs"] assms(3)
    by (cases "arrival_view (map h2_arrival evs)") (simp add: h2_stream_new_def)
qed

theorem h2_stream_carries_witness:
  "concat (map fst (h2_sent (snd (h2_write_all [CapGranted 2 None, CapPending, CapGranted 9 None] [1, 2, 3] (h2_stream_new []))))) = [1, 2, 3]
    \<and> read_all h2_poll_read 8 2 (h2_stream_new (map H2Data [[1], [2, 3]] @ [H2Finished])) = ([1, 2, 3], Some AtEof)"
proof -
  have "h2_write_all [CapGranted 2 None, CapPending, CapGranted 9 None] [1, 2, 3] (h2_stream_new []) =
      (Some (Inr ()), snd (h2_write_all [CapGranted 2 None, CapPending, CapGranted 9 None] [1, 2, 3] (h2_stream_new [])))"
    by (simp add: h2_poll_write_def)
  from h2_stream_carries [OF this, of 2 "[[1], [2, 3]]" "[H2Finished]" 8] show ?thesis by simp
qed

text \<open>An empty data frame ends the stream for its reader.\<close>

lemma h2_empty_frame_ends: "arrival_view (map h2_arrival (H2Data [] # evs)) = ([], AtEof)"
  by simp

section \<open>Admission\<close>

text \<open>A client with the service name of the server is admitted. The prefix test also admits paths that only start with
  the configured one, which the WebSocket inbound rejects.\<close>

lemma grpc_admitted: "h2_admits (Some (grpc_path_for service)) (grpc_path_for service)"
  by (simp add: h2_admits_def)

lemma h2_prefix_admits: "h2_admits (Some ''/ws'') ''/wsx'' \<and> \<not> path_matches ''/wsx'' ''/ws''"
  by code_simp

lemma colons_in_ipv4: "set (show_ipv4 a) \<inter> {CHR '':'', CHR ''['', CHR '']''} = {}"
proof -
  have "list_all (\<lambda>c. c \<notin> {CHR '':'', CHR ''['', CHR '']''}) (show_ipv4 a)"
    using show_ipv4_plain [of a] by (rule list.pred_mono_strong) (auto simp: plain_def digit_val_def)
  then show ?thesis by (auto simp: list_all_iff)
qed

lemma naive_authority_ipv6:
  "parse_naive_authority (''['' @ show_ipv6 i @ '']:'' @ show_nat (unat p)) = Tcp (SocketAddr (IpV6 i) p)"
proof -
  let ?s = "show_nat (unat p)"
  note c = show_ipv6_chars [of i]
  have a: "dropWhile (\<lambda>c. c = CHR ''['') (''['' @ show_ipv6 i @ '']:'' @ ?s) = show_ipv6 i @ '']:'' @ ?s"
    using c by (cases "show_ipv6 i") auto
  have f: "find_char CHR '']'' (show_ipv6 i @ '']:'' @ ?s) = Some (length (show_ipv6 i))"
  proof -
    have "takeWhile (\<lambda>x. x \<noteq> CHR '']'') (show_ipv6 i @ r) = show_ipv6 i @ takeWhile (\<lambda>x. x \<noteq> CHR '']'') r" for r
      using c by (intro takeWhile_append2) auto
    then show ?thesis by (simp add: find_char_def)
  qed
  have "hd ?s \<noteq> CHR '':''" using colon_not_in_show_nat [of "unat p"] show_nat_nonempty [of "unat p"] by (metis hd_in_set)
  then have d: "dropWhile (\<lambda>c. c = CHR '':'') ('':'' @ ?s) = ?s" by (cases ?s) auto
  have p: "port_or_443 ?s = p" by (simp add: port_or_443_def parse_port_show)
  show ?thesis
    unfolding parse_naive_authority_def Let_def a f using d by (simp add: p host_target_def parse_ip_show_ipv6)
qed

text \<open>Property C26: a Naive server connects to the target its client means: the authority that the client writes for
  a target is understood as this target, for every IPv4 address, every IPv6 address (which the client writes in brackets, with zeros
  compressed) and every name that is not the text of an address and has no colon or bracket.\<close>

theorem naive_target_understood:
  assumes "case t of Tcp a \<Rightarrow> True
    | Domain h p \<Rightarrow> h \<noteq> [] \<and> parse_ip h = None \<and> set h \<inter> {CHR '':'', CHR ''['', CHR '']''} = {}"
  shows "naive_serve [Some \<lparr>cr_connect = True, cr_authority = Some (show_target t), cr_can_respond = True\<rparr>] = [(200, Some t)]"
proof -
  have "parse_naive_authority (show_target t) = t"
  proof (cases t)
    case (Domain h p)
    then show ?thesis using naive_authority_host [of h p] assms by (simp add: show_target_def host_target_def)
  next
    case (Tcp a)
    then obtain ip p where t: "t = Tcp (SocketAddr ip p)" by (cases a) auto
    show ?thesis
    proof (cases ip)
      case (IpV4 i)
      have "show_ipv4 i \<noteq> []" by (simp add: show_ipv4_def Let_def)
      then show ?thesis
        using naive_authority_host [OF colons_in_ipv4, of i p] t IpV4
        by (simp add: show_target_def show_socket_addr_def host_target_def parse_ip_show_ipv4)
    next
      case (IpV6 i)
      then show ?thesis using naive_authority_ipv6 [of i p] t by (simp add: show_target_def show_socket_addr_def)
    qed
  qed
  then show ?thesis by (simp add: naive_serve_def connect_decision_def)
qed

theorem naive_target_understood_witness:
  "naive_serve [Some \<lparr>cr_connect = True, cr_authority = Some (show_target (Domain ''a.b'' 443)), cr_can_respond = True\<rparr>] =
      [(200, Some (Domain ''a.b'' 443))]
    \<and> naive_serve [Some \<lparr>cr_connect = True, cr_authority = Some ''[::1]:853'', cr_can_respond = True\<rparr>] =
      [(200, Some (Tcp (SocketAddr (IpV6 1) 853)))]"
proof
  have "parse_ip ''a.b'' = None" by code_simp
  then show "naive_serve [Some \<lparr>cr_connect = True, cr_authority = Some (show_target (Domain ''a.b'' 443)), cr_can_respond = True\<rparr>] =
      [(200, Some (Domain ''a.b'' 443))]"
    by (intro naive_target_understood) simp
  have "show_target (Tcp (SocketAddr (IpV6 1) 853)) = ''[::1]:853''" by code_simp
  then show "naive_serve [Some \<lparr>cr_connect = True, cr_authority = Some ''[::1]:853'', cr_can_respond = True\<rparr>] =
      [(200, Some (Tcp (SocketAddr (IpV6 1) 853)))]"
    using naive_target_understood [of "Tcp (SocketAddr (IpV6 1) 853)"] by simp
qed

end
