(* ===== verification/MuxSession.thy ===== *)
theory MuxSession
  imports MuxPool Router "HOL-Library.Multiset"
begin

text \<open>
  \<open>crates/omni-mux/src/session.rs\<close>: a multiplexed session. The yamux driver is a task that serves requests for new streams and takes
  inbound streams off the connection; the yamux connection is third-party code, so what its polls
  return is chosen by the environment, and the driver is a step relation. Requests are numbered in the order in which they are made.
\<close>

section \<open>The driver\<close>

record yamux_driver =
  yd_next :: nat
  yd_queue :: "nat list"
  yd_pending :: "nat option"
  yd_answered :: "(nat \<times> bool) list"
  yd_dropped :: "nat list"
  yd_refused :: "nat list"
  yd_inbound :: nat
  yd_done :: bool

definition yamux_init :: yamux_driver where
  "yamux_init = \<lparr>yd_next = 0, yd_queue = [], yd_pending = None, yd_answered = [], yd_dropped = [], yd_refused = [],
    yd_inbound = 0, yd_done = False\<rparr>"

definition pending_list :: "yamux_driver \<Rightarrow> nat list" where
  "pending_list d = (case yd_pending d of None \<Rightarrow> [] | Some r \<Rightarrow> [r])"

definition channel_size :: nat where
  "channel_size = 64"

text \<open>When the driver's future is finished, the requests it still holds lose their answer.\<close>

definition driver_ends :: "yamux_driver \<Rightarrow> yamux_driver" where
  "driver_ends d = d\<lparr>yd_done := True, yd_dropped := yd_dropped d @ pending_list d @ yd_queue d, yd_pending := None, yd_queue := []\<rparr>"

text \<open>A request is sent to the driver, or refused once the driver is gone. The driver's loop polls the connection for a new stream
  while a request is pending, then takes the next request, then polls for inbound streams. Taking a request while
  another is pending replaces it.\<close>

inductive yamux_step :: "yamux_driver \<Rightarrow> yamux_driver \<Rightarrow> bool" where
  request: "\<not> yd_done d \<Longrightarrow> length (yd_queue d) < channel_size \<Longrightarrow>
    yamux_step d (d\<lparr>yd_queue := yd_queue d @ [yd_next d], yd_next := Suc (yd_next d)\<rparr>)"
| refused: "yd_done d \<Longrightarrow> yamux_step d (d\<lparr>yd_refused := yd_refused d @ [yd_next d], yd_next := Suc (yd_next d)\<rparr>)"
| opened: "\<not> yd_done d \<Longrightarrow> yd_pending d = Some r \<Longrightarrow>
    yamux_step d (d\<lparr>yd_pending := None, yd_answered := yd_answered d @ [(r, True)]\<rparr>)"
| open_failed: "\<not> yd_done d \<Longrightarrow> yd_pending d = Some r \<Longrightarrow>
    yamux_step d (driver_ends (d\<lparr>yd_pending := None, yd_answered := yd_answered d @ [(r, False)]\<rparr>))"
| taken: "\<not> yd_done d \<Longrightarrow> yd_queue d = r # q \<Longrightarrow>
    yamux_step d (d\<lparr>yd_queue := q, yd_pending := Some r, yd_dropped := yd_dropped d @ pending_list d\<rparr>)"
| requests_closed: "\<not> yd_done d \<Longrightarrow> yd_queue d = [] \<Longrightarrow> yamux_step d (driver_ends d)"
| inbound: "\<not> yd_done d \<Longrightarrow> yd_queue d = [] \<Longrightarrow> yd_inbound d < channel_size \<Longrightarrow>
    yamux_step d (d\<lparr>yd_inbound := Suc (yd_inbound d)\<rparr>)"
| inbound_full: "\<not> yd_done d \<Longrightarrow> yd_queue d = [] \<Longrightarrow> yd_inbound d = channel_size \<Longrightarrow> yamux_step d (driver_ends d)"
| inbound_ended: "\<not> yd_done d \<Longrightarrow> yd_queue d = [] \<Longrightarrow> yamux_step d (driver_ends d)"
| accepted: "yd_inbound d > 0 \<Longrightarrow> yamux_step d (d\<lparr>yd_inbound := yd_inbound d - 1\<rparr>)"

section \<open>The session\<close>

definition mux_err :: "string \<Rightarrow> io_error" where
  "mux_err msg = io_err (''mux: '' @ msg)"

text \<open>A session over a stream: smux is third-party code that may fail to start; yamux starts its driver.\<close>

datatype mux_backend = SmuxBackend | YamuxBackend yamux_driver

definition mux_session :: "string + unit \<Rightarrow> mux_kind \<Rightarrow> io_error + mux_backend" where
  "mux_session smux_start kind =
    (case kind of
       Smux \<Rightarrow> (case smux_start of Inl e \<Rightarrow> Inl (mux_err e) | Inr _ \<Rightarrow> Inr SmuxBackend)
     | Yamux \<Rightarrow> Inr (YamuxBackend yamux_init))"

definition smux_open_stream :: "string + unit \<Rightarrow> io_error + unit" where
  "smux_open_stream r = map_sum mux_err id r"

text \<open>\<open>open_stream\<close> on a yamux session: what the request \<open>r\<close> gets (\<open>None\<close>: it waits), with the error of the connection.\<close>

definition yamux_open_stream :: "string \<Rightarrow> yamux_driver \<Rightarrow> nat \<Rightarrow> (io_error + unit) option" where
  "yamux_open_stream err d r =
    (case map_of (yd_answered d) r of
       Some True \<Rightarrow> Some (Inr ())
     | Some False \<Rightarrow> Some (Inl (mux_err err))
     | None \<Rightarrow> if r \<in> set (yd_refused d) then Some (Inl (mux_err ''yamux driver closed''))
         else if r \<in> set (yd_dropped d) then Some (Inl (mux_err ''yamux driver dropped result'')) else None)"

text \<open>\<open>accept_stream\<close>: a smux session turns every error into the end of the streams.\<close>

definition smux_accept_stream :: "string + unit \<Rightarrow> io_error + unit option" where
  "smux_accept_stream r = (case r of Inr s \<Rightarrow> Inr (Some s) | Inl _ \<Rightarrow> Inr None)"

definition yamux_accept_stream :: "yamux_driver \<Rightarrow> (io_error + unit option) option" where
  "yamux_accept_stream d =
    (if yd_inbound d > 0 then Some (Inr (Some ())) else if yd_done d then Some (Inr None) else None)"

section \<open>Requests are accounted for\<close>

text \<open>Where the requests are.\<close>

definition request_places :: "yamux_driver \<Rightarrow> nat list" where
  "request_places d = map fst (yd_answered d) @ yd_dropped d @ yd_refused d @ pending_list d @ yd_queue d"

definition driver_inv :: "yamux_driver \<Rightarrow> bool" where
  "driver_inv d \<longleftrightarrow> mset (request_places d) = mset [0..<yd_next d] \<and> length (yd_queue d) \<le> channel_size
    \<and> yd_inbound d \<le> channel_size \<and> (yd_done d \<longrightarrow> yd_pending d = None \<and> yd_queue d = [])"

lemmas driver_defs = driver_inv_def request_places_def pending_list_def driver_ends_def

lemma driver_inv_step:
  assumes "yamux_step d d'" "driver_inv d"
  shows "driver_inv d'"
  using assms by (induction rule: yamux_step.induct) (auto simp: driver_defs ac_simps split: option.splits)

lemma driver_inv_init: "driver_inv yamux_init"
  by (simp add: driver_defs yamux_init_def)

lemma driver_inv_reachable: "yamux_step\<^sup>*\<^sup>* yamux_init d \<Longrightarrow> driver_inv d"
  by (induction rule: rtranclp_induct) (auto intro: driver_inv_step driver_inv_init)

text \<open>Property C16: the yamux driver accounts for every request. In every reachable state each request made so far is in exactly one
  place: it was answered once, it was dropped, it was refused, it is the pending one or it waits; the channels keep
  their bounds; and once the driver has ended, every request has its answer or its error.\<close>

theorem yamux_requests_accounted:
  assumes "yamux_step\<^sup>*\<^sup>* yamux_init d"
  shows "distinct (map fst (yd_answered d) @ yd_dropped d @ yd_refused d @ pending_list d @ yd_queue d)
    \<and> set (map fst (yd_answered d) @ yd_dropped d @ yd_refused d @ pending_list d @ yd_queue d) = {..<yd_next d}
    \<and> length (yd_queue d) \<le> 64 \<and> yd_inbound d \<le> 64
    \<and> (yd_done d \<longrightarrow> (\<forall>r < yd_next d. yamux_open_stream err d r \<noteq> None))"
proof -
  have inv: "driver_inv d" by (rule driver_inv_reachable [OF assms])
  then have m: "mset (request_places d) = mset [0..<yd_next d]" by (simp add: driver_inv_def)
  have s: "set (request_places d) = {..<yd_next d}" using mset_eq_setD [OF m] by (simp add: atLeast0LessThan)
  moreover have "distinct (request_places d)" using mset_eq_imp_distinct_iff [OF m] by simp
  moreover have "yamux_open_stream err d r \<noteq> None" if "yd_done d" "r < yd_next d" for r
  proof -
    have "r \<in> fst ` set (yd_answered d) \<or> r \<in> set (yd_dropped d) \<or> r \<in> set (yd_refused d)"
      using s inv that unfolding driver_inv_def request_places_def pending_list_def by (simp add: set_eq_iff)
    then show ?thesis by (auto simp: yamux_open_stream_def map_of_eq_None_iff split: option.splits bool.splits)
  qed
  ultimately show ?thesis
    using inv unfolding request_places_def driver_inv_def channel_size_def by blast
qed

text \<open>A run in which the first of two requests loses its answer although the connection is healthy: the second request replaces it.\<close>

definition overtaken :: yamux_driver where
  "overtaken = \<lparr>yd_next = 2, yd_queue = [], yd_pending = None, yd_answered = [(1, True)], yd_dropped = [0], yd_refused = [],
    yd_inbound = 0, yd_done = False\<rparr>"

lemma overtaken_reachable: "yamux_step\<^sup>*\<^sup>* yamux_init overtaken"
proof -
  let ?d = "\<lambda>n q p a x. \<lparr>yd_next = n, yd_queue = q, yd_pending = p, yd_answered = a, yd_dropped = x, yd_refused = [], yd_inbound = 0, yd_done = False\<rparr>"
  have "yamux_step yamux_init (?d 1 [0] None [] [])"
    using request [of yamux_init] by (simp add: yamux_init_def channel_size_def)
  moreover have "yamux_step (?d 1 [0] None [] []) (?d 1 [] (Some 0) [] [])"
    using taken [of "?d 1 [0] None [] []" 0 "[]"] by (simp add: pending_list_def)
  moreover have "yamux_step (?d 1 [] (Some 0) [] []) (?d 2 [1] (Some 0) [] [])"
    using request [of "?d 1 [] (Some 0) [] []"] by (simp add: channel_size_def numeral_2_eq_2)
  moreover have "yamux_step (?d 2 [1] (Some 0) [] []) (?d 2 [] (Some 1) [] [0])"
    using taken [of "?d 2 [1] (Some 0) [] []" 1 "[]"] by (simp add: pending_list_def)
  moreover have "yamux_step (?d 2 [] (Some 1) [] [0]) overtaken"
    using opened [of "?d 2 [] (Some 1) [] [0]" 1] by (simp add: overtaken_def)
  ultimately show ?thesis by (meson converse_rtranclp_into_rtranclp rtranclp.rtrancl_refl)
qed

lemma yamux_open_overtaken:
  "yamux_open_stream err overtaken 0 = Some (Inl (mux_err ''yamux driver dropped result'')) \<and> \<not> yd_done overtaken"
  by (simp add: yamux_open_stream_def overtaken_def)

theorem yamux_requests_accounted_witness:
  "distinct (map fst (yd_answered overtaken) @ yd_dropped overtaken @ yd_refused overtaken @ pending_list overtaken @ yd_queue overtaken)"
  using yamux_requests_accounted [OF overtaken_reachable] by blast

end
