(* ===== verification/Services.thy ===== *)
theory Services
  imports IpText IoStream Config OnlineTracker Pipeline
begin

text \<open>
  Smaller services around the relay: DNS servers and resolvers (\<open>omni-core/src/resolver/hickory.rs\<close>), the store of users
  (\<open>store/persist_store.rs\<close>), the metrics page (\<open>observability/metrics.rs\<close>), datagrams over a stream
  (\<open>omni-proto/src/common/codec/udp_over_stream.rs\<close>) and the resolved configuration (\<open>omni-config/src/lib.rs\<close>, \<open>model.rs\<close>). DNS lookups, the
  file system and the JSON and TOML libraries are parameters.
\<close>

section \<open>DNS servers\<close>

text \<open>\<open>SocketAddr::from_str\<close>: an IPv4 address and a port, or a bracketed IPv6 address, with an optional scope that is
  not kept here, and a port.\<close>

definition read_port_end :: "string \<Rightarrow> u16 option" where
  "read_port_end s =
    (case read_given_char CHR '':'' s of
       None \<Rightarrow> None
     | Some r \<Rightarrow> (case read_number 10 (length r) True 65535 r of Some (p, []) \<Rightarrow> Some (word_of_nat p) | _ \<Rightarrow> None))"

definition read_scope :: "string \<Rightarrow> string" where
  "read_scope s =
    (case read_given_char CHR ''%'' s of
       None \<Rightarrow> s
     | Some r \<Rightarrow> (case read_number 10 (length r) True 4294967295 r of Some (_, r') \<Rightarrow> r' | None \<Rightarrow> s))"

definition parse_socket_addr :: "string \<Rightarrow> socket_addr option" where
  "parse_socket_addr s =
    (case Option.bind (read_ipv4 s) (\<lambda>(a, r). map_option (SocketAddr (IpV4 a)) (read_port_end r)) of
       Some x \<Rightarrow> Some x
     | None \<Rightarrow>
         Option.bind (read_given_char CHR ''['' s) (\<lambda>s1.
         Option.bind (read_ipv6 s1) (\<lambda>(a, s2).
         Option.bind (read_given_char CHR '']'' (read_scope s2)) (\<lambda>s3.
           map_option (SocketAddr (IpV6 a)) (read_port_end s3)))))"

definition addr_or_err :: "string \<Rightarrow> string + socket_addr" where
  "addr_or_err s = (case parse_socket_addr s of Some a \<Rightarrow> Inr a | None \<Rightarrow> Inl ''invalid socket address syntax'')"

function trim_prefix :: "string \<Rightarrow> string \<Rightarrow> string" where
  "trim_prefix p s = (if p \<noteq> [] \<and> prefix p s then trim_prefix p (drop (length p) s) else s)"
  by auto
termination
  by (relation "measure (\<lambda>(p, s). length s)") (auto simp: prefix_def)

declare trim_prefix.simps [simp del]

definition normalize_dns_addr :: "string \<Rightarrow> string + socket_addr" where
  "normalize_dns_addr s0 =
    (let s = trim_prefix ''tcp://'' (trim_prefix ''udp://'' s0) in
     if prefix ''https://'' s then addr_or_err (takeWhile (\<lambda>c. c \<noteq> CHR ''/'') (drop 8 s) @ '':443'')
     else if prefix ''tls://'' s then addr_or_err (drop 6 s @ '':853'')
     else (case rsplit_once CHR '':'' s of
         None \<Rightarrow> addr_or_err (s @ '':53'')
       | Some (h, p) \<Rightarrow>
           if prefix ''['' s then addr_or_err s
           else if parse_ip h \<noteq> None then addr_or_err s
           else addr_or_err (''['' @ rev (dropWhile (\<lambda>c. c = CHR ''['') (rev (dropWhile (\<lambda>c. c = CHR ''['') h))) @ '']:'' @ p)))"

fun hickory_servers :: "string list \<Rightarrow> string + socket_addr list" where
  "hickory_servers [] = Inr []"
| "hickory_servers (s # ss) =
    (case normalize_dns_addr s of
       Inl e \<Rightarrow> Inl e
     | Inr a \<Rightarrow> (case hickory_servers ss of Inl e \<Rightarrow> Inl e | Inr as \<Rightarrow> Inr (a # as)))"

definition hickory_new :: "string list \<Rightarrow> string + socket_addr list" where
  "hickory_new servers = (if servers = [] then Inl ''dns: no servers'' else hickory_servers servers)"

definition hickory_resolve :: "(string \<Rightarrow> string + ip_addr list) \<Rightarrow> string \<Rightarrow> u16 \<Rightarrow> io_error + socket_addr list" where
  "hickory_resolve lookup_ip host p =
    (case lookup_ip host of
       Inl e \<Rightarrow> Inl (io_err (''dns: '' @ e))
     | Inr found \<Rightarrow> Inr (map (\<lambda>ip. SocketAddr ip p) found))"

definition system_resolve :: "(string \<Rightarrow> u16 \<Rightarrow> string + socket_addr list) \<Rightarrow> string \<Rightarrow> u16 \<Rightarrow> io_error + socket_addr list" where
  "system_resolve lookup_host host p =
    (case lookup_host host p of Inl e \<Rightarrow> Inl (io_err (''dns: '' @ e)) | Inr as \<Rightarrow> Inr as)"

text \<open>The resolver that \<open>CoreRuntime::initialize\<close> chooses: its servers, or none for the system's.\<close>

definition choose_resolver :: "runtime_config_wire \<Rightarrow> string + socket_addr list option" where
  "choose_resolver wire =
    (case Option.bind (wire_dns wire) default_dns of
       Some servers \<Rightarrow> if servers \<noteq> [] then map_sum id Some (hickory_new servers) else Inr None
     | None \<Rightarrow> Inr None)"

section \<open>Datagrams over a stream\<close>

definition uos_addr :: "string \<Rightarrow> bytes" where
  "uos_addr host =
    (case parse_ip host of
       Some (IpV4 a) \<Rightarrow> 0x01 # octets4 a
     | Some (IpV6 a) \<Rightarrow> 0x04 # octets6 a
     | None \<Rightarrow> 0x03 # word_of_nat (length host) # as_bytes host)"

definition uos_encode_frame :: "string \<Rightarrow> u16 \<Rightarrow> bytes \<Rightarrow> bytes" where
  "uos_encode_frame host p data =
    u16_be (word_of_nat (length data + 2 + length host + 2)) @ uos_addr host @ u16_be p @ data"

definition uos_read_frame :: "bytes io" where
  "uos_read_frame =
    io_bind (read_exact 2) (\<lambda>lenb. read_exact (unat (be_u16 (lenb ! 0) (lenb ! 1))))"

section \<open>The store of users\<close>

record stored_user =
  su_email :: string
  su_uuid :: string

type_synonym persisted_users = "string \<rightharpoonup> stored_user"

record user_store =
  us_path :: string
  us_data :: persisted_users

definition store_open ::
    "(bytes \<Rightarrow> string + persisted_users) \<Rightarrow> (string \<rightharpoonup> bytes) \<Rightarrow> runtime_config_wire \<Rightarrow> user_store" where
  "store_open from_slice fs wire =
    (let path = (case wire_user_persist_path wire of Some p \<Rightarrow> p | None \<Rightarrow> ''users.json'') in
     \<lparr>us_path = path,
      us_data = (case fs path of
          None \<Rightarrow> Map.empty
        | Some b \<Rightarrow> (case from_slice b of Inl _ \<Rightarrow> Map.empty | Inr d \<Rightarrow> d))\<rparr>)"

definition store_snapshot :: "user_store \<Rightarrow> persisted_users" where
  "store_snapshot st = us_data st"

definition store_upsert :: "stored_user \<Rightarrow> user_store \<Rightarrow> user_store" where
  "store_upsert u st = st\<lparr>us_data := (us_data st)(su_email u \<mapsto> u)\<rparr>"

definition store_clear :: "user_store \<Rightarrow> nat \<times> user_store" where
  "store_clear st = (card (dom (us_data st)), st\<lparr>us_data := Map.empty\<rparr>)"

text \<open>Writing the file either fails or replaces it.\<close>

definition store_flush ::
    "(persisted_users \<Rightarrow> string + bytes) \<Rightarrow> string option \<Rightarrow> user_store \<Rightarrow> (string \<rightharpoonup> bytes)
     \<Rightarrow> (string + unit) \<times> (string \<rightharpoonup> bytes)" where
  "store_flush to_vec write_error st fs =
    (case to_vec (us_data st) of
       Inl e \<Rightarrow> (Inl e, fs)
     | Inr b \<Rightarrow> (case write_error of Some e \<Rightarrow> (Inl e, fs) | None \<Rightarrow> (Inr (), fs(us_path st \<mapsto> b))))"

datatype store_op = Upsert stored_user | Clear

fun store_step :: "user_store \<Rightarrow> store_op \<Rightarrow> user_store" where
  "store_step st (Upsert u) = store_upsert u st"
| "store_step st Clear = snd (store_clear st)"

section \<open>The metrics page\<close>

definition newline :: string where
  "newline = [CHR 0x0A]"

definition render_metrics :: "counters \<Rightarrow> nat \<Rightarrow> string" where
  "render_metrics c online =
    ''# TYPE omni_connections_total counter'' @ newline @ ''omni_connections_total '' @ show_nat (unat (connections_total c)) @ newline
    @ ''# TYPE omni_bytes_total counter'' @ newline
    @ ''omni_bytes_total{direction='' @ [CHR 0x22] @ ''up'' @ [CHR 0x22] @ ''} '' @ show_nat (unat (bytes_up c)) @ newline
    @ ''omni_bytes_total{direction='' @ [CHR 0x22] @ ''down'' @ [CHR 0x22] @ ''} '' @ show_nat (unat (bytes_down c)) @ newline
    @ ''# TYPE omni_online gauge'' @ newline @ ''omni_online '' @ show_nat online @ newline"

definition metrics_response :: "counters \<Rightarrow> nat \<Rightarrow> string" where
  "metrics_response c online =
    (let body = render_metrics c online; nl = [CHR 0x0D, CHR 0x0A] in
     ''HTTP/1.1 200 OK'' @ nl @ ''Content-Type: text/plain; version=0.0.4'' @ nl
     @ ''Content-Length: '' @ show_nat (length body) @ nl @ ''Connection: close'' @ nl @ nl @ body)"

text \<open>The handler reads until the peer closes, a read fails or one read holds the end of the request's headers; a request whose end is
  split over two reads is waited for.\<close>

fun has_header_end :: "bytes \<Rightarrow> bool" where
  "has_header_end (a # b # c # d # r) \<longleftrightarrow> (a = 13 \<and> b = 10 \<and> c = 13 \<and> d = 10) \<or> has_header_end (b # c # d # r)"
| "has_header_end _ \<longleftrightarrow> False"

fun metrics_request_read :: "(io_error + bytes) list \<Rightarrow> bool" where
  "metrics_request_read [] = False"
| "metrics_request_read (Inl e # rs) = True"
| "metrics_request_read (Inr b # rs) = (b = [] \<or> has_header_end b \<or> metrics_request_read rs)"

text \<open>The accept loop of the page goes on after a failed accept.\<close>

fun metrics_accepts :: "(io_error + 'c) list \<Rightarrow> 'c list" where
  "metrics_accepts [] = []"
| "metrics_accepts (Inl e # cs) = metrics_accepts cs"
| "metrics_accepts (Inr c # cs) = c # metrics_accepts cs"

section \<open>The resolved configuration\<close>

datatype backend = Iouring | Epoll | Tokio

fun backend_str :: "backend \<Rightarrow> string" where
  "backend_str Iouring = ''iouring''"
| "backend_str Epoll = ''epoll''"
| "backend_str Tokio = ''tokio''"

record runtime_config =
  rc_backend :: backend
  rc_metrics_port :: "u16 option"
  rc_user_persist_path :: string
  rc_nodes :: "string list"
  rc_outbounds :: "(string \<times> string) list"

definition resolve_config :: "runtime_config_wire \<Rightarrow> backend \<Rightarrow> runtime_config" where
  "resolve_config wire b =
    \<lparr>rc_backend = b, rc_metrics_port = metrics_port wire,
     rc_user_persist_path = (case wire_user_persist_path wire of Some p \<Rightarrow> p | None \<Rightarrow> ''users.json''),
     rc_nodes = [], rc_outbounds = map (\<lambda>ob. (ob_tag ob, outbound_type ob)) (outbounds wire)\<rparr>"

fun network_caps :: "bool \<Rightarrow> bool \<Rightarrow> string" where
  "network_caps True True = ''tcp+udp''"
| "network_caps True False = ''tcp''"
| "network_caps False True = ''udp''"
| "network_caps False False = ''none''"

text \<open>\<open>Path::extension\<close> of the last component: what follows its last dot, unless the dot is its first character.\<close>

definition path_extension :: "string \<Rightarrow> string" where
  "path_extension path =
    (let name = rev (takeWhile (\<lambda>c. c \<noteq> CHR ''/'') (rev path)) in
     case rsplit_once CHR ''.'' name of
       None \<Rightarrow> []
     | Some (stem, ext) \<Rightarrow> if stem = [] then [] else ext)"

datatype config_error = ConfigRead string string | ConfigParse string string

definition load_str ::
    "(string \<Rightarrow> string + 'w) \<Rightarrow> (string \<Rightarrow> string + 'w) \<Rightarrow> string \<Rightarrow> string \<Rightarrow> config_error + 'w" where
  "load_str from_toml from_json path content =
    (case (if path_extension path = ''toml'' then from_toml content else from_json content) of
       Inl e \<Rightarrow> Inl (ConfigParse path e)
     | Inr w \<Rightarrow> Inr w)"

definition read_config ::
    "(string \<Rightarrow> string + string) \<Rightarrow> (string \<Rightarrow> string + 'w) \<Rightarrow> (string \<Rightarrow> string + 'w) \<Rightarrow> string \<Rightarrow> config_error + 'w" where
  "read_config read_file from_toml from_json path =
    (case read_file path of
       Inl e \<Rightarrow> Inl (ConfigRead path e)
     | Inr content \<Rightarrow> load_str from_toml from_json path content)"

section \<open>DNS servers are understood\<close>

lemma read_number_show:
  assumes "n \<le> bound"
  shows "read_number 10 (length (show_nat n)) True bound (show_nat n) = Some (n, [])"
proof -
  have tw: "takeWhile (\<lambda>c. digit_val 10 c \<noteq> None) (show_nat n) = show_nat n"
    using show_nat_digits [of n] by (simp add: takeWhile_eq_all_conv)
  show ?thesis
    unfolding read_number_def Let_def tw using show_nat_nonempty show_nat_value assms by simp
qed

lemma read_port_show: "read_port_end (CHR '':'' # show_nat (unat p)) = Some p"
  using read_number_show [of "unat p" 65535] unat_u16_lt [of p]
  by (simp add: read_port_end_def read_given_char_def del: unat_u16_lt)

lemma colon_no_digit: "digit_val 10 CHR '':'' = None"
  by code_simp

lemma parse_socket_addr_show: "parse_socket_addr (show_ipv4 a @ CHR '':'' # show_nat (unat p)) = Some (SocketAddr (IpV4 a) p)"
  using read_ipv4_show_rest [of "CHR '':'' # show_nat (unat p)" a]
  by (simp add: parse_socket_addr_def read_port_show colon_no_digit)

lemma addr_or_err_show: "addr_or_err (show_ipv4 a @ '':'' @ show_nat (unat p)) = Inr (SocketAddr (IpV4 a) p)"
  by (simp add: addr_or_err_def parse_socket_addr_show)

lemma show_port_text: "show_nat 53 = ''53''" "show_nat 443 = ''443''" "show_nat 853 = ''853''"
  by code_simp+

lemma show_ipv4_hd_plain: "\<exists>c r. show_ipv4 a @ s = c # r \<and> plain c"
proof -
  obtain c r where "show_ipv4 a = c # r"
    using show_nat_nonempty by (cases "show_ipv4 a") (auto simp: show_ipv4_def Let_def)
  then show ?thesis using show_ipv4_plain [of a] by auto
qed

lemma ipv4_no_scheme:
  "trim_prefix ''udp://'' (show_ipv4 a @ s) = show_ipv4 a @ s" "trim_prefix ''tcp://'' (show_ipv4 a @ s) = show_ipv4 a @ s"
  "\<not> prefix ''https://'' (show_ipv4 a @ s)" "\<not> prefix ''tls://'' (show_ipv4 a @ s)" "\<not> prefix ''['' (show_ipv4 a @ s)"
proof -
  obtain c r where c: "show_ipv4 a @ s = c # r" "plain c" using show_ipv4_hd_plain by blast
  have "c \<noteq> CHR ''u''" "c \<noteq> CHR ''t''" "c \<noteq> CHR ''h''" "c \<noteq> CHR ''[''"
    using c(2) by (auto simp: plain_def digit_val_def)
  then show "trim_prefix ''udp://'' (show_ipv4 a @ s) = show_ipv4 a @ s" "trim_prefix ''tcp://'' (show_ipv4 a @ s) = show_ipv4 a @ s"
    "\<not> prefix ''https://'' (show_ipv4 a @ s)" "\<not> prefix ''tls://'' (show_ipv4 a @ s)" "\<not> prefix ''['' (show_ipv4 a @ s)"
    unfolding c(1) by (auto simp: trim_prefix.simps)
qed

lemma no_colon_ipv4: "CHR '':'' \<notin> set (show_ipv4 a)"
  using show_ipv4_plain [of a] by (auto simp: list_all_iff plain_def digit_val_def)

lemma no_slash_ipv4: "CHR ''/'' \<notin> set (show_ipv4 a)"
  using show_ipv4_plain [of a] by (auto simp: list_all_iff plain_def digit_val_def)

lemma rsplit_once_none: "c \<notin> set s \<Longrightarrow> rsplit_once c s = None"
  by (simp add: rsplit_once_def split_once_def)

lemma scheme_stripped:
  "trim_prefix ''udp://'' (''udp://'' @ show_ipv4 a @ s) = show_ipv4 a @ s"
  "trim_prefix ''tcp://'' (trim_prefix ''udp://'' (''https://'' @ x)) = ''https://'' @ x"
  "trim_prefix ''tcp://'' (trim_prefix ''udp://'' (''tls://'' @ x)) = ''tls://'' @ x"
  using ipv4_no_scheme(1) [of a s] by (simp_all add: trim_prefix.simps [of _ "_ # _"])

text \<open>DNS servers with an IPv4 address are understood in every notation: the bare address means port 53, \<open>tls://\<close> means
  port 853, \<open>https://\<close> port 443 with the path left out, a port that is given is taken, and \<open>udp://\<close> is
  accepted; a bare IPv6 address is rejected.\<close>

theorem dns_servers_understood:
  "normalize_dns_addr (show_ipv4 a) = Inr (SocketAddr (IpV4 a) 53)
   \<and> normalize_dns_addr (''udp://'' @ show_ipv4 a @ '':'' @ show_nat (unat p)) = Inr (SocketAddr (IpV4 a) p)
   \<and> normalize_dns_addr (''tls://'' @ show_ipv4 a) = Inr (SocketAddr (IpV4 a) 853)
   \<and> normalize_dns_addr (''https://'' @ show_ipv4 a @ CHR ''/'' # path) = Inr (SocketAddr (IpV4 a) 443)
   \<and> normalize_dns_addr ''2001:db8::1'' = Inl ''invalid socket address syntax''"
proof (intro conjI)
  show "normalize_dns_addr (show_ipv4 a) = Inr (SocketAddr (IpV4 a) 53)"
    using ipv4_no_scheme [of a "[]"] rsplit_once_none [OF no_colon_ipv4] addr_or_err_show [of a 53] show_port_text(1)
    by (simp add: normalize_dns_addr_def Let_def)
  show "normalize_dns_addr (''udp://'' @ show_ipv4 a @ '':'' @ show_nat (unat p)) = Inr (SocketAddr (IpV4 a) p)"
    using ipv4_no_scheme [of a "CHR '':'' # show_nat (unat p)"] scheme_stripped(1) [of a "CHR '':'' # show_nat (unat p)"]
      rsplit_once_last [OF colon_not_in_show_nat, of "show_ipv4 a" "unat p"] addr_or_err_show [of a p]
    by (simp add: normalize_dns_addr_def Let_def parse_ip_show_ipv4)
  show "normalize_dns_addr (''tls://'' @ show_ipv4 a) = Inr (SocketAddr (IpV4 a) 853)"
    using scheme_stripped(3) [of "show_ipv4 a"] addr_or_err_show [of a 853] show_port_text(3)
    by (simp add: normalize_dns_addr_def Let_def)
  have "takeWhile (\<lambda>c. c \<noteq> CHR ''/'') (show_ipv4 a @ CHR ''/'' # path) = show_ipv4 a"
    using no_slash_ipv4 [of a] by (subst takeWhile_append2) auto
  then show "normalize_dns_addr (''https://'' @ show_ipv4 a @ CHR ''/'' # path) = Inr (SocketAddr (IpV4 a) 443)"
    using scheme_stripped(2) [of "show_ipv4 a @ CHR ''/'' # path"] addr_or_err_show [of a 443] show_port_text(2)
    by (simp add: normalize_dns_addr_def Let_def)
  show "normalize_dns_addr ''2001:db8::1'' = Inl ''invalid socket address syntax''" by code_simp
qed

section \<open>Frames of datagrams over a stream\<close>

lemma length_uos_addr:
  "length (uos_addr host) = (case parse_ip host of None \<Rightarrow> 2 + length host | Some (IpV4 _) \<Rightarrow> 5 | Some (IpV6 _) \<Rightarrow> 17)"
  by (simp add: uos_addr_def octets4_def octets6_def split: option.split ip_addr.split)

text \<open>A datagram frame is read back as it was written exactly when its host is a name, or an IPv6 text of fifteen characters. The length
  field counts the text of the host, while an address is written in binary: a frame for an IPv4 address announces
  more bytes than it has, and the reader takes them from what follows.\<close>

theorem uos_frame_iff:
  assumes "length data + length host + 4 < 65536"
  shows "uos_read_frame \<lparr>inp = uos_encode_frame host p data @ rest, outp = w\<rparr> =
      (Inr (uos_addr host @ u16_be p @ data), \<lparr>inp = rest, outp = w\<rparr>)
    \<longleftrightarrow> (case parse_ip host of None \<Rightarrow> True | Some (IpV4 _) \<Rightarrow> length host = 3 | Some (IpV6 _) \<Rightarrow> length host = 15)"
proof -
  let ?n = "length data + 2 + length host + 2"
  let ?body = "uos_addr host @ u16_be p @ data"
  obtain x y where xy: "u16_be (word_of_nat ?n) = [x, y]" "be_u16 x y = (word_of_nat ?n :: u16)" by (rule u16_be_cases)
  have n: "unat (word_of_nat ?n :: u16) = ?n"
    unfolding unat_of_nat using assms by (simp add: take_bit_nat_eq_self)
  have run: "uos_read_frame \<lparr>inp = uos_encode_frame host p data @ rest, outp = w\<rparr> =
      read_exact ?n \<lparr>inp = ?body @ rest, outp = w\<rparr>"
    using xy n by (simp add: uos_read_frame_def uos_encode_frame_def io_bind_def read_exact_def)
  have "read_exact ?n \<lparr>inp = ?body @ rest, outp = w\<rparr> = (Inr ?body, \<lparr>inp = rest, outp = w\<rparr>) \<longleftrightarrow> ?n = length ?body"
    using read_exact_append [of ?body ?n rest w] read_exact_split [of ?n] by fastforce
  moreover have "?n = length ?body \<longleftrightarrow>
      (case parse_ip host of None \<Rightarrow> True | Some (IpV4 _) \<Rightarrow> length host = 3 | Some (IpV6 _) \<Rightarrow> length host = 15)"
    by (simp add: length_uos_addr split: option.split ip_addr.split)
  ultimately show ?thesis using run by simp
qed

theorem uos_frame_iff_witness:
  "uos_read_frame \<lparr>inp = uos_encode_frame ''a'' 53 [1] @ [9], outp = []\<rparr> =
    (Inr (uos_addr ''a'' @ u16_be 53 @ [1]), \<lparr>inp = [9], outp = []\<rparr>)"
proof -
  have "parse_ip ''a'' = None" by code_simp
  then show ?thesis using uos_frame_iff [of "[1]" "''a''" 53 "[9]" "[]"] by simp
qed

section \<open>Users survive a restart\<close>

text \<open>The user of an address after a sequence of operations: the last one that was stored after the last clearing.\<close>

fun last_user :: "store_op list \<Rightarrow> string \<Rightarrow> stored_user option \<Rightarrow> stored_user option" where
  "last_user [] e u = u"
| "last_user (Upsert v # ops) e u = last_user ops e (if su_email v = e then Some v else u)"
| "last_user (Clear # ops) e u = last_user ops e None"

lemma store_steps:
  "us_data (foldl store_step st ops) e = last_user ops e (us_data st e) \<and> us_path (foldl store_step st ops) = us_path st"
proof (induction ops arbitrary: st)
  case (Cons x ops)
  then show ?case by (cases x) (auto simp: store_upsert_def store_clear_def)
qed simp

text \<open>Property C32: stored users survive a restart. When the JSON library reads back what it writes and the file can be written, the
  store that is opened after a flush holds for every address the user that was stored last, whatever was stored and cleared
  before; an unreadable file gives an empty store.\<close>

theorem user_store_survives:
  assumes "\<And>d b. to_vec d = Inr b \<Longrightarrow> from_slice b = Inr d"
    and "store_flush to_vec None (foldl store_step (store_open from_slice fs wire) ops) fs = (Inr (), fs')"
  shows "store_snapshot (store_open from_slice fs' wire) e =
      last_user ops e (store_snapshot (store_open from_slice fs wire) e)
    \<and> (from_slice bad = Inl err \<longrightarrow>
        store_snapshot (store_open from_slice (fs(us_path (store_open from_slice fs wire) \<mapsto> bad)) wire) = Map.empty)"
proof -
  let ?st = "store_open from_slice fs wire"
  obtain b where b: "to_vec (us_data (foldl store_step ?st ops)) = Inr b" "fs' = fs(us_path (foldl store_step ?st ops) \<mapsto> b)"
    using assms(2) by (auto simp: store_flush_def split: sum.splits)
  have p: "us_path ?st = (case wire_user_persist_path wire of Some p \<Rightarrow> p | None \<Rightarrow> ''users.json'')"
    by (simp add: store_open_def Let_def)
  have "us_data (store_open from_slice fs' wire) = us_data (foldl store_step ?st ops)"
    using assms(1) [OF b(1)] b(2) conjunct2 [OF store_steps, of ?st ops] p by (simp add: store_open_def Let_def)
  then show ?thesis
    using conjunct1 [OF store_steps, of ?st ops e] p by (auto simp: store_snapshot_def store_open_def Let_def)
qed

definition sample_user :: stored_user where
  "sample_user = \<lparr>su_email = ''a'', su_uuid = ''1''\<rparr>"

definition sample_to_vec :: "persisted_users \<Rightarrow> string + bytes" where
  "sample_to_vec d = (if d ''a'' = Some sample_user \<and> dom d = {''a''} then Inr [1] else Inl ''unsupported'')"

definition sample_from_slice :: "bytes \<Rightarrow> string + persisted_users" where
  "sample_from_slice b = (if b = [1] then Inr [''a'' \<mapsto> sample_user] else Inl ''invalid'')"

theorem user_store_survives_witness:
  "store_snapshot (store_open sample_from_slice [''users.json'' \<mapsto> [1]] default_wire) ''a'' =
    last_user [Clear, Upsert sample_user] ''a'' (store_snapshot (store_open sample_from_slice Map.empty default_wire) ''a'')"
proof -
  have law: "sample_from_slice b = Inr d" if v: "sample_to_vec d = Inr b" for d b
  proof -
    have d: "d ''a'' = Some sample_user" "dom d = {''a''}" "b = [1]"
      using v by (auto simp: sample_to_vec_def split: if_splits)
    have "d = [''a'' \<mapsto> sample_user]"
    proof
      show "d x = [''a'' \<mapsto> sample_user] x" for x using d(1,2) by (cases "x = ''a''") auto
    qed
    then show ?thesis using d(3) by (simp add: sample_from_slice_def)
  qed
  have "store_flush sample_to_vec None (foldl store_step (store_open sample_from_slice Map.empty default_wire) [Clear, Upsert sample_user]) Map.empty =
      (Inr (), [''users.json'' \<mapsto> [1]])"
    by (simp add: store_flush_def store_open_def store_upsert_def store_clear_def sample_to_vec_def sample_user_def)
  from conjunct1 [OF user_store_survives [OF law this]] show ?thesis .
qed

section \<open>Metrics\<close>

text \<open>The header of the metrics page announces the length of its body.\<close>

lemma metrics_length:
  "\<exists>head. metrics_response c n = head @ render_metrics c n
    \<and> suffix (show_nat (length (render_metrics c n)) @ [CHR 0x0D, CHR 0x0A] @ ''Connection: close'' @ [CHR 0x0D, CHR 0x0A, CHR 0x0D, CHR 0x0A]) head"
  by (intro exI [of _ "''HTTP/1.1 200 OK'' @ [CHR 0x0D, CHR 0x0A] @ ''Content-Type: text/plain; version=0.0.4'' @ [CHR 0x0D, CHR 0x0A]
     @ ''Content-Length: '' @ show_nat (length (render_metrics c n)) @ [CHR 0x0D, CHR 0x0A] @ ''Connection: close''
     @ [CHR 0x0D, CHR 0x0A, CHR 0x0D, CHR 0x0A]"])
    (simp add: metrics_response_def Let_def suffix_def)

lemma metrics_request_split: "\<not> metrics_request_read [Inr [13, 10], Inr [13, 10]] \<and> metrics_request_read [Inr [13, 10, 13, 10]]"
  by simp

end
