(* ===== verification/Runtime.thy ===== *)
theory Runtime
  imports Services Geo Listener HysteriaConn "HOL-Library.List_Lexorder" "HOL-Library.Char_ord" "HOL-Library.Multiset"
begin

text \<open>
  \<open>omni-core/src/runtime/core.rs\<close> and the start of the listeners in \<open>assembly/listener_executor.rs\<close>: \<open>CoreRuntime::initialize\<close> from
  the configuration to the runtime, and \<open>serve\<close>, which starts a listener for every address of every node and the metrics
  page. Whether an address can be bound, and how a listener's accepts end, is chosen by the environment.
\<close>

datatype core_error = ConfigError string | AssemblyError string

section \<open>Initialisation\<close>

text \<open>A file that cannot be read or parsed is passed over; what \<open>load_dat\<close> installed before its error stays.\<close>

definition try_geo_file ::
    "(string \<Rightarrow> string + 're) \<Rightarrow> (string \<Rightarrow> string + bytes) \<Rightarrow> json_map \<Rightarrow> string \<Rightarrow> 're geo_registry \<Rightarrow> 're geo_registry rs" where
  "try_geo_file regex_new read_file ext key g =
    (case Option.bind (get_key key ext) as_str of
       None \<Rightarrow> Ret g
     | Some path \<Rightarrow>
         (case read_file path of
            Inl _ \<Rightarrow> Ret g
          | Inr data \<Rightarrow> rs_bind (load_dat regex_new data g) (\<lambda>(_, g'). Ret g')))"

definition load_geo_files ::
    "(string \<Rightarrow> string + 're) \<Rightarrow> (string \<Rightarrow> string + bytes) \<Rightarrow> json_map \<Rightarrow> 're geo_registry \<Rightarrow> 're geo_registry rs" where
  "load_geo_files regex_new read_file ext g =
    rs_bind (try_geo_file regex_new read_file ext ''geosite_path'' g) (try_geo_file regex_new read_file ext ''geoip_path'')"

record 're core_runtime =
  cr_plans :: "node_plan list"
  cr_router :: "'re router"
  cr_dns :: "socket_addr list option"
  cr_counters :: counters
  cr_metrics_port :: "u16 option"

text \<open>The third-party code is an argument. A malformed geo file may panic.\<close>

record 're core_env =
  cv_regex_new :: "string \<Rightarrow> string + 're"
  cv_is_match :: "'re \<Rightarrow> string \<Rightarrow> bool"
  cv_base64 :: "string \<Rightarrow> string + bytes"
  cv_read_file :: "string \<Rightarrow> string + bytes"
  cv_build :: build_env

definition core_initialize ::
    "'re core_env \<Rightarrow> runtime_config_wire \<Rightarrow> (core_error + 're core_runtime) rs" where
  "core_initialize env wire =
    (case validate wire of
       Inl e \<Rightarrow> Ret (Inl (ConfigError e))
     | Inr _ \<Rightarrow>
    (case choose_resolver wire of
       Inl e \<Rightarrow> Ret (Inl (AssemblyError e))
     | Inr dns \<Rightarrow>
    rs_bind (load_geo_files (cv_regex_new env) (cv_read_file env) (extra wire) registry_new) (\<lambda>g.
    Ret (case initialize_router (cv_regex_new env) (cv_base64 env) (registry_lookup (cv_is_match env) g) wire of
       Inl e \<Rightarrow> Inl (ConfigError e)
     | Inr r \<Rightarrow>
    (case build_node_plans (cv_build env) wire of
       Inl e \<Rightarrow> Inl (ConfigError e)
     | Inr plans \<Rightarrow>
         Inr \<lparr>cr_plans = plans, cr_router = r, cr_dns = dns,
           cr_counters = \<lparr>connections_total = 0, bytes_up = 0, bytes_down = 0\<rparr>, cr_metrics_port = metrics_port wire\<rparr>)))))"

definition shared_for :: "'re core_runtime \<Rightarrow> string \<Rightarrow> 're pipeline_shared" where
  "shared_for rt t = \<lparr>ps_inbound_tag = t, ps_counters = cr_counters rt, ps_router = cr_router rt\<rparr>"

section \<open>Starting the listeners\<close>

fun proto_name :: "inbound_proto \<Rightarrow> string" where
  "proto_name (InSocks _) = ''socks''"
| "proto_name (InTrojan _) = ''trojan''"
| "proto_name (InShadowsocks _) = ''shadowsocks''"
| "proto_name (InVless _) = ''vless''"
| "proto_name (InVmess _) = ''vmess''"
| "proto_name (InHysteria2 _ _) = ''hysteria2''"
| "proto_name (InAnytls _) = ''anytls''"
| "proto_name InNaive = ''naive''"
| "proto_name (InMieru _ _) = ''mieru''"

datatype task = TcpListener node_plan socket_addr | QuicListener node_plan socket_addr | MetricsPage u16

fun is_hysteria :: "inbound_proto \<Rightarrow> bool" where
  "is_hysteria (InHysteria2 _ _) = True"
| "is_hysteria _ = False"

text \<open>Binding in order; the first address that cannot be bound ends the start.\<close>

fun bind_all :: "(socket_addr \<Rightarrow> string option) \<Rightarrow> (socket_addr \<Rightarrow> task) \<Rightarrow> (string \<Rightarrow> socket_addr \<Rightarrow> string) \<Rightarrow> socket_addr list
     \<Rightarrow> core_error + task list" where
  "bind_all bind mk msg [] = Inr []"
| "bind_all bind mk msg (a # as) =
    (case bind a of
       Some e \<Rightarrow> Inl (AssemblyError (msg e a))
     | None \<Rightarrow> (case bind_all bind mk msg as of Inl e \<Rightarrow> Inl e | Inr ts \<Rightarrow> Inr (mk a # ts)))"

fun collect :: "('a \<Rightarrow> core_error + task list) \<Rightarrow> 'a list \<Rightarrow> core_error + task list" where
  "collect f [] = Inr []"
| "collect f (x # xs) =
    (case f x of Inl e \<Rightarrow> Inl e | Inr ts \<Rightarrow> (case collect f xs of Inl e \<Rightarrow> Inl e | Inr us \<Rightarrow> Inr (ts @ us)))"

definition spawn_listeners :: "(socket_addr \<Rightarrow> string option) \<Rightarrow> node_plan list \<Rightarrow> core_error + task list" where
  "spawn_listeners bind plans =
    collect (\<lambda>p. bind_all bind (TcpListener p)
      (\<lambda>e a. ''listener '' @ [CHR 0x27] @ np_tag p @ [CHR 0x27] @ '' bind '' @ show_socket_addr a @ '': '' @ e) (np_listen_addrs p)) plans"

text \<open>The tags in the order of the \<open>BTreeMap\<close>.\<close>

definition plan_tags :: "node_plan list \<Rightarrow> string list" where
  "plan_tags plans = sort (remdups (map np_tag plans))"

definition spawn_tcp :: "(socket_addr \<Rightarrow> string option) \<Rightarrow> node_plan list \<Rightarrow> core_error + task list" where
  "spawn_tcp bind plans =
    collect (\<lambda>t. spawn_listeners bind (filter (\<lambda>p. np_tag p = t \<and> \<not> is_hysteria (np_proto p)) plans)) (plan_tags plans)"

text \<open>
  A Hysteria2 node without a certificate of its own gets a self-signed one before the endpoint is bound, a fresh one for each
  node and address.
\<close>

type_synonym cert_source = "node_plan \<times> socket_addr \<Rightarrow> string \<Rightarrow> string + server_cert_material"

fun quic_material :: "(string \<Rightarrow> string + server_cert_material) \<Rightarrow> inbound_proto \<Rightarrow> string + server_cert_material" where
  "quic_material self_signed (InHysteria2 pw (Some t)) = Inr \<lparr>cert_pem = material_cert t, key_pem_bytes = material_key t\<rparr>"
| "quic_material self_signed _ = self_signed ''hysteria.local''"

definition bind_quic :: "cert_source \<Rightarrow> (server_cert_material \<Rightarrow> socket_addr \<Rightarrow> string option) \<Rightarrow> node_plan \<Rightarrow> socket_addr \<Rightarrow> string option" where
  "bind_quic self_signed bind p a =
    (case quic_material (self_signed (p, a)) (np_proto p) of Inl e \<Rightarrow> Some e | Inr m \<Rightarrow> bind m a)"

definition spawn_quic :: "cert_source \<Rightarrow> (server_cert_material \<Rightarrow> socket_addr \<Rightarrow> string option) \<Rightarrow> node_plan list \<Rightarrow> core_error + task list" where
  "spawn_quic self_signed bind plans =
    collect (\<lambda>p. if is_hysteria (np_proto p) then bind_all (bind_quic self_signed bind p) (QuicListener p) (\<lambda>e a. e) (np_listen_addrs p) else Inr []) plans"

definition serve_tasks ::
    "cert_source \<Rightarrow> (socket_addr \<Rightarrow> string option) \<Rightarrow> (server_cert_material \<Rightarrow> socket_addr \<Rightarrow> string option)
     \<Rightarrow> 're core_runtime \<Rightarrow> core_error + task list" where
  "serve_tasks self_signed bind_t bind_u rt =
    (case spawn_tcp bind_t (cr_plans rt) of
       Inl e \<Rightarrow> Inl e
     | Inr ts \<Rightarrow>
    (case spawn_quic self_signed bind_u (cr_plans rt) of
       Inl e \<Rightarrow> Inl e
     | Inr us \<Rightarrow> Inr (ts @ us @ (case cr_metrics_port rt of None \<Rightarrow> [] | Some p \<Rightarrow> [MetricsPage p]))))"

text \<open>The accept loop of a listener: the connections it hands to \<open>handle_stream\<close> until an accept fails.\<close>

fun accept_loop :: "(io_error + 'c) list \<Rightarrow> 'c list \<times> io_error option" where
  "accept_loop [] = ([], None)"
| "accept_loop (Inl e # cs) = ([], Some e)"
| "accept_loop (Inr c # cs) = apfst ((#) c) (accept_loop cs)"

section \<open>Every address gets its listener\<close>

lemma bind_all_iff:
  "bind_all bind mk msg as = Inr ts \<longleftrightarrow> (\<forall>a \<in> set as. bind a = None) \<and> ts = map mk as"
proof (induction as arbitrary: ts)
  case (Cons a as)
  note step = Cons [of "map mk as"] Cons [of "projr (bind_all bind mk msg as)"]
  show ?case
  proof (cases "bind_all bind mk msg as")
    case (Inl e)
    then show ?thesis using step by (auto split: option.splits)
  next
    case (Inr us)
    then have "us = map mk as" "\<forall>a \<in> set as. bind a = None" using step by simp_all
    then show ?thesis using Inr by (auto split: option.splits)
  qed
qed auto

text \<open>A collected list of starts succeeds exactly when every start does.\<close>

lemma collect_iff:
  assumes "\<And>x us. f x = Inr us \<longleftrightarrow> P x \<and> us = g x"
  shows "collect f xs = Inr ts \<longleftrightarrow> (\<forall>x \<in> set xs. P x) \<and> ts = concat (map g xs)"
proof (induction xs arbitrary: ts)
  case (Cons x xs)
  show ?case
    using assms [of x "g x"] assms [of x "projr (f x)"] Cons [of "concat (map g xs)"] Cons [of "projr (collect f xs)"]
    by (cases "f x"; cases "collect f xs") auto
qed auto

lemma mset_by_key:
  assumes "distinct ks"
  shows "mset (concat (map (\<lambda>k. filter (\<lambda>p. f p = k \<and> Q p) ps) ks)) = {#p \<in># mset ps. f p \<in> set ks \<and> Q p#}"
  using assms
proof (induction ks)
  case (Cons k ks)
  then show ?case by (auto simp: multiset_eq_iff)
qed simp

definition tcp_tasks :: "node_plan \<Rightarrow> task list" where
  "tcp_tasks p = map (TcpListener p) (np_listen_addrs p)"

definition quic_tasks :: "node_plan \<Rightarrow> task list" where
  "quic_tasks p = (if is_hysteria (np_proto p) then map (QuicListener p) (np_listen_addrs p) else [])"

lemma spawn_listeners_iff:
  "spawn_listeners bind plans = Inr ts \<longleftrightarrow>
    (\<forall>p \<in> set plans. \<forall>a \<in> set (np_listen_addrs p). bind a = None) \<and> ts = concat (map tcp_tasks plans)"
  unfolding spawn_listeners_def
  by (rule collect_iff) (simp add: bind_all_iff tcp_tasks_def)

lemma set_plan_tags: "set (plan_tags plans) = np_tag ` set plans"
  by (simp add: plan_tags_def)

lemma distinct_plan_tags: "distinct (plan_tags plans)"
  by (simp add: plan_tags_def)

lemma spawn_tcp_iff:
  "spawn_tcp bind plans = Inr ts \<longleftrightarrow>
    (\<forall>p \<in> set plans. \<not> is_hysteria (np_proto p) \<longrightarrow> (\<forall>a \<in> set (np_listen_addrs p). bind a = None)) \<and>
    ts = concat (map (\<lambda>t. concat (map tcp_tasks (filter (\<lambda>p. np_tag p = t \<and> \<not> is_hysteria (np_proto p)) plans))) (plan_tags plans))"
  unfolding spawn_tcp_def
  by (subst collect_iff [OF spawn_listeners_iff]) (auto simp: set_plan_tags)

lemma spawn_quic_iff:
  "spawn_quic self_signed bind plans = Inr ts \<longleftrightarrow>
    (\<forall>p \<in> set plans. is_hysteria (np_proto p) \<longrightarrow> (\<forall>a \<in> set (np_listen_addrs p). bind_quic self_signed bind p a = None)) \<and>
    ts = concat (map quic_tasks plans)"
  unfolding spawn_quic_def
  by (rule collect_iff) (auto simp: bind_all_iff quic_tasks_def)

lemma concat_by_key:
  assumes "distinct ks" "f ` set ps \<subseteq> set ks"
  shows "mset (concat (map (\<lambda>k. concat (map h (filter (\<lambda>p. f p = k \<and> Q p) ps))) ks)) = mset (concat (map h (filter Q ps)))"
proof -
  have "concat (map (\<lambda>k. concat (map h (filter (\<lambda>p. f p = k \<and> Q p) ps))) ks)
      = concat (map h (concat (map (\<lambda>k. filter (\<lambda>p. f p = k \<and> Q p) ps) ks)))"
    by (induction ks) auto
  moreover have "mset (concat (map (\<lambda>k. filter (\<lambda>p. f p = k \<and> Q p) ps) ks)) = mset (filter Q ps)"
    using assms by (auto simp: mset_by_key mset_filter intro!: filter_mset_cong)
  ultimately show ?thesis
    by (simp add: mset_concat flip: sum_mset_sum_list)
qed

text \<open>What is meant to run: for every address of every node the listener of its kind, and the metrics page.\<close>

definition listener_for :: "node_plan \<Rightarrow> socket_addr \<Rightarrow> task" where
  "listener_for p = (if is_hysteria (np_proto p) then QuicListener p else TcpListener p)"

definition expected_tasks :: "'re core_runtime \<Rightarrow> task list" where
  "expected_tasks rt = concat (map (\<lambda>p. map (listener_for p) (np_listen_addrs p)) (cr_plans rt))
     @ (case cr_metrics_port rt of None \<Rightarrow> [] | Some p \<Rightarrow> [MetricsPage p])"

lemma tasks_by_kind:
  "mset (concat (map tcp_tasks (filter (\<lambda>p. \<not> is_hysteria (np_proto p)) ps))) + mset (concat (map quic_tasks ps))
     = mset (concat (map (\<lambda>p. map (listener_for p) (np_listen_addrs p)) ps))"
  by (induction ps) (auto simp: tcp_tasks_def quic_tasks_def listener_for_def)

text \<open>Whether the address can be bound by the listener of its node.\<close>

definition can_bind ::
    "cert_source \<Rightarrow> (socket_addr \<Rightarrow> string option) \<Rightarrow> (server_cert_material \<Rightarrow> socket_addr \<Rightarrow> string option)
     \<Rightarrow> node_plan \<Rightarrow> socket_addr \<Rightarrow> bool" where
  "can_bind self_signed bind_t bind_u p a \<longleftrightarrow>
    (if is_hysteria (np_proto p) then bind_quic self_signed bind_u p a else bind_t a) = None"

lemma serve_tasks_Inr:
  assumes "serve_tasks self_signed bind_t bind_u rt = Inr ts"
  shows "mset ts = mset (expected_tasks rt)"
    and "\<forall>p \<in> set (cr_plans rt). \<forall>a \<in> set (np_listen_addrs p). can_bind self_signed bind_t bind_u p a"
proof -
  obtain us vs where tcp: "spawn_tcp bind_t (cr_plans rt) = Inr us" and quic: "spawn_quic self_signed bind_u (cr_plans rt) = Inr vs"
    and ts: "ts = us @ vs @ (case cr_metrics_port rt of None \<Rightarrow> [] | Some p \<Rightarrow> [MetricsPage p])"
    using assms by (auto simp: serve_tasks_def split: sum.splits)
  have "mset us = mset (concat (map tcp_tasks (filter (\<lambda>p. \<not> is_hysteria (np_proto p)) (cr_plans rt))))"
    using tcp by (simp add: spawn_tcp_iff concat_by_key distinct_plan_tags set_plan_tags)
  moreover have "vs = concat (map quic_tasks (cr_plans rt))"
    using quic by (simp add: spawn_quic_iff)
  ultimately show "mset ts = mset (expected_tasks rt)"
    using ts tasks_by_kind [of "cr_plans rt"] by (simp add: expected_tasks_def)
  show "\<forall>p \<in> set (cr_plans rt). \<forall>a \<in> set (np_listen_addrs p). can_bind self_signed bind_t bind_u p a"
    using tcp quic by (auto simp: spawn_tcp_iff spawn_quic_iff can_bind_def)
qed

lemma serve_tasks_Inl:
  assumes "serve_tasks self_signed bind_t bind_u rt = Inl e"
  shows "\<exists>p \<in> set (cr_plans rt). \<exists>a \<in> set (np_listen_addrs p). \<not> can_bind self_signed bind_t bind_u p a"
proof (rule ccontr)
  assume "\<not> ?thesis"
  then have "\<exists>us. spawn_tcp bind_t (cr_plans rt) = Inr us" "\<exists>vs. spawn_quic self_signed bind_u (cr_plans rt) = Inr vs"
    by (auto simp: spawn_tcp_iff spawn_quic_iff can_bind_def split: if_splits)
  then show False using assms by (auto simp: serve_tasks_def)
qed

lemma serve_has_listener:
  assumes "serve_tasks self_signed bind_t bind_u rt = Inr ts" "p \<in> set (cr_plans rt)" "a \<in> set (np_listen_addrs p)"
  shows "listener_for p a \<in> set ts"
proof -
  have "listener_for p a \<in> set (expected_tasks rt)" using assms(2,3) by (auto simp: expected_tasks_def)
  then show ?thesis using mset_eq_setD [OF serve_tasks_Inr(1) [OF assms(1)]] by simp
qed

text \<open>Property C19: \<open>serve\<close> starts exactly when every listen address can be bound (and a certificate can be made where a Hysteria2 node has
  none), and what it then runs is one listener of the right kind for each address of each node, and the metrics page when a port is
  configured; grouping the nodes by tag neither loses nor duplicates one, also when several nodes share a tag.\<close>

theorem serve_starts_all:
  "(case serve_tasks self_signed bind_t bind_u rt of
      Inr ts \<Rightarrow> mset ts = mset (expected_tasks rt)
        \<and> (\<nexists>p a. p \<in> set (cr_plans rt) \<and> a \<in> set (np_listen_addrs p) \<and> \<not> can_bind self_signed bind_t bind_u p a)
    | Inl _ \<Rightarrow> \<exists>p a. p \<in> set (cr_plans rt) \<and> a \<in> set (np_listen_addrs p) \<and> \<not> can_bind self_signed bind_t bind_u p a)"
proof (cases "serve_tasks self_signed bind_t bind_u rt")
  case (Inl e)
  then show ?thesis using serve_tasks_Inl [OF Inl] by auto
next
  case (Inr ts)
  then show ?thesis using serve_tasks_Inr [OF Inr] by auto
qed

text \<open>A runtime has one plan for each node of its configuration.\<close>

lemma initialized_plans:
  assumes "core_initialize env wire = Ret (Inr rt)"
  shows "build_node_plans (cv_build env) wire = Inr (cr_plans rt)" "cr_metrics_port rt = metrics_port wire"
proof -
  obtain d where d: "validate wire = Inr ()" "choose_resolver wire = Inr d"
    using assms by (auto simp: core_initialize_def split: sum.splits)
  obtain g where "load_geo_files (cv_regex_new env) (cv_read_file env) (extra wire) registry_new = Ret g"
    using assms d by (auto simp: core_initialize_def rs_bind_Ret_iff)
  then show "build_node_plans (cv_build env) wire = Inr (cr_plans rt)" "cr_metrics_port rt = metrics_port wire"
    using assms d by (auto simp: core_initialize_def split: sum.splits)
qed

section \<open>The accept loop\<close>

text \<open>A failed accept ends the listener: no later connection is handled.\<close>

lemma accept_loop_stops:
  "accept_loop (map Inr cs @ Inl e # rest) = (cs, Some e)"
  by (induction cs) auto

end
