(* ===== verification/Cli.thy ===== *)
theory Cli
  imports Runtime
begin

text \<open>
  \<open>apps/omni-cli\<close>: the command line, the commands \<open>run\<close> and \<open>check-config\<close> and their exit codes, and the choice of the data-plane
  backend (\<open>omni-core/src/dataplane/mod.rs\<close>). Logging is not modelled; what is printed is.
\<close>

section \<open>Arguments\<close>

datatype cli_command = ServerCommand "string option" bool | VersionCommand

record cli_args =
  cli_config :: "string option"
  cli_check :: bool
  cli_command :: "cli_command option"

definition cli_effective :: "cli_args \<Rightarrow> string option \<times> bool" where
  "cli_effective args =
    (case cli_command args of
       Some (ServerCommand config check) \<Rightarrow>
         (case config of Some c \<Rightarrow> Some c | None \<Rightarrow> cli_config args, check \<or> cli_check args)
     | _ \<Rightarrow> (cli_config args, cli_check args))"

section \<open>The backend\<close>

definition select_backend :: "bool \<Rightarrow> string option \<Rightarrow> backend" where
  "select_backend linux env_override =
    (let fallback = (if linux then Iouring else Tokio) in
     case env_override of
       None \<Rightarrow> fallback
     | Some s \<Rightarrow>
         if s = ''iouring'' \<and> linux then Iouring
         else if s = ''epoll'' \<and> linux then Epoll
         else if s = ''tokio'' then Tokio
         else fallback)"

section \<open>Assembly and the commands\<close>

fun show_config_error :: "config_error \<Rightarrow> string" where
  "show_config_error (ConfigRead path e) = ''failed to read config from '' @ path @ '': '' @ e"
| "show_config_error (ConfigParse path e) = ''failed to parse config '' @ path @ '': '' @ e"

fun show_core_error :: "core_error \<Rightarrow> string" where
  "show_core_error (ConfigError e) = e"
| "show_core_error (AssemblyError e) = e"

text \<open>The world the commands act on: the file reader with its parsers, how a configuration is initialised and how a runtime serves.\<close>

record ('w, 'rt) cli_env =
  ce_read :: "string \<Rightarrow> config_error + 'w"
  ce_default :: 'w
  ce_initialize :: "'w \<Rightarrow> (core_error + 'rt) rs"
  ce_has_plans :: "'rt \<Rightarrow> bool"
  ce_serve :: "'rt \<Rightarrow> core_error + unit"

definition assemble :: "('w, 'rt) cli_env \<Rightarrow> string option \<Rightarrow> (string + 'rt) rs" where
  "assemble env config =
    (case (case config of
         Some path \<Rightarrow> map_sum show_config_error id (ce_read env path)
       | None \<Rightarrow> Inr (ce_default env)) of
       Inl e \<Rightarrow> Ret (Inl e)
     | Inr wire \<Rightarrow> rs_bind (ce_initialize env wire) (\<lambda>r. Ret (map_sum show_core_error id r)))"

text \<open>The exit code and what is printed.\<close>

type_synonym outcome = "nat \<times> string list"

definition fatal :: "string \<Rightarrow> outcome" where
  "fatal err = (1, [''runtime assembly failed: '' @ err])"

definition run_server :: "('w, 'rt) cli_env \<Rightarrow> string option \<Rightarrow> outcome rs" where
  "run_server env config =
    rs_bind (assemble env config) (\<lambda>r. Ret (case r of
       Inl e \<Rightarrow> fatal e
     | Inr rt \<Rightarrow>
         if \<not> ce_has_plans env rt then (0, [])
         else (case ce_serve env rt of Inr _ \<Rightarrow> (0, []) | Inl e \<Rightarrow> fatal (show_core_error e))))"

definition check_config :: "('w, 'rt) cli_env \<Rightarrow> string option \<Rightarrow> outcome rs" where
  "check_config env config =
    rs_bind (assemble env config) (\<lambda>r. Ret (case r of
       Inr rt \<Rightarrow> (0, [''config check passed''])
     | Inl e \<Rightarrow> (1, [''runtime assembly failed: '' @ e])))"

definition dispatch :: "string \<Rightarrow> ('w, 'rt) cli_env \<Rightarrow> cli_args \<Rightarrow> outcome rs" where
  "dispatch version env args =
    (case cli_command args of
       Some VersionCommand \<Rightarrow> Ret (0, [''omni-cli '' @ version])
     | _ \<Rightarrow> (case cli_effective args of
         (config, check) \<Rightarrow> if check then check_config env config else run_server env config))"

section \<open>The program on the model of the runtime\<close>

definition runtime_env ::
    "(string \<Rightarrow> config_error + runtime_config_wire) \<Rightarrow> (runtime_config_wire \<Rightarrow> (core_error + 're core_runtime) rs)
     \<Rightarrow> ('re core_runtime \<Rightarrow> core_error + task list) \<Rightarrow> (runtime_config_wire, 're core_runtime) cli_env" where
  "runtime_env read init start =
    \<lparr>ce_read = read, ce_default = default_wire, ce_initialize = init, ce_has_plans = (\<lambda>rt. cr_plans rt \<noteq> []),
     ce_serve = (\<lambda>rt. map_sum id (\<lambda>_. ()) (start rt))\<rparr>"

text \<open>A configuration that the check refuses is never served, with the same message; one that it accepts is not refused before the
  listeners are bound; and one that makes the check panic makes the server panic.\<close>

lemma check_decides_assembly:
  "check_config env config = Ret (1, out) \<Longrightarrow> run_server env config = Ret (1, out)"
  "check_config env config = Ret (0, out) \<longleftrightarrow> (\<exists>rt. assemble env config = Ret (Inr rt)) \<and> out = [''config check passed'']"
  "check_config env config = Panic \<longleftrightarrow> run_server env config = Panic"
  by (cases "assemble env config"; auto simp: check_config_def run_server_def fatal_def split: sum.splits)+

lemma initialize_without_nodes:
  assumes "core_initialize env wire = Ret (Inr rt)" "nodes wire = []"
  shows "cr_plans rt = []"
  using initialized_plans(1) [OF assms(1)] assms(2) by (simp add: build_node_plans_def)

text \<open>A configuration with a metrics port and no node: \<open>serve\<close> would run the metrics page, the program ends at once.\<close>

lemma metrics_without_nodes_exits:
  assumes "core_initialize env wire = Ret (Inr rt)" "nodes wire = []" "metrics_port wire = Some p" "read path = Inr wire"
  shows "run_server (runtime_env read (core_initialize env) start) (Some path) = Ret (0, [])"
    and "serve_tasks self_signed bind_t bind_u rt = Inr [MetricsPage p]"
proof -
  have plans: "cr_plans rt = []" using initialize_without_nodes [OF assms(1,2)] .
  show "run_server (runtime_env read (core_initialize env) start) (Some path) = Ret (0, [])"
    using assms(1,4) plans by (simp add: run_server_def assemble_def runtime_env_def)
  show "serve_tasks self_signed bind_t bind_u rt = Inr [MetricsPage p]"
    using plans initialized_plans(2) [OF assms(1)] assms(3)
    by (simp add: serve_tasks_def spawn_tcp_def spawn_quic_def plan_tags_def)
qed

text \<open>Without a configuration file the default one is taken, which has no nodes: the program ends with code 0.\<close>

lemma default_config_exits:
  "run_server (runtime_env read (core_initialize env) start) None = Ret (0, [])"
proof -
  have v: "validate default_wire = Inr ()" by (simp add: validate_def)
  have "\<exists>r. initialize_router (cv_regex_new env) (cv_base64 env) g default_wire = Inr r" for g
    using v by (simp add: initialize_router_def)
  then obtain r where "initialize_router (cv_regex_new env) (cv_base64 env) (registry_lookup (cv_is_match env) registry_new) default_wire = Inr r"
    by blast
  moreover have "load_geo_files re rf (extra default_wire) registry_new = Ret registry_new" for re :: "string \<Rightarrow> string + 'a" and rf
    by (simp add: load_geo_files_def try_geo_file_def get_key_def)
  ultimately obtain rt where "core_initialize env default_wire = Ret (Inr rt)"
    using v by (auto simp: core_initialize_def choose_resolver_def build_node_plans_def)
  then show ?thesis
    using initialize_without_nodes [of env default_wire rt] by (simp add: run_server_def assemble_def runtime_env_def)
qed

end
