(* ===== verification/TlsSetup.thy ===== *)
theory TlsSetup
  imports NodeBuilder HysteriaConn StreamPoll
begin

text \<open>
  The TLS and QUIC settings: \<open>omni-transport/src/tls/mod.rs\<close>, \<open>accept_tls\<close> of \<open>listener_executor.rs\<close>, the endpoints and
  stream adapters of \<open>hysteria2/inbound.rs\<close> and \<open>outbound.rs\<close>, and \<open>omni-core/src/security/acme.rs\<close>. The PEM parser, rustls,
  rcgen, quinn and instant-acme are third-party code, passed as records of functions.
\<close>

section \<open>Certificates\<close>

record cert_lib =
  cl_params :: "string \<Rightarrow> string option"
  cl_keygen :: "string + bytes"
  cl_sign :: "string \<Rightarrow> bytes \<Rightarrow> string + bytes"

text \<open>The subject's common name and the only alternative name are the domain; \<open>cl_sign\<close> gives the PEM text of the certificate.\<close>

definition generate_self_signed :: "cert_lib \<Rightarrow> string \<Rightarrow> string + server_cert_material" where
  "generate_self_signed lib domain =
    (case cl_params lib domain of
       Some e \<Rightarrow> Inl (''invalid domain '' @ [CHR 0x27] @ domain @ [CHR 0x27] @ '': '' @ e)
     | None \<Rightarrow>
    (case cl_keygen lib of
       Inl e \<Rightarrow> Inl (''key generation failed: '' @ e)
     | Inr key \<Rightarrow>
    (case cl_sign lib domain key of
       Inl e \<Rightarrow> Inl (''signing failed: '' @ e)
     | Inr cert \<Rightarrow> Inr \<lparr>cert_pem = cert, key_pem_bytes = key\<rparr>)))"

section \<open>Server and client settings\<close>

record pem_lib =
  pl_certs :: "bytes \<Rightarrow> string + bytes list"
  pl_key :: "bytes \<Rightarrow> string + bytes option"
  pl_pair :: "bytes list \<Rightarrow> bytes \<Rightarrow> string option"

record server_tls =
  sv_certs :: "bytes list"
  sv_key :: bytes
  sv_alpn :: "bytes list"

definition build_rustls_server_config :: "pem_lib \<Rightarrow> server_cert_material \<Rightarrow> string list \<Rightarrow> string + server_tls" where
  "build_rustls_server_config lib material protos =
    (case pl_certs lib (cert_pem material) of
       Inl e \<Rightarrow> Inl (''tls: failed to parse certificate PEM: '' @ e)
     | Inr certs \<Rightarrow>
         if certs = [] then Inl ''tls: no certificates found in PEM''
         else
    (case pl_key lib (key_pem_bytes material) of
       Inl e \<Rightarrow> Inl (''tls: failed to parse private key PEM: '' @ e)
     | Inr None \<Rightarrow> Inl ''tls: no private key found in PEM''
     | Inr (Some key) \<Rightarrow>
    (case pl_pair lib certs key of
       Some e \<Rightarrow> Inl (''tls: invalid certificate/key pair: '' @ e)
     | None \<Rightarrow> Inr \<lparr>sv_certs = certs, sv_key = key, sv_alpn = map as_bytes protos\<rparr>)))"

text \<open>What a client checks of a server's certificate.\<close>

datatype cert_verifier = NoVerifier | WebRoots

record client_tls_settings =
  st_skip_verify :: bool
  st_alpn :: "string list"

record client_tls =
  ct_verifier :: cert_verifier
  ct_alpn :: "bytes list"

definition build_client_config :: "client_tls_settings \<Rightarrow> string + client_tls" where
  "build_client_config settings =
    Inr \<lparr>ct_verifier = (if st_skip_verify settings then NoVerifier else WebRoots), ct_alpn = map as_bytes (st_alpn settings)\<rparr>"

definition verify_server_cert :: "(bytes list \<Rightarrow> string \<Rightarrow> bool) \<Rightarrow> cert_verifier \<Rightarrow> bytes list \<Rightarrow> string \<Rightarrow> bool" where
  "verify_server_cert webpki v certs name = (case v of NoVerifier \<Rightarrow> True | WebRoots \<Rightarrow> webpki certs name)"

text \<open>\<open>accept_tls\<close>: the settings are built for every connection; then rustls does the handshake on it.\<close>

definition accept_tls :: "pem_lib \<Rightarrow> (server_tls \<Rightarrow> io_error + unit) \<Rightarrow> tls_server_setup \<Rightarrow> io_error + server_tls" where
  "accept_tls lib rustls_accept setup =
    (case build_rustls_server_config lib \<lparr>cert_pem = material_cert setup, key_pem_bytes = material_key setup\<rparr> (setup_alpn setup) of
       Inl e \<Rightarrow> Inl (io_err e)
     | Inr cfg \<Rightarrow> map_sum id (\<lambda>_. cfg) (rustls_accept cfg))"

section \<open>QUIC endpoints\<close>

record quic_lib =
  ql_idle :: "nat \<Rightarrow> string option"
  ql_server_crypto :: "server_tls \<Rightarrow> string option"
  ql_bind :: "socket_addr \<Rightarrow> string option"
  ql_protocol_versions :: "string option"
  ql_client_crypto :: "client_tls \<Rightarrow> string option"
  ql_client_bind :: "string option"
  ql_connect :: "socket_addr \<Rightarrow> string \<Rightarrow> client_tls \<Rightarrow> string option"

record quic_server =
  qs_tls :: server_tls
  qs_listen :: socket_addr
  qs_idle_secs :: nat

definition hy_bind :: "pem_lib \<Rightarrow> quic_lib \<Rightarrow> server_cert_material \<Rightarrow> socket_addr \<Rightarrow> io_error + quic_server" where
  "hy_bind lib ql material listen =
    (case build_rustls_server_config lib material [''h3''] of
       Inl e \<Rightarrow> Inl (hy_err e)
     | Inr cfg \<Rightarrow>
    (case ql_idle ql 60 of Some e \<Rightarrow> Inl (hy_err e) | None \<Rightarrow>
    (case ql_server_crypto ql cfg of Some e \<Rightarrow> Inl (hy_err e) | None \<Rightarrow>
    (case ql_bind ql listen of Some e \<Rightarrow> Inl (hy_err e) | None \<Rightarrow>
       Inr \<lparr>qs_tls = cfg, qs_listen = listen, qs_idle_secs = 60\<rparr>))))"

record hy_client_config =
  hx_password :: string
  hx_insecure :: bool
  hx_sni :: "string option"

definition hy_client_tls :: "bool \<Rightarrow> client_tls" where
  "hy_client_tls insecure = \<lparr>ct_verifier = (if insecure then NoVerifier else WebRoots), ct_alpn = [as_bytes ''h3'']\<rparr>"

definition hy_connect ::
    "quic_lib \<Rightarrow> (string \<Rightarrow> string + bytes) \<Rightarrow> (auth_request \<Rightarrow> io_error + nat) \<Rightarrow> hy_client_config \<Rightarrow> socket_addr \<Rightarrow> io_error + client_tls" where
  "hy_connect ql header_value send_request cfg addr =
    (let tls = hy_client_tls (hx_insecure cfg);
         sni = (case hx_sni cfg of Some s \<Rightarrow> s | None \<Rightarrow> ''hysteria'') in
     case ql_protocol_versions ql of Some e \<Rightarrow> Inl (hy_err e) | None \<Rightarrow>
    (case ql_client_crypto ql tls of Some e \<Rightarrow> Inl (hy_err e) | None \<Rightarrow>
    (case ql_idle ql 30 of Some e \<Rightarrow> Inl (hy_err e) | None \<Rightarrow>
    (case ql_client_bind ql of Some e \<Rightarrow> Inl (hy_err e) | None \<Rightarrow>
    (case ql_connect ql addr sni tls of Some e \<Rightarrow> Inl (hy_err e) | None \<Rightarrow>
       map_sum id (\<lambda>_. tls) (h3_auth header_value send_request (hx_password cfg)))))))"

text \<open>The streams of a QUIC connection as streams of the program: errors are renamed, a flush does nothing and a shutdown finishes the sending side,
  whatever comes of it.\<close>

definition quinn_poll_write :: "(string \<Rightarrow> io_error) \<Rightarrow> (string + nat) StreamPoll.poll \<Rightarrow> (io_error + nat) StreamPoll.poll" where
  "quinn_poll_write wrap r =
    (case r of StreamPoll.Ready (Inr n) \<Rightarrow> StreamPoll.Ready (Inr n)
     | StreamPoll.Ready (Inl e) \<Rightarrow> StreamPoll.Ready (Inl (wrap e))
     | StreamPoll.Pending \<Rightarrow> StreamPoll.Pending)"

definition quinn_poll_read :: "(string + bytes) StreamPoll.poll \<Rightarrow> (io_error + bytes) StreamPoll.poll" where
  "quinn_poll_read r =
    (case r of StreamPoll.Ready (Inr b) \<Rightarrow> StreamPoll.Ready (Inr b)
     | StreamPoll.Ready (Inl e) \<Rightarrow> StreamPoll.Ready (Inl (hy_err e))
     | StreamPoll.Pending \<Rightarrow> StreamPoll.Pending)"

definition hysteria_stream_write :: "(string + nat) StreamPoll.poll \<Rightarrow> (io_error + nat) StreamPoll.poll" where
  "hysteria_stream_write r = quinn_poll_write io_err r"

definition quinn_stream_write :: "(string + nat) StreamPoll.poll \<Rightarrow> (io_error + nat) StreamPoll.poll" where
  "quinn_stream_write r = quinn_poll_write hy_err r"

definition quinn_poll_shutdown :: "string + unit \<Rightarrow> (io_error + unit) StreamPoll.poll" where
  "quinn_poll_shutdown finished = StreamPoll.Ready (Inr ())"

section \<open>Certificates by ACME\<close>

definition key_authorization :: "string \<Rightarrow> string \<Rightarrow> string" where
  "key_authorization token thumbprint = token @ ''.'' @ thumbprint"

definition tls_alpn_01_cert_value :: "(bytes \<Rightarrow> bytes) \<Rightarrow> string \<Rightarrow> bytes" where
  "tls_alpn_01_cert_value sha256 key_auth = sha256 (as_bytes key_auth)"

text \<open>The extension of the validation certificate: the identifier given to rcgen and the DER text of its value.\<close>

definition acme_extension :: "bytes \<Rightarrow> nat list \<times> bytes" where
  "acme_extension digest = ([0x1B, 0x21, 0x57, 0x4A, 0x47, 0x44], [0x04, 0x20] @ digest)"

definition generate_validation_cert ::
    "cert_lib \<Rightarrow> (string \<Rightarrow> bytes \<Rightarrow> nat list \<times> bytes \<Rightarrow> string + bytes) \<Rightarrow> string \<Rightarrow> bytes \<Rightarrow> io_error + bytes \<times> bytes" where
  "generate_validation_cert lib sign domain digest =
    (case cl_params lib domain of
       Some e \<Rightarrow> Inl (io_err (''acme: invalid domain: '' @ e))
     | None \<Rightarrow>
    (case cl_keygen lib of
       Inl e \<Rightarrow> Inl (io_err (''acme: keygen: '' @ e))
     | Inr key \<Rightarrow>
    (case sign domain key (acme_extension digest) of
       Inl e \<Rightarrow> Inl (io_err (''acme: sign: '' @ e))
     | Inr cert \<Rightarrow> Inr (cert, key))))"

text \<open>The authorizations of a new order, each with its \<open>tls-alpn-01\<close> token if it offers one: the first token is taken.\<close>

fun first_challenge :: "(string + string option) list \<Rightarrow> io_error + string" where
  "first_challenge [] = Inl (io_err ''acme: no tls-alpn-01 challenge offered'')"
| "first_challenge (Inl e # as) = Inl (io_err (''acme: authorization fetch failed: '' @ e))"
| "first_challenge (Inr None # as) = first_challenge as"
| "first_challenge (Inr (Some t) # as) = Inr t"

definition new_order_tls_alpn :: "string + (string + string option) list \<Rightarrow> io_error + string" where
  "new_order_tls_alpn order =
    (case order of Inl e \<Rightarrow> Inl (io_err (''acme: order create failed: '' @ e)) | Inr auths \<Rightarrow> first_challenge auths)"

definition create_account :: "(string \<Rightarrow> string \<Rightarrow> string + 'a) \<Rightarrow> string option \<Rightarrow> string \<Rightarrow> string \<Rightarrow> io_error + 'a" where
  "create_account create builder_error directory_url email =
    (case builder_error of
       Some e \<Rightarrow> Inl (io_err e)
     | None \<Rightarrow>
        (case create (''mailto:'' @ email) directory_url of
           Inl e \<Rightarrow> Inl (io_err (''acme: account create failed: '' @ e))
         | Inr a \<Rightarrow> Inr a))"

section \<open>Who is trusted\<close>

lemma client_trusts_iff:
  assumes "build_client_config settings = Inr cfg"
  shows "verify_server_cert webpki (ct_verifier cfg) certs name \<longleftrightarrow> st_skip_verify settings \<or> webpki certs name"
  using assms by (auto simp: build_client_config_def verify_server_cert_def split: if_splits)

text \<open>The protocols that both ends of a TLS connection know, in the order of the server's.\<close>

definition common_alpn :: "server_tls \<Rightarrow> client_tls \<Rightarrow> bytes list" where
  "common_alpn sv cl = filter (\<lambda>p. p \<in> set (ct_alpn cl)) (sv_alpn sv)"

text \<open>The Hysteria2 client and listener of this code agree on one protocol, and the client checks the certificate unless it is told not to.\<close>

lemma hy_ends_agree:
  assumes "hy_bind lib ql material listen = Inr sv" "hy_connect ql' header_value send_request cfg addr = Inr cl"
  shows "common_alpn (qs_tls sv) cl = [as_bytes ''h3'']"
    and "verify_server_cert webpki (ct_verifier cl) certs name \<longleftrightarrow> hx_insecure cfg \<or> webpki certs name"
proof -
  have sv: "sv_alpn (qs_tls sv) = [as_bytes ''h3'']"
    using assms(1) by (auto simp: hy_bind_def build_rustls_server_config_def split: sum.splits option.splits if_splits)
  have cl: "cl = hy_client_tls (hx_insecure cfg)"
    using assms(2) by (cases "h3_auth header_value send_request (hx_password cfg)")
      (auto simp: hy_connect_def Let_def split: option.splits)
  show "common_alpn (qs_tls sv) cl = [as_bytes ''h3'']"
    using sv cl by (simp add: common_alpn_def hy_client_tls_def)
  show "verify_server_cert webpki (ct_verifier cl) certs name \<longleftrightarrow> hx_insecure cfg \<or> webpki certs name"
    using cl by (simp add: hy_client_tls_def verify_server_cert_def)
qed

lemma first_challenge_iff:
  "first_challenge auths = Inr t \<longleftrightarrow> (\<exists>pre post. auths = pre @ Inr (Some t) # post \<and> set pre \<subseteq> {Inr None})"
proof (induction auths rule: first_challenge.induct)
  case (3 as)
  show ?case
  proof
    assume "first_challenge (Inr None # as) = Inr t"
    then obtain pre post where "as = pre @ Inr (Some t) # post" "set pre \<subseteq> {Inr None}" using 3 by auto
    then show "\<exists>pre post. Inr None # as = pre @ Inr (Some t) # post \<and> set pre \<subseteq> {Inr None}"
      by (intro exI [of _ "Inr None # pre"] exI [of _ post]) simp
  next
    assume "\<exists>pre post. Inr None # as = pre @ Inr (Some t) # post \<and> set pre \<subseteq> {Inr None}"
    then obtain pre post where "Inr None # as = pre @ Inr (Some t) # post" "set pre \<subseteq> {Inr None}" by blast
    then have "as = tl pre @ Inr (Some t) # post" "set (tl pre) \<subseteq> {Inr None}" by (cases pre; auto)+
    then show "first_challenge (Inr None # as) = Inr t" using 3 by auto
  qed
qed (auto simp: Cons_eq_append_conv)

end
