(* ===== verification/Ntp.thy ===== *)
theory Ntp
  imports Services SsCrypto
begin

text \<open>
  \<open>omni-core/src/ntp.rs\<close>: the query of a time server, up to the arithmetic on floating-point numbers that turns the four times into
  an offset, which is left out. Times on the wire are 64-bit words: seconds since 1900 in the upper half, a binary fraction in the lower.
\<close>

unbundle bit_operations_syntax

definition NTP_UNIX_OFFSET :: u64 where
  "NTP_UNIX_OFFSET = 2208988800"

text \<open>\<open>now_ntp\<close>, from the seconds and nanoseconds of the clock.\<close>

definition now_ntp :: "u64 \<Rightarrow> u32 \<Rightarrow> u64" where
  "now_ntp secs nanos =
    (let s = secs + NTP_UNIX_OFFSET; frac = push_bit 32 (ucast nanos :: u64) div 1000000000
     in push_bit 32 s OR frac)"

text \<open>The two halves as the conversions read them.\<close>

definition ntp_secs :: "u64 \<Rightarrow> nat" where
  "ntp_secs t = unat (drop_bit 32 t)"

definition ntp_frac :: "u64 \<Rightarrow> nat" where
  "ntp_frac t = unat (t AND 0xFFFFFFFF)"

definition ntp_addr :: "string \<Rightarrow> string" where
  "ntp_addr server_name =
    (let host = trim_prefix ''ntp://'' server_name in
     if parse_socket_addr host \<noteq> None then host
     else if CHR '':'' \<in> set host \<and> CHR '']'' \<notin> set host then host
     else host @ '':123'')"

definition ntp_packet :: "u64 \<Rightarrow> bytes" where
  "ntp_packet t1 = 0x23 # replicate 39 0 @ u64_be t1"

text \<open>The query: resolving, sending and the answer are the environment's; a response that is too short is an error, and the times
  of the server are the words at 32 and 40 of the response.\<close>

record ntp_env =
  ntp_resolve :: "string \<Rightarrow> io_error + socket_addr list"
  ntp_exchange :: "socket_addr \<Rightarrow> string \<Rightarrow> bytes \<Rightarrow> io_error + bytes"

definition bind_local :: "socket_addr \<Rightarrow> string" where
  "bind_local a = (case a of SocketAddr (IpV6 _) _ \<Rightarrow> ''[::]:0'' | SocketAddr (IpV4 _) _ \<Rightarrow> ''0.0.0.0:0'')"

definition ntp_query :: "ntp_env \<Rightarrow> string \<Rightarrow> u64 \<Rightarrow> io_error + bytes \<times> bytes" where
  "ntp_query env server_name t1 =
    (case ntp_resolve env (ntp_addr server_name) of
       Inl e \<Rightarrow> Inl e
     | Inr [] \<Rightarrow> Inl (IoError NotFound ''ntp: resolve failed'')
     | Inr (a # _) \<Rightarrow>
    (case ntp_exchange env a (bind_local a) (ntp_packet t1) of
       Inl e \<Rightarrow> Inl e
     | Inr resp \<Rightarrow>
         let buf = take 48 resp in
         if length buf < 48 then Inl (IoError InvalidData ''ntp: short response'')
         else Inr (take 8 (drop 32 buf), take 8 (drop 40 buf))))"

section \<open>The time on the wire\<close>

lemma unat_frac:
  fixes n :: u32
  assumes "unat n < 1000000000"
  shows "unat (push_bit 32 (ucast n :: u64) div 1000000000) = (unat n * 2 ^ 32) div 1000000000"
proof -
  have n: "unat (ucast n :: u64) = unat n" 
    unfolding unsigned_ucast_eq using assms by (intro take_bit_nat_eq_self) simp
  have "unat (push_bit 32 (ucast n :: u64)) = take_bit 64 (unat n * 2 ^ 32)"
    by (simp only: unsigned_push_bit_eq n) (simp add: push_bit_eq_mult)
  also have "\<dots> = unat n * 2 ^ 32"
    using assms by (intro take_bit_nat_eq_self) simp
  finally show ?thesis by (simp add: unat_div)
qed

lemma frac_small:
  fixes n :: u32
  assumes "unat n < 1000000000"
  shows "unat n * 2 ^ 32 div 1000000000 < 2 ^ 32"
  using assms by (simp add: div_less_iff_less_mult)

lemma upper_half: "drop_bit 32 (push_bit 32 s) = take_bit 32 s" for s :: u64
  by (rule bit_word_eqI) (auto simp: bit_simps)

lemma lower_half: "take_bit 32 (push_bit 32 s) = 0" for s :: u64
  by (rule bit_word_eqI) (auto simp: bit_simps)

text \<open>The time that is sent: the seconds since 1900 modulo \<open>2 ^ 32\<close>, and the fraction rounded down.\<close>

lemma now_ntp_halves:
  fixes secs :: u64 and nanos :: u32
  assumes "unat nanos < 1000000000"
  shows "ntp_secs (now_ntp secs nanos) = (unat secs + 2208988800) mod 2 ^ 32"
    and "ntp_frac (now_ntp secs nanos) = (unat nanos * 2 ^ 32) div 1000000000"
proof -
  define frac :: u64 where "frac = push_bit 32 (ucast nanos) div 1000000000"
  have f: "unat frac = unat nanos * 2 ^ 32 div 1000000000" "unat frac < 2 ^ 32"
    using unat_frac [OF assms] frac_small [OF assms] by (simp_all add: frac_def)
  have low: "take_bit 32 frac = frac"
    by (simp add: word_unat_eq_iff unsigned_take_bit_eq take_bit_nat_eq_self [OF f(2)])
  then have high: "drop_bit 32 frac = 0" by (metis drop_bit_take_bit diff_self_eq_0 take_bit_0)
  have t: "now_ntp secs nanos = push_bit 32 (secs + NTP_UNIX_OFFSET) OR frac"
    by (simp add: now_ntp_def Let_def frac_def)
  have "ntp_secs (now_ntp secs nanos) = unat (take_bit 32 (secs + NTP_UNIX_OFFSET))"
    by (simp add: ntp_secs_def t drop_bit_or upper_half high)
  also have "\<dots> = (unat secs + 2208988800) mod 2 ^ 32"
    by (simp add: unsigned_take_bit_eq take_bit_eq_mod unat_word_ariths NTP_UNIX_OFFSET_def mod_mod_cancel)
  finally show "ntp_secs (now_ntp secs nanos) = (unat secs + 2208988800) mod 2 ^ 32" .
  have "(0xFFFFFFFF :: u64) = mask 32" by (simp add: mask_eq_exp_minus_1)
  then have "now_ntp secs nanos AND 0xFFFFFFFF = take_bit 32 (now_ntp secs nanos)" by (simp add: take_bit_eq_mask)
  also have "\<dots> = frac" by (simp add: t take_bit_or lower_half low)
  finally show "ntp_frac (now_ntp secs nanos) = (unat nanos * 2 ^ 32) div 1000000000" using f(1) by (simp add: ntp_frac_def)
qed

text \<open>The time a query sends is the clock's exactly until the 32-bit seconds of NTP run over in 2036: the seconds read back from
  it, less the offset between the epochs, are those of the clock if and only if the clock is before second 2085978496; the fraction is right
  to one unit in the last place.\<close>

lemma ntp_time_until_2036:
  assumes "unat nanos < 1000000000"
  shows "int (ntp_secs (now_ntp secs nanos)) - 2208988800 = int (unat secs) \<longleftrightarrow> unat secs < 2085978496"
    and "ntp_frac (now_ntp secs nanos) * 1000000000 \<le> unat nanos * 2 ^ 32"
    and "unat nanos * 2 ^ 32 < (ntp_frac (now_ntp secs nanos) + 1) * 1000000000"
proof -
  let ?n = "unat secs + 2208988800"
  have "int (ntp_secs (now_ntp secs nanos)) - 2208988800 = int (unat secs) \<longleftrightarrow> ?n mod 2 ^ 32 = ?n"
    unfolding now_ntp_halves(1) [OF assms] by (simp only: of_nat_eq_iff [symmetric, where 'a = int]) (simp add: algebra_simps)
  also have "\<dots> \<longleftrightarrow> ?n < 2 ^ 32" by (metis mod_less mod_less_divisor zero_less_numeral zero_less_power)
  finally show "int (ntp_secs (now_ntp secs nanos)) - 2208988800 = int (unat secs) \<longleftrightarrow> unat secs < 2085978496" by simp
  show "ntp_frac (now_ntp secs nanos) * 1000000000 \<le> unat nanos * 2 ^ 32"
    by (simp add: now_ntp_halves(2) [OF assms])
  show "unat nanos * 2 ^ 32 < (ntp_frac (now_ntp secs nanos) + 1) * 1000000000"
    unfolding now_ntp_halves(2) [OF assms] 
    using dividend_less_div_times [of 1000000000 "unat nanos * 2 ^ 32"] by simp
qed

end
