(* ===== verification/LogFormat.thy ===== *)
theory LogFormat
  imports Prelude
begin

text \<open>
  \<open>crates/omni-log\<close>: the choice of the log format, the one-time initialisation and the line that \<open>OmniFormatter\<close> writes for an event. The time
  stamp comes from the clock; the tracing library hands the fields of an event to the visitor in their order.
\<close>

datatype log_format = OmniFormat | JsonFormat

definition parse_log_format :: "string \<Rightarrow> log_format option" where
  "parse_log_format s = (if s = ''json'' \<or> s = ''JSON'' then Some JsonFormat else Some OmniFormat)"

text \<open>\<open>init\<close> installs a subscriber the first time only.\<close>

definition log_init :: "log_format \<Rightarrow> log_format option \<Rightarrow> bool \<times> log_format option" where
  "log_init f installed = (case installed of Some g \<Rightarrow> (False, Some g) | None \<Rightarrow> (True, Some f))"

datatype log_value = LogDebug string | LogStr string | LogBool bool

record log_visitor =
  lv_message :: "string option"
  lv_fields :: "(string \<times> string) list"
  lv_fatal :: bool

definition log_quote :: "string \<Rightarrow> string" where
  "log_quote s = s"

fun log_visit :: "string \<times> log_value \<Rightarrow> log_visitor \<Rightarrow> log_visitor" where
  "log_visit (name, LogDebug v) lv =
    (if name = ''message'' then lv\<lparr>lv_message := Some v\<rparr>
     else if name = ''fatal'' then lv\<lparr>lv_fatal := (v = ''true'')\<rparr>
     else lv\<lparr>lv_fields := lv_fields lv @ [(name, v)]\<rparr>)"
| "log_visit (name, LogStr v) lv =
    (if name = ''message'' then lv\<lparr>lv_message := Some v\<rparr>
     else if name = ''fatal'' then lv\<lparr>lv_fatal := (v = ''true'')\<rparr>
     else lv\<lparr>lv_fields := lv_fields lv @ [(name, log_quote v)]\<rparr>)"
| "log_visit (name, LogBool v) lv =
    (if name = ''fatal'' then lv\<lparr>lv_fatal := v\<rparr>
     else lv\<lparr>lv_fields := lv_fields lv @ [(name, if v then ''true'' else ''false'')]\<rparr>)"

datatype log_level = LError | LWarn | LInfo | LDebug | LTrace

fun level_name :: "log_level \<Rightarrow> string" where
  "level_name LError = ''ERROR''"
| "level_name LWarn = ''WARN''"
| "level_name LInfo = ''INFO''"
| "level_name LDebug = ''DEBUG''"
| "level_name LTrace = ''TRACE''"

definition format_event :: "string \<Rightarrow> log_level \<Rightarrow> string \<Rightarrow> (string \<times> log_value) list \<Rightarrow> string" where
  "format_event time level target vals =
    (let lv = fold log_visit vals \<lparr>lv_message = None, lv_fields = [], lv_fatal = False\<rparr>;
         name = (if lv_fatal lv then ''FATAL'' else level_name level) in
     time @ '' '' @ name @ '' '' @ target @ '': '' @ (case lv_message lv of Some m \<Rightarrow> m | None \<Rightarrow> [])
     @ concat (map (\<lambda>(k, v). '' '' @ k @ ''='' @ v) (lv_fields lv)) @ [CHR 0x0A])"

section \<open>Lines and events\<close>

text \<open>An event becomes one line when no text in it has a line break: nothing is quoted.\<close>

fun value_text :: "log_value \<Rightarrow> string" where
  "value_text (LogDebug v) = v"
| "value_text (LogStr v) = v"
| "value_text (LogBool v) = (if v then ''true'' else ''false'')"

definition one_line :: "string \<Rightarrow> bool" where
  "one_line s \<longleftrightarrow> CHR 0x0A \<notin> set s"

definition visitor_plain :: "log_visitor \<Rightarrow> bool" where
  "visitor_plain lv \<longleftrightarrow> (\<forall>m. lv_message lv = Some m \<longrightarrow> one_line m) \<and> (\<forall>(k, v) \<in> set (lv_fields lv). one_line k \<and> one_line v)"

lemma visit_plain:
  assumes "visitor_plain lv" "one_line (fst x)" "one_line (value_text (snd x))"
  shows "visitor_plain (log_visit x lv)"
  using assms by (cases "(x, lv)" rule: log_visit.cases) (auto simp: visitor_plain_def log_quote_def one_line_def split: if_splits)

lemma fold_visit_plain:
  assumes "visitor_plain lv" "\<forall>x \<in> set vals. one_line (fst x) \<and> one_line (value_text (snd x))"
  shows "visitor_plain (fold log_visit vals lv)"
  using assms by (induction vals arbitrary: lv) (simp_all add: visit_plain)

lemma level_name_plain: "one_line (level_name l)"
  by (cases l) (simp_all add: one_line_def)

lemma event_is_one_line:
  assumes "\<forall>x \<in> set vals. one_line (fst x) \<and> one_line (value_text (snd x))" "one_line time" "one_line target"
  shows "\<exists>l. format_event time level target vals = l @ [CHR 0x0A] \<and> one_line l"
proof -
  let ?lv = "fold log_visit vals \<lparr>lv_message = None, lv_fields = [], lv_fatal = False\<rparr>"
  have p: "visitor_plain ?lv"
    using fold_visit_plain [OF _ assms(1), of "\<lparr>lv_message = None, lv_fields = [], lv_fatal = False\<rparr>"] by (simp add: visitor_plain_def)
  have "one_line (concat (map (\<lambda>(k, v). '' '' @ k @ ''='' @ v) (lv_fields ?lv)))"
    using p by (fastforce simp: visitor_plain_def one_line_def)
  moreover have "one_line (case lv_message ?lv of Some m \<Rightarrow> m | None \<Rightarrow> [])"
    using p by (auto simp: visitor_plain_def one_line_def split: option.splits)
  ultimately show ?thesis
    using assms(2,3) level_name_plain [of level]
    by (intro exI [of _ "time @ '' '' @ (if lv_fatal ?lv then ''FATAL'' else level_name level) @ '' '' @ target @ '': ''
        @ (case lv_message ?lv of Some m \<Rightarrow> m | None \<Rightarrow> []) @ concat (map (\<lambda>(k, v). '' '' @ k @ ''='' @ v) (lv_fields ?lv))"])
      (simp add: format_event_def Let_def one_line_def)
qed

text \<open>A value can forge further fields.\<close>

lemma field_forged:
  "format_event t LInfo g [(''user'', LogStr ''a admin=true'')] = format_event t LInfo g [(''user'', LogStr ''a''), (''admin'', LogBool True)]"
  by (simp add: format_event_def log_quote_def)

end
