(* ===== verification/Program.thy ===== *)
theory Program
  imports Runtime Outbounds
begin

text \<open>
  The program as a whole: from the configuration through \<open>CoreRuntime::initialize\<close> and \<open>serve\<close> to a connection that a listener
  accepted, and two programs of which one is the other's next hop. What the configuration means for a connection is stated on the
  configuration alone (\<open>config_route\<close> of \<open>Router\<close>).
\<close>

section \<open>What a configuration means\<close>

definition node_tag :: "nat \<Rightarrow> node_config_wire \<Rightarrow> string" where
  "node_tag i node = (if nd_tag node = [] then ''in-'' @ show_nat i else nd_tag node)"

definition configured_route ::
    "'re core_env \<Rightarrow> geo_lookup \<Rightarrow> runtime_config_wire \<Rightarrow> nat \<Rightarrow> proxy_target \<Rightarrow> string option \<Rightarrow> route_action" where
  "configured_route env g wire i target sniffed =
    config_route (cv_regex_new env) (cv_is_match env) (cv_base64 env) g wire target sniffed (node_tag i (nodes wire ! i))"

text \<open>The transport layer of a node, and a listener that runs it: without a PROXY header, under TLS if the plan has it.\<close>

fun layer_of :: "wrap_transport \<Rightarrow> layer" where
  "layer_of WrapNone = LayerBare"
| "layer_of (WrapWs s) = LayerWs s"
| "layer_of (WrapHttpUp p h) = LayerHttpUp p h"
| "layer_of (WrapGrpc s) = LayerGrpc s"
| "layer_of (WrapH2 p h) = LayerH2 p"

definition no_proxy_header :: "node_config_wire \<Rightarrow> bool" where
  "no_proxy_header node \<longleftrightarrow> \<not> nd_accept_proxy_protocol node \<and> \<not> nd_enable_proxy_protocol node"

definition listens :: "task list \<Rightarrow> node_plan \<Rightarrow> socket_addr \<Rightarrow> layer \<Rightarrow> next_stage \<Rightarrow> bool" where
  "listens ts plan a l stage \<longleftrightarrow> TcpListener plan a \<in> set ts
    \<and> (\<exists>path. handle_stream plan = Ret path \<and> \<not> pt_proxy_header path \<and> pt_tls path = np_tls plan
        \<and> pt_layer path = l \<and> pt_next path = stage)"

lemma plan_tag: "plan_of env i node = Inr p \<Longrightarrow> np_tag p = node_tag i node"
  by (auto simp: plan_of_def sum_bind_Inr_iff node_tag_def)

lemma plan_without_tls:
  assumes "plan_of env i node = Inr plan" "nd_tls node = None"
  shows "np_tls plan = None"
  using assms by (auto simp: plan_of_def sum_bind_Inr_iff tls_setup_def)

section \<open>The runtime routes as the configuration says\<close>

lemma initialized_router:
  assumes "core_initialize env wire = Ret (Inr rt)"
  obtains g where "load_geo_files (cv_regex_new env) (cv_read_file env) (extra wire) registry_new = Ret g"
    "initialize_router (cv_regex_new env) (cv_base64 env) (registry_lookup (cv_is_match env) g) wire = Inr (cr_router rt)"
proof -
  obtain d where d: "validate wire = Inr ()" "choose_resolver wire = Inr d"
    using assms by (auto simp: core_initialize_def split: sum.splits)
  obtain g where g: "load_geo_files (cv_regex_new env) (cv_read_file env) (extra wire) registry_new = Ret g"
    using assms d by (auto simp: core_initialize_def rs_bind_Ret_iff)
  then show thesis
    using assms d that [OF g] by (auto simp: core_initialize_def split: sum.splits)
qed

lemma runtime_routes:
  assumes "core_initialize env wire = Ret (Inr rt)" "plan_of benv i (nodes wire ! i) = Inr plan"
  shows "route (cv_is_match env) (ps_router (shared_for rt (np_tag plan))) target sniffed (ps_inbound_tag (shared_for rt (np_tag plan))) =
    configured_route env (geo (cr_router rt)) wire i target sniffed"
proof -
  obtain g where g: "initialize_router (cv_regex_new env) (cv_base64 env) (registry_lookup (cv_is_match env) g) wire = Inr (cr_router rt)"
    by (rule initialized_router [OF assms(1)])
  show ?thesis
    using route_config [OF g] initialize_router_Inr(3) [OF g] plan_tag [OF assms(2)]
    by (simp add: configured_route_def shared_for_def)
qed

section \<open>The listener of a node\<close>

lemma node_listener:
  assumes "core_initialize env wire = Ret (Inr rt)" "serve_tasks self_signed bind_t bind_u rt = Inr ts"
    and "i < length (nodes wire)" "listen_ip (nodes wire ! i) = Inr ip" "nd_port (nodes wire ! i) = Some p"
  obtains plan where "plan_of (cv_build env) i (nodes wire ! i) = Inr plan" "listener_for plan (SocketAddr ip p) \<in> set ts"
proof -
  have b: "build_node_plans (cv_build env) wire = Inr (cr_plans rt)" by (rule initialized_plans(1) [OF assms(1)])
  have l: "length (cr_plans rt) = length (nodes wire)"
    using b build_plans_from_Inr by (simp add: build_node_plans_def)
  have plan: "plan_of (cv_build env) i (nodes wire ! i) = Inr (cr_plans rt ! i)" by (rule built_plan [OF b assms(3)])
  have "SocketAddr ip p \<in> set (np_listen_addrs (cr_plans rt ! i))"
    using expand_listen_addrs_set [OF plan_of_Inr(1) [OF plan], of ip p] assms(4,5) by simp
  then have "listener_for (cr_plans rt ! i) (SocketAddr ip p) \<in> set ts"
    using serve_has_listener [OF assms(2)] assms(3) l by simp
  then show thesis by (rule that [OF plan])
qed

definition on_stream :: "inbound_proto \<Rightarrow> bool" where
  "on_stream proto \<longleftrightarrow> (case proto of InSocks _ \<Rightarrow> True | InTrojan _ \<Rightarrow> True | InVless _ \<Rightarrow> True | InVmess _ \<Rightarrow> True | InShadowsocks _ \<Rightarrow> True
    | _ \<Rightarrow> False)"

lemma node_listens:
  assumes "plan_of env i node = Inr plan" "no_proxy_header node" "on_stream (np_proto plan)" "listener_for plan a \<in> set ts"
  shows "\<exists>stage. listens ts plan a (layer_of (wrap_of node)) stage
    \<and> (stage = Direct (np_proto plan) \<or> stage = StreamPipelines \<or> (\<exists>k. stage = MuxPipelines k))
    \<and> (wrap_of node = WrapNone \<and> \<not> nd_mux_enabled node \<longrightarrow> stage = Direct (np_proto plan))"
proof -
  have h: "\<not> np_accept_proxy_protocol plan"
    using assms(1,2) by (auto simp: plan_of_def sum_bind_Inr_iff no_proxy_header_def)
  have p: "np_wrap plan = wrap_of node" "inbound_mux_of node = Inr (np_inbound_mux plan)"
    using assms(1) by (auto simp: plan_of_def sum_bind_Inr_iff)
  have q: "np_proto plan \<noteq> InNaive" "\<not> is_anytls (np_proto plan)" "listener_for plan a = TcpListener plan a"
    using assms(3) by (auto simp: on_stream_def is_anytls_def listener_for_def split: inbound_proto.splits)
  have m: "\<not> nd_mux_enabled node \<longrightarrow> np_inbound_mux plan = None" using p(2) by (auto simp: inbound_mux_of_def)
  obtain path where "handle_stream plan = Ret path \<and> \<not> pt_proxy_header path \<and> pt_tls path = np_tls plan \<and> pt_layer path = layer_of (wrap_of node)
      \<and> (pt_next path = Direct (np_proto plan) \<or> pt_next path = StreamPipelines \<or> (\<exists>k. pt_next path = MuxPipelines k))
      \<and> (wrap_of node = WrapNone \<and> \<not> nd_mux_enabled node \<longrightarrow> pt_next path = Direct (np_proto plan))"
    using h p q(1,2) m
    by (cases "wrap_of node") (auto simp: handle_stream_def bare_layer_def after_layers_def split: option.split)
  then show ?thesis using assms(4) q(3) by (auto simp: listens_def)
qed

section \<open>Serving a configured protocol\<close>

text \<open>The contract between a protocol and the program: a node of this protocol becomes a plan that accepts, after the head a
  client sends for a target, a connection to this target. Whatever keeps it is served as configured.\<close>

locale configured_protocol =
  fixes configured :: "build_env \<Rightarrow> node_config_wire \<Rightarrow> bool"
    and client_head :: "build_env \<Rightarrow> proxy_target \<Rightarrow> bytes"
    and expressible :: "proxy_target \<Rightarrow> bool"
  assumes plain: "plan_of benv i node = Inr plan \<Longrightarrow> configured benv node
      \<Longrightarrow> plain_inbound (np_proto plan) (client_head benv) expressible"
    and stream: "plan_of benv i node = Inr plan \<Longrightarrow> configured benv node \<Longrightarrow> on_stream (np_proto plan)"
begin

lemma served:
  assumes "core_initialize env wire = Ret (Inr rt)" "serve_tasks self_signed bind_t bind_u rt = Inr ts"
    and "i < length (nodes wire)" "configured (cv_build env) (nodes wire ! i)" "no_proxy_header (nodes wire ! i)"
    and "listen_ip (nodes wire ! i) = Inr ip" "nd_port (nodes wire ! i) = Some p"
    and "expressible target" "event_bytes (le_arrive lenv data) = data" "inspect_stream (le_arrive lenv data) = Ret (sniffed, rest)"
    and "configured_route env (geo (cr_router rt)) wire i target (or_else (so_host sniffed) (domain_of target)) = Proxy c"
    and "connect c target = Inr reply"
  obtains plan stage cnt where "plan_of (cv_build env) i (nodes wire ! i) = Inr plan"
    "listens ts plan (SocketAddr ip p) (layer_of (wrap_of (nodes wire ! i))) stage"
    "stage = Direct (np_proto plan) \<or> stage = StreamPipelines \<or> (\<exists>k. stage = MuxPipelines k)"
    "wrap_of (nodes wire ! i) = WrapNone \<and> \<not> nd_mux_enabled (nodes wire ! i) \<longrightarrow> stage = Direct (np_proto plan)"
    "serve lenv (cv_is_match env) connect (shared_for rt (np_tag plan)) (np_proto plan)
        \<lparr>inp = client_head (cv_build env) target @ data, outp = []\<rparr> =
      Some (Ret (Relayed \<lparr>te_result = Inr (), te_to_client = reply, te_remote = Some (c, target, data)\<rparr> cnt))"
    "run_proto_pipeline lenv (cv_is_match env) connect (shared_for rt (np_tag plan)) (np_proto plan)
        \<lparr>inp = client_head (cv_build env) target @ data, outp = []\<rparr> =
      Some (Ret (Relayed \<lparr>te_result = Inr (), te_to_client = reply, te_remote = Some (c, target, data)\<rparr> cnt))"
proof -
  obtain plan where plan: "plan_of (cv_build env) i (nodes wire ! i) = Inr plan" and l: "listener_for plan (SocketAddr ip p) \<in> set ts"
    using node_listener [OF assms(1-3,6,7)] .
  note pl = plain [OF plan assms(4)] and on = stream [OF plan assms(4)]
  obtain stage where stage: "listens ts plan (SocketAddr ip p) (layer_of (wrap_of (nodes wire ! i))) stage"
    "stage = Direct (np_proto plan) \<or> stage = StreamPipelines \<or> (\<exists>k. stage = MuxPipelines k)"
    "wrap_of (nodes wire ! i) = WrapNone \<and> \<not> nd_mux_enabled (nodes wire ! i) \<longrightarrow> stage = Direct (np_proto plan)"
    using node_listens [OF plan assms(5) on l] by blast
  have r: "route (cv_is_match env) (ps_router (shared_for rt (np_tag plan))) target (or_else (so_host sniffed) (domain_of target))
      (ps_inbound_tag (shared_for rt (np_tag plan))) = Proxy c"
    using runtime_routes [OF assms(1) plan] assms(11) by simp
  note s = plain_inbound.relays [where connect = connect, OF pl assms(8-10) r assms(12)]
  have e: "run_proto_pipeline lenv (cv_is_match env) connect sh (np_proto plan) \<lparr>inp = client_head (cv_build env) target @ data, outp = []\<rparr> =
      serve lenv (cv_is_match env) connect sh (np_proto plan) \<lparr>inp = client_head (cv_build env) target @ data, outp = []\<rparr>" for sh
    by (rule plain_inbound.pipeline_serves [OF pl assms(8)]) (use on in \<open>auto simp: on_stream_def\<close>)
  show thesis by (rule that [OF plan stage s]) (simp only: e s)
qed

end

lemma socks_node_proto: "plan_of benv i node = Inr plan \<Longrightarrow> nd_type node = ''socks'' \<Longrightarrow> np_proto plan = InSocks \<lparr>username = None, password = None\<rparr>"
  using plan_of_Inr(2) [of benv i node plan] by (simp add: build_proto_def)


definition lists_uuid :: "string \<Rightarrow> node_config_wire \<Rightarrow> bool" where
  "lists_uuid uuid node \<longleftrightarrow> uuid \<in> set (uuid_field node @ users_of node)"

lemma vless_node_proto:
  assumes "plan_of benv i node = Inr plan" "nd_type node = ''vless''" "lists_uuid uuid node" "parse_uuid uuid = Some u"
  shows "\<exists>us. np_proto plan = InVless us \<and> u \<in> set us"
  using vless_node_users [OF plan_of_Inr(2) [OF assms(1)] assms(2) _ assms(4)] assms(3) by (simp add: lists_uuid_def)

interpretation socks_node: configured_protocol "\<lambda>benv node. nd_type node = ''socks''"
    "\<lambda>benv t. [VER, 1, 0, VER, 0x01, 0] @ encode_addr (from_proxy_target t)" "\<lambda>t. wf_addr (from_proxy_target t)"
  by unfold_locales (auto simp: socks_node_proto socks_open_accepts [simplified] on_stream_def)


interpretation vless_node: configured_protocol
    "\<lambda>benv node. nd_type node = ''vless'' \<and> lists_uuid uuid node \<and> parse_uuid uuid = Some u"
    "\<lambda>benv t. encode_request u Vless.CMD_TCP t []" wf_target for uuid u
  by unfold_locales (auto dest!: vless_node_proto simp: parse_uuid_length on_stream_def intro!: plain_inbound.intro vless_accepts)


section \<open>Two programs\<close>

lemma dial_plain:
  assumes "ne_resolver (oe_net oe) srv p = Inr (a # as)" "ne_connect (oe_net oe) a = Completed"
  shows "dial_with_transport (oe_net oe) srv p None None (pool_for oe None) = Inr [OutTcp a]"
  using assms
  by (simp add: dial_with_transport_def pool_for_def dial_underlay_def connect_server_def resolve_server_addr_def
      dialer_resolve_def within_time_def)

lemma wf_addr_target: "wf_addr (from_proxy_target t) \<Longrightarrow> wf_target t"
  by (cases t) auto

text \<open>What a VLESS node writes on a connection on which \<open>msg\<close> arrives: its handshake's answer and what the relay writes to the client.\<close>

definition node_writes ::
    "listener_env \<Rightarrow> ('re \<Rightarrow> string \<Rightarrow> bool) \<Rightarrow> (connector \<Rightarrow> proxy_target \<Rightarrow> io_error + bytes) \<Rightarrow> 're pipeline_shared
     \<Rightarrow> inbound_proto \<Rightarrow> bytes \<Rightarrow> bytes" where
  "node_writes lenv is_match connect sh proto msg =
    (case proto of InVless us \<Rightarrow> outp (snd (vless_handshake us \<lparr>inp = msg, outp = []\<rparr>)) | _ \<Rightarrow> []) @
    (case serve lenv is_match connect sh proto \<lparr>inp = msg, outp = []\<rparr> of
       Some (Ret (Relayed te cnt)) \<Rightarrow> te_to_client te
     | _ \<Rightarrow> [])"

text \<open>What a connection through a VLESS connector reads when a peer is at the other end to which it sends its request and, behind it, the data: what
  the connector's handshake leaves unread of the peer's bytes.\<close>

definition request_of :: "out_env \<Rightarrow> connector \<Rightarrow> proxy_target \<Rightarrow> bytes" where
  "request_of oe c target =
    (case c of
       VlessConnector tag srv p uuid tls transport mux \<Rightarrow>
         outp (snd (vless_connector_tcp oe srv p uuid tls transport mux target \<lparr>inp = [], outp = []\<rparr>))
     | _ \<Rightarrow> [])"

definition through_peer ::
    "out_env \<Rightarrow> (bytes \<Rightarrow> bytes) \<Rightarrow> bytes \<Rightarrow> connector \<Rightarrow> proxy_target \<Rightarrow> io_error + bytes" where
  "through_peer oe peer data c target =
    (case c of
       VlessConnector tag srv p uuid tls transport mux \<Rightarrow>
         (case vless_connector_tcp oe srv p uuid tls transport mux target \<lparr>inp = peer (request_of oe c target @ data), outp = []\<rparr> of
            (Inl e, _) \<Rightarrow> Inl e
          | (Inr ls, s) \<Rightarrow> Inr (inp s))
     | _ \<Rightarrow> Inl (io_err ''not a VLESS connector''))"

lemma request_of_vless:
  assumes "parse_uuid uuid = Some u" "dial_with_transport (oe_net oe) srv p tls transport (pool_for oe mux) = Inr ls"
  shows "request_of oe (VlessConnector tag srv p uuid tls transport mux) target = encode_request u Vless.CMD_TCP target []"
  using assms
  by (simp add: request_of_def vless_connector_tcp_def over_layers_def vless_connect_tcp_def uuid_bytes_def read_response_def io_bind_def
      read_exact_def)

lemma node_writes_reply:
  assumes "length u = 16" "u \<in> set us" "wf_target target"
    and "serve lenv is_match connect sh (InVless us) \<lparr>inp = encode_request u Vless.CMD_TCP target [] @ data, outp = []\<rparr> =
      Some (Ret (Relayed \<lparr>te_result = r, te_to_client = reply, te_remote = remote\<rparr> cnt))"
  shows "node_writes lenv is_match connect sh (InVless us) (encode_request u Vless.CMD_TCP target [] @ data) = [0x00, 0x00] @ reply"
  using vless_node_answers [OF assms(1-3), of data] assms(4) by (simp add: node_writes_def)

lemma through_peer_vless:
  assumes "parse_uuid uuid = Some u" "dial_with_transport (oe_net oe) srv p tls transport (pool_for oe mux) = Inr ls"
    and "peer (encode_request u Vless.CMD_TCP target [] @ data) = [0x00, 0x00] @ reply"
  shows "through_peer oe peer data (VlessConnector tag srv p uuid tls transport mux) target = Inr reply"
  using vless_connector_run [OF assms(1,2), of target reply] assms(3)
  by (simp add: through_peer_def request_of_vless [OF assms(1,2)])

text \<open>Property C2: two configured programs form a chain. The first has a SOCKS node, the second a VLESS node; both listen on plain TCP, without
  a PROXY header, transport or multiplexer, the VLESS node without TLS. The configuration of the first routes the target to the connector of a VLESS
  outbound without TLS, transport or multiplexer, whose server resolves to the address of the VLESS node and whose UUID this node lists; the configuration
  of the second routes the target to any connector, the direct one included. The inspection of the first bytes does not panic.
  Then both listeners run; the connector of the first dials the address of the second's listener; the second takes the connection for the same target
  and sends every byte of the client's data to it through its own connector; neither handshake waits for the other side's data: the node answers to the request
  alone, and its answer alone completes the connector's handshake; and with the second program as the peer of the first one's connector,
  the first program's client reads exactly what the target answered to the second program.\<close>

theorem configured_chain_relays:
  assumes "core_initialize env1 wire1 = Ret (Inr rt1)" "serve_tasks self_signed1 bind_t1 bind_u1 rt1 = Inr ts1"
    and "i < length (nodes wire1)" "nd_type (nodes wire1 ! i) = ''socks''" "no_proxy_header (nodes wire1 ! i)"
    and "listen_ip (nodes wire1 ! i) = Inr ip1" "nd_port (nodes wire1 ! i) = Some p1"
    and "wrap_of (nodes wire1 ! i) = WrapNone \<and> \<not> nd_mux_enabled (nodes wire1 ! i)"
    and "core_initialize env2 wire2 = Ret (Inr rt2)" "serve_tasks self_signed2 bind_t2 bind_u2 rt2 = Inr ts2"
    and "j < length (nodes wire2)" "nd_type (nodes wire2 ! j) = ''vless''" "no_proxy_header (nodes wire2 ! j)"
    and "listen_ip (nodes wire2 ! j) = Inr ip2" "nd_port (nodes wire2 ! j) = Some p2"
    and "wrap_of (nodes wire2 ! j) = WrapNone \<and> \<not> nd_mux_enabled (nodes wire2 ! j)" "nd_tls (nodes wire2 ! j) = None"
    and "lists_uuid uuid (nodes wire2 ! j)" "parse_uuid uuid = Some u"
    and "configured_route env1 (geo (cr_router rt1)) wire1 i target (or_else (so_host sniffed1) (domain_of target)) =
      Proxy (VlessConnector tag srv p2 uuid None None None)"
    and "ne_resolver (oe_net oe) srv p2 = Inr (SocketAddr ip2 p2 # as)" "ne_connect (oe_net oe) (SocketAddr ip2 p2) = Completed"
    and "configured_route env2 (geo (cr_router rt2)) wire2 j target (or_else (so_host sniffed2) (domain_of target)) = Proxy c2"
    and "connect2 c2 target = Inr reply" "wf_addr (from_proxy_target target)"
    and "event_bytes (le_arrive lenv1 data) = data" "inspect_stream (le_arrive lenv1 data) = Ret (sniffed1, rest1)"
    and "event_bytes (le_arrive lenv2 data) = data" "inspect_stream (le_arrive lenv2 data) = Ret (sniffed2, rest2)"
  shows "\<exists>plan1 plan2 us answer cnt1 cnt2 c1. c1 = VlessConnector tag srv p2 uuid None None None
    \<and> listens ts1 plan1 (SocketAddr ip1 p1) LayerBare (Direct (np_proto plan1))
    \<and> listens ts2 plan2 (SocketAddr ip2 p2) LayerBare (Direct (np_proto plan2)) \<and> np_tls plan2 = None
    \<and> dial_with_transport (oe_net oe) srv p2 None None (pool_for oe None) = Inr [OutTcp (SocketAddr ip2 p2)]
    \<and> np_proto plan2 = InVless us
    \<and> vless_handshake us \<lparr>inp = request_of oe c1 target, outp = []\<rparr> = (Inr (VlessTcp target), \<lparr>inp = [], outp = answer\<rparr>)
    \<and> vless_connector_tcp oe srv p2 uuid None None None target \<lparr>inp = answer, outp = []\<rparr> =
      (Inr [OutTcp (SocketAddr ip2 p2)], \<lparr>inp = [], outp = request_of oe c1 target\<rparr>)
    \<and> serve lenv2 (cv_is_match env2) connect2 (shared_for rt2 (np_tag plan2)) (np_proto plan2)
        \<lparr>inp = request_of oe c1 target @ data, outp = []\<rparr> =
      Some (Ret (Relayed \<lparr>te_result = Inr (), te_to_client = reply, te_remote = Some (c2, target, data)\<rparr> cnt2))
    \<and> serve lenv1 (cv_is_match env1)
        (through_peer oe (node_writes lenv2 (cv_is_match env2) connect2 (shared_for rt2 (np_tag plan2)) (np_proto plan2)) data)
        (shared_for rt1 (np_tag plan1)) (np_proto plan1)
        \<lparr>inp = ([VER, 1, 0, VER, 0x01, 0] @ encode_addr (from_proxy_target target)) @ data, outp = []\<rparr> =
      Some (Ret (Relayed \<lparr>te_result = Inr (), te_to_client = reply, te_remote = Some (c1, target, data)\<rparr> cnt1))"
proof -
  have v: "nd_type (nodes wire2 ! j) = ''vless'' \<and> lists_uuid uuid (nodes wire2 ! j) \<and> parse_uuid uuid = Some u"
    using assms(12,18,19) by blast
  have u: "length u = 16" by (rule parse_uuid_length [OF assms(19)])
  note w = wf_addr_target [OF assms(25)] and d = dial_plain [OF assms(21,22)]
  obtain plan2 stage2 cnt2 where 2: "plan_of (cv_build env2) j (nodes wire2 ! j) = Inr plan2"
      "listens ts2 plan2 (SocketAddr ip2 p2) (layer_of (wrap_of (nodes wire2 ! j))) stage2"
      "wrap_of (nodes wire2 ! j) = WrapNone \<and> \<not> nd_mux_enabled (nodes wire2 ! j) \<longrightarrow> stage2 = Direct (np_proto plan2)"
      "serve lenv2 (cv_is_match env2) connect2 (shared_for rt2 (np_tag plan2)) (np_proto plan2)
        \<lparr>inp = encode_request u Vless.CMD_TCP target [] @ data, outp = []\<rparr> =
      Some (Ret (Relayed \<lparr>te_result = Inr (), te_to_client = reply, te_remote = Some (c2, target, data)\<rparr> cnt2))"
    by (rule vless_node.served [where connect = connect2, OF assms(9-11) v assms(13-15) w assms(28,29,23,24)])
  obtain us where us: "np_proto plan2 = InVless us" "u \<in> set us"
    using vless_node_proto [OF 2(1) assms(12,18,19)] by blast
  have tls: "np_tls plan2 = None" by (rule plan_without_tls [OF 2(1) assms(17)])
  define peer where "peer = node_writes lenv2 (cv_is_match env2) connect2 (shared_for rt2 (np_tag plan2)) (np_proto plan2)"
  have "peer (encode_request u Vless.CMD_TCP target [] @ data) = [0x00, 0x00] @ reply"
    unfolding peer_def us(1) by (rule node_writes_reply [OF u us(2) w 2(4) [unfolded us(1)]])
  note t = through_peer_vless [where tag = tag and peer = peer, OF assms(19) d this]
  obtain plan1 stage1 cnt1 where 1: "listens ts1 plan1 (SocketAddr ip1 p1) (layer_of (wrap_of (nodes wire1 ! i))) stage1"
      "wrap_of (nodes wire1 ! i) = WrapNone \<and> \<not> nd_mux_enabled (nodes wire1 ! i) \<longrightarrow> stage1 = Direct (np_proto plan1)"
      "serve lenv1 (cv_is_match env1) (through_peer oe peer data) (shared_for rt1 (np_tag plan1)) (np_proto plan1)
        \<lparr>inp = ([VER, 1, 0, VER, 0x01, 0] @ encode_addr (from_proxy_target target)) @ data, outp = []\<rparr> =
      Some (Ret (Relayed \<lparr>te_result = Inr (), te_to_client = reply,
        te_remote = Some (VlessConnector tag srv p2 uuid None None None, target, data)\<rparr> cnt1))"
    by (rule socks_node.served [where connect = "through_peer oe peer data", OF assms(1-7) assms(25-27,20) t])
  note q = request_of_vless [where tag = tag and target = target, OF assms(19) d]
  show ?thesis
    using 1 2(2-4) assms(8,16) tls d us(1) q vless_node_answers [OF u us(2) w, of "[]"]
      vless_connector_run [OF assms(19) d, of target "[]"] unfolding peer_def by (metis append_Nil2 layer_of.simps(1))
qed

section \<open>Configurations for the witnesses\<close>

definition sample_core_env :: "unit core_env" where
  "sample_core_env = \<lparr>cv_regex_new = no_regex, cv_is_match = (\<lambda>_ _. False), cv_base64 = no_b64,
    cv_read_file = (\<lambda>_. Inl ''not found''), cv_build = sample_env\<rparr>"

definition empty_geo :: geo_lookup where
  "empty_geo = registry_lookup (\<lambda>_ _. False) (registry_new :: unit geo_registry)"

lemma no_geo_files: "load_geo_files no_regex rf [] registry_new = Ret registry_new"
  by (simp add: load_geo_files_def try_geo_file_def get_key_def)

lemma sample_initializes:
  assumes "validate wire = Inr ()" "extra wire = []" "wire_dns wire = None"
    and "\<not> isl (initialize_router no_regex no_b64 empty_geo wire)" "build_node_plans sample_env wire = Inr plans"
  obtains rt where "core_initialize sample_core_env wire = Ret (Inr rt)" "cr_plans rt = plans" "geo (cr_router rt) = empty_geo"
proof -
  obtain r where r: "initialize_router no_regex no_b64 empty_geo wire = Inr r"
    using assms(4) by (cases "initialize_router no_regex no_b64 empty_geo wire") auto
  have d: "choose_resolver wire = Inr None" using assms(3) by (simp add: choose_resolver_def)
  have "\<exists>rt. core_initialize sample_core_env wire = Ret (Inr rt) \<and> cr_plans rt = plans \<and> cr_router rt = r"
    using assms(1,5) d r no_geo_files unfolding empty_geo_def by (simp add: core_initialize_def sample_core_env_def assms(2))
  then show thesis using that initialize_router_Inr(3) [OF r] by blast
qed

lemma sample_starts:
  assumes "\<forall>p \<in> set (cr_plans rt). \<not> is_hysteria (np_proto p)"
  obtains ts where "serve_tasks (\<lambda>_ _. Inl ''no key'') (\<lambda>_. None) (\<lambda>_ _. None) rt = Inr ts"
proof (cases "serve_tasks (\<lambda>_ _. Inl ''no key'') (\<lambda>_. None) (\<lambda>_ _. None) rt")
  case (Inl e)
  then show thesis using serve_tasks_Inl [OF Inl] assms by (auto simp: can_bind_def split: if_splits)
qed (rule that)






definition chain_wire1 :: runtime_config_wire where
  "chain_wire1 = default_wire\<lparr>outbounds := [vless_outbound], nodes := [plain_node ''socks'' [] []]\<rparr>"

definition chain_node :: node_config_wire where
  "chain_node = (plain_node ''vless'' [(''uuid'', JString vless_uuid)] [])\<lparr>nd_listen := Some ''0.0.0.7'', nd_port := Some 443\<rparr>"

definition direct_exit :: outbound_spec_wire where
  "direct_exit = \<lparr>ob_tag = ''direct'', outbound_type = ''direct'', ob_target = None, ob_rest = []\<rparr>"

definition chain_wire2 :: runtime_config_wire where
  "chain_wire2 = default_wire\<lparr>outbounds := [direct_exit], nodes := [chain_node]\<rparr>"

lemma chain_wire1_built: "\<exists>plans. build_node_plans sample_env chain_wire1 = Inr plans"
  by (simp add: build_node_plans_def chain_wire1_def plain_node_def plan_of_def expand_listen_addrs_def listen_ip_def
      opt_list_def build_proto_def tls_setup_def inbound_mux_of_def wrap_of_def sum_bind_def)

lemma chain_node_fields:
  "nd_type chain_node = ''vless''" "no_proxy_header chain_node" "listen_ip chain_node = Inr (IpV4 7)" "nd_port chain_node = Some 443"
  "wrap_of chain_node = WrapNone \<and> \<not> nd_mux_enabled chain_node" "nd_tls chain_node = None" "lists_uuid vless_uuid chain_node"
  by code_simp+

lemma chain_wire2_built: "\<exists>plans. build_node_plans sample_env chain_wire2 = Inr plans"
proof -
  have "\<not> isl (build_node_plans sample_env chain_wire2)" by code_simp
  then show ?thesis by (cases "build_node_plans sample_env chain_wire2") auto
qed

lemma chain_start1:
  obtains rt ts where "core_initialize sample_core_env chain_wire1 = Ret (Inr rt)" "geo (cr_router rt) = empty_geo"
    "serve_tasks (\<lambda>_ _. Inl ''no key'') (\<lambda>_. None) (\<lambda>_ _. None) rt = Inr ts"
proof -
  obtain plans where b: "build_node_plans sample_env chain_wire1 = Inr plans" using chain_wire1_built by blast
  have v: "validate chain_wire1 = Inr ()" by code_simp
  have r: "\<not> isl (initialize_router no_regex no_b64 empty_geo chain_wire1)" by code_simp
  obtain rt where rt: "core_initialize sample_core_env chain_wire1 = Ret (Inr rt)" "cr_plans rt = plans" "geo (cr_router rt) = empty_geo"
    by (rule sample_initializes [OF v _ _ r b]) (simp_all add: chain_wire1_def)
  have "\<forall>p \<in> set plans. \<not> is_hysteria (np_proto p)"
    using b by (auto simp: build_node_plans_def chain_wire1_def sum_bind_Inr_iff socks_node_proto plain_node_def)
  then show thesis using sample_starts rt that by metis
qed

lemma chain_start2:
  obtains rt ts where "core_initialize sample_core_env chain_wire2 = Ret (Inr rt)" "geo (cr_router rt) = empty_geo"
    "serve_tasks (\<lambda>_ _. Inl ''no key'') (\<lambda>_. None) (\<lambda>_ _. None) rt = Inr ts"
proof -
  obtain plans where b: "build_node_plans sample_env chain_wire2 = Inr plans" using chain_wire2_built by blast
  have v: "validate chain_wire2 = Inr ()" by code_simp
  have r: "\<not> isl (initialize_router no_regex no_b64 empty_geo chain_wire2)" by code_simp
  obtain rt where rt: "core_initialize sample_core_env chain_wire2 = Ret (Inr rt)" "cr_plans rt = plans" "geo (cr_router rt) = empty_geo"
    by (rule sample_initializes [OF v _ _ r b]) (simp_all add: chain_wire2_def)
  have "parse_uuid vless_uuid = Some (replicate 16 0xAB)"
    unfolding vless_uuid_def by (rule parse_uuid_to_string) simp
  then have "\<forall>p \<in> set plans. \<not> is_hysteria (np_proto p)"
    using b vless_node_proto [OF _ chain_node_fields(1,7)] by (fastforce simp: build_node_plans_def chain_wire2_def sum_bind_Inr_iff)
  then show thesis using sample_starts rt that by metis
qed

definition chain_connector :: connector where
  "chain_connector = VlessConnector ''up'' ''s'' 443 vless_uuid None None None"

lemma socks_node_fields:
  "nd_type (plain_node ''socks'' [] []) = ''socks''" "no_proxy_header (plain_node ''socks'' [] [])"
  "listen_ip (plain_node ''socks'' [] []) = Inr (IpV4 0)" "nd_port (plain_node ''socks'' [] []) = Some 1080"
  "wrap_of (plain_node ''socks'' [] []) = WrapNone \<and> \<not> nd_mux_enabled (plain_node ''socks'' [] [])"
  by code_simp+

theorem configured_chain_relays_witness:
  "\<exists>rt1 ts1 rt2 ts2. core_initialize sample_core_env chain_wire1 = Ret (Inr rt1)
    \<and> serve_tasks (\<lambda>_ _. Inl ''no key'') (\<lambda>_. None) (\<lambda>_ _. None) rt1 = Inr ts1
    \<and> core_initialize sample_core_env chain_wire2 = Ret (Inr rt2)
    \<and> serve_tasks (\<lambda>_ _. Inl ''no key'') (\<lambda>_. None) (\<lambda>_ _. None) rt2 = Inr ts2
    \<and> (\<exists>plan1 plan2 cnt1 cnt2.
      listens ts1 plan1 (SocketAddr (IpV4 0) 1080) LayerBare (Direct (np_proto plan1))
    \<and> listens ts2 plan2 (SocketAddr (IpV4 7) 443) LayerBare (Direct (np_proto plan2))
    \<and> serve sample_listener_env (cv_is_match sample_core_env) (\<lambda>_ _. Inr [9]) (shared_for rt2 (np_tag plan2)) (np_proto plan2)
        \<lparr>inp = request_of sample_out_env chain_connector (Domain ''a.b'' 80) @ [1, 2], outp = []\<rparr> =
      Some (Ret (Relayed \<lparr>te_result = Inr (), te_to_client = [9], te_remote = Some (DirectOutbound, Domain ''a.b'' 80, [1, 2])\<rparr> cnt2))
    \<and> serve sample_listener_env (cv_is_match sample_core_env)
        (through_peer sample_out_env (node_writes sample_listener_env (cv_is_match sample_core_env) (\<lambda>_ _. Inr [9])
          (shared_for rt2 (np_tag plan2)) (np_proto plan2)) [1, 2])
        (shared_for rt1 (np_tag plan1)) (np_proto plan1)
        \<lparr>inp = ([VER, 1, 0, VER, 0x01, 0] @ encode_addr (from_proxy_target (Domain ''a.b'' 80))) @ [1, 2], outp = []\<rparr> =
      Some (Ret (Relayed \<lparr>te_result = Inr (), te_to_client = [9], te_remote = Some (chain_connector, Domain ''a.b'' 80, [1, 2])\<rparr> cnt1)))"
proof -
  obtain rt1 ts1 where 1: "core_initialize sample_core_env chain_wire1 = Ret (Inr rt1)" "geo (cr_router rt1) = empty_geo"
      "serve_tasks (\<lambda>_ _. Inl ''no key'') (\<lambda>_. None) (\<lambda>_ _. None) rt1 = Inr ts1"
    by (rule chain_start1)
  obtain rt2 ts2 where 2: "core_initialize sample_core_env chain_wire2 = Ret (Inr rt2)" "geo (cr_router rt2) = empty_geo"
      "serve_tasks (\<lambda>_ _. Inl ''no key'') (\<lambda>_. None) (\<lambda>_ _. None) rt2 = Inr ts2"
    by (rule chain_start2)
  have n: "0 < length (nodes chain_wire1)" "nodes chain_wire1 ! 0 = plain_node ''socks'' [] []"
      "0 < length (nodes chain_wire2)" "nodes chain_wire2 ! 0 = chain_node"
    by (simp_all add: chain_wire1_def chain_wire2_def)
  note f = socks_node_fields [folded n(2)] and g = chain_node_fields [folded n(4)]
  have r1: "configured_route sample_core_env (geo (cr_router rt1)) chain_wire1 0 (Domain ''a.b'' 80)
      (or_else (so_host (unknown_outcome [1, 2])) (domain_of (Domain ''a.b'' 80))) = Proxy (VlessConnector ''up'' ''s'' 443 vless_uuid None None None)"
    unfolding 1(2) by code_simp
  have r2: "configured_route sample_core_env (geo (cr_router rt2)) chain_wire2 0 (Domain ''a.b'' 80)
      (or_else (so_host (unknown_outcome [1, 2])) (domain_of (Domain ''a.b'' 80))) = Proxy DirectOutbound"
    unfolding 2(2) by code_simp
  have w: "wf_addr (from_proxy_target (Domain ''a.b'' 80))" by code_simp
  have u: "parse_uuid vless_uuid = Some (replicate 16 0xAB)"
    unfolding vless_uuid_def by (rule parse_uuid_to_string) simp
  have a: "event_bytes (le_arrive sample_listener_env [1, 2]) = [1, 2]" by (simp add: sample_arrives)
  have d: "ne_resolver (oe_net sample_out_env) ''s'' 443 = Inr [SocketAddr (IpV4 7) 443]" "ne_connect (oe_net sample_out_env) (SocketAddr (IpV4 7) 443) = Completed"
    by (simp_all add: sample_out_env_def sample_net_def)
  note c = configured_chain_relays [where ?connect2.0 = "\<lambda>_ _. Inr [9]" and i = 0 and j = 0,
      OF 1(1,3) n(1) f 2(1,3) n(3) g u r1 d r2 _ w a sample_inspects a sample_inspects, folded chain_connector_def, OF refl]
  show ?thesis using 1(1,3) 2(1,3) c by blast
qed

end
