(* ===== verification/Spec2Isabelle.thy ===== *)
theory Spec2Isabelle
  imports SocksProto Matching Config Router Crypto Trojan Vless Hysteria2 Shadowsocks Vmess AnyTlsPeer AnyTlsLoop
    ProxyProtocol MuxPool Mieru Geo Pipeline OnlineTracker Outbounds HysteriaConn WsTransport H2Transport
    MuxSession Services Runtime Cli TlsSetup Ntp LogFormat Program
begin

text \<open>
  Verification of omni-rs, a multi-protocol proxy in Rust (\<open>src/crates\<close>, \<open>src/apps\<close>). This theory imports the development; every theory opens with
  a description of what it holds.

  \<^bold>\<open>The program.\<close> A configuration names \<^emph>\<open>nodes\<close>, on which clients are accepted, and \<^emph>\<open>outbounds\<close>, through which their connections
  leave. At the start the configuration is validated, the rules of the outbounds are compiled into a router, and every node
  becomes a plan with its addresses, transport layers and protocol; a listener runs for each address. An accepted connection passes the PROXY
  header, TLS, a transport (WebSocket, HTTP upgrade, HTTP/2, gRPC, XHTTP) and possibly a multiplexer; the protocol's handshake
  gives the target; the first bytes are inspected for a host name; the router chooses an outbound; its connector
  dials its server through the same kinds of layers and speaks its protocol; then bytes are relayed in both directions. Datagrams take a
  parallel way through pumps between channels, sockets and framed streams.

  \<^bold>\<open>Theories and the code they model.\<close>

  \<^item> Shared vocabulary. \<open>Prelude\<close>: machine integers, byte strings, \<open>Result\<close>s, panics as the value \<open>Panic\<close>, the locale \<open>byte_codec\<close>.
    \<open>IoStream\<close>: a connection as the bytes still to come and the bytes written, with \<open>read_exact\<close> and \<open>write_all\<close>. \<open>Utf8\<close>,
    \<open>IpText\<close>, \<open>Ip6Text\<close>: the parts of Rust's \<open>str\<close> and \<open>std::net\<close> that the code uses. \<open>Framing\<close> (locales \<open>frame_decoder\<close>, \<open>frame_codec\<close>): incremental
    decoders fed with pieces. \<open>BlockHash\<close> (locale \<open>block_hash\<close>): buffered hash functions. \<open>ChunkStream\<close>, \<open>StreamPoll\<close> (locale
    \<open>message_stream\<close>): encrypted and message streams under \<open>poll_read\<close>.
  \<^item> Configuration and routing. \<open>Config\<close>: \<open>omni-config/src/wire.rs\<close>, \<open>assembly/validation.rs\<close>. \<open>Matching\<close>: \<open>omni-domain/src/matching\<close>.
    \<open>Geo\<close>: \<open>omni-core/src/matching/geo.rs\<close>. \<open>Router\<close>: \<open>assembly/outbound_artifacts.rs\<close> and the rules in \<open>runtime/core.rs\<close>. \<open>NodeBuilder\<close>:
    \<open>assembly/node_builder.rs\<close> and the certificates of \<open>omni-transport/src/tls\<close>.
  \<^item> Protocols, each under \<open>omni-proto/src/proto\<close>. \<open>Socks5\<close>, \<open>SocksProto\<close>; \<open>Trojan\<close>; \<open>Vless\<close>; \<open>SsCrypto\<close>, \<open>Shadowsocks\<close>; \<open>Shake\<close>, \<open>VmessChunk\<close>,
    \<open>Vmess\<close>; \<open>Hysteria2\<close>, \<open>HysteriaConn\<close>; \<open>AnyTls\<close>, \<open>AnyTlsPeer\<close>, \<open>AnyTlsLoop\<close>; \<open>Mieru\<close>; Naive in \<open>H2Transport\<close>; \<open>Crypto\<close>: \<open>omni-proto/src/crypto.rs\<close>.
  \<^item> Transports. \<open>WsTransport\<close>, \<open>H2Transport\<close>, \<open>ProxyProtocol\<close>, \<open>TlsSetup\<close> under \<open>omni-transport/src\<close>; \<open>MuxPool\<close>, \<open>MuxSession\<close>: \<open>omni-mux/src\<close>.
  \<^item> The relay. \<open>Sniff\<close>: \<open>routing.rs\<close>, \<open>pipeline/inspector.rs\<close>. \<open>Pipeline\<close>: \<open>pipeline/executor.rs\<close>, \<open>run_tcp_route\<close>. \<open>Listener\<close>: the path of a connection
    in \<open>assembly/listener_executor.rs\<close>. \<open>UdpRelay\<close>: the datagram pumps. \<open>Connectors\<close> (locale \<open>session_pool\<close>), \<open>Outbounds\<close>: the connecting side.
  \<^item> The process. \<open>Runtime\<close>: \<open>CoreRuntime::initialize\<close> and \<open>serve\<close>. \<open>Cli\<close>: \<open>omni-cli\<close>. \<open>Services\<close>: DNS, user store, metrics, configuration files,
    datagrams over a stream. \<open>OnlineTracker\<close>, \<open>Ntp\<close>, \<open>LogFormat\<close>.
  \<^item> \<open>Program\<close> (locale \<open>configured_protocol\<close>): from a configuration through \<open>Runtime\<close> to a relayed
    connection, for one program and for two in a chain.

  \<^bold>\<open>How code becomes definitions.\<close> Structs are records, enums are datatypes, integers are words of their width where wrap-around can be seen and naturals
  where the code uses \<open>usize\<close>. A Rust string is a HOL string with one character per byte. An \<open>async fn\<close> over a stream is a function from the
  connection to a result and the connection after it; tasks that share state are step relations, with a step for what runs between two awaits (\<open>session_step\<close>, \<open>pool_step\<close>,
  \<open>task_step\<close>, \<open>yamux_step\<close>), or step functions over the events of their \<open>select!\<close> loops. \<open>unwrap\<close>, \<open>expect\<close>, indexing and
  \<open>unreachable!\<close> give \<open>Panic\<close>. Every \<open>poll_read\<close> is a function to \<open>Ready\<close> or \<open>Pending\<close>.

  \<^bold>\<open>What is shown.\<close>

  \<^item> Routing: the compiled rules decide as the rules of the configuration say, and the router does what a specification on the configuration alone
    (\<open>config_route\<close>) says, rejections included.
    Validation accepts exactly the configurations described by a specification without its control flow; a geo file that is written is
    read back, with networks of both address families.
  \<^item> Protocols: client and server agree. What one end writes the other end reads, for every split of the bytes by the network, and no byte of the
    application is lost (Shadowsocks, AnyTLS, VMess, Trojan, VLESS, Hysteria2, the segments of mieru); only clients
    with the credentials are accepted (SOCKS, Trojan, VLESS).
  \<^item> Composition: a program assembled from a configuration and started serves its SOCKS, Trojan and VLESS nodes (without the PROXY protocol) through the connector to which
    the configuration routes the connection; two such programs form a chain in which one is the peer of the other's connector; a VLESS or VMess outbound
    reaches the inbound of another instance through whatever layers it dials; the relay is transparent whatever the inspection consumed; datagrams cross the pumps in order; \<open>serve\<close> starts a
    listener for each address.
  \<^item> Invariants in every reachable state: AnyTLS sessions interrupted at every await, the session pool, whose counters only grow in this program, the counts of online users under all
    interleavings, the requests of the yamux driver.
  \<^item> Liveness and termination: the reading loop of an AnyTLS session goes on when its reader takes a message, a connector recovers from a lost session, PBKDF2 and the loops return.
  \<^item> Equivalence: MD5 and SHA-1 over buffers agree with their definition on whole messages; SHAKE in steps with SHAKE at once.
  \<^item> Faults: where the code does not do what it means to, the fault is a theorem or lemma (mieru sessions never open, the SOCKS client never
    connects, a Hysteria2 password is not compared, addresses of 64 to 255 bytes do not survive the Hysteria2 encoding, some malformed inputs panic).

  \<^bold>\<open>Interfaces.\<close> A locale states what a component promises; the model's definitions interpret it: \<open>byte_codec\<close> (SOCKS addresses),
  \<open>frame_codec\<close> (Trojan datagrams, AnyTLS frames), \<open>block_hash\<close> (MD5, both SHA-1), \<open>byte_reader\<close> (AnyTLS streams), \<open>message_stream\<close> (WebSocket,
  HTTP/2), \<open>plain_inbound\<close> and \<open>configured_protocol\<close> (SOCKS, Trojan, VLESS), \<open>session_pool\<close> (AnyTLS, Hysteria2).

  \<^bold>\<open>Parameters.\<close> Code that is not part of the repository is an argument: AES, GCM, ChaCha20, HMAC, SHA-224 and SHA-256 (records of functions; what is used
  of them is that opening undoes sealing and that lengths are right), the regular expression compiler, serde, the PEM parser, rustls, quinn, the
  yamux and smux connections, the operating system's sockets, files and clock. Each law is an assumption of the property that uses
  it, and its witness gives functions that satisfy it.

  \<^bold>\<open>Bounds and fuel.\<close> Loops are total functions, most by a measure on the bytes that are left; guards that always hold in reachable states are written
  out where the measure needs them (\<open>BlockHash\<close>, \<open>Shake\<close>). \<open>read_all\<close> takes a bound on the number of polls as fuel: more than twice the bytes written
  and the size of what arrives after them is enough, which is the hypothesis of the theorems on streams. Retries of the pooled connectors
  are the two attempts of the code. Lengths that the code casts to 16 bits or a byte appear as hypotheses or as the right-hand
  side of an equivalence.

  \<^bold>\<open>Not modelled.\<close> The derived deserialisation of the configuration. The floating-point arithmetic of \<open>ntp.rs\<close>. The
  scheduler and the capacity of channels, except where a bound is visible (\<open>MuxSession\<close>, \<open>AnyTlsLoop\<close>, \<open>AnyTlsPeer\<close>); timeouts are outcomes that the environment chooses. The
  shutdown on a signal. Socket options. Files that only declare that a feature is not yet implemented (VLESS extensions, panel, limiter, the data-plane
  workers, several assembly files), and the adapters that pass every call of one stream trait on to another.
\<close>

end
